(* ===== verification/Prelude.thy ===== *)
theory Prelude
  imports Main "HOL-Library.Word" "HOL-Library.Signed_Division"
begin

text \<open>
  The shared base of the development: names for the Go types the components use, the
  error-or-value results of Go functions that return \<open>(T, error)\<close>, truncating integer
  division of \<open>math/big\<close>, and big-endian byte strings (\<open>encoding/binary\<close> and
  \<open>big.Int.SetBytes\<close>).
\<close>

named_theorems go_simps \<open>unfolding rules for the Go library operations\<close>

subsection \<open>Go types\<close>

type_synonym byte = "8 word"
type_synonym bytes = "byte list"
type_synonym u8 = "8 word"
type_synonym u16 = "16 word"
type_synonym u32 = "32 word"
type_synonym u64 = "64 word"

subsection \<open>Results of fallible functions\<close>

text \<open>A Go function returning \<open>(T, error)\<close> yields \<open>Inl\<close> of its error or \<open>Inr\<close> of its
  value; \<open>rbind\<close> is the \<open>if err != nil { return err }\<close> idiom and \<open>ensure\<close> a guard that
  returns the given error when its condition fails.\<close>

definition rbind :: "'e + 'a \<Rightarrow> ('a \<Rightarrow> 'e + 'b) \<Rightarrow> 'e + 'b" where
  "rbind r k = (case r of Inl e \<Rightarrow> Inl e | Inr x \<Rightarrow> k x)"

definition ensure :: "bool \<Rightarrow> 'e \<Rightarrow> 'e + unit" where
  "ensure b e = (if b then Inr () else Inl e)"

lemma rbind_simps [simp]:
  "rbind (Inl e) k = Inl e"
  "rbind (Inr x) k = k x"
  by (simp_all add: rbind_def)

lemma rbind_eq_Inr [simp]: "rbind r k = Inr y \<longleftrightarrow> (\<exists>x. r = Inr x \<and> k x = Inr y)"
  by (cases r) auto

lemma rbind_eq_Inl: "rbind r k = Inl e \<longleftrightarrow> r = Inl e \<or> (\<exists>x. r = Inr x \<and> k x = Inl e)"
  by (cases r) auto

lemma rbind_assoc: "rbind (rbind r k) h = rbind r (\<lambda>x. rbind (k x) h)"
  by (cases r) auto

lemma rbind_cong [fundef_cong]:
  "r = r' \<Longrightarrow> (\<And>x. r' = Inr x \<Longrightarrow> k x = k' x) \<Longrightarrow> rbind r k = rbind r' k'"
  by (cases r') auto

lemma ensure_simps [simp]:
  "ensure True e = Inr ()"
  "ensure False e = Inl e"
  "ensure b e = Inr u \<longleftrightarrow> b"
  "ensure b e = Inl e' \<longleftrightarrow> \<not> b \<and> e = e'"
  by (auto simp: ensure_def)

definition is_ok :: "'e + 'a \<Rightarrow> bool" where
  "is_ok r \<longleftrightarrow> (case r of Inl _ \<Rightarrow> False | Inr _ \<Rightarrow> True)"

lemma is_ok_simps [simp]:
  "is_ok (Inr x)"
  "\<not> is_ok (Inl e)"
  by (simp_all add: is_ok_def)

lemma is_ok_ex: "is_ok r \<longleftrightarrow> (\<exists>x. r = Inr x)"
  by (cases r) auto

lemma is_ok_rbind: "is_ok (rbind r k) \<longleftrightarrow> (\<exists>x. r = Inr x \<and> is_ok (k x))"
  by (cases r) auto

subsection \<open>Big-endian byte strings\<close>

text \<open>\<open>be_nat\<close> is \<open>big.Int.SetBytes\<close>: the unsigned big-endian value of a byte string;
  \<open>be_bytes n v\<close> are the \<open>n\<close> low-order bytes of \<open>v\<close>, most significant first, as
  \<open>binary.BigEndian.PutUint16/32/64\<close> write them.\<close>

fun be_acc :: "nat \<Rightarrow> bytes \<Rightarrow> nat" where
  "be_acc acc [] = acc"
| "be_acc acc (b # bs) = be_acc (acc * 256 + unat b) bs"

definition be_nat :: "bytes \<Rightarrow> nat" where
  "be_nat bs = be_acc 0 bs"

fun be_bytes :: "nat \<Rightarrow> nat \<Rightarrow> bytes" where
  "be_bytes 0 v = []"
| "be_bytes (Suc n) v = be_bytes n (v div 256) @ [word_of_nat (v mod 256)]"

lemma length_be_bytes [simp]: "length (be_bytes n v) = n"
  by (induction n v rule: be_bytes.induct) auto

lemma be_acc_eq: "be_acc acc bs = acc * 256 ^ length bs + be_acc 0 bs"
proof (induction bs arbitrary: acc)
  case (Cons b bs)
  have "be_acc acc (b # bs) = (acc * 256 + unat b) * 256 ^ length bs + be_acc 0 bs"
    using Cons.IH[of "acc * 256 + unat b"] by simp
  moreover have "be_acc 0 (b # bs) = unat b * 256 ^ length bs + be_acc 0 bs"
    using Cons.IH[of "unat b"] by simp
  ultimately show ?case by (simp add: algebra_simps)
qed simp

lemma be_acc_append: "be_acc acc (xs @ ys) = be_acc (be_acc acc xs) ys"
  by (induction xs arbitrary: acc) auto

lemma be_nat_Nil [simp]: "be_nat [] = 0"
  by (simp add: be_nat_def)

lemma be_nat_Cons: "be_nat (b # bs) = unat b * 256 ^ length bs + be_nat bs"
  using be_acc_eq[of "unat b" bs] by (simp add: be_nat_def)

lemma be_nat_snoc: "be_nat (bs @ [b]) = be_nat bs * 256 + unat b"
  by (simp add: be_nat_def be_acc_append)

lemma unat_byte_lt: "unat (b :: byte) < 256"
  using unsigned_less[of b] by simp

lemma be_nat_less: "be_nat bs < 256 ^ length bs"
proof (induction bs)
  case (Cons b bs)
  have "unat b * 256 ^ length bs + be_nat bs < unat b * 256 ^ length bs + 256 ^ length bs"
    using Cons.IH by simp
  also have "\<dots> = (unat b + 1) * 256 ^ length bs" by (simp add: algebra_simps)
  also have "\<dots> \<le> 256 * 256 ^ length bs"
    using unat_byte_lt[of b] by (intro mult_le_mono1) simp
  finally show ?case by (simp add: be_nat_Cons)
qed simp

lemma be_nat_be_bytes: "be_nat (be_bytes n v) = v mod 256 ^ n"
proof (induction n arbitrary: v)
  case (Suc n)
  have u: "unat (word_of_nat (v mod 256) :: byte) = v mod 256"
    by (simp add: unat_of_nat take_bit_eq_mod)
  have "be_nat (be_bytes (Suc n) v) = (v div 256) mod 256 ^ n * 256 + v mod 256"
    by (simp only: be_bytes.simps be_nat_snoc Suc.IH u)
  also have "\<dots> = v mod (256 * 256 ^ n)"
    by (simp add: mod_mult2_eq)
  finally show ?case by simp
qed simp

lemma be_bytes_be_nat: "be_bytes (length bs) (be_nat bs) = bs"
proof (induction bs rule: rev_induct)
  case (snoc b bs)
  have "unat b < 256" by (rule unat_byte_lt)
  then show ?case using snoc.IH by (simp add: be_nat_snoc)
qed simp

lemma be_nat_inj: "length xs = length ys \<Longrightarrow> be_nat xs = be_nat ys \<Longrightarrow> xs = ys"
  by (metis be_bytes_be_nat)

lemma be_bytes_inj: "a < 256 ^ n \<Longrightarrow> b < 256 ^ n \<Longrightarrow> be_bytes n a = be_bytes n b \<Longrightarrow> a = b"
  by (metis be_nat_be_bytes mod_less)

subsection \<open>Truncating division of \<open>math/big\<close>\<close>

text \<open>\<open>big.Int.Quo\<close> and \<open>big.Int.Rem\<close> truncate towards zero: the library's \<open>sdiv\<close> and
  \<open>smod\<close>. On a nonnegative dividend and a positive divisor they agree with \<open>div\<close> and
  \<open>mod\<close>.\<close>

lemma sdiv_nonneg: "0 \<le> a \<Longrightarrow> 0 < b \<Longrightarrow> a sdiv b = a div (b :: int)"
  by (simp add: signed_divide_int_def sgn_if)

lemma smod_sdiv: "a smod b = a - (a sdiv b) * (b :: int)"
  using sdiv_mult_smod_eq[of a b] by linarith

lemma smod_nonneg: "0 \<le> a \<Longrightarrow> 0 < b \<Longrightarrow> a smod b = a mod (b :: int)"
  by (simp add: smod_sdiv sdiv_nonneg minus_div_mult_eq_mod)

lemma sdiv_neg: "a < 0 \<Longrightarrow> 0 < b \<Longrightarrow> a sdiv b = - ((- a) div (b :: int))"
  by (simp add: signed_divide_int_def sgn_if)

lemma smod_neg: "a < 0 \<Longrightarrow> 0 < b \<Longrightarrow> a smod b = - ((- a) mod (b :: int))"
  by (simp add: smod_sdiv sdiv_neg minus_div_mult_eq_mod [symmetric])

subsection \<open>Floor division by a positive integer\<close>

lemma int_div_mult_le: "0 < b \<Longrightarrow> a div b * b \<le> (a :: int)"
  using minus_mod_eq_div_mult[of a b] pos_mod_sign[of b a] by linarith

lemma int_le_div_iff: "0 < b \<Longrightarrow> k \<le> a div b \<longleftrightarrow> k * b \<le> (a :: int)"
proof
  assume b: "0 < b" and k: "k \<le> a div b"
  then have "k * b \<le> a div b * b" by (intro mult_right_mono) simp_all
  then show "k * b \<le> a" using int_div_mult_le[OF b, of a] by linarith
next
  assume b: "0 < b" and k: "k * b \<le> a"
  then show "k \<le> a div b" using zdiv_mono1[OF k b] by simp
qed

lemma int_div_less_iff: "0 < b \<Longrightarrow> a div b < k \<longleftrightarrow> (a :: int) < k * b"
  using int_le_div_iff[of b k a] by linarith

subsection \<open>Double-width operations of \<open>math/bits\<close>\<close>

text \<open>\<open>bits.Mul64\<close> returns the high and low word of the full product, \<open>bits.Add64\<close> the sum
  and its carry (for a zero carry in), \<open>bits.Div64\<close> the quotient of \<open>hi:lo\<close> by \<open>y\<close>, which
  panics (\<open>None\<close>) unless \<open>hi < y\<close>.\<close>

definition mul64 :: "u64 \<Rightarrow> u64 \<Rightarrow> u64 \<times> u64" where
  "mul64 x y = (word_of_nat (unat x * unat y div 2 ^ 64), x * y)"

definition add64 :: "u64 \<Rightarrow> u64 \<Rightarrow> u64 \<times> u64" where
  "add64 x y = (x + y, if unat x + unat y < 2 ^ 64 then 0 else 1)"

definition div64 :: "u64 \<Rightarrow> u64 \<Rightarrow> u64 \<Rightarrow> u64 option" where
  "div64 hi lo y =
     (if y \<le> hi then None else Some (word_of_nat ((unat hi * 2 ^ 64 + unat lo) div unat y)))"

lemma unat_u64_less: "unat (x :: u64) < 2 ^ 64"
  using unsigned_less[of x] by simp

lemma unat_word_of_nat_u64: "n < 2 ^ 64 \<Longrightarrow> unat (word_of_nat n :: u64) = n"
  by (simp add: unat_of_nat take_bit_eq_mod)

lemma mul64_value:
  assumes "mul64 x y = (hi, lo)"
  shows "unat hi * 2 ^ 64 + unat lo = unat x * unat y"
proof -
  have "unat x * unat y < 2 ^ 64 * 2 ^ 64"
    using unat_u64_less[of x] unat_u64_less[of y] by (intro mult_strict_mono') simp_all
  then have "unat x * unat y div 2 ^ 64 < 2 ^ 64" by (simp add: less_mult_imp_div_less)
  then have "unat hi = unat x * unat y div 2 ^ 64"
    using assms by (auto simp: mul64_def unat_word_of_nat_u64)
  moreover have "unat lo = unat x * unat y mod 2 ^ 64"
    using assms by (auto simp: mul64_def unat_word_ariths)
  ultimately show ?thesis by (simp only: div_mult_mod_eq)
qed

lemma add64_no_carry: "add64 x y = (s, 0) \<Longrightarrow> unat s = unat x + unat y"
  by (auto simp: add64_def unat_word_ariths split: if_splits)

lemma add64_carry: "snd (add64 x y) = 0 \<longleftrightarrow> unat x + unat y < 2 ^ 64"
  by (simp add: add64_def)

end
