(* ===== verification/Words.thy ===== *)
theory Words
  imports Prelude
begin

text \<open>Facts on \<open>uint64\<close> values that several components share.\<close>

text \<open>The largest \<open>uint64\<close>, \<open>^uint64(0)\<close> or \<open>math.MaxUint64\<close>.\<close>

abbreviation MaxUint64 :: u64 where
  "MaxUint64 \<equiv> - 1"

lemma unat_MaxUint64: "unat MaxUint64 = 2 ^ 64 - 1"
  by (simp add: unsigned_minus_1_eq_mask mask_eq_exp_minus_1)

subsection \<open>Powers of two in \<open>uint64\<close>\<close>

lemma unat_pow2: "d < 64 \<Longrightarrow> unat (2 ^ d :: u64) = 2 ^ d"
proof -
  assume "d < 64"
  then have "(2 :: nat) ^ d < 2 ^ 64" by (rule power_strict_increasing) simp
  then have "unat (word_of_nat (2 ^ d) :: u64) = 2 ^ d" by (rule unat_word_of_nat_u64)
  then show ?thesis by simp
qed

lemma less_pow2_iff: "d < 64 \<Longrightarrow> p < (2 ^ d :: u64) \<longleftrightarrow> unat p < 2 ^ d"
  by (simp add: word_less_nat_alt unat_pow2)

lemma pow2_le_iff: "d < 64 \<Longrightarrow> (2 ^ d :: u64) \<le> p \<longleftrightarrow> 2 ^ d \<le> unat p"
  by (simp add: word_le_nat_alt unat_pow2)

lemma unat_minus_pow2: "d < 64 \<Longrightarrow> 2 ^ d \<le> unat p \<Longrightarrow> unat (p - 2 ^ d :: u64) = unat p - 2 ^ d"
  by (simp add: unat_sub pow2_le_iff unat_pow2)

lemma unat_pow2_minus1: "d < 64 \<Longrightarrow> unat (2 ^ d - 1 :: u64) = 2 ^ d - 1"
  using unat_sub[of 1 "2 ^ d :: u64"] by (simp add: word_le_nat_alt unat_pow2)

lemmas word_pow2 = unat_pow2 less_pow2_iff pow2_le_iff unat_minus_pow2 unat_pow2_minus1
end
