(* ===== verification/PBFT.thy ===== *)
theory PBFT
  imports Words "HOL-Library.AList"
begin

text \<open>
  Byron PBFT (\<open>consensus/byron/pbft.go\<close>, \<open>consensus/byron/pbft_delegation.go\<close>): the rolling
  window of genesis issuers with its signature threshold, the delegation ledger view, and the
  resolution of the issuer a signing delegate stands for.  A Go map that is iterated is an
  association list with distinct keys, so that every iteration order is a permutation of it;
  parsing and checking a delegation certificate are arguments, and the lemmas hold for
  every parser and every verifier.
\<close>

type_synonym Blake2b224 = bytes

datatype pbft_error =
    PBFTZeroSecurityParam | PBFTBadThreshold u64 u64 | PBFTHistoryTooLong nat u64
  | PBFTInvalidState | PBFTThresholdExceeded Blake2b224 u64 u64 u64
  | PBFTMultipleIssuers Blake2b224 | PBFTNotAuthorized Blake2b224
  | PBFTKeyLength nat
  | DlgEmptyIssuers | DlgHashLength nat | DlgDuplicateIssuer Blake2b224 | DlgUnknownDelegator Blake2b224
  | DlgParse | DlgEpoch u64 u64 | DlgNotGenesisKey Blake2b224 | DlgEpochTaken Blake2b224 u64
  | DlgSlotOverflow | DlgSlotTaken Blake2b224 u64 | DlgSignature

subsection \<open>The signature window\<close>

record PBFTState =
  signatureHistory :: "Blake2b224 list"
  securityParam :: u64
  thresholdNumerator :: u64
  thresholdDenominator :: u64

definition DefaultPBFTSignatureThresholdNumerator :: u64 where
  "DefaultPBFTSignatureThresholdNumerator = 22"

definition DefaultPBFTSignatureThresholdDenominator :: u64 where
  "DefaultPBFTSignatureThresholdDenominator = 100"

text \<open>Slice lengths are below \<open>2^63\<close>, so \<open>uint64(len(s))\<close> is exact and the
  comparison with a \<open>uint64\<close> is the comparison of naturals.\<close>

definition NewPBFTStateWithThreshold ::
  "Blake2b224 list \<Rightarrow> u64 \<Rightarrow> u64 \<Rightarrow> u64 \<Rightarrow> pbft_error + PBFTState" where
  "NewPBFTStateWithThreshold history k numerator denominator =
     (if k = 0 then Inl PBFTZeroSecurityParam
      else if denominator = 0 then Inl (PBFTBadThreshold numerator denominator)
      else if unat k < length history then Inl (PBFTHistoryTooLong (length history) k)
      else Inr \<lparr>signatureHistory = history, securityParam = k, thresholdNumerator = numerator,
                thresholdDenominator = denominator\<rparr>)"

definition NewPBFTState :: "Blake2b224 list \<Rightarrow> u64 \<Rightarrow> pbft_error + PBFTState" where
  "NewPBFTState history k =
     NewPBFTStateWithThreshold history k DefaultPBFTSignatureThresholdNumerator
       DefaultPBFTSignatureThresholdDenominator"

definition NewPBFTStateFromConfig ::
  "Blake2b224 list \<Rightarrow> u64 \<Rightarrow> u64 \<Rightarrow> u64 \<Rightarrow> pbft_error + PBFTState" where
  "NewPBFTStateFromConfig history k numerator denominator =
     (if numerator = 0 \<and> denominator = 0
      then NewPBFTStateWithThreshold history k DefaultPBFTSignatureThresholdNumerator
             DefaultPBFTSignatureThresholdDenominator
      else NewPBFTStateWithThreshold history k numerator denominator)"

definition Observe :: "PBFTState \<Rightarrow> Blake2b224 \<Rightarrow> pbft_error + PBFTState" where
  "Observe s issuer =
     (if securityParam s = 0 then Inl PBFTInvalidState
      else if unat (securityParam s) < length (signatureHistory s) then Inl PBFTInvalidState
      else let history = (if unat (securityParam s) \<le> length (signatureHistory s)
                          then drop 1 (signatureHistory s) else signatureHistory s)
        in Inr \<lparr>signatureHistory = history @ [issuer], securityParam = securityParam s,
                thresholdNumerator = thresholdNumerator s,
                thresholdDenominator = thresholdDenominator s\<rparr>)"

definition pbftMaxSignatures :: "u64 \<Rightarrow> u64 \<Rightarrow> u64 \<Rightarrow> u64 option" where
  "pbftMaxSignatures k numerator denominator =
     (let (hi, lo) = mul64 k numerator in
      if denominator \<le> hi then Some MaxUint64 else div64 hi lo denominator)"

text \<open>\<open>bits.Div64\<close> panics unless its divisor exceeds the high word; here the guard excludes it, so
  the \<open>None\<close> of the model is that panic and \<open>maxSignatures_spec\<close> shows it out of reach.\<close>

definition Transition :: "PBFTState \<Rightarrow> Blake2b224 \<Rightarrow> (pbft_error + PBFTState) option" where
  "Transition s issuer =
     (case Observe s issuer of
        Inl e \<Rightarrow> Some (Inl e)
      | Inr nxt \<Rightarrow>
          let issuerCount = fold (\<lambda>h c. if h = issuer then c + 1 else c) (signatureHistory nxt) (0 :: u64) in
          Option.bind (pbftMaxSignatures (securityParam s) (thresholdNumerator s) (thresholdDenominator s))
            (\<lambda>maxSignatures.
              if maxSignatures < issuerCount
              then Some (Inl (PBFTThresholdExceeded issuer issuerCount (securityParam s) maxSignatures))
              else Some (Inr nxt)))"

subsection \<open>Key hashes and the active issuer\<close>

text \<open>The CBOR encoding of a 64-byte string is its two-byte head and the bytes.\<close>

definition PBFTVerificationKeyHash ::
  "(bytes \<Rightarrow> bytes) \<Rightarrow> (bytes \<Rightarrow> bytes) \<Rightarrow> bytes \<Rightarrow> pbft_error + Blake2b224" where
  "PBFTVerificationKeyHash sha3_256 blake2b224 vk =
     (if length vk \<noteq> 64 then Inl (PBFTKeyLength (length vk))
      else Inr (blake2b224 (sha3_256 ([0x58, 0x40] @ vk))))"

fun resolveLoop ::
  "Blake2b224 \<Rightarrow> Blake2b224 option \<Rightarrow> (Blake2b224 \<times> Blake2b224) list \<Rightarrow> pbft_error + Blake2b224 option" where
  "resolveLoop delegate found [] = Inr found"
| "resolveLoop delegate found ((issuer, activeDelegate) # ds) =
     (if activeDelegate \<noteq> delegate then resolveLoop delegate found ds
      else if found \<noteq> None \<and> found \<noteq> Some issuer then Inl (PBFTMultipleIssuers delegate)
      else resolveLoop delegate (Some issuer) ds)"

definition resolveActivePBFTIssuer ::
  "(Blake2b224 \<times> Blake2b224) list \<Rightarrow> Blake2b224 \<Rightarrow> pbft_error + Blake2b224" where
  "resolveActivePBFTIssuer activeDelegations delegate =
     rbind (resolveLoop delegate None activeDelegations) (\<lambda>found.
       case found of None \<Rightarrow> Inl (PBFTNotAuthorized delegate) | Some issuer \<Rightarrow> Inr issuer)"

subsection \<open>The delegation state\<close>

record pbftScheduledDelegation =
  activationSlot :: u64
  sd_delegator :: Blake2b224
  sd_delegate :: Blake2b224

record PBFTDelegationState =
  activeDelegations :: "(Blake2b224 \<times> Blake2b224) list"
  delegationSlots :: "(Blake2b224 \<times> u64) list"
  scheduledDelegations :: "pbftScheduledDelegation list"
  keyEpochDelegations :: "(u64 \<times> Blake2b224) list"
  allowedDelegators :: "Blake2b224 list"
  dlg_protocolMagic :: u32
  dlg_securityParam :: u64

record DelegationCertificate =
  cert_Epoch :: u64
  cert_EpochCbor :: bytes
  cert_IssuerVK :: bytes
  cert_DelegateVK :: bytes
  cert_Signature :: bytes

definition delegateIsActiveForOther :: "PBFTDelegationState \<Rightarrow> Blake2b224 \<Rightarrow> Blake2b224 \<Rightarrow> bool" where
  "delegateIsActiveForOther s delegator delegate \<longleftrightarrow>
     (\<exists>(d, a) \<in> set (activeDelegations s). d \<noteq> delegator \<and> a = delegate)"

definition activate :: "PBFTDelegationState \<Rightarrow> pbftScheduledDelegation \<Rightarrow> PBFTDelegationState" where
  "activate s delegation =
     (let previousSlot = (case map_of (delegationSlots s) (sd_delegator delegation) of None \<Rightarrow> 0 | Some v \<Rightarrow> v) in
      if delegateIsActiveForOther s (sd_delegator delegation) (sd_delegate delegation) \<or>
         (activationSlot delegation \<noteq> 0 \<and> activationSlot delegation \<le> previousSlot)
      then s
      else s\<lparr>activeDelegations := AList.update (sd_delegator delegation) (sd_delegate delegation) (activeDelegations s),
             delegationSlots := AList.update (sd_delegator delegation) (activationSlot delegation) (delegationSlots s)\<rparr>)"

text \<open>The configuration a delegation state is built from.\<close>

record ByronDelegationConfig =
  cfg_ProtocolMagic :: u32
  cfg_SecurityParam :: u64
  cfg_GenesisKeyHashes :: "bytes list"
  cfg_GenesisDelegations :: "(Blake2b224 \<times> Blake2b224) list"
  cfg_GenesisDelegationEpochs :: "(Blake2b224 \<times> u64) list"

fun genesisIssuers :: "bytes list \<Rightarrow> PBFTDelegationState \<Rightarrow> pbft_error + PBFTDelegationState" where
  "genesisIssuers [] s = Inr s"
| "genesisIssuers (hash # hs) s =
     (if length hash \<noteq> 28 then Inl (DlgHashLength (length hash))
      else if hash \<in> set (allowedDelegators s) then Inl (DlgDuplicateIssuer hash)
      else genesisIssuers hs
        (s\<lparr>allowedDelegators := hash # allowedDelegators s,
           activeDelegations := AList.update hash hash (activeDelegations s),
           delegationSlots := AList.update hash 0 (delegationSlots s)\<rparr>))"

definition genesisDelegate ::
  "ByronDelegationConfig \<Rightarrow> bytes \<Rightarrow> PBFTDelegationState \<Rightarrow> PBFTDelegationState" where
  "genesisDelegate config delegator s =
     (case map_of (cfg_GenesisDelegations config) delegator of
        None \<Rightarrow> s
      | Some delegate \<Rightarrow>
          let omega = map_of (cfg_GenesisDelegationEpochs config) delegator;
              s1 = (if delegate \<noteq> delegator \<or> omega \<noteq> None
                    then s\<lparr>keyEpochDelegations := List.insert (case omega of None \<Rightarrow> 0 | Some e \<Rightarrow> e, delegator)
                             (keyEpochDelegations s)\<rparr>
                    else s)
          in activate s1 \<lparr>activationSlot = 0, sd_delegator = delegator, sd_delegate = delegate\<rparr>)"

definition NewPBFTDelegationState :: "ByronDelegationConfig \<Rightarrow> pbft_error + PBFTDelegationState" where
  "NewPBFTDelegationState config =
     (if cfg_SecurityParam config = 0 then Inl PBFTZeroSecurityParam
      else if cfg_GenesisKeyHashes config = [] then Inl DlgEmptyIssuers
      else rbind (genesisIssuers (cfg_GenesisKeyHashes config)
          \<lparr>activeDelegations = [], delegationSlots = [], scheduledDelegations = [], keyEpochDelegations = [],
           allowedDelegators = [], dlg_protocolMagic = cfg_ProtocolMagic config,
           dlg_securityParam = cfg_SecurityParam config\<rparr>) (\<lambda>s.
        case find (\<lambda>d. d \<notin> set (allowedDelegators s)) (map fst (cfg_GenesisDelegations config)) of
          Some d \<Rightarrow> Inl (DlgUnknownDelegator d)
        | None \<Rightarrow> Inr (fold (genesisDelegate config) (cfg_GenesisKeyHashes config) s)))"

definition Tick :: "PBFTDelegationState \<Rightarrow> u64 \<Rightarrow> u64 \<Rightarrow> PBFTDelegationState" where
  "Tick s currentEpoch currentSlot =
     (let next = fold (\<lambda>d n. if activationSlot d \<le> currentSlot then activate n d else n) (scheduledDelegations s) s
      in next\<lparr>scheduledDelegations := filter (\<lambda>d. currentSlot < activationSlot d) (scheduledDelegations next),
              keyEpochDelegations := filter (\<lambda>(e, _). \<not> e < currentEpoch) (keyEpochDelegations next)\<rparr>)"

record pbft_env =
  env_parse :: "bytes \<Rightarrow> DelegationCertificate option"
  env_verify :: "u32 \<Rightarrow> DelegationCertificate \<Rightarrow> bool"
  env_sha3_256 :: "bytes \<Rightarrow> bytes"
  env_blake2b224 :: "bytes \<Rightarrow> bytes"

definition scheduleCertificate ::
  "pbft_env \<Rightarrow> u64 \<Rightarrow> u64 \<Rightarrow> bytes \<Rightarrow> PBFTDelegationState \<Rightarrow> pbft_error + PBFTDelegationState" where
  "scheduleCertificate env currentEpoch currentSlot raw s =
     (case env_parse env raw of
        None \<Rightarrow> Inl DlgParse
      | Some certificate \<Rightarrow>
          let delegationEpoch = cert_Epoch certificate in
          if delegationEpoch < currentEpoch \<or> 1 < delegationEpoch - currentEpoch
          then Inl (DlgEpoch delegationEpoch currentEpoch)
          else rbind (PBFTVerificationKeyHash (env_sha3_256 env) (env_blake2b224 env) (cert_IssuerVK certificate)) (\<lambda>delegator.
            if delegator \<notin> set (allowedDelegators s) then Inl (DlgNotGenesisKey delegator)
            else if (delegationEpoch, delegator) \<in> set (keyEpochDelegations s)
            then Inl (DlgEpochTaken delegator delegationEpoch)
            else if MaxUint64 div 2 < dlg_securityParam s \<or> MaxUint64 - 2 * dlg_securityParam s < currentSlot
            then Inl DlgSlotOverflow
            else let slot = currentSlot + 2 * dlg_securityParam s in
              if \<exists>d \<in> set (scheduledDelegations s). sd_delegator d = delegator \<and> activationSlot d = slot
              then Inl (DlgSlotTaken delegator currentSlot)
              else if \<not> env_verify env (dlg_protocolMagic s) certificate then Inl DlgSignature
              else rbind (PBFTVerificationKeyHash (env_sha3_256 env) (env_blake2b224 env) (cert_DelegateVK certificate)) (\<lambda>delegate.
                Inr (s\<lparr>scheduledDelegations := scheduledDelegations s @
                         [\<lparr>activationSlot = slot, sd_delegator = delegator, sd_delegate = delegate\<rparr>],
                       keyEpochDelegations := (delegationEpoch, delegator) # keyEpochDelegations s\<rparr>))))"

fun scheduleAll ::
  "pbft_env \<Rightarrow> u64 \<Rightarrow> u64 \<Rightarrow> bytes list \<Rightarrow> PBFTDelegationState \<Rightarrow> pbft_error + PBFTDelegationState" where
  "scheduleAll env currentEpoch currentSlot [] s = Inr s"
| "scheduleAll env currentEpoch currentSlot (raw # payload) s =
     rbind (scheduleCertificate env currentEpoch currentSlot raw s)
       (scheduleAll env currentEpoch currentSlot payload)"

definition ApplyPayloadCbor ::
  "pbft_env \<Rightarrow> u64 \<Rightarrow> u64 \<Rightarrow> bytes list \<Rightarrow> PBFTDelegationState \<Rightarrow> pbft_error + PBFTDelegationState" where
  "ApplyPayloadCbor env currentEpoch currentSlot payload s =
     rbind (scheduleAll env currentEpoch currentSlot payload s)
       (\<lambda>next. Inr (Tick next currentEpoch currentSlot))"

subsection \<open>The threshold\<close>

lemma maxSignatures_spec:
  "\<exists>m. pbftMaxSignatures k n d = Some m \<and>
     (d \<noteq> 0 \<longrightarrow> unat m = min (2 ^ 64 - 1) (unat k * unat n div unat d))"
proof (cases "mul64 k n")
  case (Pair hi lo)
  have v: "unat hi * 2 ^ 64 + unat lo = unat k * unat n" by (rule mul64_value[OF Pair])
  show ?thesis
  proof (cases "d \<le> hi")
    case True
    have "2 ^ 64 \<le> unat k * unat n div unat d" if "d \<noteq> 0"
    proof -
      have "2 ^ 64 * unat d \<le> unat k * unat n"
        using True unfolding v[symmetric] word_le_nat_alt by (simp add: trans_le_add1)
      moreover have "0 < unat d" using that by (simp add: unat_gt_0)
      ultimately show ?thesis by (simp add: less_eq_div_iff_mult_less_eq)
    qed
    then show ?thesis using True Pair by (auto simp: pbftMaxSignatures_def unat_MaxUint64)
  next
    case False
    then have d: "unat hi < unat d" by (simp add: word_le_nat_alt)
    have "unat k * unat n < 2 ^ 64 * unat d"
    proof -
      have "unat hi * 2 ^ 64 + unat lo < (unat hi + 1) * 2 ^ 64" using unat_u64_less[of lo] by simp
      also have "\<dots> \<le> unat d * 2 ^ 64" using d by (intro mult_right_mono) auto
      finally show ?thesis unfolding v by (simp add: mult.commute)
    qed
    then have "unat k * unat n div unat d < 2 ^ 64" using d by (simp add: div_less_iff_less_mult)
    then show ?thesis using False Pair v by (simp add: pbftMaxSignatures_def div64_def unat_word_of_nat_u64)
  qed
qed

definition pbft_quota :: "PBFTState \<Rightarrow> nat" where
  "pbft_quota s = min (2 ^ 64 - 1)
     (unat (securityParam s) * unat (thresholdNumerator s) div unat (thresholdDenominator s))"

definition pbft_valid :: "PBFTState \<Rightarrow> bool" where
  "pbft_valid s \<longleftrightarrow> securityParam s \<noteq> 0 \<and> thresholdDenominator s \<noteq> 0 \<and>
     length (signatureHistory s) \<le> unat (securityParam s)"

definition last_n :: "nat \<Rightarrow> 'a list \<Rightarrow> 'a list" where
  "last_n k xs = drop (length xs - k) xs"

lemma new_state_valid:
  "NewPBFTStateWithThreshold h k n d = Inr s \<Longrightarrow> pbft_valid s \<and> signatureHistory s = h"
  by (auto simp: NewPBFTStateWithThreshold_def pbft_valid_def split: if_splits)

definition pbft_push :: "PBFTState \<Rightarrow> Blake2b224 \<Rightarrow> PBFTState" where
  "pbft_push s issuer = s\<lparr>signatureHistory := last_n (unat (securityParam s)) (signatureHistory s @ [issuer])\<rparr>"

lemma Observe_eq:
  assumes "pbft_valid s"
  shows "Observe s issuer = Inr (pbft_push s issuer)"
proof -
  have "0 < unat (securityParam s)" using assms by (simp add: pbft_valid_def unat_gt_0)
  then have "Suc 0 - unat (securityParam s) = 0" by simp
  then show ?thesis using assms
    by (auto simp: Observe_def pbft_valid_def pbft_push_def last_n_def Let_def Suc_diff_le
        intro!: PBFTState.equality)
qed

lemma pbft_push_valid: "pbft_valid s \<Longrightarrow> pbft_valid (pbft_push s issuer)"
  by (auto simp: pbft_valid_def pbft_push_def last_n_def)

lemma fold_count:
  "fold (\<lambda>h c. if h = x then c + 1 else c) hs (w :: u64) = w + word_of_nat (count_list hs x)"
  by (induction hs arbitrary: w) (auto simp: add_ac)

lemma Transition_eq:
  assumes "pbft_valid s"
  shows "\<exists>m. unat m = pbft_quota s \<and> Transition s issuer = Some
    (if count_list (signatureHistory (pbft_push s issuer)) issuer \<le> pbft_quota s
     then Inr (pbft_push s issuer)
     else Inl (PBFTThresholdExceeded issuer
       (word_of_nat (count_list (signatureHistory (pbft_push s issuer)) issuer)) (securityParam s) m))"
proof -
  let ?h = "signatureHistory (pbft_push s issuer)"
  obtain m where m: "pbftMaxSignatures (securityParam s) (thresholdNumerator s) (thresholdDenominator s) = Some m"
      "unat m = pbft_quota s"
    using maxSignatures_spec[of "securityParam s" "thresholdNumerator s" "thresholdDenominator s"] assms
    by (auto simp: pbft_valid_def pbft_quota_def)
  have "count_list ?h issuer \<le> unat (securityParam s)"
    using pbft_push_valid[OF assms, of issuer] count_le_length[of ?h issuer]
    by (auto simp: pbft_valid_def pbft_push_def)
  also have "\<dots> < 2 ^ 64" by (rule unat_u64_less)
  finally have "unat (word_of_nat (count_list ?h issuer) :: u64) = count_list ?h issuer"
    by (rule unat_word_of_nat_u64)
  then show ?thesis
    using m by (auto simp: Transition_def Observe_eq[OF assms] fold_count Let_def word_less_nat_alt)
qed

text \<open>A run of transitions; \<open>None\<close> is a panic, \<open>Some (Inl e)\<close> a rejected header.\<close>

fun pbft_run :: "PBFTState \<Rightarrow> Blake2b224 list \<Rightarrow> (pbft_error + PBFTState) option" where
  "pbft_run s [] = Some (Inr s)"
| "pbft_run s (i # is) =
     (case Transition s i of None \<Rightarrow> None | Some (Inl e) \<Rightarrow> Some (Inl e) | Some (Inr s') \<Rightarrow> pbft_run s' is)"

definition pbft_within :: "PBFTState \<Rightarrow> bool" where
  "pbft_within s \<longleftrightarrow> (\<forall>i. count_list (signatureHistory s) i \<le> pbft_quota s)"

lemma count_list_drop_le: "count_list (drop n xs) x \<le> count_list xs x"
  by (induction xs arbitrary: n) (auto simp: drop_Cons' le_SucI)

lemma pbft_push_within:
  assumes "pbft_within s" "count_list (signatureHistory (pbft_push s i)) i \<le> pbft_quota s"
  shows "pbft_within (pbft_push s i)"
proof -
  have "count_list (signatureHistory (pbft_push s i)) j \<le> pbft_quota s" for j
  proof (cases "j = i")
    case False
    then have "count_list (signatureHistory s @ [i]) j = count_list (signatureHistory s) j" by simp
    moreover have "count_list (signatureHistory (pbft_push s i)) j \<le> count_list (signatureHistory s @ [i]) j"
      by (simp add: pbft_push_def last_n_def count_list_drop_le del: count_list_append drop_append)
    ultimately show ?thesis using assms(1) by (metis order_trans pbft_within_def)
  qed (use assms in simp)
  then show ?thesis by (simp add: pbft_within_def pbft_quota_def pbft_push_def)
qed

lemma last_n_push: "last_n k (last_n k xs @ ys) = last_n k (xs @ ys)"
  by (cases "length xs \<le> k") (auto simp: last_n_def add.commute)

lemma pbft_run_ok:
  assumes "pbft_valid s" "pbft_run s is = Some (Inr s')"
  shows "signatureHistory s' = last_n (unat (securityParam s)) (signatureHistory s @ is)
    \<and> pbft_valid s' \<and> securityParam s' = securityParam s \<and> pbft_quota s' = pbft_quota s \<and>
    (pbft_within s \<longrightarrow> pbft_within s')"
  using assms
proof (induction "is" arbitrary: s)
  case Nil
  then show ?case by (auto simp: last_n_def pbft_valid_def)
next
  case (Cons i "is")
  obtain m where t: "Transition s i = Some
      (if count_list (signatureHistory (pbft_push s i)) i \<le> pbft_quota s then Inr (pbft_push s i)
       else Inl (PBFTThresholdExceeded i
         (word_of_nat (count_list (signatureHistory (pbft_push s i)) i)) (securityParam s) m))"
    using Transition_eq[OF Cons.prems(1)] by blast
  then have c: "count_list (signatureHistory (pbft_push s i)) i \<le> pbft_quota s"
      and r: "pbft_run (pbft_push s i) is = Some (Inr s')"
    using Cons.prems(2) by (auto split: if_splits)
  have f: "securityParam (pbft_push s i) = securityParam s" "pbft_quota (pbft_push s i) = pbft_quota s"
      "signatureHistory (pbft_push s i) = last_n (unat (securityParam s)) (signatureHistory s @ [i])"
    by (simp_all add: pbft_push_def pbft_quota_def)
  from Cons.IH[OF pbft_push_valid[OF Cons.prems(1)] r] pbft_push_within[OF _ c] show ?case
    by (simp add: f last_n_push)
qed

lemma pbft_run_panics: "pbft_valid s \<Longrightarrow> pbft_run s is \<noteq> None"
proof (induction "is" arbitrary: s)
  case (Cons i "is")
  then show ?case using Transition_eq[OF Cons.prems, of i] pbft_push_valid[OF Cons.prems, of i]
    by (auto split: if_splits)
qed simp

subsection \<open>The delegation view\<close>

definition active_inj :: "(Blake2b224 \<times> Blake2b224) list \<Rightarrow> bool" where
  "active_inj al \<longleftrightarrow> distinct (map fst al) \<and>
     (\<forall>a b d. map_of al a = Some d \<and> map_of al b = Some d \<longrightarrow> a = b)"

definition dlg_inv :: "Blake2b224 list \<Rightarrow> PBFTDelegationState \<Rightarrow> bool" where
  "dlg_inv gs s \<longleftrightarrow> active_inj (activeDelegations s) \<and>
     fst ` set (activeDelegations s) = set gs \<and> set (allowedDelegators s) = set gs \<and>
     (\<forall>d \<in> set (scheduledDelegations s). sd_delegator d \<in> set gs)"

lemma dlg_inv_keyEpoch [simp]: "dlg_inv gs (s\<lparr>keyEpochDelegations := x\<rparr>) = dlg_inv gs s"
  by (simp add: dlg_inv_def)

lemma activeForOther_iff:
  "distinct (map fst (activeDelegations s)) \<Longrightarrow>
   delegateIsActiveForOther s a d \<longleftrightarrow> (\<exists>b. b \<noteq> a \<and> map_of (activeDelegations s) b = Some d)"
  by (auto simp: delegateIsActiveForOther_def)

lemma activate_fields [simp]:
  "scheduledDelegations (activate s d) = scheduledDelegations s"
  "keyEpochDelegations (activate s d) = keyEpochDelegations s"
  "allowedDelegators (activate s d) = allowedDelegators s"
  "dlg_securityParam (activate s d) = dlg_securityParam s"
  by (simp_all add: activate_def Let_def)

lemma activate_inv:
  assumes "dlg_inv gs s" "sd_delegator d \<in> set gs"
  shows "dlg_inv gs (activate s d)"
proof -
  have inj: "active_inj (activeDelegations s)" and ks: "fst ` set (activeDelegations s) = set gs"
    using assms by (simp_all add: dlg_inv_def)
  let ?al = "AList.update (sd_delegator d) (sd_delegate d) (activeDelegations s)"
  have "active_inj ?al" if "\<not> delegateIsActiveForOther s (sd_delegator d) (sd_delegate d)"
    using inj that activeForOther_iff[of s]
    by (auto simp: active_inj_def AList.distinct_update AList.update_conv' split: if_splits)
  moreover have "fst ` set ?al = set gs" using ks assms(2) by (auto simp: AList.dom_update)
  ultimately show ?thesis using assms by (auto simp: activate_def dlg_inv_def Let_def)
qed

lemma fold_activate:
  assumes "dlg_inv gs s" "\<forall>d \<in> set ds. sd_delegator d \<in> set gs"
  shows "dlg_inv gs (fold (\<lambda>d n. if activationSlot d \<le> t then activate n d else n) ds s)"
  using assms by (induction ds arbitrary: s) (auto intro: activate_inv)

lemma fold_activate_scheduled [simp]:
  "scheduledDelegations (fold (\<lambda>d n. if activationSlot d \<le> t then activate n d else n) ds s) = scheduledDelegations s"
  "keyEpochDelegations (fold (\<lambda>d n. if activationSlot d \<le> t then activate n d else n) ds s) = keyEpochDelegations s"
  by (induction ds arbitrary: s) auto

lemma Tick_inv: "dlg_inv gs s \<Longrightarrow> dlg_inv gs (Tick s e t)"
  using fold_activate[of gs s "scheduledDelegations s" t] by (auto simp: Tick_def dlg_inv_def Let_def)

lemma schedule_ok:
  assumes "scheduleCertificate env e t raw s = Inr s'"
  obtains cert delegator delegate where "env_parse env raw = Some cert" "env_verify env (dlg_protocolMagic s) cert"
    "\<not> cert_Epoch cert < e" "\<not> 1 < cert_Epoch cert - e"
    "PBFTVerificationKeyHash (env_sha3_256 env) (env_blake2b224 env) (cert_IssuerVK cert) = Inr delegator"
    "PBFTVerificationKeyHash (env_sha3_256 env) (env_blake2b224 env) (cert_DelegateVK cert) = Inr delegate"
    "delegator \<in> set (allowedDelegators s)" "(cert_Epoch cert, delegator) \<notin> set (keyEpochDelegations s)"
    "\<not> MaxUint64 div 2 < dlg_securityParam s" "\<not> MaxUint64 - 2 * dlg_securityParam s < t"
    "\<not> (\<exists>d \<in> set (scheduledDelegations s). sd_delegator d = delegator \<and> activationSlot d = t + 2 * dlg_securityParam s)"
    "s' = s\<lparr>scheduledDelegations := scheduledDelegations s @
         [\<lparr>activationSlot = t + 2 * dlg_securityParam s, sd_delegator = delegator, sd_delegate = delegate\<rparr>],
       keyEpochDelegations := (cert_Epoch cert, delegator) # keyEpochDelegations s\<rparr>"
  using assms by (auto simp: scheduleCertificate_def Let_def split: option.splits if_splits)

lemma schedule_inv: "dlg_inv gs s \<Longrightarrow> scheduleCertificate env e t raw s = Inr s' \<Longrightarrow> dlg_inv gs s'"
  by (erule schedule_ok) (auto simp: dlg_inv_def)

lemma scheduleAll_inv: "dlg_inv gs s \<Longrightarrow> scheduleAll env e t payload s = Inr s' \<Longrightarrow> dlg_inv gs s'"
  by (induction payload arbitrary: s) (auto intro: schedule_inv)

definition gen_inv :: "PBFTDelegationState \<Rightarrow> bool" where
  "gen_inv s \<longleftrightarrow> distinct (map fst (activeDelegations s)) \<and> (\<forall>a d. map_of (activeDelegations s) a = Some d \<longrightarrow> d = a) \<and>
     fst ` set (activeDelegations s) = set (allowedDelegators s) \<and> scheduledDelegations s = []"

lemma gen_dlg_inv:
  assumes "gen_inv s" "set (allowedDelegators s) = set gs"
  shows "dlg_inv gs s"
proof -
  have "a = b" if "map_of (activeDelegations s) a = Some d" "map_of (activeDelegations s) b = Some d" for a b d
    using that assms(1) unfolding gen_inv_def by metis
  then have "active_inj (activeDelegations s)" using assms(1) unfolding gen_inv_def active_inj_def by blast
  then show ?thesis using assms by (simp add: gen_inv_def dlg_inv_def)
qed

lemma genesisIssuers_inv:
  assumes "genesisIssuers hs s = Inr s'" "gen_inv s"
  shows "gen_inv s' \<and> set (allowedDelegators s') = set (allowedDelegators s) \<union> set hs"
  using assms
proof (induction hs arbitrary: s)
  case (Cons h hs)
  let ?s = "s\<lparr>allowedDelegators := h # allowedDelegators s,
     activeDelegations := AList.update h h (activeDelegations s),
     delegationSlots := AList.update h 0 (delegationSlots s)\<rparr>"
  have "genesisIssuers hs ?s = Inr s'" using Cons.prems(1) by (auto split: if_splits)
  moreover have "gen_inv ?s"
    using Cons.prems(2)
    by (auto simp: gen_inv_def AList.distinct_update AList.update_conv' AList.dom_update split: if_splits)
  ultimately show ?case using Cons.IH[of ?s] by auto
qed auto

lemma genesisDelegate_inv:
  "dlg_inv gs s \<Longrightarrow> h \<in> set gs \<Longrightarrow> dlg_inv gs (genesisDelegate config h s)"
  by (auto simp: genesisDelegate_def Let_def intro!: activate_inv split: option.splits)

lemma fold_genesisDelegate:
  "dlg_inv gs s \<Longrightarrow> set hs \<subseteq> set gs \<Longrightarrow> dlg_inv gs (fold (genesisDelegate config) hs s)"
  by (induction hs arbitrary: s) (auto intro: genesisDelegate_inv)

lemma new_state_inv:
  assumes "NewPBFTDelegationState config = Inr s"
  shows "dlg_inv (cfg_GenesisKeyHashes config) s"
proof -
  let ?init = "\<lparr>activeDelegations = [], delegationSlots = [], scheduledDelegations = [], keyEpochDelegations = [],
     allowedDelegators = [], dlg_protocolMagic = cfg_ProtocolMagic config, dlg_securityParam = cfg_SecurityParam config\<rparr>"
  obtain s1 where g: "genesisIssuers (cfg_GenesisKeyHashes config) ?init = Inr s1"
      "s = fold (genesisDelegate config) (cfg_GenesisKeyHashes config) s1"
    using assms by (auto simp: NewPBFTDelegationState_def split: if_splits option.splits)
  have "gen_inv ?init" by (simp add: gen_inv_def)
  with g(1) have "gen_inv s1 \<and> set (allowedDelegators s1) = set (cfg_GenesisKeyHashes config)"
    using genesisIssuers_inv by fastforce
  then show ?thesis unfolding g(2) by (intro fold_genesisDelegate gen_dlg_inv) auto
qed

text \<open>The states a caller can reach: the genesis state, then any interleaving of ticks and
  accepted delegation payloads.\<close>

inductive dlg_reachable :: "pbft_env \<Rightarrow> ByronDelegationConfig \<Rightarrow> PBFTDelegationState \<Rightarrow> bool"
  for env config where
  genesis: "NewPBFTDelegationState config = Inr s \<Longrightarrow> dlg_reachable env config s"
| tick: "dlg_reachable env config s \<Longrightarrow> dlg_reachable env config (Tick s e t)"
| payload: "dlg_reachable env config s \<Longrightarrow> ApplyPayloadCbor env e t certs s = Inr s' \<Longrightarrow>
    dlg_reachable env config s'"

lemma reachable_inv: "dlg_reachable env config s \<Longrightarrow> dlg_inv (cfg_GenesisKeyHashes config) s"
proof (induction rule: dlg_reachable.induct)
  case (payload s e t certs s')
  then show ?case by (auto simp: ApplyPayloadCbor_def intro: Tick_inv scheduleAll_inv)
qed (auto intro: new_state_inv Tick_inv)

lemma find_SomeD: "find P xs = Some x \<Longrightarrow> x \<in> set xs \<and> P x"
  by (induction xs) (auto split: if_splits)

lemma resolveLoop_inj:
  assumes "\<forall>i. (i, delegate) \<in> set ds \<longrightarrow> i = issuer" "found = None \<or> found = Some issuer"
  shows "resolveLoop delegate found ds =
    Inr (if (issuer, delegate) \<in> set ds then Some issuer else found)"
  using assms by (induction delegate found ds rule: resolveLoop.induct) auto

lemma resolve_active:
  assumes "active_inj al"
  shows "resolveActivePBFTIssuer al delegate =
    (case find (\<lambda>(i, d). d = delegate) al of None \<Rightarrow> Inl (PBFTNotAuthorized delegate) | Some (i, _) \<Rightarrow> Inr i)"
proof (cases "find (\<lambda>(i, d). d = delegate) al")
  case None
  then have n: "(i, delegate) \<notin> set al" for i by (auto simp: find_None_iff)
  then have "resolveLoop delegate None al = Inr None"
    using resolveLoop_inj[of delegate al undefined None] by simp
  then show ?thesis by (simp add: resolveActivePBFTIssuer_def None)
next
  case (Some p)
  obtain i d where id: "p = (i, d)" by (cases p)
  then have d: "d = delegate" "(i, delegate) \<in> set al"
    using find_SomeD[OF Some] by auto
  have "j = i" if "(j, delegate) \<in> set al" for j
  proof -
    have "map_of al j = Some delegate" "map_of al i = Some delegate"
      using assms that d(2) by (simp_all add: active_inj_def)
    then show ?thesis using assms unfolding active_inj_def by simp
  qed
  then have "\<forall>j. (j, delegate) \<in> set al \<longrightarrow> j = i" by blast
  from resolveLoop_inj[OF this, of None] d(2) have "resolveLoop delegate None al = Inr (Some i)" by simp
  then show ?thesis by (simp add: resolveActivePBFTIssuer_def Some id)
qed

subsection \<open>Properties\<close>

text \<open>C39: The signature-count rule is exact: on a valid state a transition never panics, and it
  accepts an issuer if and only if the issuer appears at most \<open>floor(threshold * k)\<close> times
  among the last \<open>k\<close> signatures including its own; the double-word product and division never
  overflow.\<close>

theorem pbft_transition_exact:
  assumes "pbft_valid s"
  shows "Transition s issuer \<noteq> None \<and>
    ((\<exists>s'. Transition s issuer = Some (Inr s')) \<longleftrightarrow>
      count_list (last_n (unat (securityParam s)) (signatureHistory s @ [issuer])) issuer
        \<le> unat (securityParam s) * unat (thresholdNumerator s) div unat (thresholdDenominator s))"
proof -
  let ?h = "signatureHistory (pbft_push s issuer)"
  have "count_list ?h issuer \<le> unat (securityParam s)"
    using pbft_push_valid[OF assms, of issuer] count_le_length[of ?h issuer]
    by (auto simp: pbft_valid_def pbft_push_def)
  also have "\<dots> < 2 ^ 64" by (rule unat_u64_less)
  finally have "count_list ?h issuer \<le> pbft_quota s \<longleftrightarrow> count_list ?h issuer
      \<le> unat (securityParam s) * unat (thresholdNumerator s) div unat (thresholdDenominator s)"
    by (auto simp: pbft_quota_def)
  then show ?thesis using Transition_eq[OF assms, of issuer] by (auto simp: pbft_push_def)
qed

text \<open>C23: Quota safety over whole chains: after any accepted sequence of issuers the window is
  exactly the last \<open>k\<close> of them, and no issuer exceeds the quota in it if none did at the
  start.\<close>

theorem pbft_window_and_quota:
  assumes "pbft_valid s" and "pbft_within s" and "pbft_run s issuers = Some (Inr s')"
  shows "signatureHistory s' = last_n (unat (securityParam s)) (signatureHistory s @ issuers) \<and>
    (\<forall>i. count_list (signatureHistory s') i \<le> pbft_quota s)"
  using pbft_run_ok[OF assms(1,3)] assms(2) unfolding pbft_within_def by auto

text \<open>C14: In every reachable delegation state each configured genesis key has exactly one
  active delegate and no two keys share one, so resolving the issuer behind a delegate
  succeeds exactly for the key that delegated to it and never reports multiple issuers.\<close>

theorem reachable_delegations_injective:
  assumes "dlg_reachable env config s"
  shows "distinct (map fst (activeDelegations s)) \<and>
    fst ` set (activeDelegations s) = set (cfg_GenesisKeyHashes config) \<and>
    (resolveActivePBFTIssuer (activeDelegations s) delegate = Inr issuer
      \<longleftrightarrow> map_of (activeDelegations s) issuer = Some delegate) \<and>
    resolveActivePBFTIssuer (activeDelegations s) delegate \<noteq> Inl (PBFTMultipleIssuers delegate)"
proof -
  let ?al = "activeDelegations s"
  have inj: "active_inj ?al" "fst ` set ?al = set (cfg_GenesisKeyHashes config)"
    using reachable_inv[OF assms] by (simp_all add: dlg_inv_def)
  have u: "i = j" if "(i, d) \<in> set ?al" "(j, d) \<in> set ?al" for i j d
    using inj(1) that unfolding active_inj_def by (metis map_of_eq_Some_iff)
  have r: "(resolveActivePBFTIssuer ?al delegate = Inr issuer \<longleftrightarrow> (issuer, delegate) \<in> set ?al) \<and>
      resolveActivePBFTIssuer ?al delegate \<noteq> Inl (PBFTMultipleIssuers delegate)"
  proof (cases "find (\<lambda>(i, d). d = delegate) ?al")
    case None
    then have "(issuer, delegate) \<notin> set ?al" by (auto simp: find_None_iff)
    then show ?thesis by (simp add: resolve_active[OF inj(1)] None)
  next
    case (Some p)
    then obtain i where "p = (i, delegate)" "(i, delegate) \<in> set ?al" using find_SomeD[OF Some] by auto
    then show ?thesis using Some u[of i delegate issuer] by (auto simp: resolve_active[OF inj(1)])
  qed
  have "distinct (map fst ?al)" using inj(1) by (simp add: active_inj_def)
  then show ?thesis using r inj(2) by simp
qed

text \<open>An accepted certificate schedules exactly one delegation, by a configured genesis key
  that had none for that epoch, for the slot \<open>2k\<close> after the current one without
  wrap-around, in the current epoch or the next.\<close>

lemma schedule_certificate_exact:
  assumes "scheduleCertificate env e t raw s = Inr s'"
  shows "\<exists>d epoch. scheduledDelegations s' = scheduledDelegations s @ [d] \<and>
    unat (activationSlot d) = unat t + 2 * unat (dlg_securityParam s) \<and>
    sd_delegator d \<in> set (allowedDelegators s) \<and> unat e \<le> unat epoch \<and> unat epoch \<le> unat e + 1 \<and>
    (epoch, sd_delegator d) \<notin> set (keyEpochDelegations s) \<and>
    (epoch, sd_delegator d) \<in> set (keyEpochDelegations s') \<and>
    activeDelegations s' = activeDelegations s"
  using assms
proof (rule schedule_ok)
  fix cert delegator delegate
  let ?k = "dlg_securityParam s"
  assume k: "\<not> MaxUint64 div 2 < ?k" and t: "\<not> MaxUint64 - 2 * ?k < t"
    and e: "\<not> cert_Epoch cert < e" "\<not> 1 < cert_Epoch cert - e"
  have k2: "unat (2 * ?k) = 2 * unat ?k"
    using k unat_u64_less[of ?k]
    by (simp add: word_less_nat_alt unat_div unat_MaxUint64 unat_word_ariths)
  have "unat (MaxUint64 - 2 * ?k) = 2 ^ 64 - 1 - 2 * unat ?k"
    using k2 by (simp add: unat_sub unat_MaxUint64)
  then have "unat t + 2 * unat ?k < 2 ^ 64"
    using t k2 unat_u64_less[of "2 * ?k"] by (simp add: word_less_nat_alt)
  then have slot: "unat (t + 2 * ?k) = unat t + 2 * unat ?k" using k2 by (simp add: unat_word_ariths)
  have "unat (cert_Epoch cert - e) = unat (cert_Epoch cert) - unat e"
    using e(1) by (simp add: unat_sub)
  then have ep: "unat e \<le> unat (cert_Epoch cert)" "unat (cert_Epoch cert) \<le> unat e + 1"
    using e by (simp_all add: word_less_nat_alt)
  assume "delegator \<in> set (allowedDelegators s)" "(cert_Epoch cert, delegator) \<notin> set (keyEpochDelegations s)"
    "s' = s\<lparr>scheduledDelegations := scheduledDelegations s @
         [\<lparr>activationSlot = t + 2 * ?k, sd_delegator = delegator, sd_delegate = delegate\<rparr>],
       keyEpochDelegations := (cert_Epoch cert, delegator) # keyEpochDelegations s\<rparr>"
  then show ?thesis using slot ep
    by (intro exI[of _ "\<lparr>activationSlot = t + 2 * ?k, sd_delegator = delegator, sd_delegate = delegate\<rparr>"]
      exI[of _ "cert_Epoch cert"]) simp
qed

text \<open>Two genesis keys, and a certificate source that parses one fixed certificate.\<close>

definition example_config :: ByronDelegationConfig where
  "example_config = \<lparr>cfg_ProtocolMagic = 764824073, cfg_SecurityParam = 2160,
     cfg_GenesisKeyHashes = [replicate 28 1, replicate 28 2],
     cfg_GenesisDelegations = [(replicate 28 1, replicate 28 9)], cfg_GenesisDelegationEpochs = []\<rparr>"

definition example_env :: pbft_env where
  "example_env = \<lparr>env_parse = (\<lambda>raw. Some \<lparr>cert_Epoch = 7, cert_EpochCbor = [7],
       cert_IssuerVK = replicate 64 1, cert_DelegateVK = replicate 64 5, cert_Signature = replicate 64 0\<rparr>),
     env_verify = (\<lambda>magic cert. True), env_sha3_256 = (\<lambda>b. take 32 b), env_blake2b224 = (\<lambda>b. drop 4 b)\<rparr>"

definition example_dlg :: PBFTDelegationState where
  "example_dlg = \<lparr>activeDelegations = [(replicate 28 1, replicate 28 9), (replicate 28 2, replicate 28 2)],
     delegationSlots = [(replicate 28 1, 0), (replicate 28 2, 0)], scheduledDelegations = [],
     keyEpochDelegations = [(0, replicate 28 1)], allowedDelegators = [replicate 28 2, replicate 28 1],
     dlg_protocolMagic = 764824073, dlg_securityParam = 2160\<rparr>"

lemma example_genesis: "NewPBFTDelegationState example_config = Inr example_dlg"
  by code_simp

definition example_window :: PBFTState where
  "example_window = \<lparr>signatureHistory = [[1], [2], [1]], securityParam = 5, thresholdNumerator = 1,
     thresholdDenominator = 2\<rparr>"

lemma example_window_valid: "pbft_valid example_window"
  by (simp add: pbft_valid_def example_window_def)

theorem pbft_transition_exact_witness:
  "pbft_valid example_window \<and> \<not> (\<exists>s'. Transition example_window [1] = Some (Inr s')) \<and>
   (\<exists>s'. Transition example_window [2] = Some (Inr s'))"
  using example_window_valid pbft_transition_exact[OF example_window_valid, of "[1]"]
    pbft_transition_exact[OF example_window_valid, of "[2]"]
  by (simp add: example_window_def last_n_def)

theorem pbft_window_and_quota_witness:
  "pbft_valid example_window \<and> pbft_within example_window \<and>
   (\<exists>s'. pbft_run example_window [[3], [2], [4]] = Some (Inr s') \<and> count_list (signatureHistory s') [2] \<le> 2)"
proof -
  have w: "pbft_within example_window" by (simp add: pbft_within_def pbft_quota_def example_window_def)
  obtain s' where r: "pbft_run example_window [[3], [2], [4]] = Some (Inr s')"
    by (simp add: Transition_def Observe_def example_window_def pbftMaxSignatures_def mul64_def div64_def Let_def)
  have "pbft_quota example_window = 2" by (simp add: pbft_quota_def example_window_def)
  then show ?thesis
    using w r example_window_valid pbft_window_and_quota[OF example_window_valid w r] by metis
qed

theorem reachable_delegations_injective_witness:
  "dlg_reachable example_env example_config example_dlg \<and>
   resolveActivePBFTIssuer (activeDelegations example_dlg) (replicate 28 9) = Inr (replicate 28 1)"
proof -
  have r: "dlg_reachable example_env example_config example_dlg"
    by (rule dlg_reachable.genesis[OF example_genesis])
  then show ?thesis
    using reachable_delegations_injective[OF r, of "replicate 28 9" "replicate 28 1"]
    by (simp add: example_dlg_def)
qed

end
