(* ===== verification/Float64.thy ===== *)
theory Float64
  imports Complex_Main Words "HOL-Library.Log_Nat"
begin

text \<open>
  Go's \<open>float64\<close> as far as the consensus code uses it: IEEE binary64 values as rationals,
  infinities and NaN, with rounding to nearest, ties to even.  The sign of zero is not kept; no
  operation used here distinguishes it.
\<close>

datatype float64 = NaN | NegInf | PosInf | Fin rat

definition pow2 :: "int \<Rightarrow> rat" where
  "pow2 k = (if 0 \<le> k then 2 ^ nat k else 1 / 2 ^ nat (- k))"

text \<open>The exponent of the leading bit of a positive rational.\<close>

definition ilog2 :: "rat \<Rightarrow> int" where
  "ilog2 q =
     (let (n, d) = quotient_of q; k = int (floorlog 2 (nat n)) - int (floorlog 2 (nat d))
      in if pow2 k \<le> q then k else k - 1)"

definition roundHalfEven :: "rat \<Rightarrow> int" where
  "roundHalfEven r =
     (let n = \<lfloor>r\<rfloor>; frac = r - of_int n in
      if frac < 1 / 2 then n else if 1 / 2 < frac then n + 1 else if even n then n else n + 1)"

definition roundFloat64 :: "rat \<Rightarrow> float64" where
  "roundFloat64 q =
     (if q = 0 then Fin 0
      else let e = max (ilog2 \<bar>q\<bar> - 52) (- 1074);
               v = of_int (roundHalfEven (\<bar>q\<bar> / pow2 e)) * pow2 e in
        if pow2 1024 \<le> v then (if 0 < q then PosInf else NegInf)
        else Fin (if 0 < q then v else - v))"

definition f64_of_u64 :: "u64 \<Rightarrow> float64" where
  "f64_of_u64 w = roundFloat64 (of_nat (unat w))"

fun f64_less :: "float64 \<Rightarrow> float64 \<Rightarrow> bool" where
  "f64_less NaN _ = False"
| "f64_less _ NaN = False"
| "f64_less NegInf b = (b \<noteq> NegInf)"
| "f64_less a NegInf = False"
| "f64_less PosInf b = False"
| "f64_less a PosInf = True"
| "f64_less (Fin p) (Fin q) = (p < q)"

fun f64_sign :: "float64 \<Rightarrow> int" where
  "f64_sign NaN = 0" | "f64_sign NegInf = - 1" | "f64_sign PosInf = 1"
| "f64_sign (Fin q) = (if 0 < q then 1 else if q < 0 then - 1 else 0)"

fun f64_mul :: "float64 \<Rightarrow> float64 \<Rightarrow> float64" where
  "f64_mul (Fin p) (Fin q) = roundFloat64 (p * q)"
| "f64_mul a b =
     (if a = NaN \<or> b = NaN then NaN
      else let s = f64_sign a * f64_sign b in
        if s = 0 then NaN else if 0 < s then PosInf else NegInf)"

text \<open>Division of finite values by a nonzero finite value, the only division in the code.\<close>

fun f64_div :: "float64 \<Rightarrow> float64 \<Rightarrow> float64" where
  "f64_div (Fin p) (Fin q) =
     (if q \<noteq> 0 then roundFloat64 (p / q) else if p = 0 then NaN else if 0 < p then PosInf else NegInf)"
| "f64_div (Fin p) b = (if b = NaN then NaN else Fin 0)"
| "f64_div a b =
     (if a = NaN \<or> b = NaN \<or> b = PosInf \<or> b = NegInf then NaN
      else if 0 \<le> f64_sign a * f64_sign b then (if f64_sign b = 0 then a else PosInf) else NegInf)"

text \<open>\<open>math.Round\<close>: half away from zero.\<close>

fun f64_round :: "float64 \<Rightarrow> float64" where
  "f64_round (Fin q) = Fin (of_int (if 0 \<le> q then \<lfloor>q + 1 / 2\<rfloor> else - \<lfloor>- q + 1 / 2\<rfloor>))"
| "f64_round a = a"

text \<open>The order of \<open>float64\<close> without NaN, as a key into a linear order.\<close>

fun f64_key :: "float64 \<Rightarrow> nat \<times> rat" where
  "f64_key NaN = (1, 0)" | "f64_key NegInf = (0, 0)" | "f64_key PosInf = (2, 0)" | "f64_key (Fin q) = (1, q)"

end
