(* ===== verification/Selection.thy ===== *)
theory Selection
  imports Float64 "HOL-Library.Product_Lexorder" "HOL-Library.Option_ord" "HOL-Library.Multiset"
begin

text \<open>
  Chain selection (\<open>consensus/selection.go\<close>): the ordinary Praos comparison of two chain tips, the
  Genesis density comparison for deep forks, and the scan for the preferred candidate.  The
  interfaces \<open>ChainTip\<close> and \<open>WindowBlockCounter\<close> are a record of what their methods return, so
  that the lemmas hold for every implementation; \<open>SimpleChainTip\<close> and \<open>WindowedChainTip\<close> are the
  implementations the package has.  The locale \<open>go_comparator\<close> states what a scan needs of its
  comparison and is interpreted on every comparison of the code.
\<close>

subsection \<open>Tips\<close>

record chain_tip =
  ct_Slot :: u64
  ct_BlockNumber :: u64
  ct_VRFOutput :: bytes
  ct_Density :: "u64 \<Rightarrow> float64"
  ct_BlocksInWindow :: "(u64 \<Rightarrow> u64 \<Rightarrow> u64) option"

record ForkPoint =
  fork_Slot :: u64
  fork_BlockNumber :: u64

record PraosChainSelector =
  SecurityParam :: u64
  GenesisWindowSlots :: u64

definition NewPraosChainSelector :: "u64 \<Rightarrow> PraosChainSelector" where
  "NewPraosChainSelector k = \<lparr>SecurityParam = k, GenesisWindowSlots = 0\<rparr>"

definition NewPraosChainSelectorWithWindow :: "u64 \<Rightarrow> u64 \<Rightarrow> PraosChainSelector" where
  "NewPraosChainSelectorWithWindow k w = \<lparr>SecurityParam = k, GenesisWindowSlots = w\<rparr>"

subsection \<open>Comparisons\<close>

definition Compare :: "chain_tip option \<Rightarrow> chain_tip option \<Rightarrow> int" where
  "Compare oa ob =
     (case (oa, ob) of
        (None, None) \<Rightarrow> 0
      | (None, Some _) \<Rightarrow> - 1
      | (Some _, None) \<Rightarrow> 1
      | (Some a, Some b) \<Rightarrow>
          if ct_BlockNumber a \<noteq> ct_BlockNumber b
          then (if ct_BlockNumber b < ct_BlockNumber a then 1 else - 1)
          else if ct_VRFOutput a = [] \<and> ct_VRFOutput b = [] then 0
          else if ct_VRFOutput a = [] then - 1
          else if ct_VRFOutput b = [] then 1
          else let aVRF = be_nat (ct_VRFOutput a); bVRF = be_nat (ct_VRFOutput b) in
            if aVRF < bVRF then 1 else if bVRF < aVRF then - 1 else 0)"

definition IsDeepFork :: "PraosChainSelector \<Rightarrow> ForkPoint \<Rightarrow> u64 \<Rightarrow> bool" where
  "IsDeepFork p fork tipBlockNumber =
     (if tipBlockNumber \<le> fork_BlockNumber fork then False
      else SecurityParam p < tipBlockNumber - fork_BlockNumber fork)"

definition legacyDensity :: "chain_tip \<Rightarrow> u64 \<Rightarrow> float64" where
  "legacyDensity tip forkSlot =
     (let density = ct_Density tip forkSlot in if density = NaN then Fin 0 else density)"

definition windowBlocks :: "PraosChainSelector \<Rightarrow> chain_tip \<Rightarrow> ForkPoint \<Rightarrow> u64" where
  "windowBlocks p tip fork =
     (case ct_BlocksInWindow tip of
        Some counter \<Rightarrow> counter (fork_Slot fork) (GenesisWindowSlots p)
      | None \<Rightarrow>
          let density = legacyDensity tip (fork_Slot fork) in
          if \<not> f64_less (Fin 0) density then 0
          else case f64_round (f64_mul density (f64_of_u64 (GenesisWindowSlots p))) of
              PosInf \<Rightarrow> MaxUint64
            | Fin projected \<Rightarrow> if 2 ^ 64 \<le> projected then MaxUint64 else word_of_int \<lfloor>projected\<rfloor>
            | _ \<Rightarrow> 0)"

definition compareUint64 :: "u64 \<Rightarrow> u64 \<Rightarrow> int" where
  "compareUint64 a b = (if b < a then 1 else if a < b then - 1 else 0)"

definition compareFloat64 :: "float64 \<Rightarrow> float64 \<Rightarrow> int" where
  "compareFloat64 a b = (if f64_less b a then 1 else if f64_less a b then - 1 else 0)"

definition compareDensity :: "PraosChainSelector \<Rightarrow> chain_tip \<Rightarrow> chain_tip \<Rightarrow> ForkPoint \<Rightarrow> int" where
  "compareDensity p a b fork =
     (if 0 < GenesisWindowSlots p then compareUint64 (windowBlocks p a fork) (windowBlocks p b fork)
      else compareFloat64 (legacyDensity a (fork_Slot fork)) (legacyDensity b (fork_Slot fork)))"

definition CompareWithDensity ::
  "PraosChainSelector \<Rightarrow> ForkPoint \<Rightarrow> u64 \<Rightarrow> chain_tip option \<Rightarrow> chain_tip option \<Rightarrow> int" where
  "CompareWithDensity p fork tipBlockNumber oa ob =
     (case (oa, ob) of
        (None, None) \<Rightarrow> 0
      | (None, Some _) \<Rightarrow> - 1
      | (Some _, None) \<Rightarrow> 1
      | (Some a, Some b) \<Rightarrow>
          if \<not> IsDeepFork p fork tipBlockNumber then Compare oa ob
          else let result = compareDensity p a b fork in
            if result \<noteq> 0 then result else Compare oa ob)"

subsection \<open>The scan\<close>

definition selectPreferred :: "('a \<Rightarrow> 'a \<Rightarrow> int) \<Rightarrow> 'a list \<Rightarrow> 'a option" where
  "selectPreferred compare candidates =
     (case candidates of
        [] \<Rightarrow> None
      | c # cs \<Rightarrow> Some (fold (\<lambda>x preferred. if 0 < compare x preferred then x else preferred) cs c))"

text \<open>The candidates are interface values, which may be nil; so is the result for an empty set.\<close>

definition Preferred :: "chain_tip option list \<Rightarrow> chain_tip option" where
  "Preferred candidates = (case selectPreferred Compare candidates of None \<Rightarrow> None | Some c \<Rightarrow> c)"

definition PreferredWithDensity ::
  "PraosChainSelector \<Rightarrow> chain_tip option list \<Rightarrow> ForkPoint \<Rightarrow> u64 \<Rightarrow> chain_tip option" where
  "PreferredWithDensity p candidates fork tipBlockNumber =
     (case selectPreferred (CompareWithDensity p fork tipBlockNumber) candidates of None \<Rightarrow> None | Some c \<Rightarrow> c)"

subsection \<open>The tips of the package\<close>

record SimpleChainTip =
  st_slot :: u64
  st_blockNumber :: u64
  st_vrfOutput :: bytes
  st_blocksAfterFork :: u64
  st_slotsAfterFork :: u64

record WindowedChainTip = SimpleChainTip +
  blockSlots :: "u64 list"

definition SimpleChainTip_Density :: "SimpleChainTip \<Rightarrow> float64" where
  "SimpleChainTip_Density s =
     (if st_slotsAfterFork s = 0 then Fin 0
      else f64_div (f64_of_u64 (st_blocksAfterFork s)) (f64_of_u64 (st_slotsAfterFork s)))"

definition BlocksInWindow :: "u64 list \<Rightarrow> u64 \<Rightarrow> u64 \<Rightarrow> u64" where
  "BlocksInWindow slots forkSlot windowSlots =
     (if windowSlots = 0 then 0
      else fold (\<lambda>s count. if forkSlot < s \<and> s - forkSlot \<le> windowSlots then count + 1 else count) slots 0)"

definition WindowedChainTip_Density :: "u64 list \<Rightarrow> u64 \<Rightarrow> float64" where
  "WindowedChainTip_Density slots forkSlot =
     (let (blocks, maxSlot) = fold (\<lambda>s (blocks, m). if s \<le> forkSlot then (blocks, m)
            else (blocks + 1, if m < s then s else m)) slots (0 :: u64, 0 :: u64)
      in if blocks = 0 then Fin 0 else f64_div (f64_of_u64 blocks) (f64_of_u64 (maxSlot - forkSlot)))"

definition simple_tip :: "SimpleChainTip \<Rightarrow> chain_tip" where
  "simple_tip s = \<lparr>ct_Slot = st_slot s, ct_BlockNumber = st_blockNumber s, ct_VRFOutput = st_vrfOutput s,
     ct_Density = (\<lambda>_. SimpleChainTip_Density s), ct_BlocksInWindow = None\<rparr>"

definition windowed_tip :: "WindowedChainTip \<Rightarrow> chain_tip" where
  "windowed_tip w = \<lparr>ct_Slot = st_slot w, ct_BlockNumber = st_blockNumber w, ct_VRFOutput = st_vrfOutput w,
     ct_Density = WindowedChainTip_Density (blockSlots w),
     ct_BlocksInWindow = Some (BlocksInWindow (blockSlots w))\<rparr>"

subsection \<open>The contract of a comparison\<close>

locale go_comparator =
  fixes cmp :: "'a \<Rightarrow> 'a \<Rightarrow> int"
  assumes cmp_antisym: "0 < cmp a b \<longleftrightarrow> cmp b a < 0"
    and cmp_trans: "0 \<le> cmp a b \<Longrightarrow> 0 \<le> cmp b c \<Longrightarrow> 0 \<le> cmp a c"
begin

lemma cmp_refl: "cmp a a = 0"
  using cmp_antisym[of a a] by linarith

lemma scan_best:
  "(let r = fold (\<lambda>x p. if 0 < cmp x p then x else p) cs c in
     (r = c \<or> r \<in> set cs) \<and> 0 \<le> cmp r c \<and> (\<forall>x \<in> set cs. 0 \<le> cmp r x))"
proof (induction cs arbitrary: c)
  case Nil
  then show ?case by (simp add: cmp_refl)
next
  case (Cons x cs)
  let ?c = "if 0 < cmp x c then x else c"
  let ?r = "fold (\<lambda>x p. if 0 < cmp x p then x else p) cs ?c"
  have c: "0 \<le> cmp ?c c" "0 \<le> cmp ?c x"
    using cmp_antisym[of x c] by (auto simp: cmp_refl)
  have ih: "?r = ?c \<or> ?r \<in> set cs" "0 \<le> cmp ?r ?c" "\<forall>x \<in> set cs. 0 \<le> cmp ?r x"
    using Cons.IH[of ?c] by (simp_all add: Let_def)
  have "0 \<le> cmp ?r c" "0 \<le> cmp ?r x"
    using cmp_trans[OF ih(2) c(1)] cmp_trans[OF ih(2) c(2)] by simp_all
  then show ?case using ih(1,3) by (auto simp: Let_def)
qed

lemma select_best:
  "candidates \<noteq> [] \<Longrightarrow> \<exists>r. selectPreferred cmp candidates = Some r \<and> r \<in> set candidates \<and>
     (\<forall>x \<in> set candidates. 0 \<le> cmp r x)"
  using scan_best by (cases candidates) (auto simp: selectPreferred_def Let_def)

text \<open>Two scans of the same candidates in any order end in equivalent ones.\<close>

lemma select_order_independent:
  assumes "mset xs = mset ys" "selectPreferred cmp xs = Some r" "selectPreferred cmp ys = Some s"
  shows "cmp r s = 0"
proof -
  have ne: "xs \<noteq> []" "ys \<noteq> []" using assms by (auto simp: selectPreferred_def)
  have "set xs = set ys" using assms(1) by (rule mset_eq_setD)
  then have "0 \<le> cmp r s" "0 \<le> cmp s r"
    using select_best[OF ne(1)] select_best[OF ne(2)] assms(2,3) by auto
  then show ?thesis using cmp_antisym[of r s] by linarith
qed

end

text \<open>A comparison through a key into a linear order is a comparator.\<close>

definition key_cmp :: "'k :: linorder \<Rightarrow> 'k \<Rightarrow> int" where
  "key_cmp x y = (if y < x then 1 else if x < y then - 1 else 0)"

lemma key_comparator:
  assumes "\<And>a b. cmp a b = key_cmp (key a) (key b)"
  shows "go_comparator cmp"
  by unfold_locales (auto simp: assms key_cmp_def split: if_splits)

lemma key_cmp_Some [simp]: "key_cmp (Some x) (Some y) = key_cmp x y" "key_cmp None (Some y) = - 1"
    "key_cmp (Some x) None = 1" "key_cmp x x = 0"
  by (auto simp: key_cmp_def)

lemma key_cmp_Pair: "key_cmp (a, b) (c, d) = (if key_cmp a c \<noteq> 0 then key_cmp a c else key_cmp b d)"
  by (auto simp: key_cmp_def)

lemma key_cmp_zero: "key_cmp a b = 0 \<longleftrightarrow> a = b"
  by (auto simp: key_cmp_def)

subsection \<open>Every comparison of the code is a comparator\<close>

definition tip_key :: "chain_tip \<Rightarrow> u64 \<times> bool \<times> int" where
  "tip_key a = (ct_BlockNumber a, ct_VRFOutput a \<noteq> [],
     if ct_VRFOutput a = [] then 0 else - int (be_nat (ct_VRFOutput a)))"

lemma Compare_key: "Compare a b = key_cmp (map_option tip_key a) (map_option tip_key b)"
  by (cases a; cases b) (auto simp: Compare_def tip_key_def key_cmp_def Let_def)

lemma legacyDensity_not_NaN: "legacyDensity tip s \<noteq> NaN"
  by (simp add: legacyDensity_def Let_def)

lemma f64_less_key: "a \<noteq> NaN \<Longrightarrow> b \<noteq> NaN \<Longrightarrow> f64_less a b \<longleftrightarrow> f64_key a < f64_key b"
  by (cases a; cases b) auto

definition density_key :: "PraosChainSelector \<Rightarrow> ForkPoint \<Rightarrow> chain_tip \<Rightarrow> u64 \<times> nat \<times> rat" where
  "density_key p fork tip =
     (if 0 < GenesisWindowSlots p then (windowBlocks p tip fork, 0, 0)
      else (0, f64_key (legacyDensity tip (fork_Slot fork))))"

lemma compareDensity_key: "compareDensity p a b fork = key_cmp (density_key p fork a) (density_key p fork b)"
  by (auto simp: compareDensity_def density_key_def compareUint64_def compareFloat64_def key_cmp_Pair
      f64_less_key legacyDensity_not_NaN key_cmp_def)

definition selection_key ::
  "PraosChainSelector \<Rightarrow> ForkPoint \<Rightarrow> u64 \<Rightarrow> chain_tip \<Rightarrow> (u64 \<times> nat \<times> rat) \<times> (u64 \<times> bool \<times> int)" where
  "selection_key p fork tipBlockNumber tip =
     (if IsDeepFork p fork tipBlockNumber then density_key p fork tip else (0, 0, 0), tip_key tip)"

lemma CompareWithDensity_key:
  "CompareWithDensity p fork t a b =
     key_cmp (map_option (selection_key p fork t) a) (map_option (selection_key p fork t) b)"
  by (cases a; cases b)
     (auto simp: CompareWithDensity_def selection_key_def compareDensity_key Compare_key key_cmp_Pair Let_def)

interpretation praos: go_comparator Compare
  by (rule key_comparator) (rule Compare_key)

interpretation density: go_comparator "CompareWithDensity p fork tipBlockNumber" for p fork tipBlockNumber
  by (rule key_comparator) (rule CompareWithDensity_key)

lemma selectPreferred_eq_None: "selectPreferred cmp cs = None \<longleftrightarrow> cs = []"
  by (cases cs) (auto simp: selectPreferred_def)

lemma selectPreferred_cong:
  "(\<And>a b. cmp a b = cmp' a b) \<Longrightarrow> selectPreferred cmp cs = selectPreferred cmp' cs"
proof -
  assume "\<And>a b. cmp a b = cmp' a b"
  then have "cmp = cmp'" by (intro ext)
  then show ?thesis by simp
qed

lemma IsDeepFork_iff:
  "IsDeepFork p fork t \<longleftrightarrow> unat (SecurityParam p) < unat t - unat (fork_BlockNumber fork)"
proof (cases "t \<le> fork_BlockNumber fork")
  case True
  then show ?thesis by (simp add: IsDeepFork_def word_le_nat_alt)
next
  case False
  then have "unat (t - fork_BlockNumber fork) = unat t - unat (fork_BlockNumber fork)"
    by (simp add: unat_sub)
  then show ?thesis using False by (simp add: IsDeepFork_def word_less_nat_alt)
qed

lemma window_condition:
  "forkSlot < s \<and> s - forkSlot \<le> w \<longleftrightarrow> unat forkSlot < unat s \<and> unat s \<le> unat forkSlot + unat (w :: u64)"
proof (cases "forkSlot < s")
  case True
  then have "unat (s - forkSlot) = unat s - unat forkSlot" by (simp add: unat_sub)
  then show ?thesis using True by (auto simp: word_less_nat_alt word_le_nat_alt)
qed (simp add: word_less_nat_alt)

lemma fold_count_filter:
  "fold (\<lambda>s c. if P s then c + 1 else c) xs (n :: u64) = n + word_of_nat (length (filter P xs))"
  by (induction xs arbitrary: n) (auto simp: add_ac)

subsection \<open>Properties\<close>

text \<open>C13: The preferred chain does not depend on the order the candidates arrive in: the scan
  returns a candidate no other candidate beats, and two scans of the same candidates in
  different orders return equivalent ones, also when counting and legacy tips, infinite
  and NaN densities are mixed and also for deep forks.\<close>

theorem preferred_chain_order_independent:
  assumes "candidates \<noteq> []"
  shows "PreferredWithDensity p candidates fork t \<in> set candidates \<and>
    (\<forall>c \<in> set candidates. 0 \<le> CompareWithDensity p fork t (PreferredWithDensity p candidates fork t) c) \<and>
    (mset candidates' = mset candidates \<longrightarrow>
      CompareWithDensity p fork t (PreferredWithDensity p candidates fork t)
        (PreferredWithDensity p candidates' fork t) = 0)"
proof -
  let ?cmp = "CompareWithDensity p fork t"
  obtain r where r: "selectPreferred ?cmp candidates = Some r" "r \<in> set candidates" "\<forall>x \<in> set candidates. 0 \<le> ?cmp r x"
    using density.select_best[OF assms] by blast
  moreover have "?cmp r (PreferredWithDensity p candidates' fork t) = 0" if m: "mset candidates' = mset candidates"
  proof -
    have "candidates' \<noteq> []" using m assms by auto
    then obtain s where s: "selectPreferred ?cmp candidates' = Some s" using selectPreferred_eq_None by blast
    then show ?thesis
      using density.select_order_independent[OF m[symmetric] r(1) s] by (simp add: PreferredWithDensity_def)
  qed
  ultimately show ?thesis by (simp add: PreferredWithDensity_def)
qed

text \<open>The two regimes never mix: when the rollback is at most \<open>k\<close> blocks (as natural numbers,
  a fork point ahead of the tip needing none) the density rule is the ordinary rule; when it is
  deeper and a window is configured, the chain with more blocks in the window wins
  whatever its length, and the ordinary rule only breaks ties.\<close>

lemma density_regime_exact:
  assumes "0 < GenesisWindowSlots p"
  shows "CompareWithDensity p fork t (Some a) (Some b) =
    (if unat t - unat (fork_BlockNumber fork) \<le> unat (SecurityParam p) then Compare (Some a) (Some b)
     else if windowBlocks p b fork < windowBlocks p a fork then 1
     else if windowBlocks p a fork < windowBlocks p b fork then - 1
     else Compare (Some a) (Some b))"
  using assms IsDeepFork_iff[of p fork t]
  by (auto simp: CompareWithDensity_def compareDensity_def compareUint64_def Let_def)

text \<open>The window count of a tip is the number of its blocks in the \<open>windowSlots\<close> slots after
  the fork, as natural numbers: the subtraction form of the bound never wraps, even at the
  largest slots.\<close>

lemma window_count_exact:
  assumes "length slots < 2 ^ 64" and "windowSlots \<noteq> 0"
  shows "unat (BlocksInWindow slots forkSlot windowSlots) =
    length (filter (\<lambda>s. unat forkSlot < unat s \<and> unat s \<le> unat forkSlot + unat windowSlots) slots)"
proof -
  have "length (filter (\<lambda>s. unat forkSlot < unat s \<and> unat s \<le> unat forkSlot + unat windowSlots) slots) < 2 ^ 64"
    using assms(1) length_filter_le[of _ slots] order.strict_trans1 by blast
  then show ?thesis
    using assms(2) unfolding BlocksInWindow_def fold_count_filter window_condition
    by (simp add: unat_word_of_nat_u64)
qed

definition example_tip :: "u64 \<Rightarrow> u64 list \<Rightarrow> chain_tip" where
  "example_tip n slots = windowed_tip \<lparr>st_slot = 100, st_blockNumber = n, st_vrfOutput = [1],
     st_blocksAfterFork = 0, st_slotsAfterFork = 0, blockSlots = slots\<rparr>"

theorem preferred_chain_order_independent_witness:
  "[Some (example_tip 5 [11, 12]), None] \<noteq> [] \<and>
   (let p = NewPraosChainSelectorWithWindow 2 20; fork = \<lparr>fork_Slot = 10, fork_BlockNumber = 1\<rparr>;
        cs = [Some (example_tip 5 [11, 12]), None] in
     PreferredWithDensity p cs fork 9 \<in> set cs \<and>
     CompareWithDensity p fork 9 (PreferredWithDensity p cs fork 9) (PreferredWithDensity p (rev cs) fork 9) = 0)"
proof -
  let ?cs = "[Some (example_tip 5 [11, 12]), None]"
  have ne: "?cs \<noteq> []" by simp
  have m: "mset (rev ?cs) = mset ?cs" by (rule mset_rev)
  show ?thesis using ne preferred_chain_order_independent[OF ne] m unfolding Let_def by blast
qed

end
