(* ===== verification/GenesisRule.thy ===== *)
theory GenesisRule
  imports Selection "HOL-Library.Signed_Division"
begin

text \<open>
  The Ouroboros Genesis rule on chain fragments (\<open>consensus/genesis/genesis.go\<close>): the
  length of the genesis window, the validated selector, and its comparison, which is another
  interpretation of \<open>go_comparator\<close>.
\<close>

datatype genesis_error =
    GenesisZeroSecurityParam | GenesisCoeffMissing | GenesisCoeffOutside rat
  | GenesisWindowOverflow u64 rat | GenesisWindowMismatch u64 u64

definition ComputeGenesisWindow :: "u64 \<Rightarrow> rat option \<Rightarrow> genesis_error + u64" where
  "ComputeGenesisWindow k activeSlotCoeff =
     (if k = 0 then Inl GenesisZeroSecurityParam
      else case activeSlotCoeff of
          None \<Rightarrow> Inl GenesisCoeffMissing
        | Some f \<Rightarrow>
            if f \<le> 0 \<or> 1 < f then Inl (GenesisCoeffOutside f)
            else let window = of_int (3 * uint k) / f;
                     (num, denom) = quotient_of window;
                     result = num sdiv denom; remainder = num smod denom;
                     result = (if remainder \<noteq> 0 then result + 1 else result)
              in if 0 \<le> result \<and> result < 2 ^ 64 then Inr (word_of_int result)
                 else Inl (GenesisWindowOverflow k f))"

record GenesisConfig =
  gc_SecurityParam :: u64
  gc_ActiveSlotCoeff :: "rat option"
  gc_GenesisWindow :: u64

definition NewGenesisSelector :: "GenesisConfig \<Rightarrow> genesis_error + GenesisConfig" where
  "NewGenesisSelector config =
     rbind (ComputeGenesisWindow (gc_SecurityParam config) (gc_ActiveSlotCoeff config)) (\<lambda>computedWindow.
       if gc_GenesisWindow config = 0 then Inr (config\<lparr>gc_GenesisWindow := computedWindow\<rparr>)
       else if gc_GenesisWindow config \<noteq> computedWindow
       then Inl (GenesisWindowMismatch (gc_GenesisWindow config) computedWindow)
       else Inr config)"

text \<open>The interface \<open>ChainFragment\<close>.\<close>

record chain_fragment =
  cf_IntersectionSlot :: u64
  cf_TipSlot :: u64
  cf_BlockCount :: u64
  cf_BlockCountInWindow :: "u64 \<Rightarrow> u64"

definition genesis_Compare :: "GenesisConfig \<Rightarrow> chain_fragment \<Rightarrow> chain_fragment \<Rightarrow> int" where
  "genesis_Compare g a b =
     (let blocksA = cf_BlockCountInWindow a (gc_GenesisWindow g);
          blocksB = cf_BlockCountInWindow b (gc_GenesisWindow g) in
      if blocksA \<noteq> blocksB then (if blocksB < blocksA then 1 else - 1)
      else let totalA = cf_BlockCount a; totalB = cf_BlockCount b in
        if totalA \<noteq> totalB then (if totalB < totalA then 1 else - 1) else 0)"

definition genesis_Preferred :: "GenesisConfig \<Rightarrow> chain_fragment list \<Rightarrow> chain_fragment option" where
  "genesis_Preferred g candidates = selectPreferred (genesis_Compare g) candidates"

definition ShouldUseGenesis :: "u64 \<Rightarrow> u64 \<Rightarrow> u64 \<Rightarrow> bool" where
  "ShouldUseGenesis localTipSlot networkTipSlot syncThreshold =
     (if networkTipSlot \<le> localTipSlot then False else syncThreshold < networkTipSlot - localTipSlot)"

record SimpleChainFragment =
  scf_Intersection :: u64
  scf_Tip :: u64
  scf_Blocks :: u64

text \<open>The product of a block count and a proportion below one is finite and below \<open>2^64\<close>, so the
  conversion truncates.\<close>

definition SimpleChainFragment_BlockCountInWindow :: "SimpleChainFragment \<Rightarrow> u64 \<Rightarrow> u64" where
  "SimpleChainFragment_BlockCountInWindow f windowSlots =
     (if scf_Tip f \<le> scf_Intersection f then 0
      else let fragmentSlots = scf_Tip f - scf_Intersection f in
        if fragmentSlots \<le> windowSlots then scf_Blocks f
        else case f64_mul (f64_of_u64 (scf_Blocks f))
                    (f64_div (f64_of_u64 windowSlots) (f64_of_u64 fragmentSlots)) of
            Fin v \<Rightarrow> word_of_int \<lfloor>v\<rfloor>
          | _ \<Rightarrow> 0)"

definition genesis_Density :: "u64 \<Rightarrow> u64 \<Rightarrow> float64" where
  "genesis_Density blocks slots =
     (if slots = 0 then Fin 0 else f64_div (f64_of_u64 blocks) (f64_of_u64 slots))"

subsection \<open>The window is a ceiling\<close>

lemma quo_rem_ceiling:
  assumes "0 \<le> n" "0 < d"
  shows "(if n smod d \<noteq> 0 then n sdiv d + 1 else n sdiv d) = \<lceil>of_int n / (of_int d :: rat)\<rceil>"
proof -
  have q: "n sdiv d = n div d" "n smod d = n mod d" using assms by (simp_all add: sdiv_nonneg smod_nonneg)
  have "\<lceil>of_int n / (of_int d :: rat)\<rceil> = - ((- n) div d)"
    by (rule ceiling_divide_eq_div)
  also have "\<dots> = (if n mod d \<noteq> 0 then n div d + 1 else n div d)"
    using zdiv_zminus1_eq_if[of d n] assms(2) by auto
  finally show ?thesis by (simp add: q)
qed

lemma window_nonneg: "0 < f \<Longrightarrow> 0 \<le> of_int (3 * uint (k :: u64)) / (f :: rat)"
proof -
  have "(0 :: rat) \<le> of_int (3 * uint k)" unfolding of_int_0_le_iff by simp
  then show "0 < f \<Longrightarrow> ?thesis" by (rule divide_nonneg_pos)
qed

lemma ComputeGenesisWindow_eq:
  assumes "k \<noteq> 0" "0 < f" "f \<le> 1"
  shows "ComputeGenesisWindow k (Some f) =
    (let w = \<lceil>of_int (3 * uint k) / f\<rceil> in
     if w < 2 ^ 64 then Inr (word_of_int w) else Inl (GenesisWindowOverflow k f))"
proof -
  let ?q = "of_int (3 * uint k) / f"
  obtain n d where nd: "quotient_of ?q = (n, d)" by (cases "quotient_of ?q")
  have d: "0 < d" by (rule quotient_of_denom_pos[OF nd])
  have q: "?q = of_int n / of_int d" by (rule quotient_of_div[OF nd])
  have pos: "0 \<le> ?q" using assms(2) by (rule window_nonneg)
  then have n: "0 \<le> n" using d unfolding q by (simp add: zero_le_divide_iff)
  have r: "(if n smod d \<noteq> 0 then n sdiv d + 1 else n sdiv d) = \<lceil>?q\<rceil>"
    unfolding quo_rem_ceiling[OF n d] q ..
  have "0 \<le> \<lceil>?q\<rceil>" using pos by linarith
  then show ?thesis
    unfolding ComputeGenesisWindow_def option.case Let_def nd prod.case r using assms by auto
qed

subsection \<open>The comparison\<close>

interpretation genesis: go_comparator "genesis_Compare g" for g
proof (rule key_comparator)
  fix a b
  show "genesis_Compare g a b = key_cmp (cf_BlockCountInWindow a (gc_GenesisWindow g), cf_BlockCount a)
      (cf_BlockCountInWindow b (gc_GenesisWindow g), cf_BlockCount b)"
    by (auto simp: genesis_Compare_def Let_def key_cmp_def)
qed

subsection \<open>Properties\<close>

text \<open>The genesis window is the ceiling of \<open>3k/f\<close>, exactly: the computation succeeds if and only
  if \<open>k\<close> is positive, \<open>f\<close> lies in \<open>(0, 1]\<close> and the ceiling fits \<open>uint64\<close>, and then returns it.\<close>

lemma genesis_window_is_ceiling:
  "ComputeGenesisWindow k c = Inr w \<longleftrightarrow>
     (\<exists>f. c = Some f \<and> k \<noteq> 0 \<and> 0 < f \<and> f \<le> 1 \<and> uint w = \<lceil>of_int (3 * uint k) / f\<rceil>)"
proof (cases "\<exists>f. c = Some f \<and> k \<noteq> 0 \<and> 0 < f \<and> f \<le> 1")
  case True
  then obtain f where f: "c = Some f" "k \<noteq> 0" "0 < f" "f \<le> 1" by blast
  let ?w = "\<lceil>of_int (3 * uint k) / f\<rceil>"
  have "0 \<le> of_int (3 * uint k) / f" using f(3) by (rule window_nonneg)
  then have pos: "0 \<le> ?w" by linarith
  have "word_of_int ?w = w \<longleftrightarrow> uint w = ?w" if "?w < 2 ^ 64"
    using that pos by (auto simp: word_uint_eq_iff uint_word_of_int)
  moreover have "uint w < 2 ^ 64" using uint_bounded[of w] by simp
  ultimately show ?thesis using f by (auto simp: ComputeGenesisWindow_eq Let_def)
next
  case False
  then show ?thesis by (auto simp: ComputeGenesisWindow_def not_le not_less split: option.splits if_splits)
qed

text \<open>C25: A selector is built only with the computed window, whether configured or not, and its
  scan returns a fragment that no candidate beats, independently of their order.\<close>

theorem genesis_selector_sound:
  assumes "NewGenesisSelector config = Inr g" and "candidates \<noteq> []"
  shows "ComputeGenesisWindow (gc_SecurityParam config) (gc_ActiveSlotCoeff config) = Inr (gc_GenesisWindow g) \<and>
    (\<exists>r. genesis_Preferred g candidates = Some r \<and> r \<in> set candidates \<and>
      (\<forall>c \<in> set candidates. 0 \<le> genesis_Compare g r c) \<and>
      (\<forall>s. mset candidates' = mset candidates \<and> genesis_Preferred g candidates' = Some s \<longrightarrow>
        genesis_Compare g r s = 0))"
proof -
  have "ComputeGenesisWindow (gc_SecurityParam config) (gc_ActiveSlotCoeff config) = Inr (gc_GenesisWindow g)"
    using assms(1) by (auto simp: NewGenesisSelector_def split: if_splits)
  moreover obtain r where r: "genesis_Preferred g candidates = Some r" "r \<in> set candidates"
      "\<forall>c \<in> set candidates. 0 \<le> genesis_Compare g r c"
    using genesis.select_best[OF assms(2)] by (auto simp: genesis_Preferred_def)
  moreover have "genesis_Compare g r s = 0"
    if "mset candidates' = mset candidates" "genesis_Preferred g candidates' = Some s" for s
    using genesis.select_order_independent[of candidates candidates' g r s] that r(1)
    by (simp add: genesis_Preferred_def)
  ultimately show ?thesis by blast
qed

definition example_genesis_config :: GenesisConfig where
  "example_genesis_config = \<lparr>gc_SecurityParam = 2160, gc_ActiveSlotCoeff = Some (1 / 20), gc_GenesisWindow = 0\<rparr>"

definition example_fragment :: "u64 \<Rightarrow> chain_fragment" where
  "example_fragment n = \<lparr>cf_IntersectionSlot = 0, cf_TipSlot = 100, cf_BlockCount = n,
     cf_BlockCountInWindow = (\<lambda>w. n)\<rparr>"

theorem genesis_selector_sound_witness:
  "\<exists>g r. NewGenesisSelector example_genesis_config = Inr g \<and> gc_GenesisWindow g = 129600 \<and>
     genesis_Preferred g [example_fragment 3, example_fragment 5] = Some r"
proof -
  let ?cs = "[example_fragment 3, example_fragment 5]"
  have w: "ComputeGenesisWindow 2160 (Some (1 / 20)) = Inr 129600"
    by (simp add: ComputeGenesisWindow_eq)
  then obtain g where g: "NewGenesisSelector example_genesis_config = Inr g"
    by (simp add: NewGenesisSelector_def example_genesis_config_def)
  have ne: "?cs \<noteq> []" by simp
  show ?thesis using g genesis_selector_sound[OF g ne, of ?cs] w by (auto simp: example_genesis_config_def)
qed

end
