(* ===== verification/E34.thy ===== *)
theory E34
  imports Complex_Main Prelude
begin

text \<open>
  The finite fixed-point arithmetic of \<open>consensus/e34.go\<close>. A value is an integer scaled by
  \<open>10^34\<close>; every product and quotient is floored. \<open>big.Int\<close> destinations are returned as
  values: each Go function writes only its own \<open>dst\<close>, and \<open>e34FromRatio\<close> saves an aliased
  denominator, so the value semantics is the function's. Loops with an iteration budget
  recurse on the iterations that remain; the two search loops of \<open>e34Ln\<close> have no budget and
  are partial functions, \<open>None\<close> meaning that the loop never ends.
\<close>

subsection \<open>Constants and errors\<close>

datatype e34_error = E34DivisionByZero | E34LogNonPositive | E34FractionNegative

definition e34Scale :: int where
  "e34Scale = 10 ^ 34"

definition e34Epsilon :: int where
  "e34Epsilon = 10 ^ 10"

subsection \<open>Division, multiplication and powers\<close>

definition e34FloorQuotient :: "int \<Rightarrow> int \<Rightarrow> e34_error + int" where
  "e34FloorQuotient numerator denominator =
     (if denominator = 0 then Inl E34DivisionByZero
      else let (n, d) = (if denominator < 0 then (- numerator, - denominator)
                         else (numerator, denominator))
           in if 0 \<le> n then Inr (n sdiv d)
              else let q = n sdiv d; r = n smod d
                   in Inr (if r < 0 then q - 1 else q))"

definition e34FromRatio :: "int \<Rightarrow> int \<Rightarrow> e34_error + int" where
  "e34FromRatio numerator denominator = e34FloorQuotient (numerator * e34Scale) denominator"

text \<open>\<open>e34Mul\<close> drops the quotient's error, which the positive scale rules out; the
  destination then keeps the unscaled product.\<close>

definition e34Mul :: "int \<Rightarrow> int \<Rightarrow> int" where
  "e34Mul a b = (case e34FloorQuotient (a * b) e34Scale of Inl _ \<Rightarrow> a * b | Inr q \<Rightarrow> q)"

definition e34Div :: "int \<Rightarrow> int \<Rightarrow> e34_error + int" where
  "e34Div a b = e34FromRatio a b"

function e34Power :: "int \<Rightarrow> int \<Rightarrow> e34_error + int" where
  "e34Power base exponent =
     (if exponent < 0 then
        rbind (e34Power base (- exponent)) (\<lambda>pw. e34Div e34Scale pw)
      else if exponent = 0 then Inr e34Scale
      else if even exponent then
        rbind (e34Power base (exponent div 2)) (\<lambda>pw. Inr (e34Mul pw pw))
      else
        rbind (e34Power base (exponent - 1)) (\<lambda>pw. Inr (e34Mul base pw)))"
  by pat_completeness auto
termination
  by (relation "measure (\<lambda>(b, e). if e < 0 then 2 * nat (- e) + 1 else 2 * nat e)") auto

declare e34Power.simps [simp del]

subsection \<open>Exponential\<close>

fun e34ExpLoop :: "nat \<Rightarrow> int \<Rightarrow> int \<Rightarrow> int \<Rightarrow> int \<Rightarrow> e34_error + int" where
  "e34ExpLoop 0 x prev acc divisor = Inr acc"
| "e34ExpLoop (Suc n) x prev acc divisor =
     rbind (e34Div (e34Mul prev x) divisor) (\<lambda>next.
       if \<bar>next\<bar> < e34Epsilon then Inr acc
       else e34ExpLoop n x next (acc + next) (divisor + e34Scale))"

function e34ExpWithBudget :: "int \<Rightarrow> int \<Rightarrow> e34_error + int" where
  "e34ExpWithBudget v budget =
     (if v = 0 then Inr e34Scale
      else if v < 0 then
        rbind (e34ExpWithBudget (- v) budget) (\<lambda>result. e34Div e34Scale result)
      else let n0 = v sdiv e34Scale; remainder = v smod e34Scale;
               n = (if remainder \<noteq> 0 then n0 + 1 else n0)
           in rbind (e34Div v (n * e34Scale)) (\<lambda>x.
                rbind (e34ExpLoop (nat (budget - 1)) x e34Scale e34Scale e34Scale) (\<lambda>acc.
                  e34Power acc n)))"
  by pat_completeness auto
termination
  by (relation "measure (\<lambda>(v, b). if v < 0 then 1 else 0)") auto

declare e34ExpWithBudget.simps [simp del]

definition e34Exp :: "int \<Rightarrow> e34_error + int" where
  "e34Exp v = e34ExpWithBudget v 1000"

subsection \<open>Logarithm\<close>

text \<open>The bracketing loop squares the bounds until they enclose \<open>v\<close>.\<close>

partial_function (option) e34LnBracket ::
  "int \<Rightarrow> int \<Rightarrow> int \<Rightarrow> int \<Rightarrow> int \<Rightarrow> (int \<times> int) option" where
  [code]: "e34LnBracket v lowerValue upperValue lower upper =
     (if v < lowerValue \<or> upperValue < v
      then e34LnBracket v (e34Mul lowerValue lowerValue) (e34Mul upperValue upperValue)
             (2 * lower) (2 * upper)
      else Some (lower, upper))"

text \<open>The bisection loop narrows the integral part of the logarithm to a unit interval.\<close>

partial_function (option) e34LnBisect ::
  "int \<Rightarrow> int \<Rightarrow> int \<Rightarrow> int \<Rightarrow> (e34_error + int) option" where
  [code]: "e34LnBisect e v lower upper =
     (let distance = upper - lower in
      if distance = 1 then Some (Inr lower)
      else let mid = lower + distance div 2 in
        case e34Power e mid of
          Inl err \<Rightarrow> Some (Inl err)
        | Inr pw \<Rightarrow> if v < pw then e34LnBisect e v lower mid
                       else e34LnBisect e v mid upper)"

text \<open>The continued fraction of \<open>ln (1 + r)\<close>; \<open>n\<close> counts the depths left before \<open>budget\<close>.\<close>

fun e34LnCFLoop ::
  "nat \<Rightarrow> nat \<Rightarrow> int \<Rightarrow> int \<Rightarrow> int \<Rightarrow> int \<Rightarrow> int \<Rightarrow> int \<Rightarrow> e34_error + int" where
  "e34LnCFLoop n depth r aOlder bOlder aPrev bPrev previous =
     (let coefficient = (if 0 < depth then r * (int ((depth + 1) div 2))\<^sup>2 else r);
          denominator = int (depth + 1) * e34Scale;
          a = e34Mul denominator aPrev + e34Mul coefficient aOlder;
          b = e34Mul denominator bPrev + e34Mul coefficient bOlder
      in rbind (e34Div a b) (\<lambda>convergent.
           if n = 0 \<or> (0 < depth \<and> \<bar>previous - convergent\<bar> < e34Epsilon)
           then Inr convergent
           else e34LnCFLoop (n - 1) (depth + 1) r aPrev bPrev a b convergent))"

declare e34LnCFLoop.simps [simp del]

definition e34LnCF :: "int \<Rightarrow> nat \<Rightarrow> e34_error + int" where
  "e34LnCF r budget =
     (if r < 0 then Inl E34FractionNegative
      else e34LnCFLoop budget 0 r e34Scale 0 0 e34Scale 0)"

definition e34LnFinish :: "int \<Rightarrow> int \<Rightarrow> int \<Rightarrow> e34_error + int" where
  "e34LnFinish e v lower =
     rbind (e34Power e lower) (\<lambda>pw.
       rbind (e34Div v pw) (\<lambda>r.
         rbind (e34LnCF (r - e34Scale) 1000) (\<lambda>fraction.
           Inr (lower * e34Scale + fraction))))"

definition e34Ln :: "int \<Rightarrow> (e34_error + int) option" where
  "e34Ln v =
     (if v \<le> 0 then Some (Inl E34LogNonPositive)
      else case e34Exp e34Scale of
        Inl err \<Rightarrow> Some (Inl err)
      | Inr e \<Rightarrow>
        (case e34Div e34Scale e of
           Inl err \<Rightarrow> Some (Inl err)
         | Inr lowerValue \<Rightarrow>
           Option.bind (e34LnBracket v lowerValue e (- 1) 1) (\<lambda>(lower, upper).
             Option.bind (e34LnBisect e v lower upper) (\<lambda>res.
               Some (rbind res (\<lambda>low. e34LnFinish e v low))))))"

subsection \<open>Bounded comparison with the exponential\<close>

datatype e34Comparison = e34Above | e34Below | e34MaxReached

fun e34CompareLoop ::
  "nat \<Rightarrow> int \<Rightarrow> int \<Rightarrow> int \<Rightarrow> int \<Rightarrow> int \<Rightarrow> int \<Rightarrow> e34_error + (e34Comparison \<times> int \<times> int)" where
  "e34CompareLoop 0 iteration q x acc errTerm divisor = Inr (e34MaxReached, acc, 1000)"
| "e34CompareLoop (Suc n) iteration q x acc errTerm divisor =
     (let divisor' = divisor + e34Scale in
      rbind (e34FloorQuotient (errTerm * x) e34Scale) (\<lambda>nextErr0.
      rbind (e34FloorQuotient (nextErr0 * e34Scale) divisor') (\<lambda>nextErr.
        let acc' = acc + errTerm; errorBound = \<bar>nextErr * 3\<bar> in
        if acc' + errorBound \<le> q then Inr (e34Above, acc', iteration)
        else if q < acc' - errorBound then Inr (e34Below, acc', iteration)
        else e34CompareLoop n (iteration + 1) q x acc' nextErr divisor')))"

definition e34Compare :: "int \<Rightarrow> int \<Rightarrow> e34_error + (e34Comparison \<times> int \<times> int)" where
  "e34Compare q x = e34CompareLoop 1000 1 q x e34Scale x e34Scale"

subsection \<open>The operations as floor arithmetic\<close>

lemma e34Scale_pos [simp]: "0 < e34Scale" "e34Scale \<noteq> 0" "0 \<le> e34Scale"
  by (simp_all add: e34Scale_def)

lemma e34FloorQuotient_div: "d \<noteq> 0 \<Longrightarrow> e34FloorQuotient n d = Inr (n div d)"
proof -
  assume d: "d \<noteq> 0"
  have pos: "(if 0 \<le> a then Inr (a sdiv b) else let q = a sdiv b; r = a smod b
       in Inr (if r < 0 then q - 1 else q)) = (Inr (a div b) :: e34_error + int)"
    if "0 < b" for a b :: int
  proof (cases "0 \<le> a")
    case True
    with that show ?thesis by (simp add: sdiv_nonneg)
  next
    case False
    then have a: "a < 0" by simp
    have m: "0 \<le> (- a) mod b" using that by simp
    have "a div b = (if (- a) mod b = 0 then - ((- a) div b) else - ((- a) div b) - 1)"
      using zdiv_zminus1_eq_if[of b "- a"] that by simp
    moreover have "(- ((- a) mod b) < 0) = ((- a) mod b \<noteq> 0)" using m by linarith
    ultimately show ?thesis using a that
      by (simp add: sdiv_neg smod_neg Let_def)
  qed
  show ?thesis
  proof (cases "d < 0")
    case True
    then show ?thesis using pos[of "- d" "- n"] by (simp add: e34FloorQuotient_def)
  next
    case False
    with d show ?thesis using pos[of d n] by (simp add: e34FloorQuotient_def)
  qed
qed

lemma e34FloorQuotient_0 [simp]: "e34FloorQuotient n 0 = Inl E34DivisionByZero"
  by (simp add: e34FloorQuotient_def)

lemma e34Mul_eq: "e34Mul a b = a * b div e34Scale"
  by (simp add: e34Mul_def e34FloorQuotient_div)

lemma e34Div_eq: "e34Div a b = (if b = 0 then Inl E34DivisionByZero else Inr (a * e34Scale div b))"
  by (simp add: e34Div_def e34FromRatio_def e34FloorQuotient_div)

lemma e34Mul_scale [simp]: "e34Mul e34Scale b = b" "e34Mul a e34Scale = a"
  by (simp_all add: e34Mul_eq)

lemma e34Mul_nonneg [simp]: "0 \<le> a \<Longrightarrow> 0 \<le> b \<Longrightarrow> 0 \<le> e34Mul a b"
  by (simp add: e34Mul_eq pos_imp_zdiv_nonneg_iff)

lemma e34Mul_le: "e34Mul a b * e34Scale \<le> a * b"
  by (simp add: e34Mul_eq int_div_mult_le)

lemma e34Mul_ge_left: "0 \<le> a \<Longrightarrow> k * e34Scale \<le> b \<Longrightarrow> k * a \<le> e34Mul a b"
proof -
  assume a: "0 \<le> a" and b: "k * e34Scale \<le> b"
  have "(k * a) * e34Scale \<le> a * b" using mult_left_mono[OF b a] by (simp add: algebra_simps)
  then show ?thesis by (simp add: e34Mul_eq int_le_div_iff)
qed

subsection \<open>Powers\<close>

lemma e34Power_0 [simp]: "e34Power b 0 = Inr e34Scale"
  by (simp add: e34Power.simps)

lemma e34Power_1 [simp]: "e34Power b 1 = Inr b"
  by (simp add: e34Power.simps[of b 1])

lemma e34Power_neg: "n < 0 \<Longrightarrow> e34Power b n = rbind (e34Power b (- n)) (\<lambda>pw. e34Div e34Scale pw)"
  by (simp add: e34Power.simps[of b n])

lemma e34Power_even: "0 < n \<Longrightarrow> even n \<Longrightarrow>
    e34Power b n = rbind (e34Power b (n div 2)) (\<lambda>pw. Inr (e34Mul pw pw))"
  by (simp add: e34Power.simps[of b n])

lemma e34Power_odd: "0 < n \<Longrightarrow> odd n \<Longrightarrow>
    e34Power b n = rbind (e34Power b (n - 1)) (\<lambda>pw. Inr (e34Mul b pw))"
  by (simp add: e34Power.simps[of b n])

text \<open>A nonnegative power never exceeds the exact one: each product is floored.\<close>

lemma e34Power_bounds:
  assumes "0 \<le> b" and "0 \<le> n"
  shows "\<exists>p. e34Power b n = Inr p \<and> 0 \<le> p \<and> p * e34Scale ^ nat n \<le> b ^ nat n * e34Scale"
  using assms
proof (induction b n rule: e34Power.induct)
  case (1 b n)
  consider "n = 0" | "0 < n" "even n" | "0 < n" "odd n" using "1.prems" by fastforce
  then show ?case
  proof cases
    case 1
    then show ?thesis by simp
  next
    case 2
    have "n div 2 \<ge> 0" using 2 by simp
    then obtain p where p: "e34Power b (n div 2) = Inr p" "0 \<le> p"
        "p * e34Scale ^ nat (n div 2) \<le> b ^ nat (n div 2) * e34Scale"
      using "1.IH"(2) "1.prems" 2 by auto
    let ?h = "nat (n div 2)" and ?S = e34Scale
    have n: "nat n = ?h + ?h" using 2 by (auto elim: evenE)
    have "(p * ?S ^ ?h) * (p * ?S ^ ?h) \<le> (b ^ ?h * ?S) * (b ^ ?h * ?S)"
      using p "1.prems" by (intro mult_mono[OF p(3) p(3)]) simp_all
    then have "p * p * ?S ^ nat n \<le> b ^ nat n * ?S * ?S"
      by (simp add: n power_add algebra_simps)
    moreover have "e34Mul p p * ?S * ?S ^ nat n \<le> p * p * ?S ^ nat n"
      using e34Mul_le[of p p] by (intro mult_right_mono) auto
    ultimately have "e34Mul p p * ?S * ?S ^ nat n \<le> b ^ nat n * ?S * ?S" by linarith
    then have "(e34Mul p p * ?S ^ nat n) * ?S \<le> (b ^ nat n * ?S) * ?S"
      by (simp only: ac_simps)
    then have "e34Mul p p * ?S ^ nat n \<le> b ^ nat n * ?S"
      using e34Scale_pos(1) mult_le_cancel_right_pos by blast
    with p(1,2) e34Power_even[OF 2, of b] show ?thesis by simp
  next
    case 3
    have "0 \<le> n - 1" using 3 by simp
    then obtain p where p: "e34Power b (n - 1) = Inr p" "0 \<le> p"
        "p * e34Scale ^ nat (n - 1) \<le> b ^ nat (n - 1) * e34Scale"
      using "1.IH"(3) "1.prems" 3 by auto
    let ?h = "nat (n - 1)" and ?S = e34Scale
    have n: "nat n = Suc ?h" using 3 by simp
    have "b * (p * ?S ^ ?h) \<le> b * (b ^ ?h * ?S)"
      using p "1.prems" by (intro mult_left_mono) auto
    moreover have "e34Mul b p * ?S * ?S ^ ?h \<le> b * p * ?S ^ ?h"
      using e34Mul_le[of b p] by (intro mult_right_mono) auto
    ultimately have "e34Mul b p * ?S * ?S ^ ?h \<le> b * (b ^ ?h * ?S)"
      by (simp only: mult.assoc)
    then have "e34Mul b p * ?S ^ nat n \<le> b ^ nat n * ?S"
      by (simp only: n power_Suc ac_simps)
    with p(1,2) e34Power_odd[OF 3, of b] "1.prems" show ?thesis by simp
  qed
qed

lemma e34Power_ge_scale:
  assumes "e34Scale \<le> b" and "0 \<le> n"
  shows "\<exists>p. e34Power b n = Inr p \<and> e34Scale \<le> p"
  using assms
proof (induction b n rule: e34Power.induct)
  case (1 b n)
  have ge: "e34Scale \<le> e34Mul x y" if "e34Scale \<le> x" "e34Scale \<le> y" for x y
    using e34Mul_ge_left[of x 1 y] that order_trans[OF _ that(1), of 0] by simp
  consider "n = 0" | "0 < n" "even n" | "0 < n" "odd n" using "1.prems" by fastforce
  then show ?case
  proof cases
    case 1
    then show ?thesis by simp
  next
    case 2
    then obtain p where "e34Power b (n div 2) = Inr p" "e34Scale \<le> p"
      using "1.IH"(2) "1.prems" by fastforce
    with ge e34Power_even[OF 2, of b] show ?thesis by simp
  next
    case 3
    then obtain p where "e34Power b (n - 1) = Inr p" "e34Scale \<le> p"
      using "1.IH"(3) "1.prems" by fastforce
    with ge e34Power_odd[OF 3, of b] "1.prems" show ?thesis by simp
  qed
qed

text \<open>So a base of at least one has a power at every exponent, negative ones included.\<close>

lemma e34Power_total:
  assumes "e34Scale \<le> b"
  shows "\<exists>p. e34Power b n = Inr p \<and> 0 \<le> p"
proof (cases "n < 0")
  case True
  then obtain p where "e34Power b (- n) = Inr p" "e34Scale \<le> p"
    using e34Power_ge_scale[OF assms, of "- n"] by auto
  moreover from this(2) have "0 < p" by (rule less_le_trans[OF e34Scale_pos(1)])
  ultimately show ?thesis
    using e34Power_neg[OF True, of b] by (simp add: e34Div_eq pos_imp_zdiv_nonneg_iff)
next
  case False
  then obtain p where "e34Power b n = Inr p" "e34Scale \<le> p"
    using e34Power_ge_scale[OF assms, of n] by auto
  moreover from this(2) have "0 \<le> p" by (rule order_trans[OF e34Scale_pos(3)])
  ultimately show ?thesis by simp
qed

subsection \<open>The logarithm terminates\<close>

lemma e34Exp_one: "e34Exp e34Scale = Inr 27182818284590452353602874043083282"
  by code_simp

lemma e34LnBracket_terminates:
  assumes "0 < v" "0 \<le> l" "2 * l \<le> e34Scale" "2 * e34Scale \<le> u"
  shows "\<exists>k. e34LnBracket v l u lo up = Some (2 ^ k * lo, 2 ^ k * up)"
  using assms
proof (induction "nat (l - v) + nat (v - u)" arbitrary: l u lo up rule: less_induct)
  case less
  let ?l = "e34Mul l l" and ?u = "e34Mul u u"
  show ?case
  proof (cases "v < l \<or> u < v")
    case False
    then have "e34LnBracket v l u lo up = Some (2 ^ 0 * lo, 2 ^ 0 * up)"
      by (simp add: e34LnBracket.simps[of v l u])
    then show ?thesis by blast
  next
    case True
    have "2 * ?l * e34Scale \<le> 2 * (l * l)" using e34Mul_le[of l l] by simp
    also have "\<dots> = l * (2 * l)" by simp
    also have "\<dots> \<le> l * e34Scale" using less.prems by (intro mult_left_mono) auto
    finally have l: "2 * ?l \<le> l" using e34Scale_pos(1) mult_le_cancel_right_pos by blast
    have u: "2 * u \<le> ?u" using less.prems e34Scale_pos(1) by (intro e34Mul_ge_left) linarith+
    have lt: "nat (?l - v) + nat (v - ?u) < nat (l - v) + nat (v - u)"
      using True l u less.prems e34Scale_pos(1) by linarith
    have "0 \<le> ?l" "2 * ?l \<le> e34Scale" "2 * e34Scale \<le> ?u"
      using l u less.prems e34Scale_pos(1) by (simp, linarith, linarith)
    then obtain k where "e34LnBracket v ?l ?u (2 * lo) (2 * up)
        = Some (2 ^ k * (2 * lo), 2 ^ k * (2 * up))"
      using less.hyps[OF lt, of "2 * lo" "2 * up"] less.prems(1) by blast
    then have "e34LnBracket v l u lo up = Some (2 ^ Suc k * lo, 2 ^ Suc k * up)"
      using True by (simp add: e34LnBracket.simps[of v l u] ac_simps)
    then show ?thesis by blast
  qed
qed

lemma e34LnBisect_terminates:
  assumes "e34Scale \<le> e" and "lower < upper"
  shows "\<exists>low. e34LnBisect e v lower upper = Some (Inr low) \<and> lower \<le> low \<and> low < upper"
  using assms(2)
proof (induction "nat (upper - lower)" arbitrary: lower upper rule: less_induct)
  case less
  show ?case
  proof (cases "upper - lower = 1")
    case True
    then show ?thesis by (simp add: e34LnBisect.simps[of e v lower upper])
  next
    case False
    let ?mid = "lower + (upper - lower) div 2"
    obtain p where p: "e34Power e ?mid = Inr p" using e34Power_total[OF assms(1)] by blast
    have mid: "lower < ?mid" "?mid < upper" using False less.prems by linarith+
    show ?thesis
    proof (cases "v < p")
      case True
      then obtain low where "e34LnBisect e v lower ?mid = Some (Inr low)" "lower \<le> low" "low < ?mid"
        using less.hyps[of ?mid lower] mid by auto
      with True False p mid show ?thesis
        by (simp add: e34LnBisect.simps[of e v lower upper] Let_def)
    next
      case ge: False
      then obtain low where "e34LnBisect e v ?mid upper = Some (Inr low)" "?mid \<le> low" "low < upper"
        using less.hyps[of upper ?mid] mid by auto
      with ge False p mid show ?thesis
        by (simp add: e34LnBisect.simps[of e v lower upper] Let_def)
    qed
  qed
qed

text \<open>Euler's number and its inverse as the code computes them.\<close>

abbreviation e34E :: int where
  "e34E \<equiv> 27182818284590452353602874043083282"

abbreviation e34InvE :: int where
  "e34InvE \<equiv> 3678794411714423215955237792349248"

lemma e34InvE_eq: "e34Div e34Scale e34E = Inr e34InvE"
  by code_simp

lemma e34E_bounds: "2 * e34Scale \<le> e34E" "2 * e34InvE \<le> e34Scale" "e34Scale \<le> e34E"
  by (simp_all add: e34Scale_def)

lemma e34Ln_unfold:
  assumes "0 < v"
  shows "e34Ln v = Option.bind
     (e34LnBracket v e34InvE e34E (- 1) 1)
     (\<lambda>(lower, upper). Option.bind
       (e34LnBisect e34E v lower upper)
       (\<lambda>res. Some (rbind res (\<lambda>low. e34LnFinish e34E v low))))"
  using assms by (simp add: e34Ln_def e34Exp_one e34InvE_eq)

text \<open>Both search loops end for every positive argument, so the logarithm returns a value or
  an error at every input.\<close>

lemma e34Ln_returns: "\<exists>r. e34Ln v = Some r"
proof (cases "0 < v")
  case False
  then show ?thesis by (simp add: e34Ln_def)
next
  case True
  obtain k where k: "e34LnBracket v e34InvE e34E (- 1) 1
      = Some (2 ^ k * (- 1), 2 ^ k * 1)"
    using e34LnBracket_terminates[OF True _ e34E_bounds(2) e34E_bounds(1), of "- 1" 1] by auto
  have "2 ^ k * (- 1) < (2 ^ k * 1 :: int)" by simp
  then obtain low where "e34LnBisect e34E v (2 ^ k * (- 1)) (2 ^ k * 1) = Some (Inr low)"
    using e34LnBisect_terminates[OF e34E_bounds(3)] by blast
  with k show ?thesis by (simp add: e34Ln_unfold[OF True])
qed

subsection \<open>The logarithm on its main domain\<close>

lemma e34Mul_int_scale [simp]: "e34Mul (k * e34Scale) b = k * b"
  by (simp add: e34Mul_eq mult.assoc mult.left_commute[of e34Scale])

text \<open>With a nonnegative argument the continued fraction never divides by zero: its
  denominators stay positive.\<close>

lemma e34LnCFLoop_ok:
  assumes "0 \<le> r" "0 \<le> aOlder" "0 \<le> bOlder" "0 \<le> aPrev" "0 < bPrev"
  shows "\<exists>c. e34LnCFLoop n depth r aOlder bOlder aPrev bPrev previous = Inr c \<and> 0 \<le> c"
  using assms
proof (induction n arbitrary: depth aOlder bOlder aPrev bPrev previous)
  case (0 depth aOlder bOlder aPrev bPrev previous)
  let ?k = "if 0 < depth then r * (int ((depth + 1) div 2))\<^sup>2 else r"
  let ?b = "int (depth + 1) * bPrev + e34Mul ?k bOlder"
  have "0 < int (depth + 1) * bPrev" "0 \<le> e34Mul ?k bOlder" using "0.prems" by simp_all
  then have "0 < ?b" by linarith
  moreover have "0 \<le> int (depth + 1) * aPrev + e34Mul ?k aOlder" using "0.prems" by simp
  ultimately show ?case
    unfolding e34LnCFLoop.simps[of 0] Let_def e34Mul_int_scale e34Div_eq
    by (simp add: pos_imp_zdiv_nonneg_iff)
next
  case (Suc n depth aOlder bOlder aPrev bPrev previous)
  let ?k = "if 0 < depth then r * (int ((depth + 1) div 2))\<^sup>2 else r"
  let ?a = "int (depth + 1) * aPrev + e34Mul ?k aOlder"
  let ?b = "int (depth + 1) * bPrev + e34Mul ?k bOlder"
  have "0 < int (depth + 1) * bPrev" "0 \<le> e34Mul ?k bOlder" using Suc.prems by simp_all
  then have b: "0 < ?b" by linarith
  have a: "0 \<le> ?a" using Suc.prems by simp
  have IH: "\<exists>c. e34LnCFLoop n (depth + 1) r aPrev bPrev ?a ?b p = Inr c \<and> 0 \<le> c" for p
    using Suc.IH[of aPrev bPrev ?a ?b "depth + 1" p] Suc.prems a b by simp
  have "e34LnCFLoop (Suc n) depth r aOlder bOlder aPrev bPrev previous =
      (if 0 < depth \<and> \<bar>previous - ?a * e34Scale div ?b\<bar> < e34Epsilon
       then Inr (?a * e34Scale div ?b)
       else e34LnCFLoop n (depth + 1) r aPrev bPrev ?a ?b (?a * e34Scale div ?b))"
    unfolding e34LnCFLoop.simps[of "Suc n"] Let_def e34Mul_int_scale e34Div_eq
    using b by simp
  then show ?case using IH[of "?a * e34Scale div ?b"] a b
    by (auto simp: pos_imp_zdiv_nonneg_iff)
qed

lemma e34LnCF_ok: "0 \<le> r \<Longrightarrow> \<exists>c. e34LnCF r budget = Inr c \<and> 0 \<le> c"
  by (simp add: e34LnCF_def e34LnCFLoop_ok)

lemma e34LnFinish_ok:
  assumes "e34Power e34E low = Inr p" "0 < p" "p \<le> v"
  shows "\<exists>c. e34LnFinish e34E v low = Inr c \<and> low * e34Scale \<le> c"
proof -
  have "e34Scale \<le> v * e34Scale div p"
    using assms(2,3) by (simp add: int_le_div_iff mult.commute mult_left_mono)
  then obtain c where "e34LnCF (v * e34Scale div p - e34Scale) 1000 = Inr c" "0 \<le> c"
    using e34LnCF_ok[of "v * e34Scale div p - e34Scale" 1000] by auto
  with assms show ?thesis by (simp add: e34LnFinish_def e34Div_eq)
qed

text \<open>Between \<open>1/e\<close> and \<open>e\<close> the first bracket already encloses the argument, the integral
  part is \<open>-1\<close> or \<open>0\<close>, and the logarithm has a value.\<close>

lemma e34Ln_main_domain:
  assumes "e34InvE \<le> v" "v \<le> e34E"
  shows "\<exists>c. e34Ln v = Some (Inr c) \<and> - e34Scale \<le> c"
proof -
  have v: "0 < v" using assms(1) by linarith
  have br: "e34LnBracket v e34InvE e34E (- 1) 1 = Some (- 1, 1)"
    using assms by (simp add: e34LnBracket.simps[of v e34InvE])
  have p: "e34Power e34E (- 1) = Inr e34InvE"
    using e34Power_neg[of "- 1" e34E] e34InvE_eq by simp
  show ?thesis
  proof (cases "v < e34Scale")
    case True
    then have "e34LnBisect e34E v (- 1) 1 = Some (Inr (- 1))"
      by (simp add: e34LnBisect.simps[of _ _ "- 1" 1] e34LnBisect.simps[of _ _ "- 1" 0])
    moreover obtain c where "e34LnFinish e34E v (- 1) = Inr c" "- 1 * e34Scale \<le> c"
      using e34LnFinish_ok[OF p _ assms(1)] by auto
    ultimately show ?thesis using br v by (simp add: e34Ln_unfold)
  next
    case False
    then have "e34LnBisect e34E v (- 1) 1 = Some (Inr 0)"
      by (simp add: e34LnBisect.simps[of _ _ "- 1" 1] e34LnBisect.simps[of _ _ 0 1])
    moreover obtain c where "e34LnFinish e34E v 0 = Inr c" "0 * e34Scale \<le> c"
      using e34LnFinish_ok[of 0 e34Scale v] False by auto
    moreover have "- e34Scale \<le> c" using \<open>0 * e34Scale \<le> c\<close> e34Scale_pos(1) by linarith
    ultimately show ?thesis using br v by (simp add: e34Ln_unfold)
  qed
qed

subsection \<open>The bounded comparison\<close>

lemma e34CompareLoop_Suc:
  assumes "0 \<le> divisor"
  shows "e34CompareLoop (Suc n) i q x acc errTerm divisor =
    (let nextErr = (errTerm * x div e34Scale) * e34Scale div (divisor + e34Scale);
         acc' = acc + errTerm; errorBound = \<bar>nextErr * 3\<bar> in
     if acc' + errorBound \<le> q then Inr (e34Above, acc', i)
     else if q < acc' - errorBound then Inr (e34Below, acc', i)
     else e34CompareLoop n (i + 1) q x acc' nextErr (divisor + e34Scale))"
proof -
  have "divisor + e34Scale \<noteq> 0" using assms e34Scale_pos(1) by linarith
  then show ?thesis by (simp add: Let_def e34FloorQuotient_div)
qed

lemma e34CompareLoop_ok: "0 \<le> divisor \<Longrightarrow> is_ok (e34CompareLoop n i q x acc errTerm divisor)"
proof (induction n arbitrary: i acc errTerm divisor)
  case (Suc n)
  have "0 \<le> divisor + e34Scale" using Suc.prems e34Scale_pos(1) by linarith
  then show ?case
    unfolding e34CompareLoop_Suc[OF Suc.prems] Let_def using Suc.IH by simp
qed simp

lemma e34Compare_ok: "is_ok (e34Compare q x)"
  by (simp add: e34Compare_def e34CompareLoop_ok)

text \<open>The running sums do not depend on \<open>q\<close>, so a smaller \<open>q\<close> is below whenever a larger
  one is.\<close>

lemma e34CompareLoop_mono:
  assumes "0 \<le> divisor" "q \<le> q'"
    and "e34CompareLoop n i q' x acc errTerm divisor = Inr (e34Below, a, it)"
  shows "\<exists>a it. e34CompareLoop n i q x acc errTerm divisor = Inr (e34Below, a, it)"
  using assms
proof (induction n arbitrary: i acc errTerm divisor)
  case (Suc n)
  have d: "0 \<le> divisor + e34Scale" using Suc.prems e34Scale_pos(1) by linarith
  show ?case
    using Suc.prems Suc.IH[OF d] unfolding e34CompareLoop_Suc[OF Suc.prems(1)] Let_def
    by (auto split: if_splits)
qed simp

lemma e34Compare_mono:
  "q \<le> q' \<Longrightarrow> e34Compare q' x = Inr (e34Below, a, it) \<Longrightarrow>
     \<exists>a it. e34Compare q x = Inr (e34Below, a, it)"
  unfolding e34Compare_def by (rule e34CompareLoop_mono) auto

lemma e34Compare_zero: "e34Scale \<le> q \<Longrightarrow> e34Compare q 0 = Inr (e34Above, e34Scale, 1)"
proof -
  assume q: "e34Scale \<le> q"
  have s: "(1000 :: nat) = Suc 999" by simp
  show ?thesis unfolding e34Compare_def s e34CompareLoop_Suc[OF e34Scale_pos(3)]
    using q by (simp add: Let_def)
qed

lemma first_error: "(x * x div e34Scale) * e34Scale div (e34Scale + e34Scale) = x * x div e34Scale div 2"
proof -
  have "e34Scale + e34Scale = e34Scale * 2" "(x * x div e34Scale) * e34Scale = e34Scale * (x * x div e34Scale)" by simp_all
  then show ?thesis by (simp only: div_mult_mult1[OF e34Scale_pos(2)])
qed

lemma e34Compare_first:
  "e34Compare q x =
    (let nextErr = x * x div e34Scale div 2; acc' = e34Scale + x; errorBound = \<bar>nextErr * 3\<bar> in
     if acc' + errorBound \<le> q then Inr (e34Above, acc', 1)
     else if q < acc' - errorBound then Inr (e34Below, acc', 1)
     else e34CompareLoop 999 2 q x acc' nextErr (2 * e34Scale))"
proof -
  have s: "(1000 :: nat) = Suc 999" by simp
  show ?thesis
    unfolding e34Compare_def s e34CompareLoop_Suc[OF e34Scale_pos(3)] first_error one_add_one mult_2 by (rule refl)
qed

text \<open>Every running sum stays below the exponential series, so a \<^term>\<open>e34Below\<close> verdict
  is sound for the real exponential.\<close>

lemma exp_partial_sum_le: "0 \<le> (y :: real) \<Longrightarrow> (\<Sum>j\<le>k. y ^ j / fact j) \<le> exp y"
proof -
  assume y: "0 \<le> y"
  have "(\<Sum>j\<le>k. y ^ j /\<^sub>R fact j) \<le> (\<Sum>j. y ^ j /\<^sub>R fact j)"
    using y by (intro sum_le_suminf summable_exp_generic) auto
  then show ?thesis by (simp add: exp_def divide_inverse mult.commute)
qed

lemma e34_next_error_le:
  assumes "0 \<le> x" "0 \<le> errTerm"
    and "real_of_int errTerm \<le> e34Scale * ((x / e34Scale) ^ Suc k / fact (Suc k))"
  shows "real_of_int ((errTerm * x div e34Scale) * e34Scale div (int (Suc k) * e34Scale + e34Scale))
      \<le> e34Scale * ((x / e34Scale) ^ Suc (Suc k) / fact (Suc (Suc k)))"
proof -
  let ?S = "real_of_int e34Scale" and ?n = "errTerm * x div e34Scale"
  have S: "0 < ?S" by simp
  have eq: "int (Suc k) * e34Scale + e34Scale = (int k + 2) * e34Scale"
    by (simp add: algebra_simps)
  have "real_of_int (?n * e34Scale div (int (Suc k) * e34Scale + e34Scale))
      \<le> (?n * ?S) / ((real k + 2) * ?S)"
    unfolding eq using real_of_int_div4[of "?n * e34Scale" "(int k + 2) * e34Scale"] by simp
  also have "\<dots> = real_of_int ?n / (real k + 2)" using S by simp
  also have "\<dots> \<le> (real_of_int errTerm * x / ?S) / (real k + 2)"
    using real_of_int_div4[of "errTerm * x" e34Scale] by (intro divide_right_mono) auto
  also have "\<dots> \<le> (?S * ((x / ?S) ^ Suc k / fact (Suc k))) * x / ?S / (real k + 2)"
    using assms S by (intro divide_right_mono mult_right_mono) auto
  also have "\<dots> = ?S * ((x / ?S) ^ Suc (Suc k) / fact (Suc (Suc k)))"
    using S by (simp add: field_simps)
  finally show ?thesis .
qed

lemma e34CompareLoop_below_exp:
  assumes "0 \<le> x" "divisor = int (Suc k) * e34Scale" "0 \<le> errTerm"
    and "real_of_int errTerm \<le> e34Scale * ((x / e34Scale) ^ Suc k / fact (Suc k))"
    and "real_of_int acc \<le> e34Scale * (\<Sum>j\<le>k. (x / e34Scale) ^ j / fact j)"
    and "e34CompareLoop n i q x acc errTerm divisor = Inr (e34Below, a, it)"
  shows "real_of_int q < e34Scale * exp (x / e34Scale)"
  using assms(2-)
proof (induction n arbitrary: i k acc errTerm divisor)
  case (Suc n)
  let ?S = "real_of_int e34Scale"
  let ?next = "(errTerm * x div e34Scale) * e34Scale div (divisor + e34Scale)"
  have d: "0 \<le> divisor" using Suc.prems(1) by simp
  have acc: "real_of_int (acc + errTerm) \<le> ?S * (\<Sum>j\<le>Suc k. (x / ?S) ^ j / fact j)"
    using Suc.prems(3,4) by (simp add: distrib_left)
  have up: "?S * (\<Sum>j\<le>Suc k. (x / ?S) ^ j / fact j) \<le> ?S * exp (x / ?S)"
    using assms(1) by (intro mult_left_mono exp_partial_sum_le) auto
  have nonneg: "0 \<le> ?next"
    using Suc.prems(2) assms(1) d e34Scale_pos(1) by (simp add: div_int_pos_iff)
  have nxt: "real_of_int ?next \<le> ?S * ((x / ?S) ^ Suc (Suc k) / fact (Suc (Suc k)))"
    unfolding Suc.prems(1) by (rule e34_next_error_le[OF assms(1) Suc.prems(2,3)])
  have div: "divisor + e34Scale = int (Suc (Suc k)) * e34Scale"
    using Suc.prems(1) by (simp add: algebra_simps)
  consider "q < acc + errTerm"
    | "e34CompareLoop n (i + 1) q x (acc + errTerm) ?next (divisor + e34Scale) = Inr (e34Below, a, it)"
    using Suc.prems(5) unfolding e34CompareLoop_Suc[OF d] Let_def by (auto split: if_splits)
  then show ?case
  proof cases
    case 1
    then have "real_of_int q < real_of_int (acc + errTerm)" by (simp only: of_int_less_iff)
    with acc up show ?thesis by linarith
  next
    case 2
    then show ?thesis by (rule Suc.IH[OF div nonneg nxt acc])
  qed
qed simp

lemma e34Compare_below_exp:
  assumes "0 \<le> x" "e34Compare q x = Inr (e34Below, a, it)"
  shows "real_of_int q < e34Scale * exp (x / e34Scale)"
  by (rule e34CompareLoop_below_exp[where k = 0 and errTerm = x and acc = e34Scale
        and divisor = e34Scale and n = 1000 and i = 1])
     (use assms in \<open>auto simp: e34Compare_def\<close>)

subsection \<open>Properties\<close>

text \<open>\<open>e34FloorQuotient\<close>, built from Go's truncating division, is the flooring division
  of the pinned Haskell node at every sign of its operands, and fails exactly on a zero
  denominator.\<close>

lemma floor_quotient_is_div:
  "e34FloorQuotient n d = (if d = 0 then Inl E34DivisionByZero else Inr (n div d))"
  by (simp add: e34FloorQuotient_div)

text \<open>C37: The logarithm terminates on every input: neither the bracketing loop nor the
  bisection, which have no iteration budget, can run forever.\<close>

theorem e34Ln_terminates: "\<exists>r. e34Ln v = Some r"
  by (rule e34Ln_returns)

text \<open>A nonnegative power of a nonnegative base has a value that never exceeds the exact
  power (every product is floored), and a base of at least one has a power at every exponent,
  so the bisection never meets a division by zero.\<close>

lemma e34Power_underestimates:
  assumes "0 \<le> b"
  shows "(0 \<le> n \<longrightarrow> (\<exists>p. e34Power b n = Inr p \<and> p * e34Scale ^ nat n \<le> b ^ nat n * e34Scale)) \<and>
    (e34Scale \<le> b \<longrightarrow> is_ok (e34Power b n))"
  using e34Power_bounds[OF assms, of n] e34Power_total[of b n] by (auto simp: is_ok_ex)

text \<open>A \<^const>\<open>e34Below\<close> verdict is sound for the real exponential: whatever rounding the
  comparison does, \<open>q\<close> is then strictly below \<open>exp x\<close> (both scaled).\<close>

lemma below_implies_less_than_exp:
  assumes "0 \<le> x" and "e34Compare q x = Inr (e34Below, a, it)"
  shows "real_of_int q / e34Scale < exp (x / e34Scale)"
  using e34Compare_below_exp[OF assms] by (simp add: divide_less_eq mult.commute)

end
