(* ===== verification/LRUCache.thy ===== *)
theory LRUCache
  imports Prelude
begin

text \<open>
  The bounded cache of \<open>consensus/eligibility_cache.go\<close>: a map from keys to the elements of
  a \<open>container/list\<close>, most recently used first. Elements are addresses into an explicit
  heap of entries, because the map and the list share them. \<open>mu\<close> only serialises the two
  operations, which the sequence of calls already does here. The abstract cache is the list of entries in
  recency order; \<open>cache_get\<close> and \<open>cache_put\<close> refine its two operations.
\<close>

subsection \<open>The implementation\<close>

record ('k, 's) leaderEligibilityCache =
  entries :: "'k \<rightharpoonup> nat"
  elements :: "nat \<rightharpoonup> 'k \<times> 's"
  order :: "nat list"
  fresh :: nat
  maxSize :: int

definition newLeaderEligibilityCache :: "int \<Rightarrow> ('k, 's) leaderEligibilityCache" where
  "newLeaderEligibilityCache n =
     \<lparr>entries = Map.empty, elements = Map.empty, order = [], fresh = 0, maxSize = n\<rparr>"

text \<open>\<open>list.MoveToFront\<close>, \<open>list.PushFront\<close> and \<open>list.Remove\<close> on the element list.\<close>

definition moveToFront :: "nat \<Rightarrow> nat list \<Rightarrow> nat list" where
  "moveToFront e es = (if e \<in> set es then e # remove1 e es else es)"

definition cache_get ::
  "('k, 's) leaderEligibilityCache \<Rightarrow> 'k \<Rightarrow> 's option \<times> ('k, 's) leaderEligibilityCache" where
  "cache_get c key =
     (case entries c key of
        None \<Rightarrow> (None, c)
      | Some elem \<Rightarrow>
          (map_option snd (elements c elem), c\<lparr>order := moveToFront elem (order c)\<rparr>))"

definition cache_evict :: "('k, 's) leaderEligibilityCache \<Rightarrow> ('k, 's) leaderEligibilityCache" where
  "cache_evict c =
     (if maxSize c < int (length (order c)) then
        (case rev (order c) of
           [] \<Rightarrow> c
         | oldest # _ \<Rightarrow>
             (case elements c oldest of
                None \<Rightarrow> c\<lparr>order := remove1 oldest (order c)\<rparr>
              | Some (oldestKey, _) \<Rightarrow>
                  c\<lparr>order := remove1 oldest (order c),
                    entries := (entries c)(oldestKey := None)\<rparr>))
      else c)"

definition cache_put ::
  "('k, 's) leaderEligibilityCache \<Rightarrow> 'k \<Rightarrow> 's \<Rightarrow> ('k, 's) leaderEligibilityCache" where
  "cache_put c key state =
     (case entries c key of
        Some elem \<Rightarrow>
          c\<lparr>order := moveToFront elem (order c),
            elements := (elements c)(elem := map_option (\<lambda>(k, _). (k, state)) (elements c elem))\<rparr>
      | None \<Rightarrow>
          let elem = fresh c in
          cache_evict (c\<lparr>fresh := Suc elem,
                         elements := (elements c)(elem \<mapsto> (key, state)),
                         entries := (entries c)(key \<mapsto> elem),
                         order := elem # order c\<rparr>))"

subsection \<open>The abstract cache\<close>

definition spec_get :: "'k \<Rightarrow> ('k \<times> 's) list \<Rightarrow> 's option \<times> ('k \<times> 's) list" where
  "spec_get k xs =
     (case map_of xs k of
        None \<Rightarrow> (None, xs)
      | Some s \<Rightarrow> (Some s, (k, s) # filter (\<lambda>p. fst p \<noteq> k) xs))"

definition spec_put :: "nat \<Rightarrow> 'k \<Rightarrow> 's \<Rightarrow> ('k \<times> 's) list \<Rightarrow> ('k \<times> 's) list" where
  "spec_put n k s xs = take n ((k, s) # filter (\<lambda>p. fst p \<noteq> k) xs)"

definition cache_abs :: "('k, 's) leaderEligibilityCache \<Rightarrow> ('k \<times> 's) list" where
  "cache_abs c = List.map_filter (elements c) (order c)"

text \<open>The invariant: the map and the list hold the same elements, each once, every element
  carries the key it is filed under, and the list is within its bound.\<close>

definition cache_inv :: "('k, 's) leaderEligibilityCache \<Rightarrow> bool" where
  "cache_inv c \<longleftrightarrow>
     distinct (order c) \<and> 0 \<le> maxSize c \<and> int (length (order c)) \<le> maxSize c \<and>
     (\<forall>e\<in>set (order c). e < fresh c) \<and>
     (\<forall>e\<in>set (order c). \<exists>k s. elements c e = Some (k, s) \<and> entries c k = Some e) \<and>
     (\<forall>k e. entries c k = Some e \<longrightarrow> e \<in> set (order c) \<and> (\<exists>s. elements c e = Some (k, s)))"

definition cache_lookup :: "('k, 's) leaderEligibilityCache \<Rightarrow> 'k \<Rightarrow> 's option" where
  "cache_lookup c k = map_of (cache_abs c) k"

subsection \<open>Refinement\<close>

lemma cache_invD:
  assumes "cache_inv c"
  shows "distinct (order c)" "int (length (order c)) \<le> maxSize c" "0 \<le> maxSize c"
    and "e \<in> set (order c) \<Longrightarrow> e < fresh c"
    and "e \<in> set (order c) \<Longrightarrow> \<exists>k s. elements c e = Some (k, s) \<and> entries c k = Some e"
    and "entries c k = Some e \<Longrightarrow> e \<in> set (order c)"
    and "entries c k = Some e \<Longrightarrow> \<exists>s. elements c e = Some (k, s)"
  using assms unfolding cache_inv_def by blast+

lemma new_cache_inv: "0 \<le> n \<Longrightarrow> cache_inv (newLeaderEligibilityCache n)"
  by (simp add: cache_inv_def newLeaderEligibilityCache_def)

lemma new_cache_abs: "cache_abs (newLeaderEligibilityCache n) = []"
  by (simp add: cache_abs_def newLeaderEligibilityCache_def List.map_filter_def)

lemma map_filter_map_of:
  assumes "\<And>e. e \<in> set es \<Longrightarrow> \<exists>k s. h e = Some (k, s) \<and> m k = Some e"
    and m: "\<And>k e. m k = Some e \<Longrightarrow> \<exists>s. h e = Some (k, s)"
  shows "map_of (List.map_filter h es) k =
    (case m k of None \<Rightarrow> None | Some e \<Rightarrow> if e \<in> set es then map_option snd (h e) else None)"
  using assms(1)
proof (induction es)
  case Nil
  then show ?case by (simp add: List.map_filter_def split: option.split)
next
  case (Cons e es)
  obtain k' s where e: "h e = Some (k', s)" "m k' = Some e" using Cons.prems[of e] by auto
  have IH: "map_of (List.map_filter h es) k =
      (case m k of None \<Rightarrow> None | Some e \<Rightarrow> if e \<in> set es then map_option snd (h e) else None)"
    using Cons.IH Cons.prems by simp
  show ?case
  proof (cases "k = k'")
    case True
    with e show ?thesis by (simp add: List.map_filter_simps)
  next
    case False
    with e have "m k \<noteq> Some e" using m[of k e] by auto
    with False e IH show ?thesis by (auto simp: List.map_filter_simps split: option.split)
  qed
qed

lemma cache_lookup_eq:
  assumes "cache_inv c"
  shows "cache_lookup c k = (case entries c k of None \<Rightarrow> None | Some e \<Rightarrow> map_option snd (elements c e))"
  using map_filter_map_of[of "order c" "elements c" "entries c" k] cache_invD(5-7)[OF assms]
  by (auto simp: cache_lookup_def cache_abs_def split: option.splits)

lemma map_filter_remove1:
  assumes "distinct es" "e \<in> set es" "h e = Some (k, s)"
    and "\<And>e. e \<in> set es \<Longrightarrow> \<exists>k s. h e = Some (k, s) \<and> m k = Some e"
  shows "List.map_filter h (remove1 e es) = filter (\<lambda>p. fst p \<noteq> k) (List.map_filter h es)"
  using assms
proof (induction es)
  case (Cons a es)
  have *: "filter (\<lambda>p. fst p \<noteq> k) (List.map_filter h es) = List.map_filter h es"
    if "e \<notin> set es"
  proof -
    have "fst p \<noteq> k" if p: "p \<in> set (List.map_filter h es)" for p
    proof -
      obtain a' where a': "a' \<in> set es" "h a' = Some p"
        using p by (auto simp: List.map_filter_def)
      obtain k' s' where "h a' = Some (k', s')" "m k' = Some a'" using Cons.prems(4)[of a'] a' by auto
      moreover have "m k = Some e" using Cons.prems(2-4) by fastforce
      ultimately show ?thesis using a' \<open>e \<notin> set es\<close> by auto
    qed
    then show ?thesis by (simp add: filter_True)
  qed
  show ?case
  proof (cases "a = e")
    case True
    with Cons.prems * show ?thesis by (simp add: List.map_filter_simps)
  next
    case False
    obtain k' s' where a: "h a = Some (k', s')" "m k' = Some a" using Cons.prems(4)[of a] by auto
    have "m k = Some e" using Cons.prems(2-4) by fastforce
    with a False have "k' \<noteq> k" by auto
    with False a Cons show ?thesis by (simp add: List.map_filter_simps)
  qed
qed simp

lemma moveToFront_simps:
  "set (moveToFront e es) = set es" "length (moveToFront e es) = length es"
  "distinct es \<Longrightarrow> distinct (moveToFront e es)"
  by (auto simp: moveToFront_def length_remove1 dest: in_set_remove1 set_remove1_subset[THEN subsetD])
     (auto simp: in_set_conv_decomp)

lemma cache_get_hit:
  assumes inv: "cache_inv c" and e: "entries c k = Some e" "elements c e = Some (k, s)"
  shows "cache_abs (c\<lparr>order := moveToFront e (order c)\<rparr>)
      = (k, s) # filter (\<lambda>p. fst p \<noteq> k) (cache_abs c)"
  using map_filter_remove1[of "order c" e "elements c" k s "entries c"]
    cache_invD(1)[OF inv] cache_invD(5)[OF inv] cache_invD(6)[OF inv e(1)] e
  by (simp add: cache_abs_def moveToFront_def List.map_filter_simps)

lemma cache_get_refines:
  assumes "cache_inv c"
  shows "cache_inv (snd (cache_get c k))"
    and "fst (cache_get c k) = fst (spec_get k (cache_abs c))"
    and "cache_abs (snd (cache_get c k)) = snd (spec_get k (cache_abs c))"
proof -
  have lk: "map_of (cache_abs c) k
      = (case entries c k of None \<Rightarrow> None | Some e \<Rightarrow> map_option snd (elements c e))"
    using cache_lookup_eq[OF assms] by (simp add: cache_lookup_def)
  show "cache_inv (snd (cache_get c k))"
    using assms by (auto simp: cache_get_def cache_inv_def moveToFront_simps split: option.splits)
  show "fst (cache_get c k) = fst (spec_get k (cache_abs c))"
    using cache_invD(7)[OF assms, of k]
    by (auto simp: cache_get_def spec_get_def lk split: option.splits)
  show "cache_abs (snd (cache_get c k)) = snd (spec_get k (cache_abs c))"
    using cache_invD(7)[OF assms, of k] cache_get_hit[OF assms, of k]
    by (fastforce simp: cache_get_def spec_get_def lk split: option.splits)
qed

lemma remove1_last: "distinct (xs @ [x]) \<Longrightarrow> remove1 x (xs @ [x]) = xs"
  by (simp add: remove1_append)

lemma cache_evict_refines:
  assumes d: "distinct (order c)" and sz: "0 \<le> maxSize c" "int (length (order c)) \<le> maxSize c + 1"
    and f: "\<forall>e\<in>set (order c). e < fresh c"
    and e: "\<forall>e\<in>set (order c). \<exists>k s. elements c e = Some (k, s) \<and> entries c k = Some e"
    and m: "\<forall>k e. entries c k = Some e \<longrightarrow> e \<in> set (order c) \<and> (\<exists>s. elements c e = Some (k, s))"
  shows "cache_inv (cache_evict c)"
    and "cache_abs (cache_evict c) = take (nat (maxSize c)) (cache_abs c)"
    and "maxSize (cache_evict c) = maxSize c"
proof -
  have len: "length (List.map_filter (elements c) es) = length es" if "set es \<subseteq> set (order c)" for es
    using that e by (induction es) (auto simp: List.map_filter_simps)
  show "cache_inv (cache_evict c)" "cache_abs (cache_evict c) = take (nat (maxSize c)) (cache_abs c)"
      "maxSize (cache_evict c) = maxSize c"
  proof (atomize (full), cases "maxSize c < int (length (order c))")
    case False
    then show "cache_inv (cache_evict c) \<and>
        cache_abs (cache_evict c) = take (nat (maxSize c)) (cache_abs c) \<and>
        maxSize (cache_evict c) = maxSize c"
      using assms len[of "order c"]
      by (simp add: cache_evict_def cache_inv_def cache_abs_def)
  next
    case True
    then obtain os oldest where os: "order c = os @ [oldest]"
      using sz by (cases "order c" rule: rev_cases) auto
    obtain ok s where ok: "elements c oldest = Some (ok, s)" "entries c ok = Some oldest"
      using e os by auto
    have ev: "cache_evict c = c\<lparr>order := os, entries := (entries c)(ok := None)\<rparr>"
      using True os ok d by (simp add: cache_evict_def remove1_last)
    have n: "nat (maxSize c) = length os" using True sz os by simp
    have "cache_abs c = List.map_filter (elements c) os @ [(ok, s)]"
      using os ok by (simp add: cache_abs_def List.map_filter_def)
    moreover have "length (List.map_filter (elements c) os) = length os"
      using len[of os] os by auto
    ultimately have "cache_abs (cache_evict c) = take (nat (maxSize c)) (cache_abs c)"
      using n by (simp add: ev cache_abs_def)
    moreover have "cache_inv (cache_evict c)"
    proof -
      have in_os: "\<exists>k t. elements c a = Some (k, t) \<and> ((entries c)(ok := None)) k = Some a"
        if "a \<in> set os" for a
      proof -
        have "a \<in> set (order c)" using that os by simp
        then obtain k t where kt: "elements c a = Some (k, t)" "entries c k = Some a"
          using e by blast
        moreover have "a \<noteq> oldest" using that d os by auto
        ultimately show ?thesis using ok by (metis fun_upd_apply option.inject)
      qed
      have of_entries: "a \<in> set os \<and> (\<exists>t. elements c a = Some (k, t))"
        if "((entries c)(ok := None)) k = Some a" for a k
      proof -
        have "k \<noteq> ok" "entries c k = Some a" using that by (auto split: if_splits)
        moreover from this(2) obtain t where "elements c a = Some (k, t)" "a \<in> set (order c)"
          using m by blast
        ultimately show ?thesis using ok os by auto
      qed
      show ?thesis unfolding cache_inv_def ev
        using True sz d f os in_os of_entries by simp
    qed
    ultimately show "cache_inv (cache_evict c) \<and>
        cache_abs (cache_evict c) = take (nat (maxSize c)) (cache_abs c) \<and>
        maxSize (cache_evict c) = maxSize c"
      by (simp add: ev)
  qed
qed

lemma map_filter_upd_other:
  "e \<notin> set es \<Longrightarrow> List.map_filter (h(e := v)) es = List.map_filter h es"
  by (induction es) (auto simp: List.map_filter_def)

lemma cache_put_new:
  assumes inv: "cache_inv c" and k: "entries c k = None"
  shows "cache_inv (cache_put c k s)"
    and "cache_abs (cache_put c k s) = take (nat (maxSize c)) ((k, s) # cache_abs c)"
    and "maxSize (cache_put c k s) = maxSize c"
proof -
  let ?c = "c\<lparr>fresh := Suc (fresh c), elements := (elements c)(fresh c \<mapsto> (k, s)),
      entries := (entries c)(k \<mapsto> fresh c), order := fresh c # order c\<rparr>"
  note D = cache_invD[OF inv]
  have fr: "fresh c \<notin> set (order c)" using D(4) by blast
  have e_new: "\<exists>k' s'. elements ?c e = Some (k', s') \<and> entries ?c k' = Some e"
    if "e \<in> set (order ?c)" for e
  proof (cases "e = fresh c")
    case False
    then have "e \<in> set (order c)" using that by simp
    then obtain k' s' where "elements c e = Some (k', s')" "entries c k' = Some e"
      using D(5) by blast
    moreover from this(2) have "k' \<noteq> k" using k by auto
    ultimately show ?thesis using False by auto
  qed auto
  have m_new: "e \<in> set (order ?c) \<and> (\<exists>s. elements ?c e = Some (k', s))"
    if "entries ?c k' = Some e" for k' e
  proof (cases "k' = k")
    case False
    then have k': "entries c k' = Some e" using that by simp
    have "e \<in> set (order c)" using D(6)[OF k'] .
    then show ?thesis using D(7)[OF k'] fr by auto
  qed (use that in auto)
  have lt: "e < fresh ?c" if "e \<in> set (order ?c)" for e
    using that D(4)[of e] by auto
  have pre: "distinct (order ?c)" "0 \<le> maxSize ?c" "int (length (order ?c)) \<le> maxSize ?c + 1"
      "\<forall>e\<in>set (order ?c). e < fresh ?c"
      "\<forall>e\<in>set (order ?c). \<exists>k s. elements ?c e = Some (k, s) \<and> entries ?c k = Some e"
      "\<forall>k e. entries ?c k = Some e \<longrightarrow> e \<in> set (order ?c) \<and> (\<exists>s. elements ?c e = Some (k, s))"
    using D(1-3) fr lt e_new m_new by (simp, simp, simp, blast, blast, blast)
  have ab: "cache_abs ?c = (k, s) # cache_abs c"
    using fr by (simp add: cache_abs_def List.map_filter_simps map_filter_upd_other)
  have "cache_put c k s = cache_evict ?c" using k by (simp add: cache_put_def Let_def)
  then show "cache_inv (cache_put c k s)"
      "cache_abs (cache_put c k s) = take (nat (maxSize c)) ((k, s) # cache_abs c)"
      "maxSize (cache_put c k s) = maxSize c"
    using cache_evict_refines[OF pre] by (simp_all add: ab)
qed

lemma cache_put_hit:
  assumes inv: "cache_inv c" and e: "entries c k = Some e"
  shows "cache_inv (cache_put c k s)"
    and "cache_abs (cache_put c k s) = (k, s) # filter (\<lambda>p. fst p \<noteq> k) (cache_abs c)"
    and "maxSize (cache_put c k s) = maxSize c"
proof -
  note D = cache_invD[OF inv]
  obtain s0 where s0: "elements c e = Some (k, s0)" using D(7)[OF e] by blast
  let ?h = "(elements c)(e \<mapsto> (k, s))"
  have put: "cache_put c k s = c\<lparr>order := moveToFront e (order c), elements := ?h\<rparr>"
    using e s0 by (simp add: cache_put_def)
  show "maxSize (cache_put c k s) = maxSize c" by (simp add: put)
  have "\<exists>k' s'. ?h a = Some (k', s') \<and> entries c k' = Some a" if "a \<in> set (order c)" for a
    using D(5)[OF that] e by (cases "a = e") auto
  moreover have "\<exists>s'. ?h a = Some (k', s')" if "entries c k' = Some a" for k' a
    using D(7)[OF that] s0 by (cases "a = e") auto
  ultimately show "cache_inv (cache_put c k s)"
    using inv unfolding put cache_inv_def by (simp add: moveToFront_simps)
  have "List.map_filter ?h (remove1 e (order c)) = List.map_filter (elements c) (remove1 e (order c))"
    using D(1) by (simp add: map_filter_upd_other)
  also have "\<dots> = filter (\<lambda>p. fst p \<noteq> k) (cache_abs c)"
    unfolding cache_abs_def by (rule map_filter_remove1[OF D(1) D(6)[OF e] s0 D(5)])
  finally show "cache_abs (cache_put c k s) = (k, s) # filter (\<lambda>p. fst p \<noteq> k) (cache_abs c)"
    using D(6)[OF e] by (simp add: put cache_abs_def moveToFront_def List.map_filter_simps)
qed

lemma length_cache_abs:
  assumes "cache_inv c"
  shows "length (cache_abs c) = length (order c)"
proof -
  have "length (List.map_filter (elements c) es) = length es" if "set es \<subseteq> set (order c)" for es
    using that cache_invD(5)[OF assms] by (induction es) (fastforce simp: List.map_filter_simps)+
  then show ?thesis by (simp add: cache_abs_def)
qed

lemma cache_lookup_None:
  assumes "cache_inv c"
  shows "map_of (cache_abs c) k = None \<longleftrightarrow> entries c k = None"
  using cache_lookup_eq[OF assms, of k] cache_invD(7)[OF assms, of k]
  by (auto simp: cache_lookup_def split: option.splits)

lemma cache_put_refines:
  assumes inv: "cache_inv c"
  shows "cache_inv (cache_put c k s)"
    and "cache_abs (cache_put c k s) = spec_put (nat (maxSize c)) k s (cache_abs c)"
    and "maxSize (cache_put c k s) = maxSize c"
proof -
  let ?f = "filter (\<lambda>p. fst p \<noteq> k) (cache_abs c)"
  show "cache_inv (cache_put c k s)" "maxSize (cache_put c k s) = maxSize c"
    using cache_put_new[OF inv] cache_put_hit[OF inv] by (cases "entries c k"; blast)+
  show "cache_abs (cache_put c k s) = spec_put (nat (maxSize c)) k s (cache_abs c)"
  proof (cases "entries c k")
    case None
    then have "map_of (cache_abs c) k = None" using cache_lookup_None[OF inv] by simp
    then have "?f = cache_abs c" by (force simp: map_of_eq_None_iff intro: filter_True)
    then show ?thesis using cache_put_new(2)[OF inv None] by (simp add: spec_put_def)
  next
    case (Some e)
    then have "map_of (cache_abs c) k \<noteq> None" using cache_lookup_None[OF inv, of k] by simp
    then have "k \<in> fst ` set (cache_abs c)" by (simp add: map_of_eq_None_iff)
    then have "length ?f < length (cache_abs c)" by (auto intro!: length_filter_less)
    then have "Suc (length ?f) \<le> nat (maxSize c)"
      using length_cache_abs[OF inv] cache_invD(2)[OF inv] by linarith
    then have "take (nat (maxSize c)) ((k, s) # ?f) = (k, s) # ?f" by simp
    then show ?thesis using cache_put_hit(2)[OF inv Some] by (simp add: spec_put_def)
  qed
qed

subsection \<open>The cache as a memo table\<close>

text \<open>What the evaluator relies on: a hit returns what is stored, neither operation invents
  an entry, and a stored value is the one last put under its key.\<close>

locale memo_table =
  fixes get :: "'c \<Rightarrow> 'k \<Rightarrow> 's option \<times> 'c"
    and put :: "'c \<Rightarrow> 'k \<Rightarrow> 's \<Rightarrow> 'c"
    and lookup :: "'c \<Rightarrow> 'k \<Rightarrow> 's option"
    and inv :: "'c \<Rightarrow> bool"
  assumes get_inv: "inv c \<Longrightarrow> inv (snd (get c k))"
    and put_inv: "inv c \<Longrightarrow> inv (put c k s)"
    and get_lookup: "inv c \<Longrightarrow> fst (get c k) = lookup c k"
    and get_keeps: "inv c \<Longrightarrow> lookup (snd (get c k)) = lookup c"
    and put_sound: "inv c \<Longrightarrow> lookup (put c k s) k' = Some s' \<Longrightarrow>
        (k' = k \<and> s' = s) \<or> lookup c k' = Some s'"
begin

text \<open>A table is valid for \<open>f\<close> when it stores only results of \<open>f\<close>.\<close>

definition valid :: "('k \<Rightarrow> 's option) \<Rightarrow> 'c \<Rightarrow> bool" where
  "valid f c \<longleftrightarrow> inv c \<and> (\<forall>k s. lookup c k = Some s \<longrightarrow> f k = Some s)"

lemma valid_get: "valid f c \<Longrightarrow> valid f (snd (get c k))"
  by (simp add: valid_def get_inv get_keeps)

lemma valid_hit: "valid f c \<Longrightarrow> fst (get c k) = Some s \<Longrightarrow> f k = Some s"
  by (simp add: valid_def get_lookup)

lemma valid_put: "valid f c \<Longrightarrow> f k = Some s \<Longrightarrow> valid f (put c k s)"
  using put_sound put_inv unfolding valid_def by blast

end

lemma cache_lookup_get:
  assumes "cache_inv c"
  shows "cache_lookup (snd (cache_get c k)) = cache_lookup c"
proof
  fix k'
  have *: "map_of (filter (\<lambda>p. fst p \<noteq> k) xs) k' = (if k' = k then None else map_of xs k')" for xs
    by (induction xs) auto
  show "cache_lookup (snd (cache_get c k)) k' = cache_lookup c k'"
    using cache_get_refines(3)[OF assms, of k]
    by (auto simp: cache_lookup_def spec_get_def * split: option.splits)
qed

lemma cache_lookup_put:
  assumes "cache_inv c" "cache_lookup (cache_put c k s) k' = Some s'"
  shows "(k' = k \<and> s' = s) \<or> cache_lookup c k' = Some s'"
proof -
  let ?xs = "(k, s) # filter (\<lambda>p. fst p \<noteq> k) (cache_abs c)"
  have f: "map_of (filter (\<lambda>p. fst p \<noteq> k) xs) k' = (if k' = k then None else map_of xs k')" for xs
    by (induction xs) auto
  have tk: "map_of (take n xs) a = Some b \<Longrightarrow> map_of xs a = Some b" for n and xs :: "('a \<times> 'b) list" and a b
    by (induction xs arbitrary: n) (auto simp: take_Cons' split: if_splits)
  have "map_of ?xs k' = Some s'"
    using assms cache_put_refines(2)[OF assms(1), of k s] tk
    by (metis cache_lookup_def spec_put_def)
  then show ?thesis by (auto simp: f cache_lookup_def split: if_splits)
qed

interpretation lru: memo_table cache_get cache_put cache_lookup cache_inv
proof unfold_locales
  fix c :: "('a, 'b) leaderEligibilityCache" and k k' s s'
  assume c: "cache_inv c"
  show "cache_inv (snd (cache_get c k))" by (rule cache_get_refines(1)[OF c])
  show "cache_inv (cache_put c k s)" by (rule cache_put_refines(1)[OF c])
  show "fst (cache_get c k) = cache_lookup c k"
    using cache_get_refines(2)[OF c, of k]
    by (simp add: cache_lookup_def spec_get_def split: option.splits)
  show "cache_lookup (snd (cache_get c k)) = cache_lookup c" by (rule cache_lookup_get[OF c])
  show "(k' = k \<and> s' = s) \<or> cache_lookup c k' = Some s'"
    if "cache_lookup (cache_put c k s) k' = Some s'"
    using that by (rule cache_lookup_put[OF c])
qed

subsection \<open>Properties\<close>

datatype ('k, 's) cache_op = Get 'k | Put 'k 's

fun cache_step :: "('k, 's) cache_op \<Rightarrow> ('k, 's) leaderEligibilityCache \<Rightarrow> ('k, 's) leaderEligibilityCache" where
  "cache_step (Get k) c = snd (cache_get c k)"
| "cache_step (Put k s) c = cache_put c k s"

fun spec_step :: "nat \<Rightarrow> ('k, 's) cache_op \<Rightarrow> ('k \<times> 's) list \<Rightarrow> ('k \<times> 's) list" where
  "spec_step n (Get k) xs = snd (spec_get k xs)"
| "spec_step n (Put k s) xs = spec_put n k s xs"

lemma new_cache_maxSize: "maxSize (newLeaderEligibilityCache n) = n"
  by (simp add: newLeaderEligibilityCache_def)

lemma cache_get_maxSize [simp]: "maxSize (snd (cache_get c k)) = maxSize c"
  by (simp add: cache_get_def moveToFront_def split: option.splits)

lemma cache_fold_refines:
  assumes "cache_inv c"
  shows "cache_inv (fold cache_step ops c) \<and>
    cache_abs (fold cache_step ops c) = fold (spec_step (nat (maxSize c))) ops (cache_abs c)"
  using assms
proof (induction ops arbitrary: c)
  case (Cons a ops)
  have "cache_inv (cache_step a c)" "maxSize (cache_step a c) = maxSize c"
      "cache_abs (cache_step a c) = spec_step (nat (maxSize c)) a (cache_abs c)"
    using cache_get_refines[OF Cons.prems] cache_put_refines[OF Cons.prems] by (cases a; simp)+
  with Cons.IH[of "cache_step a c"] show ?case by simp
qed simp

text \<open>C31: The pointer-linked cache refines a recency list: after any sequence of lookups and
  insertions its contents, most recently used first, are those of the list on which a hit moves
  an entry to the front and an insertion keeps the first \<open>n\<close> entries, and the next lookup
  answers what the list holds.\<close>

theorem cache_is_lru:
  assumes "0 \<le> n"
  shows "cache_abs (fold cache_step ops (newLeaderEligibilityCache n)) = fold (spec_step (nat n)) ops [] \<and>
    fst (cache_get (fold cache_step ops (newLeaderEligibilityCache n)) k) =
      map_of (fold (spec_step (nat n)) ops []) k"
proof -
  let ?c = "fold cache_step ops (newLeaderEligibilityCache n)"
  have r: "cache_inv ?c" "cache_abs ?c = fold (spec_step (nat n)) ops []"
    using cache_fold_refines[OF new_cache_inv[OF assms], of ops]
    by (simp_all add: new_cache_abs new_cache_maxSize)
  then show ?thesis
    using cache_get_refines(2)[OF r(1), of k] by (simp add: spec_get_def split: option.splits)
qed

theorem cache_is_lru_witness:
  "(0 :: int) \<le> 2 \<and>
   (let ops = [Put (1 :: nat) ''a'', Put 2 ''b'', Get 1, Put 3 ''c''];
        c = fold cache_step ops (newLeaderEligibilityCache 2) in
     cache_abs c = [(3, ''c''), (1, ''a'')] \<and> fst (cache_get c 2) = None)"
proof -
  let ?ops = "[Put (1 :: nat) ''a'', Put 2 ''b'', Get 1, Put 3 ''c'']"
  have "fold (spec_step (nat 2)) ?ops [] = [(3, ''c''), (1, ''a'')]"
    by (simp add: spec_get_def spec_put_def)
  then show ?thesis using cache_is_lru[of 2 ?ops 2] by (simp add: Let_def)
qed

end
