(* ===== verification/Eligibility.thy ===== *)
theory Eligibility
  imports E34 LRUCache
begin

text \<open>
  The prepared leader predicate of \<open>consensus/eligibility.go\<close> on top of the E34 arithmetic
  and the bounded cache. \<open>*big.Rat\<close> is \<^typ>\<open>rat option\<close> (\<open>None\<close> for nil); its \<open>Num\<close> and
  \<open>Denom\<close> are the reduced pair \<^const>\<open>quotient_of\<close>. BLAKE2b-256 comes from
  \<open>golang.org/x/crypto\<close> and is the parameter \<open>blake2b256\<close>. Preparation runs the unbounded
  search loops of the logarithm, so its result is an option: \<open>None\<close> would mean that it does
  not return.
\<close>

subsection \<open>Modes, keys and states\<close>

datatype ConsensusMode = ConsensusModeCPraos | ConsensusModeTPraos | UnknownMode int

datatype eligibility_error =
    UnknownConsensusMode ConsensusMode
  | ActiveSlotCoeffNil
  | ActiveSlotCoeffOutsideDomain
  | TotalStakeZero
  | E34Failure e34_error
  | EvaluatorUninitialized
  | CertifiedNaturalNil
  | CertifiedNaturalOutside
  | VRFOutputSize nat

definition twoTo256 :: int where
  "twoTo256 = 2 ^ 256"

definition twoTo512 :: int where
  "twoTo512 = 2 ^ 512"

record leaderEligibilityState =
  le_mode :: ConsensusMode
  le_maximum :: int
  le_sigma :: int
  le_c :: int
  le_x :: int
  le_unconditional :: bool

record leaderEligibilityCacheKey =
  key_poolStake :: u64
  key_totalStake :: u64
  key_numerator :: u64
  key_denominator :: u64
  key_mode :: ConsensusMode

type_synonym eligibility_cache =
  "(leaderEligibilityCacheKey, leaderEligibilityState) leaderEligibilityCache"

definition leaderEligibilityCacheMaxEntries :: int where
  "leaderEligibilityCacheMaxEntries = 4096"

definition leaderEligibilityMemo :: eligibility_cache where
  "leaderEligibilityMemo = newLeaderEligibilityCache leaderEligibilityCacheMaxEntries"

subsection \<open>Argument checks\<close>

fun validateConsensusMode :: "ConsensusMode \<Rightarrow> eligibility_error + unit" where
  "validateConsensusMode ConsensusModeCPraos = Inr ()"
| "validateConsensusMode ConsensusModeTPraos = Inr ()"
| "validateConsensusMode m = Inl (UnknownConsensusMode m)"

definition isUint64 :: "int \<Rightarrow> bool" where
  "isUint64 n \<longleftrightarrow> 0 \<le> n \<and> n < 2 ^ 64"

definition validateActiveSlotCoefficient :: "rat option \<Rightarrow> eligibility_error + unit" where
  "validateActiveSlotCoefficient f =
     (case f of
        None \<Rightarrow> Inl ActiveSlotCoeffNil
      | Some q \<Rightarrow>
          let (num, denom) = quotient_of q in
          if 0 < q \<and> num \<le> denom \<and> isUint64 num \<and> isUint64 denom \<and>
             (let (hi, lo) = mul64 (word_of_int num) 10000000000000000000
              in hi \<noteq> 0 \<or> word_of_int denom \<le> lo)
          then Inr ()
          else Inl ActiveSlotCoeffOutsideDomain)"

subsection \<open>Preparation\<close>

definition lift_e34 :: "e34_error + 'a \<Rightarrow> eligibility_error + 'a" where
  "lift_e34 r = (case r of Inl e \<Rightarrow> Inl (E34Failure e) | Inr v \<Rightarrow> Inr v)"

definition prepareLeaderEligibility ::
  "leaderEligibilityCacheKey \<Rightarrow> (eligibility_error + leaderEligibilityState) option" where
  "prepareLeaderEligibility key =
     (let state = \<lparr>le_mode = key_mode key,
                   le_maximum = (if key_mode key = ConsensusModeCPraos then twoTo256 else twoTo512),
                   le_sigma = 0, le_c = 0, le_x = 0, le_unconditional = False\<rparr>
      in case lift_e34 (e34FromRatio (uint (key_poolStake key)) (uint (key_totalStake key))) of
           Inl err \<Rightarrow> Some (Inl err)
         | Inr sg \<Rightarrow>
             (let state = state\<lparr>le_sigma := sg\<rparr> in
              if key_numerator key = key_denominator key then Some (Inr (state\<lparr>le_unconditional := True\<rparr>))
              else case lift_e34 (e34FromRatio (uint (key_numerator key)) (uint (key_denominator key))) of
                     Inl err \<Rightarrow> Some (Inl err)
                   | Inr f \<Rightarrow>
                       Option.bind (e34Ln (e34Scale - f)) (\<lambda>ln.
                         Some (rbind (lift_e34 ln) (\<lambda>lnv.
                           Inr (state\<lparr>le_c := lnv, le_x := - e34Mul (le_sigma state) lnv\<rparr>))))))"

text \<open>The constructor over an explicit cache; it returns the evaluator and the cache it
  leaves behind.\<close>

definition newLeaderEligibility ::
  "eligibility_cache \<Rightarrow> u64 \<Rightarrow> u64 \<Rightarrow> rat option \<Rightarrow> ConsensusMode \<Rightarrow>
     ((eligibility_error + leaderEligibilityState) \<times> eligibility_cache) option" where
  "newLeaderEligibility cache pool tot activeSlotCoeff md =
     (case rbind (validateConsensusMode md) (\<lambda>_.
           rbind (validateActiveSlotCoefficient activeSlotCoeff) (\<lambda>_.
             ensure (tot \<noteq> 0) TotalStakeZero)) of
        Inl err \<Rightarrow> Some (Inl err, cache)
      | Inr _ \<Rightarrow>
          (let (num, denom) = quotient_of (the activeSlotCoeff);
               key = \<lparr>key_poolStake = (if tot < pool then tot else pool), key_totalStake = tot,
                      key_numerator = word_of_int num, key_denominator = word_of_int denom,
                      key_mode = md\<rparr>;
               (hit, cache) = cache_get cache key
           in case hit of
                Some state \<Rightarrow> Some (Inr state, cache)
              | None \<Rightarrow>
                  Option.bind (prepareLeaderEligibility key) (\<lambda>res.
                    case res of
                      Inl err \<Rightarrow> Some (Inl err, cache)
                    | Inr state \<Rightarrow> Some (Inr state, cache_put cache key state))))"

subsection \<open>Decisions\<close>

text \<open>An evaluator is \<open>None\<close> when the receiver or its state is nil.\<close>

definition CheckCertifiedNatural ::
  "leaderEligibilityState option \<Rightarrow> int option \<Rightarrow> eligibility_error + bool" where
  "CheckCertifiedNatural e v =
     (case e of
        None \<Rightarrow> Inl EvaluatorUninitialized
      | Some st \<Rightarrow>
        (case v of
           None \<Rightarrow> Inl CertifiedNaturalNil
         | Some n \<Rightarrow>
             if n < 0 \<or> le_maximum st < n then Inl CertifiedNaturalOutside
             else if le_unconditional st then Inr True
             else let q0 = le_maximum st * e34Scale;
                      denom = le_maximum st - n;
                      q = (if denom \<noteq> 0 then q0 sdiv denom else q0)
                  in rbind (lift_e34 (e34Compare q (le_x st))) (\<lambda>(classification, _, _).
                       Inr (classification = e34Below))))"

text \<open>The copy into the fixed buffer and the fallback hash the same bytes: \<open>'L'\<close> followed by
  the output.\<close>

definition VrfLeaderValue :: "(bytes \<Rightarrow> bytes) \<Rightarrow> bytes \<Rightarrow> bytes" where
  "VrfLeaderValue blake2b256 vrfOutput =
     (if length vrfOutput \<le> 64
      then blake2b256 (take (1 + length vrfOutput) ((0x4C # vrfOutput) @ replicate 64 0))
      else blake2b256 (0x4C # vrfOutput))"

definition CheckVRFOutput ::
  "(bytes \<Rightarrow> bytes) \<Rightarrow> leaderEligibilityState option \<Rightarrow> bytes \<Rightarrow> eligibility_error + bool" where
  "CheckVRFOutput blake2b256 e output =
     (case e of
        None \<Rightarrow> Inl EvaluatorUninitialized
      | Some st \<Rightarrow>
          if length output \<noteq> 64 then Inl (VRFOutputSize (length output))
          else CheckCertifiedNatural e (Some (int (be_nat
                 (if le_mode st = ConsensusModeCPraos then VrfLeaderValue blake2b256 output
                  else output)))))"

subsection \<open>The coefficient domain\<close>

lemma isUint64_word: "isUint64 n \<Longrightarrow> int (unat (word_of_int n :: u64)) = n"
  by (simp add: isUint64_def unsigned_of_int take_bit_eq_mod)

lemma quotient_of_rat:
  assumes "quotient_of q = (n, d)"
  shows "q = of_int n / of_int d" "0 < d"
  using quotient_of_div[OF assms] quotient_of_denom_pos[OF assms] by auto

lemma mul64_ge_iff:
  assumes "mul64 a b = (hi, lo)"
  shows "hi \<noteq> 0 \<or> d \<le> lo \<longleftrightarrow> unat d \<le> unat a * unat b"
proof -
  have v: "unat hi * 2 ^ 64 + unat lo = unat a * unat b" by (rule mul64_value[OF assms])
  show ?thesis
  proof (cases "hi = 0")
    case True
    with v show ?thesis by (simp add: word_le_nat_alt)
  next
    case False
    then have "1 \<le> unat hi" by (simp add: Suc_le_eq unat_gt_0)
    then have "1 * 2 ^ 64 \<le> unat hi * 2 ^ 64" by (rule mult_le_mono1)
    with v unat_u64_less[of d] False show ?thesis by linarith
  qed
qed

lemma validateActiveSlotCoefficient_iff:
  assumes "quotient_of q = (n, d)"
  shows "validateActiveSlotCoefficient (Some q) = Inr () \<longleftrightarrow>
    1 / 10 ^ 19 \<le> q \<and> q \<le> 1 \<and> n < 2 ^ 64 \<and> d < 2 ^ 64"
proof -
  note q = quotient_of_rat[OF assms]
  have qn: "0 < q \<longleftrightarrow> 0 < n" using q by (simp add: zero_less_divide_iff)
  have q1: "q \<le> 1 \<longleftrightarrow> n \<le> d" using q by (simp add: divide_le_eq)
  have ql: "1 / 10 ^ 19 \<le> q \<longleftrightarrow> d \<le> n * 10 ^ 19"
  proof -
    have "1 / 10 ^ 19 \<le> q \<longleftrightarrow> (of_int d :: rat) \<le> of_int n * 10 ^ 19"
      unfolding q(1) using q(2) by (simp add: field_simps)
    also have "\<dots> \<longleftrightarrow> (of_int d :: rat) \<le> of_int (n * 10 ^ 19)" by simp
    also have "\<dots> \<longleftrightarrow> d \<le> n * 10 ^ 19" by (rule of_int_le_iff)
    finally show ?thesis .
  qed
  show ?thesis
  proof (cases "0 < n \<and> n \<le> d \<and> n < 2 ^ 64 \<and> d < 2 ^ 64")
    case True
    then have u: "isUint64 n" "isUint64 d" by (auto simp: isUint64_def)
    obtain hi lo where m: "mul64 (word_of_int n) 10000000000000000000 = (hi, lo)" by fastforce
    have "hi \<noteq> 0 \<or> word_of_int d \<le> lo \<longleftrightarrow>
        unat (word_of_int d :: u64) \<le> unat (word_of_int n :: u64) * 10 ^ 19"
      using mul64_ge_iff[OF m, of "word_of_int d"] by simp
    also have "\<dots> \<longleftrightarrow> d \<le> n * 10 ^ 19"
      using isUint64_word[OF u(1)] isUint64_word[OF u(2)]
      by (metis (mono_tags, lifting) of_nat_le_iff of_nat_mult of_nat_numeral of_nat_power)
    finally show ?thesis
      using True u qn q1 ql assms by (auto simp: validateActiveSlotCoefficient_def m)
  next
    case False
    have "\<not> (1 / 10 ^ 19 \<le> q \<and> q \<le> 1 \<and> n < 2 ^ 64 \<and> d < 2 ^ 64)"
    proof
      assume a: "1 / 10 ^ 19 \<le> q \<and> q \<le> 1 \<and> n < 2 ^ 64 \<and> d < 2 ^ 64"
      then have "0 < q" by (auto intro: less_le_trans[of 0 "1 / 10 ^ 19"])
      with a False qn q1 show False by simp
    qed
    moreover have "validateActiveSlotCoefficient (Some q) \<noteq> Inr ()"
      using False qn assms by (auto simp: validateActiveSlotCoefficient_def isUint64_def)
    ultimately show ?thesis by simp
  qed
qed

subsection \<open>Preparation returns\<close>

lemma lift_e34_simps [simp]: "lift_e34 (Inl e) = Inl (E34Failure e)" "lift_e34 (Inr v) = Inr v"
  by (simp_all add: lift_e34_def)

lemma e34FromRatio_eq:
  "e34FromRatio a b = (if b = 0 then Inl E34DivisionByZero else Inr (a * e34Scale div b))"
  by (simp add: e34FromRatio_def e34FloorQuotient_div)

lemma prepareLeaderEligibility_returns: "\<exists>r. prepareLeaderEligibility key = Some r"
proof -
  have ln: "e34Ln v \<noteq> None" for v using e34Ln_returns[of v] by auto
  show ?thesis
    by (simp add: prepareLeaderEligibility_def Let_def e34FromRatio_eq ln split: Option.bind_split)
qed

lemma prepare_main_domain:
  assumes t: "key_totalStake key \<noteq> 0" and d: "key_denominator key \<noteq> 0"
    and f: "uint (key_numerator key) * e34Scale div uint (key_denominator key) \<le> e34Scale - e34InvE"
  shows "\<exists>st. prepareLeaderEligibility key = Some (Inr st)"
proof (cases "key_numerator key = key_denominator key")
  case True
  with t show ?thesis by (simp add: prepareLeaderEligibility_def e34FromRatio_eq uint_0_iff Let_def)
next
  case False
  let ?f = "uint (key_numerator key) * e34Scale div uint (key_denominator key)"
  have "0 \<le> ?f" by (simp add: div_int_pos_iff)
  then have "e34InvE \<le> e34Scale - ?f" "e34Scale - ?f \<le> e34E"
    using f e34E_bounds(3) by linarith+
  then obtain cv where "e34Ln (e34Scale - ?f) = Some (Inr cv)"
    using e34Ln_main_domain by blast
  with t d False show ?thesis
    by (simp add: prepareLeaderEligibility_def e34FromRatio_eq uint_0_iff Let_def)
qed

subsection \<open>The cache is transparent\<close>

text \<open>A memo is sound when every state it stores is the one preparation computes.\<close>

definition prepared :: "leaderEligibilityCacheKey \<Rightarrow> leaderEligibilityState option" where
  "prepared key = (case prepareLeaderEligibility key of Some (Inr st) \<Rightarrow> Some st | _ \<Rightarrow> None)"

definition memo_sound :: "eligibility_cache \<Rightarrow> bool" where
  "memo_sound cache \<longleftrightarrow> lru.valid prepared cache"

lemma prepared_Some: "prepared key = Some st \<longleftrightarrow> prepareLeaderEligibility key = Some (Inr st)"
  by (auto simp: prepared_def split: option.splits sum.splits)

lemma memo_sound_initial: "memo_sound leaderEligibilityMemo"
  by (simp add: memo_sound_def lru.valid_def leaderEligibilityMemo_def new_cache_inv
      cache_lookup_def new_cache_abs leaderEligibilityCacheMaxEntries_def)

text \<open>The constructor without its cache.\<close>

definition eligibility_key :: "u64 \<Rightarrow> u64 \<Rightarrow> rat \<Rightarrow> ConsensusMode \<Rightarrow> leaderEligibilityCacheKey" where
  "eligibility_key pool tot f md =
     \<lparr>key_poolStake = (if tot < pool then tot else pool), key_totalStake = tot,
      key_numerator = word_of_int (fst (quotient_of f)),
      key_denominator = word_of_int (snd (quotient_of f)), key_mode = md\<rparr>"

definition uncachedEligibility ::
  "u64 \<Rightarrow> u64 \<Rightarrow> rat option \<Rightarrow> ConsensusMode \<Rightarrow> (eligibility_error + leaderEligibilityState) option" where
  "uncachedEligibility pool tot f md =
     (case rbind (validateConsensusMode md) (\<lambda>_.
           rbind (validateActiveSlotCoefficient f) (\<lambda>_. ensure (tot \<noteq> 0) TotalStakeZero)) of
        Inl err \<Rightarrow> Some (Inl err)
      | Inr _ \<Rightarrow> prepareLeaderEligibility (eligibility_key pool tot (the f) md))"

lemma newLeaderEligibility_key:
  "newLeaderEligibility cache pool tot f md =
     (case rbind (validateConsensusMode md) (\<lambda>_.
           rbind (validateActiveSlotCoefficient f) (\<lambda>_. ensure (tot \<noteq> 0) TotalStakeZero)) of
        Inl err \<Rightarrow> Some (Inl err, cache)
      | Inr _ \<Rightarrow>
          (let key = eligibility_key pool tot (the f) md; r = cache_get cache key in
           case fst r of
             Some state \<Rightarrow> Some (Inr state, snd r)
           | None \<Rightarrow> Option.bind (prepareLeaderEligibility key) (\<lambda>res.
               case res of Inl err \<Rightarrow> Some (Inl err, snd r)
               | Inr state \<Rightarrow> Some (Inr state, cache_put (snd r) key state))))"
  by (simp add: newLeaderEligibility_def eligibility_key_def Let_def split_def split: sum.split)

lemma newLeaderEligibility_transparent:
  assumes "memo_sound cache"
  shows "\<exists>r cache'. uncachedEligibility pool tot f md = Some r \<and>
     newLeaderEligibility cache pool tot f md = Some (r, cache') \<and> memo_sound cache'"
proof -
  let ?check = "rbind (validateConsensusMode md) (\<lambda>_.
      rbind (validateActiveSlotCoefficient f) (\<lambda>_. ensure (tot \<noteq> 0) TotalStakeZero))"
  let ?key = "eligibility_key pool tot (the f) md"
  let ?r = "cache_get cache ?key"
  have v: "lru.valid prepared cache" using assms by (simp add: memo_sound_def)
  have v': "lru.valid prepared (snd ?r)" using v by (rule lru.valid_get)
  obtain p where p: "prepareLeaderEligibility ?key = Some p"
    using prepareLeaderEligibility_returns by blast
  show ?thesis
  proof (cases ?check)
    case (Inl err)
    with assms show ?thesis
      by (simp add: uncachedEligibility_def newLeaderEligibility_key)
  next
    case (Inr u)
    show ?thesis
    proof (cases "fst ?r")
      case (Some st)
      then have "prepareLeaderEligibility ?key = Some (Inr st)"
        using lru.valid_hit[OF v] by (simp add: prepared_Some)
      with Inr Some v' show ?thesis
        by (simp add: uncachedEligibility_def newLeaderEligibility_key Let_def memo_sound_def)
    next
      case None
      show ?thesis
      proof (cases p)
        case (Inl err)
        with Inr None v' p show ?thesis
          by (simp add: uncachedEligibility_def newLeaderEligibility_key Let_def memo_sound_def)
      next
        case st: (Inr st)
        then have "lru.valid prepared (cache_put (snd ?r) ?key st)"
          using lru.valid_put[OF v'] p by (simp add: prepared_Some)
        with Inr None st p show ?thesis
          by (simp add: uncachedEligibility_def newLeaderEligibility_key Let_def memo_sound_def)
      qed
    qed
  qed
qed

subsection \<open>Decisions\<close>

definition natural_quotient :: "leaderEligibilityState \<Rightarrow> int \<Rightarrow> int" where
  "natural_quotient st n =
     (if le_maximum st = n then le_maximum st * e34Scale
      else le_maximum st * e34Scale div (le_maximum st - n))"

lemma CheckCertifiedNatural_eq:
  assumes "0 \<le> n" "n \<le> le_maximum st" "\<not> le_unconditional st"
  shows "CheckCertifiedNatural (Some st) (Some n) =
    rbind (lift_e34 (e34Compare (natural_quotient st n) (le_x st))) (\<lambda>(cl, _, _). Inr (cl = e34Below))"
proof -
  have "0 \<le> le_maximum st * e34Scale" using assms by simp
  then show ?thesis using assms
    by (auto simp: CheckCertifiedNatural_def natural_quotient_def sdiv_nonneg Let_def)
qed

lemma natural_quotient_mono:
  assumes "0 \<le> m" "m \<le> n" "n \<le> le_maximum st"
  shows "natural_quotient st m \<le> natural_quotient st n"
proof -
  let ?M = "le_maximum st" and ?Q = "le_maximum st * e34Scale"
  have Q: "0 \<le> ?Q" using assms by simp
  show ?thesis
  proof (cases "n = ?M")
    case True
    show ?thesis
    proof (cases "m = ?M")
      case False
      then have "1 \<le> ?M - m" using assms True by simp
      then have "?Q div (?M - m) \<le> ?Q" using Q by (metis div_by_1 zdiv_mono2 zero_less_one)
      then show ?thesis using True False by (simp add: natural_quotient_def)
    qed (simp add: True)
  next
    case False
    then have "?Q div (?M - m) \<le> ?Q div (?M - n)"
      using assms Q by (intro zdiv_mono2) auto
    then show ?thesis using False assms by (auto simp: natural_quotient_def)
  qed
qed

lemma natural_quotient_ge:
  assumes "0 < le_maximum st" "0 \<le> n" "n \<le> le_maximum st"
  shows "e34Scale \<le> natural_quotient st n"
proof -
  have "natural_quotient st 0 = e34Scale" using assms by (simp add: natural_quotient_def)
  then show ?thesis using natural_quotient_mono[of 0 n st] assms by simp
qed

lemma CheckCertifiedNatural_true:
  assumes "CheckCertifiedNatural (Some st) (Some n) = Inr True" "\<not> le_unconditional st"
  shows "0 \<le> n \<and> n \<le> le_maximum st \<and>
    (\<exists>a it. e34Compare (natural_quotient st n) (le_x st) = Inr (e34Below, a, it))"
proof -
  have b: "0 \<le> n" "n \<le> le_maximum st"
    using assms(1) by (auto simp: CheckCertifiedNatural_def split: if_splits)
  obtain r where "e34Compare (natural_quotient st n) (le_x st) = Inr r"
    using e34Compare_ok[of "natural_quotient st n" "le_x st"] by (auto simp: is_ok_ex)
  then show ?thesis using assms(1) b CheckCertifiedNatural_eq[OF b assms(2)] by (cases r) auto
qed

text \<open>A decision never fails on a natural in range.\<close>

lemma CheckCertifiedNatural_total:
  "0 \<le> n \<Longrightarrow> n \<le> le_maximum st \<Longrightarrow> is_ok (CheckCertifiedNatural (Some st) (Some n))"
proof (cases "le_unconditional st")
  case True
  then show "0 \<le> n \<Longrightarrow> n \<le> le_maximum st \<Longrightarrow> ?thesis"
    by (simp add: CheckCertifiedNatural_def)
next
  case False
  obtain r where "e34Compare (natural_quotient st n) (le_x st) = Inr r"
    using e34Compare_ok[of "natural_quotient st n" "le_x st"] by (auto simp: is_ok_ex)
  then show "0 \<le> n \<Longrightarrow> n \<le> le_maximum st \<Longrightarrow> ?thesis"
    using False by (simp add: CheckCertifiedNatural_eq split_def)
qed

lemma CheckCertifiedNatural_antimono:
  assumes "CheckCertifiedNatural (Some st) (Some n) = Inr True" "0 \<le> m" "m \<le> n"
  shows "CheckCertifiedNatural (Some st) (Some m) = Inr True"
proof (cases "le_unconditional st")
  case True
  with assms show ?thesis by (auto simp: CheckCertifiedNatural_def split: if_splits)
next
  case False
  from CheckCertifiedNatural_true[OF assms(1) False] obtain a it where
    n: "n \<le> le_maximum st" and b: "e34Compare (natural_quotient st n) (le_x st) = Inr (e34Below, a, it)"
    by blast
  obtain a' it' where "e34Compare (natural_quotient st m) (le_x st) = Inr (e34Below, a', it')"
    using e34Compare_mono[OF natural_quotient_mono[OF assms(2,3) n] b] by blast
  with False assms n show ?thesis by (simp add: CheckCertifiedNatural_eq)
qed

lemma CheckCertifiedNatural_no_weight:
  assumes "le_x st = 0" "\<not> le_unconditional st" "0 < le_maximum st" "0 \<le> n" "n \<le> le_maximum st"
  shows "CheckCertifiedNatural (Some st) (Some n) = Inr False"
  using assms e34Compare_zero[OF natural_quotient_ge[OF assms(3-5)]]
  by (simp add: CheckCertifiedNatural_eq)

lemma CheckCertifiedNatural_sound:
  assumes "CheckCertifiedNatural (Some st) (Some n) = Inr True" "\<not> le_unconditional st" "0 \<le> le_x st"
  shows "real_of_int (natural_quotient st n) / e34Scale < exp (le_x st / e34Scale)"
proof -
  obtain a it where "e34Compare (natural_quotient st n) (le_x st) = Inr (e34Below, a, it)"
    using CheckCertifiedNatural_true[OF assms(1,2)] by blast
  from e34Compare_below_exp[OF assms(3) this] show ?thesis
    by (simp add: divide_less_eq mult.commute)
qed
lemma prepare_no_stake:
  assumes "prepareLeaderEligibility key = Some (Inr st)" "key_poolStake key = 0"
    "key_numerator key \<noteq> key_denominator key"
  shows "le_x st = 0 \<and> \<not> le_unconditional st \<and> 0 < le_maximum st"
  using assms
  by (auto simp: prepareLeaderEligibility_def Let_def e34FromRatio_eq e34Mul_eq twoTo256_def twoTo512_def
      split: if_splits Option.bind_splits)

lemma prepare_unconditional:
  assumes "prepareLeaderEligibility key = Some (Inr st)" "key_numerator key = key_denominator key"
  shows "le_unconditional st"
  using assms by (auto simp: prepareLeaderEligibility_def Let_def e34FromRatio_eq split: if_splits)

lemma prepare_maximum:
  assumes "prepareLeaderEligibility key = Some (Inr st)"
  shows "le_maximum st = (if key_mode key = ConsensusModeCPraos then twoTo256 else twoTo512)"
    and "le_mode st = key_mode key"
  using assms
  by (auto simp: prepareLeaderEligibility_def Let_def e34FromRatio_eq split: if_splits Option.bind_splits)

subsection \<open>Properties\<close>

text \<open>The coefficient check accepts exactly the documented domain: the reduced rationals
  between \<open>1/10^19\<close> and one whose numerator and denominator fit \<open>uint64\<close>; the double-word product decides
  the lower bound without overflow.\<close>

lemma coefficient_domain:
  "validateActiveSlotCoefficient (Some q) = Inr () \<longleftrightarrow>
     1 / 10 ^ 19 \<le> q \<and> q \<le> 1 \<and> fst (quotient_of q) < 2 ^ 64 \<and> snd (quotient_of q) < 2 ^ 64"
  by (rule validateActiveSlotCoefficient_iff) simp

text \<open>C35: The memo is transparent: with a sound cache (the initial one is) the constructor
  returns the result of the cache-free computation, it always returns, and it leaves a sound
  cache.\<close>

theorem constructor_ignores_cache:
  assumes "memo_sound cache"
  shows "\<exists>r cache'. newLeaderEligibility cache pool tot f md = Some (r, cache') \<and>
     uncachedEligibility pool tot f md = Some r \<and> memo_sound cache'"
  using newLeaderEligibility_transparent[OF assms] by blast

theorem constructor_ignores_cache_witness:
  "memo_sound leaderEligibilityMemo \<and>
   (\<exists>r cache'. newLeaderEligibility leaderEligibilityMemo 3 10 (Some (1 / 20)) ConsensusModeCPraos
        = Some (r, cache') \<and>
      uncachedEligibility 3 10 (Some (1 / 20)) ConsensusModeCPraos = Some r \<and> memo_sound cache')"
  using memo_sound_initial constructor_ignores_cache[OF memo_sound_initial] by blast

text \<open>C36: The leader decision is total and antitone in the certified natural: every natural in
  range gets a verdict, and if a natural elects then so does every smaller one.\<close>

theorem decision_total_and_antitone:
  assumes "0 \<le> m" and "m \<le> n" and "n \<le> le_maximum st"
  shows "is_ok (CheckCertifiedNatural (Some st) (Some n)) \<and>
    (CheckCertifiedNatural (Some st) (Some n) = Inr True \<longrightarrow>
     CheckCertifiedNatural (Some st) (Some m) = Inr True)"
  using assms CheckCertifiedNatural_total[of n st] CheckCertifiedNatural_antimono[of st n m] by auto

definition example_state :: leaderEligibilityState where
  "example_state = \<lparr>le_mode = ConsensusModeCPraos, le_maximum = 2 ^ 256, le_sigma = 10 ^ 34,
     le_c = - (10 ^ 33), le_x = 10 ^ 33, le_unconditional = False\<rparr>"

theorem decision_total_and_antitone_witness:
  "(0 :: int) \<le> 7 \<and> (7 :: int) \<le> 1000 \<and> 1000 \<le> le_maximum example_state \<and>
   CheckCertifiedNatural (Some example_state) (Some 1000) = Inr True \<and>
   CheckCertifiedNatural (Some example_state) (Some 7) = Inr True"
proof -
  have b: "(0 :: int) \<le> 7" "(7 :: int) \<le> 1000" "1000 \<le> le_maximum example_state"
    by (simp_all add: example_state_def)
  have t: "CheckCertifiedNatural (Some example_state) (Some 1000) = Inr True"
    by (simp add: example_state_def CheckCertifiedNatural_eq natural_quotient_def e34Compare_first
        e34Scale_def Let_def)
  show ?thesis using b t decision_total_and_antitone[OF b] by simp
qed

text \<open>A pool without stake is never elected by an evaluator prepared for a coefficient
  below one, and an evaluator prepared for the coefficient one elects on every natural in
  range, whatever the stake.\<close>

lemma no_stake_never_elects:
  assumes "prepareLeaderEligibility key = Some (Inr st)" and "0 \<le> n" and "n \<le> le_maximum st"
  shows "(key_numerator key = key_denominator key \<longrightarrow>
      CheckCertifiedNatural (Some st) (Some n) = Inr True) \<and>
    (key_numerator key \<noteq> key_denominator key \<and> key_poolStake key = 0 \<longrightarrow>
      CheckCertifiedNatural (Some st) (Some n) = Inr False)"
  using assms prepare_no_stake[OF assms(1)] prepare_unconditional[OF assms(1)]
    CheckCertifiedNatural_no_weight[of st n]
  by (auto simp: CheckCertifiedNatural_def)

definition example_key :: leaderEligibilityCacheKey where
  "example_key = \<lparr>key_poolStake = 0, key_totalStake = 10, key_numerator = 1,
     key_denominator = 20, key_mode = ConsensusModeCPraos\<rparr>"

text \<open>Preparation succeeds for every coefficient up to \<open>1 - 1/e\<close> (63 percent, mainnet uses
  5 percent) and for the coefficient one: below that bound no error of the fixed-point
  arithmetic can surface.\<close>

lemma preparation_succeeds_on_main_domain:
  assumes "key_totalStake key \<noteq> 0" and "key_denominator key \<noteq> 0"
    and "uint (key_numerator key) * e34Scale div uint (key_denominator key) \<le> e34Scale - e34InvE"
  shows "\<exists>st. prepareLeaderEligibility key = Some (Inr st)"
  by (rule prepare_main_domain[OF assms])

text \<open>A coefficient in the gap between the two ways the logarithm computes \<open>e^-2\<close>: by
  squaring \<open>1/e\<close> while bracketing, and by inverting \<open>e^2\<close> while bisecting.\<close>

definition gap_coefficient :: rat where
  "gap_coefficient = 65100916553150251 / 75290358552892017"

lemma quotient_of_gap: "quotient_of gap_coefficient = (65100916553150251, 75290358552892017)"
  by code_simp

lemma gap_ln: "e34Ln 1353352832366126918939995016483660 = Some (Inl E34FractionNegative)"
proof -
  let ?v = "1353352832366126918939995016483660 :: int"
  have b: "e34LnBracket ?v e34InvE e34E (- 1) 1 = Some (- 2, 2)" by code_simp
  have c: "e34LnBisect e34E ?v (- 2) 2 = Some (Inr (- 2))" by code_simp
  have d: "e34LnFinish e34E ?v (- 2) = Inl E34FractionNegative" by code_simp
  show ?thesis using b c d by (simp add: e34Ln_unfold)
qed

text \<open>C38: The documented coefficient domain is not wholly usable: there is a coefficient that
  passes validation (a reduced rational with 64-bit numerator and denominator, inside the
  interval) for which the constructor fails with the continued fraction's domain error.\<close>

theorem accepted_coefficient_fails:
  "validateActiveSlotCoefficient (Some gap_coefficient) = Inr () \<and>
   uncachedEligibility 1 2 (Some gap_coefficient) ConsensusModeCPraos
     = Some (Inl (E34Failure E34FractionNegative))"
proof -
  have v: "validateActiveSlotCoefficient (Some gap_coefficient) = Inr ()"
    unfolding validateActiveSlotCoefficient_iff[OF quotient_of_gap] by (simp add: gap_coefficient_def)
  moreover have "prepareLeaderEligibility (eligibility_key 1 2 gap_coefficient ConsensusModeCPraos)
      = Some (Inl (E34Failure E34FractionNegative))"
    by (simp add: prepareLeaderEligibility_def eligibility_key_def quotient_of_gap e34FromRatio_eq
      e34Scale_def Let_def gap_ln)
  ultimately show ?thesis by (simp add: uncachedEligibility_def)
qed

end
