(* ===== verification/VRF.thy ===== *)
theory VRF
  imports Complex_Main Words
begin

text \<open>
  The verifiable random function (\<open>vrf/vrf.go\<close>), ECVRF-ED25519-SHA512-Elligator2, and the VRF
  inputs of the Praos protocols.  Field elements range over an arbitrary field and points over
  an arbitrary abelian group; the remaining facts about \<open>filippo.io/edwards25519\<close> (encodings,
  clamping, the group order) and the hashes are fields of \<open>vrf_curve\<close>, and what the code
  relies on is the predicate \<open>vrf_curve_ok\<close>.
\<close>

unbundle bit_operations_syntax

subsection \<open>The curve library\<close>

record ('p, 'f) vrf_curve =
  ord :: nat
  base :: "'p"
  pt_bytes :: "'p \<Rightarrow> bytes"
  pt_set :: "bytes \<Rightarrow> 'p option"
  clamped :: "bytes \<Rightarrow> nat"
  coords :: "'p \<Rightarrow> 'f \<times> 'f \<times> 'f"
  fe_bytes :: "'f \<Rightarrow> bytes"
  fe_set :: "bytes \<Rightarrow> 'f"
  fe_negative :: "'f \<Rightarrow> bool"
  sha512 :: "bytes \<Rightarrow> bytes"
  vrf_blake2b256 :: "bytes \<Rightarrow> bytes"

datatype vrf_error =
    VrfSeedLength nat | VrfSecretKeyLength nat | VrfPointDecode | VrfNonCanonical | VrfSmallOrder
  | VrfProofLength nat | VrfNonCanonicalS | VrfVerificationFailed | VrfEta0Length nat
  | VrfSeedConstantLength nat | VrfPanic

text \<open>Scalar multiplication is repeated addition; scalars are naturals modulo the group order.
  Little-endian encodings as the library has them.\<close>

definition smul :: "nat \<Rightarrow> 'p :: ab_group_add \<Rightarrow> 'p" where
  "smul n P = ((+) P ^^ n) 0"

definition le_nat :: "bytes \<Rightarrow> nat" where
  "le_nat b = be_nat (rev b)"

definition le_bytes :: "nat \<Rightarrow> nat \<Rightarrow> bytes" where
  "le_bytes n v = rev (be_bytes n v)"

subsection \<open>Protocol inputs\<close>

text \<open>\<open>slot\<close> is the \<open>int64\<close> argument as the 64 bits that are hashed.\<close>

definition MkInputVrf :: "(bytes \<Rightarrow> bytes) \<Rightarrow> u64 \<Rightarrow> bytes \<Rightarrow> vrf_error + bytes" where
  "MkInputVrf hash256 slot eta0 =
     (if length eta0 \<noteq> 32 then Inl (VrfEta0Length (length eta0))
      else Inr (hash256 (be_bytes 8 (unat slot) @ eta0)))"

definition mkNonceFromNumber :: "(bytes \<Rightarrow> bytes) \<Rightarrow> u64 \<Rightarrow> bytes" where
  "mkNonceFromNumber hash256 n = hash256 (be_bytes 8 (unat n))"

definition SeedEta :: "(bytes \<Rightarrow> bytes) \<Rightarrow> bytes" where
  "SeedEta hash256 = mkNonceFromNumber hash256 0"

definition SeedL :: "(bytes \<Rightarrow> bytes) \<Rightarrow> bytes" where
  "SeedL hash256 = mkNonceFromNumber hash256 1"

definition MkSeedTPraos :: "(bytes \<Rightarrow> bytes) \<Rightarrow> u64 \<Rightarrow> bytes \<Rightarrow> bytes \<Rightarrow> vrf_error + bytes" where
  "MkSeedTPraos hash256 slot eta0 seedConstant =
     (if length seedConstant \<noteq> 32 then Inl (VrfSeedConstantLength (length seedConstant))
      else rbind (MkInputVrf hash256 slot eta0) (\<lambda>b.
        Inr (map (\<lambda>i. (b ! i) XOR (seedConstant ! i)) [0..<32])))"

subsection \<open>Encodings\<close>

definition isCanonicalY :: "bytes \<Rightarrow> bool" where
  "isCanonicalY enc =
     (if length enc \<noteq> 32 \<or> (enc ! 31) AND 0x7f \<noteq> 0x7f \<or> enc ! 0 < 0xed then True
      else \<exists>b \<in> set (take 30 (drop 1 enc)). b \<noteq> 0xff)"

text \<open>One field inversion for all points (Montgomery's trick): \<open>prefix\<close> are the running
  products of the \<open>Z\<close> coordinates, consumed from the last point backwards.\<close>

fun zPrefix :: "'f :: field \<Rightarrow> 'f list \<Rightarrow> 'f list" where
  "zPrefix acc [] = []"
| "zPrefix acc (z # zs) = acc * z # zPrefix (acc * z) zs"

definition encodeAffine :: "('p, 'f :: field) vrf_curve \<Rightarrow> 'f \<Rightarrow> 'f \<Rightarrow> bytes" where
  "encodeAffine C x y =
     (let b = fe_bytes C y in b[31 := (b ! 31) OR (if fe_negative C x then 0x80 else 0)])"

text \<open>The loop runs over the reversed list of \<open>(X, Y, Z, product of the earlier Zs)\<close>.\<close>

fun encodeLoop ::
  "('p, 'f :: field) vrf_curve \<Rightarrow> 'f \<Rightarrow> ('f \<times> 'f \<times> 'f \<times> 'f option) list \<Rightarrow> bytes list \<Rightarrow> bytes list" where
  "encodeLoop C iv [] out = out"
| "encodeLoop C iv ((x, y, z, before) # ps) out =
     (case before of
        None \<Rightarrow> encodeLoop C iv ps (encodeAffine C (x * iv) (y * iv) # out)
      | Some pre \<Rightarrow> let zInv = iv * pre in
          encodeLoop C (iv * z) ps (encodeAffine C (x * zInv) (y * zInv) # out))"

definition encodePoints :: "('p, 'f :: field) vrf_curve \<Rightarrow> 'p list \<Rightarrow> bytes list" where
  "encodePoints C points =
     (let cs = map (coords C) points;
          prefix = zPrefix 1 (map (\<lambda>(x, y, z). z) cs);
          iv = inverse (last prefix)
      in encodeLoop C iv
           (rev (map2 (\<lambda>(x, y, z) pre. (x, y, z, pre)) cs (None # map Some prefix))) [])"

subsection \<open>Hashing to the curve\<close>

definition fsquares :: "nat \<Rightarrow> 'f :: comm_monoid_mult \<Rightarrow> 'f" where
  "fsquares n x = ((\<lambda>t. t * t) ^^ n) x"

definition chi25519 :: "'f :: comm_monoid_mult \<Rightarrow> 'f" where
  "chi25519 z =
     (let t0 = z * z; t1 = t0 * z; t0 = t1 * t1; t2 = t0 * t0; t2 = t2 * t2; t2 = t2 * t0;
          t1 = t2 * z; t2 = t1 * t1;
          t2 = fsquares 4 t2; t1 = t2 * t1; t2 = t1 * t1;
          t2 = fsquares 9 t2; t2 = t2 * t1; t3 = t2 * t2;
          t3 = fsquares 19 t3; t2 = t3 * t2; t2 = t2 * t2;
          t2 = fsquares 9 t2; t1 = t2 * t1; t2 = t1 * t1;
          t2 = fsquares 49 t2; t2 = t2 * t1; t3 = t2 * t2;
          t3 = fsquares 99 t3; t2 = t3 * t2; t2 = t2 * t2;
          t2 = fsquares 49 t2; t1 = t2 * t1; t1 = t1 * t1;
          t1 = fsquares 3 t1
      in t1 * t0)"

definition ge25519FromUniform ::
  "('p :: ab_group_add, 'f :: field) vrf_curve \<Rightarrow> bytes \<Rightarrow> vrf_error + ('p \<times> bytes)" where
  "ge25519FromUniform C r =
     (let s = take 32 r; xSign = (s ! 31) AND 0x80; s = s[31 := (s ! 31) AND 0x7f];
          rr2 = fe_set C s; rr2 = rr2 * rr2; rr2 = rr2 + rr2; rr2 = rr2 + 1; rr2 = inverse rr2;
          x = - (rr2 * of_nat 486662); x2 = x * x; x3 = x * x2;
          e = x3 + x; x2 = x2 * of_nat 486662; e = x2 + e; e = chi25519 e;
          eIsMinus1 = ((fe_bytes C e ! 1) AND 1 = 1);
          x = (if eIsMinus1 then - x else x);
          x2 = (if eIsMinus1 then of_nat 486662 else 0);
          x = x - x2;
          yed = (x - 1) * inverse (x + 1);
          s = fe_bytes C yed; s = s[31 := (s ! 31) OR xSign]
      in case pt_set C s of
           None \<Rightarrow> Inl VrfPointDecode
         | Some p3 \<Rightarrow> Inr (smul 8 p3, pt_bytes C (smul 8 p3)))"

definition hashToCurveElligator2 ::
  "('p :: ab_group_add, 'f :: field) vrf_curve \<Rightarrow> 'p \<Rightarrow> bytes \<Rightarrow> vrf_error + ('p \<times> bytes)" where
  "hashToCurveElligator2 C Y alpha =
     (let rString = sha512 C ([0x04, 1] @ pt_bytes C Y @ alpha);
          rString = rString[31 := (rString ! 31) AND 0x7f]
      in ge25519FromUniform C rString)"

subsection \<open>Keys, proofs and verification\<close>

definition vrf_KeyGen ::
  "('p :: ab_group_add, 'f) vrf_curve \<Rightarrow> bytes \<Rightarrow> vrf_error + (bytes \<times> bytes)" where
  "vrf_KeyGen C seed =
     (if length seed \<noteq> 32 then Inl (VrfSeedLength (length seed))
      else let xScalar = clamped C (take 32 (sha512 C seed)) mod ord C
        in Inr (pt_bytes C (smul xScalar (base C)), seed))"

definition hashPoints :: "('p, 'f) vrf_curve \<Rightarrow> bytes \<Rightarrow> bytes \<Rightarrow> bytes \<Rightarrow> bytes \<Rightarrow> vrf_error + nat" where
  "hashPoints C P1 P2 P3 P4 =
     (let c = le_nat (take 16 (sha512 C ([0x04, 0x02] @ P1 @ P2 @ P3 @ P4)))
      in if c < ord C then Inr c else Inl VrfPanic)"

definition cofactorGammaToHash :: "('p, 'f) vrf_curve \<Rightarrow> bytes \<Rightarrow> bytes" where
  "cofactorGammaToHash C cofactorGamma = sha512 C ([0x04, 0x03] @ cofactorGamma)"

definition gammaToHash :: "('p :: ab_group_add, 'f) vrf_curve \<Rightarrow> 'p \<Rightarrow> bytes" where
  "gammaToHash C Gamma = cofactorGammaToHash C (pt_bytes C (smul 8 Gamma))"

definition vrf_Prove ::
  "('p :: ab_group_add, 'f :: field) vrf_curve \<Rightarrow> bytes \<Rightarrow> bytes \<Rightarrow> vrf_error + (bytes \<times> bytes)" where
  "vrf_Prove C secretKey alpha =
     (if length secretKey \<noteq> 32 then Inl (VrfSecretKeyLength (length secretKey))
      else let skHash = sha512 C secretKey;
               xScalar = clamped C (take 32 skHash) mod ord C;
               Y = smul xScalar (base C)
      in rbind (hashToCurveElligator2 C Y alpha) (\<lambda>(H, hBytes).
         let Gamma = smul xScalar H;
             kScalar = le_nat (sha512 C (drop 32 skHash @ hBytes)) mod ord C;
             U = smul kScalar (base C);
             V = smul kScalar H;
             encoded = encodePoints C [Gamma, U, V]
         in rbind (hashPoints C hBytes (encoded ! 0) (encoded ! 1) (encoded ! 2)) (\<lambda>cScalar.
            let cBytes = le_bytes 32 cScalar;
                sScalar = (cScalar * xScalar + kScalar) mod ord C;
                sBytes = le_bytes 32 sScalar
            in Inr (encoded ! 0 @ take 16 cBytes @ sBytes, gammaToHash C Gamma))))"

text \<open>The output arrays \<open>c\<close> and \<open>s\<close> are results; \<open>c\<close> is zero-padded to 32 bytes.\<close>

definition decodeProofArrays ::
  "('p, 'f) vrf_curve \<Rightarrow> bytes \<Rightarrow> vrf_error + ('p \<times> bytes \<times> bytes)" where
  "decodeProofArrays C prf =
     (if length prf \<noteq> 80 then Inl (VrfProofLength (length prf))
      else if \<not> isCanonicalY (take 32 prf) then Inl VrfNonCanonical
      else case pt_set C (take 32 prf) of
          None \<Rightarrow> Inl VrfPointDecode
        | Some gamma \<Rightarrow> Inr (gamma, take 16 (drop 32 prf) @ replicate 16 0, drop 48 prf))"

definition ProofToHash :: "('p :: ab_group_add, 'f) vrf_curve \<Rightarrow> bytes \<Rightarrow> vrf_error + bytes" where
  "ProofToHash C prf = rbind (decodeProofArrays C prf) (\<lambda>(Gamma, _, _). Inr (gammaToHash C Gamma))"

definition vrf_verify ::
  "('p :: ab_group_add, 'f :: field) vrf_curve \<Rightarrow> 'p \<Rightarrow> bytes \<Rightarrow> bytes \<Rightarrow> vrf_error + (bytes \<times> bool)" where
  "vrf_verify C Y prf alpha =
     rbind (decodeProofArrays C prf) (\<lambda>(Gamma, cScalarArr, sScalarArr).
     rbind (hashToCurveElligator2 C Y alpha) (\<lambda>(H, hBytes).
       let c = le_nat (cScalarArr @ replicate 32 0) mod ord C;
           s = le_nat sScalarArr
       in if \<not> s < ord C then Inl VrfNonCanonicalS
       else let U = smul c (- Y) + smul s (base C);
                V = smul s H + smul c (- Gamma);
                encoded = encodePoints C [Gamma, U, V, smul 8 Gamma]
         in rbind (hashPoints C hBytes (encoded ! 0) (encoded ! 1) (encoded ! 2)) (\<lambda>cprime.
              Inr (cofactorGammaToHash C (encoded ! 3), cScalarArr = le_bytes 32 cprime))))"

definition VerifyAndHash ::
  "('p :: ab_group_add, 'f :: field) vrf_curve \<Rightarrow> bytes \<Rightarrow> bytes \<Rightarrow> bytes \<Rightarrow> vrf_error + bytes" where
  "VerifyAndHash C publicKey prf msg =
     (if \<not> isCanonicalY publicKey then Inl VrfNonCanonical
      else case pt_set C publicKey of
          None \<Rightarrow> Inl VrfPointDecode
        | Some Y \<Rightarrow>
            if smul 8 Y = 0 then Inl VrfSmallOrder
            else rbind (vrf_verify C Y prf msg) (\<lambda>(output, ok).
              if \<not> ok then Inl VrfVerificationFailed else Inr output))"

definition vrf_Verify ::
  "('p :: ab_group_add, 'f :: field) vrf_curve \<Rightarrow> bytes \<Rightarrow> bytes \<Rightarrow> bytes \<Rightarrow> bytes \<Rightarrow> vrf_error + bool" where
  "vrf_Verify C vrfKey prf expectedOutput msg =
     rbind (VerifyAndHash C vrfKey prf msg) (\<lambda>output. Inr (output = expectedOutput))"

subsection \<open>The Legendre symbol\<close>

lemma fsquares_eq: "fsquares n x = x ^ (2 ^ n)"
  by (induction n) (simp_all add: fsquares_def power_mult_distrib mult_2 power_add)

text \<open>The addition chain, one variable after the other.\<close>

lemma chi25519_power: "chi25519 z = z ^ (2 ^ 254 - 10)"
proof -
  have L: "Let (z ^ numeral n) f = f (z ^ numeral n)" for n and f :: "'a \<Rightarrow> 'a" by simp
  have m: "z * z = z ^ 2" by (simp only: power2_eq_square)
  have m1: "z ^ numeral a * z = z ^ numeral (a + num.One)" for a
    by (simp only: power_Suc2[symmetric] Suc_numeral)
  have m2: "z ^ numeral a * z ^ numeral b = z ^ numeral (a + b)" for a b
    by (simp only: power_add[symmetric] numeral_plus_numeral)
  have q: "fsquares n (z ^ numeral a) = z ^ (numeral a * 2 ^ n)" for n a
    by (simp add: fsquares_eq power_mult)
  have e: "(2 :: nat) ^ 3 = 8" "(2 :: nat) ^ 4 = 16" "(2 :: nat) ^ 9 = 512" "(2 :: nat) ^ 19 = 524288"
      "(2 :: nat) ^ 49 = 562949953421312" "(2 :: nat) ^ 99 = 633825300114114700748351602688"
    by simp_all
  show ?thesis
    by (simp only: chi25519_def L m m1 m2 q e numeral_times_numeral add_num_simps mult_num_simps) simp
qed

subsection \<open>Batch encoding\<close>

definition affine :: "('p, 'f :: field) vrf_curve \<Rightarrow> 'f \<times> 'f \<times> 'f \<Rightarrow> bytes" where
  "affine C = (\<lambda>(x, y, z). encodeAffine C (x * inverse z) (y * inverse z))"

lemma zPrefix_snoc: "zPrefix a (zs @ [z]) = zPrefix a zs @ [a * prod_list zs * z]"
  by (induction a zs rule: zPrefix.induct) (auto simp: mult.assoc)

lemma length_zPrefix [simp]: "length (zPrefix a zs) = length zs"
  by (induction a zs rule: zPrefix.induct) auto

definition with_prefix :: "('f :: field \<times> 'f \<times> 'f) list \<Rightarrow> ('f \<times> 'f \<times> 'f \<times> 'f option) list" where
  "with_prefix cs = map2 (\<lambda>(x, y, z) pre. (x, y, z, pre)) cs
     (None # map Some (zPrefix 1 (map (\<lambda>(x, y, z). z) cs)))"

lemma zip_longer: "length L = Suc (length cs) \<Longrightarrow> zip (cs @ [c]) (L @ [x]) = zip cs L @ [(c, last L)]"
proof -
  assume l: "length L = Suc (length cs)"
  then obtain L' y where "L = L' @ [y]" by (cases L rule: rev_cases) auto
  then show ?thesis using l by (simp add: zip_append2)
qed

lemma with_prefix_snoc:
  "with_prefix (cs @ [(x, y, z)]) = with_prefix cs @ [(x, y, z,
     if cs = [] then None else Some (prod_list (map (\<lambda>(x, y, z). z) cs)))]"
proof -
  let ?zs = "map (\<lambda>(x, y, z). z) cs"
  have "last (None # map Some (zPrefix 1 ?zs)) = (if cs = [] then None else Some (prod_list ?zs))"
    by (cases cs rule: rev_cases) (auto simp: zPrefix_snoc)
  then show ?thesis
    by (simp add: with_prefix_def zPrefix_snoc zip_longer[of "None # map Some (zPrefix 1 ?zs)", simplified])
qed

lemma encodeLoop_eq:
  assumes "\<forall>(x, y, z) \<in> set cs. z \<noteq> 0"
  shows "encodeLoop C (inverse (prod_list (map (\<lambda>(x, y, z). z) cs))) (rev (with_prefix cs)) out =
    map (affine C) cs @ out"
  using assms
proof (induction cs arbitrary: out rule: rev_induct)
  case Nil
  then show ?case by (simp add: with_prefix_def)
next
  case (snoc c cs)
  obtain x y z where c: "c = (x, y, z)" by (cases c)
  let ?p = "prod_list (map (\<lambda>(x, y, z). z) cs)"
  have z: "z \<noteq> 0" and p: "?p \<noteq> 0" using snoc.prems by (auto simp: c prod_list_zero_iff)
  have i: "inverse (?p * z) * ?p = inverse z" "inverse (?p * z) * z = inverse ?p"
    using z p by (simp_all add: field_simps)
  show ?case
  proof (cases "cs = []")
    case True
    then show ?thesis by (simp add: c with_prefix_def affine_def)
  next
    case False
    then show ?thesis
      using snoc.IH[of "affine C c # out"] snoc.prems i
      by (simp add: c with_prefix_snoc affine_def Let_def del: inverse_mult_distrib)
  qed
qed

lemma encodePoints_eq:
  assumes "\<forall>P \<in> set ps. snd (snd (coords C P)) \<noteq> 0"
  shows "encodePoints C ps = map (\<lambda>P. affine C (coords C P)) ps"
proof -
  have "last (zPrefix 1 (map (\<lambda>(x, y, z). z) (map (coords C) ps))) = prod_list (map (\<lambda>(x, y, z). z) (map (coords C) ps))"
    if "ps \<noteq> []"
    using that by (cases ps rule: rev_cases) (auto simp: zPrefix_snoc)
  moreover have "\<forall>(x, y, z) \<in> set (map (coords C) ps). z \<noteq> 0" using assms by (auto simp: split_beta)
  ultimately show ?thesis
    using encodeLoop_eq[of "map (coords C) ps" C "[]"]
    by (cases "ps = []") (simp_all add: encodePoints_def with_prefix_def Let_def comp_def)
qed

subsection \<open>Multiples of points\<close>

lemma smul_simps [simp]: "smul 0 P = 0" "smul (Suc n) P = P + smul n P"
  by (simp_all add: smul_def)

lemma smul_zero [simp]: "smul n 0 = 0"
  by (induction n) auto

lemma smul_add: "smul (m + n) P = smul m P + smul n P"
  by (induction m) (auto simp: add.assoc)

lemma smul_plus: "smul n (P + Q) = smul n P + smul n Q"
  by (induction n) (auto simp: algebra_simps)

lemma smul_minus: "smul n (- P) = - smul n P"
  by (induction n) (auto simp: algebra_simps)

lemma smul_mult: "smul (m * n) P = smul m (smul n P)"
  by (induction m) (auto simp: smul_add smul_plus)

lemma smul_mod: "smul l P = 0 \<Longrightarrow> smul (n mod l) P = smul n P"
proof -
  assume l: "smul l P = 0"
  have "smul n P = smul (n div l * l + n mod l) P" by simp
  also have "\<dots> = smul (n mod l) P" unfolding smul_add smul_mult l by simp
  finally show ?thesis by simp
qed

lemma schnorr_cancel:
  assumes "smul l P = 0" "Q = smul x P"
  shows "smul c (- Q) + smul ((c * x + k) mod l) P = smul k P"
  unfolding assms(2) smul_mod[OF assms(1)] smul_minus smul_add smul_mult by simp

subsection \<open>Little-endian numbers\<close>

lemma length_le_bytes [simp]: "length (le_bytes n v) = n"
  by (simp add: le_bytes_def)

lemma le_bytes_Suc: "le_bytes (Suc n) v = word_of_nat (v mod 256) # le_bytes n (v div 256)"
  by (simp add: le_bytes_def)

lemma le_bytes_0 [simp]: "le_bytes 0 v = []"
  by (simp add: le_bytes_def)

lemma le_nat_le_bytes: "v < 256 ^ n \<Longrightarrow> le_nat (le_bytes n v) = v"
  by (simp add: le_nat_def le_bytes_def be_nat_be_bytes)

lemma le_nat_Nil [simp]: "le_nat [] = 0"
  by (simp add: le_nat_def)

lemma le_nat_Cons: "le_nat (b # bs) = unat b + 256 * le_nat bs"
  by (simp add: le_nat_def be_nat_snoc)

lemma le_nat_zeros [simp]: "le_nat (replicate n 0) = 0"
  by (induction n) (auto simp: le_nat_Cons)

lemma le_nat_append_zeros: "le_nat (bs @ replicate n 0) = le_nat bs"
  by (induction bs) (auto simp: le_nat_Cons)

lemma le_nat_less: "le_nat bs < 256 ^ length bs"
  using be_nat_less[of "rev bs"] by (simp add: le_nat_def)

lemma le_bytes_zero: "le_bytes n 0 = replicate n 0"
  by (induction n) (auto simp: le_bytes_Suc)

lemma le_bytes_pad: "v < 256 ^ m \<Longrightarrow> le_bytes (m + n) v = le_bytes m v @ replicate n 0"
proof (induction m arbitrary: v)
  case 0
  then show ?case by (simp add: le_bytes_zero)
next
  case (Suc m)
  then have "v div 256 < 256 ^ m" by (simp add: less_mult_imp_div_less mult.commute)
  then show ?case using Suc.IH by (simp add: le_bytes_Suc)
qed

subsection \<open>What the curve library promises\<close>

definition vrf_curve_ok :: "('p :: ab_group_add, 'f :: field) vrf_curve \<Rightarrow> bool" where
  "vrf_curve_ok C \<longleftrightarrow>
     odd (ord C) \<and> 2 ^ 252 \<le> ord C \<and> ord C < 2 ^ 256 \<and>
     (\<forall>n. smul n (base C) = 0 \<longleftrightarrow> ord C dvd n) \<and> (\<forall>P :: 'p. smul (ord C * 8) P = 0) \<and>
     (\<forall>P. length (pt_bytes C P) = 32 \<and> isCanonicalY (pt_bytes C P) \<and> pt_set C (pt_bytes C P) = Some P) \<and>
     (\<forall>P. snd (snd (coords C P)) \<noteq> 0 \<and> pt_bytes C P = affine C (coords C P)) \<and>
     (\<forall>b. length b = 32 \<longrightarrow> 8 dvd clamped C b \<and> 2 ^ 254 \<le> clamped C b \<and> clamped C b < 2 ^ 255) \<and>
     (\<forall>b. length (sha512 C b) = 64)"

lemma curve_encode:
  assumes "vrf_curve_ok C"
  shows "encodePoints C ps = map (pt_bytes C) ps"
  using assms encodePoints_eq[of ps C] by (simp add: vrf_curve_ok_def)

lemma curve_hashPoints:
  assumes "vrf_curve_ok C"
  shows "\<exists>c < 256 ^ 16. c < ord C \<and> hashPoints C a b d e = Inr c"
proof -
  let ?c = "le_nat (take 16 (sha512 C ([0x04, 0x02] @ a @ b @ d @ e)))"
  have "length (take 16 (sha512 C ([0x04, 0x02] @ a @ b @ d @ e))) = 16"
    using assms by (simp add: vrf_curve_ok_def)
  then have "?c < 256 ^ 16" using le_nat_less by metis
  moreover have "(256 :: nat) ^ 16 < 2 ^ 252" by simp
  moreover have "2 ^ 252 \<le> ord C" using assms by (simp add: vrf_curve_ok_def)
  ultimately show ?thesis by (simp add: hashPoints_def Let_def)
qed

text \<open>A clamped scalar never yields a small-order public key: it is a nonzero multiple of eight
  below eight times the odd group order.\<close>

lemma clamped_not_small:
  assumes C: "vrf_curve_ok C" and b: "length b = 32"
  shows "smul 8 (smul (clamped C b mod ord C) (base C)) \<noteq> 0"
proof
  let ?x = "clamped C b" and ?L = "ord C"
  have x: "8 dvd ?x" "2 ^ 254 \<le> ?x" "?x < 2 ^ 255" and L: "odd ?L" "2 ^ 252 \<le> ?L"
    and B: "\<And>n. smul n (base C) = 0 \<longleftrightarrow> ?L dvd n"
    using C b by (auto simp: vrf_curve_ok_def)
  assume "smul 8 (smul (?x mod ?L) (base C)) = 0"
  then have "?L dvd 8 * (?x mod ?L)" using B by (simp only: smul_mult[symmetric])
  moreover have "coprime ?L 8"
    using L(1) coprime_power_right_iff[of ?L 2 3] by (simp add: coprime_commute)
  ultimately have "?L dvd ?x mod ?L" by (simp add: coprime_dvd_mult_right_iff)
  then have "?L dvd ?x" by (simp add: dvd_mod_iff)
  with x(1) \<open>coprime ?L 8\<close> have "?L * 8 dvd ?x" by (simp add: divides_mult)
  then have "?L * 8 \<le> ?x" using x(2) by (intro dvd_imp_le) auto
  then show False using x(3) L(2) by simp
qed

lemma hashToCurve_order:
  assumes "vrf_curve_ok C" "hashToCurveElligator2 C Y alpha = Inr (H, hb)"
  shows "smul (ord C) H = 0" and "hb = pt_bytes C H"
proof -
  obtain P where "H = smul 8 P" "hb = pt_bytes C H"
    using assms(2)
    by (auto simp: hashToCurveElligator2_def ge25519FromUniform_def Let_def split: option.splits)
  moreover have "smul (ord C * 8) P = 0" using assms(1) by (simp add: vrf_curve_ok_def)
  ultimately show "smul (ord C) H = 0" "hb = pt_bytes C H" by (simp_all add: smul_mult)
qed

definition secret_scalar :: "('p, 'f) vrf_curve \<Rightarrow> bytes \<Rightarrow> nat" where
  "secret_scalar C sk = clamped C (take 32 (sha512 C sk)) mod ord C"

definition nonce_scalar :: "('p, 'f) vrf_curve \<Rightarrow> bytes \<Rightarrow> bytes \<Rightarrow> nat" where
  "nonce_scalar C sk hb = le_nat (sha512 C (drop 32 (sha512 C sk) @ hb)) mod ord C"

lemma vrf_Prove_ok:
  assumes C: "vrf_curve_ok C" and l: "length sk = 32"
    and H: "hashToCurveElligator2 C (smul (secret_scalar C sk) (base C)) alpha = Inr (H, hb)"
    and c: "hashPoints C hb (pt_bytes C (smul (secret_scalar C sk) H))
       (pt_bytes C (smul (nonce_scalar C sk hb) (base C))) (pt_bytes C (smul (nonce_scalar C sk hb) H)) = Inr c"
  shows "vrf_Prove C sk alpha = Inr (pt_bytes C (smul (secret_scalar C sk) H) @ take 16 (le_bytes 32 c) @
     le_bytes 32 ((c * secret_scalar C sk + nonce_scalar C sk hb) mod ord C),
     gammaToHash C (smul (secret_scalar C sk) H))"
  using l H c
  by (simp add: vrf_Prove_def curve_encode[OF C] Let_def secret_scalar_def nonce_scalar_def)

lemma vrf_Prove_cases:
  assumes C: "vrf_curve_ok C" and P: "vrf_Prove C sk alpha = Inr (prf, out)"
  obtains H hb c where "length sk = 32"
    and "hashToCurveElligator2 C (smul (secret_scalar C sk) (base C)) alpha = Inr (H, hb)"
    and "hashPoints C hb (pt_bytes C (smul (secret_scalar C sk) H))
       (pt_bytes C (smul (nonce_scalar C sk hb) (base C))) (pt_bytes C (smul (nonce_scalar C sk hb) H)) = Inr c"
    and "c < 256 ^ 16" and "c < ord C"
    and "prf = pt_bytes C (smul (secret_scalar C sk) H) @ take 16 (le_bytes 32 c) @
       le_bytes 32 ((c * secret_scalar C sk + nonce_scalar C sk hb) mod ord C)"
    and "out = gammaToHash C (smul (secret_scalar C sk) H)"
proof -
  have l: "length sk = 32" using P by (auto simp: vrf_Prove_def split: if_splits)
  obtain H hb where H: "hashToCurveElligator2 C (smul (secret_scalar C sk) (base C)) alpha = Inr (H, hb)"
    using P l by (auto simp: vrf_Prove_def secret_scalar_def Let_def)
  obtain c where c: "c < 256 ^ 16" "c < ord C" "hashPoints C hb (pt_bytes C (smul (secret_scalar C sk) H))
       (pt_bytes C (smul (nonce_scalar C sk hb) (base C))) (pt_bytes C (smul (nonce_scalar C sk hb) H)) = Inr c"
    using curve_hashPoints[OF C] by blast
  show ?thesis using that[OF l H c(3,1,2)] vrf_Prove_ok[OF C l H c(3)] P by simp
qed

lemma decode_proof:
  assumes C: "vrf_curve_ok C" and c: "c < 256 ^ 16"
  shows "decodeProofArrays C (pt_bytes C G @ take 16 (le_bytes 32 c) @ le_bytes 32 s) =
    Inr (G, le_bytes 32 c, le_bytes 32 s)"
proof -
  have p: "length (pt_bytes C G) = 32" "isCanonicalY (pt_bytes C G)" "pt_set C (pt_bytes C G) = Some G"
    using C by (auto simp: vrf_curve_ok_def)
  have "le_bytes 32 c = le_bytes 16 c @ replicate 16 0" using le_bytes_pad[OF c, of 16] by simp
  then show ?thesis using p by (simp add: decodeProofArrays_def)
qed

lemma vrf_verify_prove:
  assumes C: "vrf_curve_ok C" and P: "vrf_Prove C sk alpha = Inr (prf, out)"
  shows "vrf_verify C (smul (secret_scalar C sk) (base C)) prf alpha = Inr (out, True)"
    and "ProofToHash C prf = Inr out" and "length prf = 80" and "length out = 64"
proof -
  from C P obtain H hb c where l: "length sk = 32"
    and H: "hashToCurveElligator2 C (smul (secret_scalar C sk) (base C)) alpha = Inr (H, hb)"
    and h: "hashPoints C hb (pt_bytes C (smul (secret_scalar C sk) H))
       (pt_bytes C (smul (nonce_scalar C sk hb) (base C))) (pt_bytes C (smul (nonce_scalar C sk hb) H)) = Inr c"
    and c: "c < 256 ^ 16" "c < ord C"
    and pf: "prf = pt_bytes C (smul (secret_scalar C sk) H) @ take 16 (le_bytes 32 c) @
       le_bytes 32 ((c * secret_scalar C sk + nonce_scalar C sk hb) mod ord C)"
    and out: "out = gammaToHash C (smul (secret_scalar C sk) H)"
    by (rule vrf_Prove_cases)
  let ?x = "secret_scalar C sk" and ?k = "nonce_scalar C sk hb" and ?L = "ord C"
  let ?s = "(c * ?x + ?k) mod ?L"
  have L: "2 ^ 252 \<le> ?L" "?L < 2 ^ 256" using C by (auto simp: vrf_curve_ok_def)
  have s: "?s < ?L" "le_nat (le_bytes 32 ?s) = ?s"
  proof -
    have "0 < ?L" using L(1) by (intro gr0I) simp
    then show "?s < ?L" by simp
    then show "le_nat (le_bytes 32 ?s) = ?s" using L(2) by (intro le_nat_le_bytes) simp
  qed
  have cv: "le_nat (le_bytes 32 c @ replicate 32 0) mod ?L = c"
    using c le_nat_le_bytes[of c 32] by (simp add: le_nat_append_zeros)
  have B: "smul ?L (base C) = 0" using C by (simp add: vrf_curve_ok_def)
  have U: "smul c (- smul ?x (base C)) + smul ?s (base C) = smul ?k (base C)"
    by (rule schnorr_cancel[OF B refl])
  have V: "smul ?s H + smul c (- smul ?x H) = smul ?k H"
    using schnorr_cancel[OF hashToCurve_order(1)[OF C H] refl, of c ?x ?k] by (simp add: add.commute)
  have "le_bytes 32 c = le_bytes 16 c @ replicate 16 0" using le_bytes_pad[OF c(1), of 16] by simp
  show "vrf_verify C (smul ?x (base C)) prf alpha = Inr (out, True)"
    unfolding vrf_verify_def pf decode_proof[OF C c(1)] H out gammaToHash_def
    using h by (simp add: Let_def s cv U V curve_encode[OF C])
  show "ProofToHash C prf = Inr out"
    unfolding ProofToHash_def pf decode_proof[OF C c(1)] out by simp
  have "length (pt_bytes C G) = 32" for G using C unfolding vrf_curve_ok_def by blast
  then show "length prf = 80" unfolding pf by simp
  show "length out = 64" using C unfolding out by (simp add: vrf_curve_ok_def gammaToHash_def cofactorGammaToHash_def)
qed

subsection \<open>Canonical encodings\<close>

lemma le_nat_max: "le_nat bs = 256 ^ length bs - 1 \<longleftrightarrow> (\<forall>b \<in> set bs. b = 0xff)"
proof (induction bs)
  case (Cons b bs)
  have b: "unat b \<le> 255" "unat b = 255 \<longleftrightarrow> b = 0xff"
    using unat_byte_lt[of b] by (auto simp: word_unat_eq_iff)
  have r: "le_nat bs < 256 ^ length bs" by (rule le_nat_less)
  define m where "m = (256 :: nat) ^ length bs"
  have "unat b + 256 * le_nat bs = 256 * m - 1 \<longleftrightarrow> unat b = 255 \<and> le_nat bs = m - 1"
    using b(1) r[folded m_def] by auto
  then show ?case using Cons.IH b(2) by (simp add: le_nat_Cons m_def)
qed simp

lemma le_nat_append: "le_nat (as @ bs) = le_nat as + 256 ^ length as * le_nat bs"
  by (induction as) (auto simp: le_nat_Cons algebra_simps)

lemma isCanonicalY_iff:
  assumes "length enc = 32"
  shows "isCanonicalY enc \<longleftrightarrow> le_nat (enc[31 := (enc ! 31) AND 0x7f]) < 2 ^ 255 - 19"
proof -
  obtain b0 mid top where e: "enc = b0 # mid @ [top]" and m: "length mid = 30"
  proof (cases enc)
    case (Cons b xs)
    moreover obtain ys y where "xs = ys @ [y]" using assms Cons by (cases xs rule: rev_cases) auto
    ultimately show ?thesis using that assms by simp
  qed (use assms in simp)
  let ?t = "top AND 0x7f"
  have t: "unat ?t \<le> 127" "unat ?t = 127 \<longleftrightarrow> ?t = 0x7f"
  proof -
    have "?t \<le> 0x7f" by (rule word_and_le1)
    then show "unat ?t \<le> 127" "unat ?t = 127 \<longleftrightarrow> ?t = 0x7f"
      by (auto simp: word_le_nat_alt word_unat_eq_iff)
  qed
  have n: "enc ! 31 = top" "enc ! 0 = b0" "enc[31 := ?t] = b0 # mid @ [?t]" "take 30 (drop 1 enc) = mid"
    using m by (simp_all add: e nth_append list_update_append)
  have v: "le_nat (b0 # mid @ [?t]) = unat b0 + 256 * (le_nat mid + 256 ^ 30 * unat ?t)"
    using m by (simp add: le_nat_Cons le_nat_append)
  have b0: "unat b0 < 256" "b0 < 0xed \<longleftrightarrow> unat b0 < 237" using unat_byte_lt[of b0] by (auto simp: word_less_nat_alt)
  have mid: "le_nat mid < 256 ^ 30" "le_nat mid = 256 ^ 30 - 1 \<longleftrightarrow> (\<forall>b \<in> set mid. b = 0xff)"
    using le_nat_less[of mid] le_nat_max[of mid] m by simp_all
  have arith: "unat b0 + 256 * (le_nat mid + 256 ^ 30 * unat ?t) < 2 ^ 255 - 19 \<longleftrightarrow>
      unat ?t \<noteq> 127 \<or> unat b0 < 237 \<or> le_nat mid \<noteq> 256 ^ 30 - 1"
  proof (cases "unat ?t = 127")
    case True
    then show ?thesis using b0(1) mid(1) by auto
  next
    case False
    then have "unat ?t \<le> 126" using t(1) by simp
    then show ?thesis using b0(1) mid(1) False by simp
  qed
  show ?thesis
    unfolding isCanonicalY_def n v arith using assms t(2) b0(2) mid(2) by auto
qed

lemma prove_verifies:
  assumes "vrf_curve_ok C" and "vrf_KeyGen C seed = Inr (pk, sk)" and "vrf_Prove C sk alpha = Inr (pf, out)"
  shows "VerifyAndHash C pk pf alpha = Inr out \<and> vrf_Verify C pk pf out alpha = Inr True \<and>
    ProofToHash C pf = Inr out \<and> length pf = 80 \<and> length out = 64"
proof -
  let ?Y = "smul (secret_scalar C sk) (base C)"
  have k: "pk = pt_bytes C ?Y" "length sk = 32"
    using assms(2) by (auto simp: vrf_KeyGen_def secret_scalar_def Let_def split: if_splits)
  have p: "isCanonicalY (pt_bytes C ?Y)" "pt_set C (pt_bytes C ?Y) = Some ?Y"
    using assms(1) unfolding vrf_curve_ok_def by blast+
  have "length (take 32 (sha512 C sk)) = 32" using assms(1) by (simp add: vrf_curve_ok_def)
  then have "smul 8 ?Y \<noteq> 0" using clamped_not_small[OF assms(1)] by (simp add: secret_scalar_def)
  then have "VerifyAndHash C pk pf alpha = Inr out"
    using p vrf_verify_prove(1)[OF assms(1,3)] by (simp add: VerifyAndHash_def k(1))
  then show ?thesis using vrf_verify_prove[OF assms(1,3)] by (simp add: vrf_Verify_def)
qed

subsection \<open>Properties\<close>

text \<open>C12: Completeness: a proof made with the secret key of a generated pair verifies under its
  public key for the same input and yields the prover's output, which is also the hash of the
  proof; the proof has 80 bytes and the output 64.  The cyclic group, the encodings and the
  hashes are those of the curve library.\<close>

theorem vrf_completeness:
  assumes "vrf_curve_ok C" and "vrf_KeyGen C seed = Inr (pk, sk)" and "vrf_Prove C sk alpha = Inr (pf, out)"
  shows "VerifyAndHash C pk pf alpha = Inr out \<and> vrf_Verify C pk pf out alpha = Inr True \<and>
    ProofToHash C pf = Inr out \<and> length pf = 80 \<and> length out = 64"
  by (rule prove_verifies[OF assms])

text \<open>Encoding several points with a single field inversion gives, point by point, the
  encodings of their affine coordinates, whenever no \<open>Z\<close> coordinate is zero.\<close>

lemma batch_encoding_correct:
  assumes "\<forall>P \<in> set ps. snd (snd (coords C P)) \<noteq> 0"
  shows "encodePoints C ps =
    map (\<lambda>P. case coords C P of (x, y, z) \<Rightarrow> encodeAffine C (x * inverse z) (y * inverse z)) ps"
  using encodePoints_eq[OF assms] by (simp add: affine_def)

text \<open>The addition chain computes the Legendre symbol: on every commutative monoid it raises
  its argument to \<open>(p - 1) / 2\<close> for \<open>p = 2^255 - 19\<close>.\<close>

lemma chi25519_is_legendre: "chi25519 z = z ^ (((2 ^ 255 - 19) - 1) div 2)"
  using chi25519_power[of z] by simp

text \<open>The canonicity test, made byte by byte, accepts a 32-byte encoding if and only if its
  \<open>y\<close> coordinate, the little-endian number without the sign bit, is below \<open>2^255 - 19\<close>.\<close>

lemma canonical_y_exact:
  assumes "length enc = 32"
  shows "isCanonicalY enc \<longleftrightarrow> le_nat (enc[31 := (enc ! 31) AND 0x7f]) < 2 ^ 255 - 19"
  by (rule isCanonicalY_iff[OF assms])

text \<open>A cyclic group of odd order with the encodings the contract asks for, for the witnesses.\<close>

abbreviation example_order :: int where
  "example_order \<equiv> 2 ^ 252 + 1"

typedef cyclic = "{0 ..< example_order}"
  by (rule exI[of _ 0]) simp

setup_lifting type_definition_cyclic

instantiation cyclic :: ab_group_add
begin

lift_definition zero_cyclic :: cyclic is 0 by simp
lift_definition plus_cyclic :: "cyclic \<Rightarrow> cyclic \<Rightarrow> cyclic" is "\<lambda>a b. (a + b) mod example_order" by simp
lift_definition uminus_cyclic :: "cyclic \<Rightarrow> cyclic" is "\<lambda>a. (- a) mod example_order" by simp
lift_definition minus_cyclic :: "cyclic \<Rightarrow> cyclic \<Rightarrow> cyclic" is "\<lambda>a b. (a - b) mod example_order" by simp

instance
  by standard (transfer; simp add: mod_simps algebra_simps)+

end

lift_definition cyclic_one :: cyclic is 1 by simp
lift_definition cyclic_rep :: "cyclic \<Rightarrow> int" is "\<lambda>a. a" .
lift_definition cyclic_of :: "int \<Rightarrow> cyclic" is "\<lambda>a. a mod example_order" by simp

lemma cyclic_rep_bounds: "0 \<le> cyclic_rep P" "cyclic_rep P < example_order"
  by (transfer; simp)+

lemma cyclic_of_rep: "cyclic_of (cyclic_rep P) = P"
  by transfer simp

lemma cyclic_rep_plus: "cyclic_rep (P + Q) = (cyclic_rep P + cyclic_rep Q) mod example_order"
  by transfer simp

lemma smul_cyclic: "cyclic_rep (smul n P) = int n * cyclic_rep P mod example_order"
proof (induction n)
  case 0
  have "cyclic_rep 0 = 0" by transfer simp
  then show ?case by simp
next
  case (Suc n)
  then show ?case by (simp add: cyclic_rep_plus mod_simps algebra_simps)
qed

lemma cyclic_rep_zero: "P = 0 \<longleftrightarrow> cyclic_rep P = 0"
  by transfer simp

definition example_curve :: "(cyclic, rat) vrf_curve" where
  "example_curve = \<lparr>ord = nat example_order, base = cyclic_one,
     pt_bytes = (\<lambda>P. le_bytes 32 (nat (cyclic_rep P))),
     pt_set = (\<lambda>b. Some (cyclic_of (int (le_nat b)))), clamped = (\<lambda>b. 2 ^ 254),
     coords = (\<lambda>P. (0, of_int (cyclic_rep P), 1)), fe_bytes = (\<lambda>q. le_bytes 32 (nat \<lfloor>q\<rfloor>)),
     fe_set = (\<lambda>b. 0), fe_negative = (\<lambda>q. False), sha512 = (\<lambda>b. replicate 64 0),
     vrf_blake2b256 = (\<lambda>b. replicate 32 0)\<rparr>"

lemma nth_le_bytes: "i < n \<Longrightarrow> le_bytes n v ! i = word_of_nat (v div 256 ^ i mod 256)"
proof (induction n arbitrary: i v)
  case (Suc n)
  then show ?case by (cases i) (simp_all add: le_bytes_Suc div_mult2_eq)
qed simp

lemma small_is_canonical: "v \<le> 2 ^ 252 \<Longrightarrow> isCanonicalY (le_bytes 32 v)"
proof -
  assume v: "v \<le> 2 ^ 252"
  let ?t = "le_bytes 32 v ! 31"
  have "v div 256 ^ 31 \<le> 2 ^ 252 div 256 ^ 31" using v by (rule div_le_mono)
  then have d: "v div 256 ^ 31 \<le> 16" by simp
  then have "unat ?t \<le> 16"
    using nth_le_bytes[of 31 32 v] by (simp add: unat_of_nat take_bit_eq_mod)
  moreover have "?t AND 0x7f \<le> ?t" by (rule word_and_le2)
  ultimately have "unat (?t AND 0x7f) \<le> 16" by (simp add: word_le_nat_alt)
  then have "?t AND 0x7f \<noteq> 0x7f" by auto
  then show ?thesis by (simp add: isCanonicalY_def)
qed

lemma example_curve_ok: "vrf_curve_ok example_curve"
proof -
  let ?C = example_curve
  have o: "ord ?C = 2 ^ 252 + 1" "int (ord ?C) = example_order" by (simp_all add: example_curve_def)
  have rep: "nat (cyclic_rep P) \<le> 2 ^ 252" "le_nat (le_bytes 32 (nat (cyclic_rep P))) = nat (cyclic_rep P)" for P
    using cyclic_rep_bounds[of P] by (auto intro!: le_nat_le_bytes)
  have one: "cyclic_rep cyclic_one = 1" by transfer simp
  have "smul n (base ?C) = 0 \<longleftrightarrow> ord ?C dvd n" for n
  proof -
    have b: "base ?C = cyclic_one" by (simp add: example_curve_def)
    have "smul n (base ?C) = 0 \<longleftrightarrow> int (ord ?C) dvd int n"
      unfolding o(2) b cyclic_rep_zero smul_cyclic one mult_1_right dvd_eq_mod_eq_0 ..
    then show ?thesis unfolding of_nat_dvd_iff .
  qed
  moreover have "smul (ord ?C * 8) P = 0" for P :: cyclic
  proof -
    have "int (ord ?C * 8) * cyclic_rep P = example_order * (8 * cyclic_rep P)"
      using o(2) by simp
    then have "cyclic_rep (smul (ord ?C * 8) P) = 0" unfolding smul_cyclic by (metis mod_mult_self1_is_0)
    then show ?thesis unfolding cyclic_rep_zero .
  qed
  moreover have "length (pt_bytes ?C P) = 32 \<and> isCanonicalY (pt_bytes ?C P) \<and> pt_set ?C (pt_bytes ?C P) = Some P" for P
    using rep[of P] cyclic_rep_bounds[of P] cyclic_of_rep[of P]
    by (simp add: example_curve_def small_is_canonical)
  moreover have "snd (snd (coords ?C P)) \<noteq> 0 \<and> pt_bytes ?C P = affine ?C (coords ?C P)" for P
    by (simp add: example_curve_def affine_def encodeAffine_def Let_def)
  moreover have "odd (ord ?C)" "2 ^ 252 \<le> ord ?C" "ord ?C < 2 ^ 256" by (simp_all add: example_curve_def)
  moreover have "8 dvd clamped ?C b \<and> 2 ^ 254 \<le> clamped ?C b \<and> clamped ?C b < 2 ^ 255" for b
    by (simp add: example_curve_def)
  moreover have "length (sha512 ?C b) = 64" for b by (simp add: example_curve_def)
  ultimately show ?thesis unfolding vrf_curve_ok_def by blast
qed

lemma example_prove:
  "\<exists>pk pf out. vrf_KeyGen example_curve (replicate 32 9) = Inr (pk, replicate 32 9) \<and>
     vrf_Prove example_curve (replicate 32 9) alpha = Inr (pf, out)"
proof -
  let ?C = example_curve and ?sk = "replicate 32 9 :: bytes"
  let ?Y = "smul (secret_scalar ?C ?sk) (base ?C)"
  obtain pk where k: "vrf_KeyGen ?C ?sk = Inr (pk, ?sk)" by (simp add: vrf_KeyGen_def Let_def)
  obtain H hb where h: "hashToCurveElligator2 ?C ?Y alpha = Inr (H, hb)"
    by (simp add: hashToCurveElligator2_def ge25519FromUniform_def Let_def example_curve_def)
  obtain c where c: "hashPoints ?C hb (pt_bytes ?C (smul (secret_scalar ?C ?sk) H))
       (pt_bytes ?C (smul (nonce_scalar ?C ?sk hb) (base ?C))) (pt_bytes ?C (smul (nonce_scalar ?C ?sk hb) H)) = Inr c"
    using curve_hashPoints[OF example_curve_ok] by blast
  have "length ?sk = 32" by simp
  from vrf_Prove_ok[OF example_curve_ok this h c] k show ?thesis by blast
qed

theorem vrf_completeness_witness:
  "vrf_curve_ok example_curve \<and> (\<exists>pk sk pf out. vrf_KeyGen example_curve (replicate 32 9) = Inr (pk, sk) \<and>
     vrf_Prove example_curve sk [1, 2, 3] = Inr (pf, out) \<and> VerifyAndHash example_curve pk pf [1, 2, 3] = Inr out)"
proof -
  obtain pk pf out where "vrf_KeyGen example_curve (replicate 32 9) = Inr (pk, replicate 32 9)"
    "vrf_Prove example_curve (replicate 32 9) [1, 2, 3] = Inr (pf, out)"
    using example_prove[of "[1, 2, 3]"] by blast
  then show ?thesis using example_curve_ok vrf_completeness[OF example_curve_ok] by blast
qed

end
