(* ===== verification/Leader.thy ===== *)
theory Leader
  imports Eligibility VRF
begin

text \<open>
  Slot leadership (\<open>consensus/leader.go\<close>): the election of a pool in a slot from its stake and a
  VRF signer, the check of an election from a published VRF output, and the search for the next
  slot a pool leads.  The process-wide eligibility cache is threaded through every call that
  uses it; a signer is the function its \<open>Prove\<close> method computes, with \<open>None\<close> for an error,
  and a context is the sequence of answers its \<open>Err\<close> method gives.
\<close>

datatype leader_error =
    EligibilityFailure eligibility_error | SignerNil | EpochNonceLength nat | LeaderCoeffNil
  | SlotTooLarge u64 | VrfInputFailure vrf_error | SignerFailure | ProofLength nat | OutputLength nat
  | ContextNil | ContextDone | MaxSlotBeforeStart

record LeaderElectionResult =
  Eligible :: bool
  Proof :: bytes
  Output :: bytes

type_synonym vrf_signer = "bytes \<Rightarrow> (bytes \<times> bytes) option"

definition NewLeaderEligibility ::
  "eligibility_cache \<Rightarrow> u64 \<Rightarrow> u64 \<Rightarrow> rat option \<Rightarrow> ConsensusMode \<Rightarrow>
     ((leader_error + leaderEligibilityState) \<times> eligibility_cache) option" where
  "NewLeaderEligibility cache pool tot f md =
     map_option (\<lambda>(r, cache). (case r of Inl e \<Rightarrow> Inl (EligibilityFailure e) | Inr st \<Rightarrow> Inr st, cache))
       (newLeaderEligibility cache pool tot f md)"

definition prepareSlotLeadership ::
  "eligibility_cache \<Rightarrow> bytes \<Rightarrow> u64 \<Rightarrow> u64 \<Rightarrow> rat option \<Rightarrow> vrf_signer option \<Rightarrow> ConsensusMode \<Rightarrow>
     ((leader_error + (leaderEligibilityState option \<times> bool)) \<times> eligibility_cache) option" where
  "prepareSlotLeadership cache epochNonce pool tot f signer md =
     (if signer = None then Some (Inl SignerNil, cache)
      else if length epochNonce \<noteq> 32 then Some (Inl (EpochNonceLength (length epochNonce)), cache)
      else case f of
          None \<Rightarrow> Some (Inl LeaderCoeffNil, cache)
        | Some q \<Rightarrow>
            if tot = 0 \<or> pool = 0 then
              (if 0 < q then
                 (case validateActiveSlotCoefficient f of
                    Inl e \<Rightarrow> Some (Inl (EligibilityFailure e), cache)
                  | Inr _ \<Rightarrow> Some (Inr (None, True), cache))
               else Some (Inr (None, True), cache))
            else if q \<le> 0 then Some (Inr (None, False), cache)
            else map_option (\<lambda>(r, cache). (rbind r (\<lambda>st. Inr (Some st, False)), cache))
                   (NewLeaderEligibility cache pool tot f md))"

definition leaderVrfInput ::
  "(bytes \<Rightarrow> bytes) \<Rightarrow> u64 \<Rightarrow> bytes \<Rightarrow> ConsensusMode \<Rightarrow> vrf_error + bytes" where
  "leaderVrfInput hash256 slot epochNonce md =
     (case md of
        ConsensusModeTPraos \<Rightarrow> MkSeedTPraos hash256 slot epochNonce (SeedL hash256)
      | ConsensusModeCPraos \<Rightarrow> MkInputVrf hash256 slot epochNonce
      | _ \<Rightarrow> Inr [])"

definition checkSlotLeadership ::
  "(bytes \<Rightarrow> bytes) \<Rightarrow> u64 \<Rightarrow> bytes \<Rightarrow> vrf_signer option \<Rightarrow> ConsensusMode \<Rightarrow>
     leaderEligibilityState option \<Rightarrow> leader_error + LeaderElectionResult" where
  "checkSlotLeadership hash256 slot epochNonce signer md evaluator =
     (case signer of
        None \<Rightarrow> Inl SignerNil
      | Some prove \<Rightarrow>
          if 2 ^ 63 \<le> unat slot then Inl (SlotTooLarge slot)
          else case leaderVrfInput hash256 slot epochNonce md of
              Inl e \<Rightarrow> Inl (VrfInputFailure e)
            | Inr vrfInput \<Rightarrow>
                (case prove vrfInput of
                   None \<Rightarrow> Inl SignerFailure
                 | Some (prf, output) \<Rightarrow>
                     if length prf \<noteq> 80 then Inl (ProofLength (length prf))
                     else if length output \<noteq> 64 then Inl (OutputLength (length output))
                     else case evaluator of
                         None \<Rightarrow> Inr \<lparr>Eligible = False, Proof = prf, Output = output\<rparr>
                       | Some st \<Rightarrow>
                           (case CheckVRFOutput hash256 (Some st) output of
                              Inl e \<Rightarrow> Inl (EligibilityFailure e)
                            | Inr ok \<Rightarrow> Inr \<lparr>Eligible = ok, Proof = prf, Output = output\<rparr>)))"

definition IsSlotLeaderWithMode ::
  "(bytes \<Rightarrow> bytes) \<Rightarrow> eligibility_cache \<Rightarrow> u64 \<Rightarrow> bytes \<Rightarrow> u64 \<Rightarrow> u64 \<Rightarrow> rat option \<Rightarrow>
     vrf_signer option \<Rightarrow> ConsensusMode \<Rightarrow> ((leader_error + LeaderElectionResult) \<times> eligibility_cache) option" where
  "IsSlotLeaderWithMode hash256 cache slot epochNonce pool tot f signer md =
     (case validateConsensusMode md of
        Inl e \<Rightarrow> Some (Inl (EligibilityFailure e), cache)
      | Inr _ \<Rightarrow>
          map_option (\<lambda>(r, cache).
              (rbind r (\<lambda>(evaluator, zeroStake).
                 if zeroStake then Inr \<lparr>Eligible = False, Proof = [], Output = []\<rparr>
                 else checkSlotLeadership hash256 slot epochNonce signer md evaluator), cache))
            (prepareSlotLeadership cache epochNonce pool tot f signer md))"

definition IsSlotLeader ::
  "(bytes \<Rightarrow> bytes) \<Rightarrow> eligibility_cache \<Rightarrow> u64 \<Rightarrow> bytes \<Rightarrow> u64 \<Rightarrow> u64 \<Rightarrow> rat option \<Rightarrow>
     vrf_signer option \<Rightarrow> ((leader_error + LeaderElectionResult) \<times> eligibility_cache) option" where
  "IsSlotLeader hash256 cache slot epochNonce pool tot f signer =
     IsSlotLeaderWithMode hash256 cache slot epochNonce pool tot f signer ConsensusModeCPraos"

definition IsSlotLeaderFromComponentsWithMode ::
  "(bytes \<Rightarrow> bytes) \<Rightarrow> eligibility_cache \<Rightarrow> bytes \<Rightarrow> u64 \<Rightarrow> u64 \<Rightarrow> rat option \<Rightarrow> ConsensusMode \<Rightarrow>
     ((leader_error + bool) \<times> eligibility_cache) option" where
  "IsSlotLeaderFromComponentsWithMode hash256 cache vrfOutput pool tot f md =
     (case validateConsensusMode md of
        Inl e \<Rightarrow> Some (Inl (EligibilityFailure e), cache)
      | Inr _ \<Rightarrow>
          (case f of
             None \<Rightarrow> Some (Inr False, cache)
           | Some q \<Rightarrow>
               if q \<le> 0 then Some (Inr False, cache)
               else if tot = 0 \<or> pool = 0 \<or> length vrfOutput \<noteq> 64 then
                 (case validateActiveSlotCoefficient f of
                    Inl e \<Rightarrow> Some (Inl (EligibilityFailure e), cache)
                  | Inr _ \<Rightarrow> Some (Inr False, cache))
               else map_option (\<lambda>(r, cache). (rbind r (\<lambda>st.
                        case CheckVRFOutput hash256 (Some st) vrfOutput of
                          Inl e \<Rightarrow> Inl (EligibilityFailure e) | Inr ok \<Rightarrow> Inr ok), cache))
                      (NewLeaderEligibility cache pool tot f md)))"

definition IsSlotLeaderFromComponents ::
  "(bytes \<Rightarrow> bytes) \<Rightarrow> eligibility_cache \<Rightarrow> bytes \<Rightarrow> u64 \<Rightarrow> u64 \<Rightarrow> rat option \<Rightarrow> (bool \<times> eligibility_cache) option" where
  "IsSlotLeaderFromComponents hash256 cache vrfOutput pool tot f =
     map_option (\<lambda>(r, cache). (case r of Inl _ \<Rightarrow> False | Inr ok \<Rightarrow> ok, cache))
       (IsSlotLeaderFromComponentsWithMode hash256 cache vrfOutput pool tot f ConsensusModeCPraos)"

subsection \<open>The search for the next slot\<close>

text \<open>The loop counter is a \<open>uint64\<close> that may wrap; the distance to \<open>maxSlot\<close> decreases at each
  step.  \<open>ctx i\<close> is the answer of the \<open>i\<close>-th call of \<open>ctx.Err\<close>.\<close>

function findNextLoop ::
  "(nat \<Rightarrow> bool) \<Rightarrow> (u64 \<Rightarrow> leader_error + LeaderElectionResult) \<Rightarrow> u64 \<Rightarrow> nat \<Rightarrow> u64 \<Rightarrow>
     leader_error + (u64 \<times> bytes \<times> bytes) option" where
  "findNextLoop ctx check maxSlot i slot =
     (if ctx i then Inl ContextDone
      else case check slot of
          Inl e \<Rightarrow> Inl e
        | Inr result \<Rightarrow>
            if Eligible result then Inr (Some (slot, Proof result, Output result))
            else if slot = maxSlot then Inr None
            else findNextLoop ctx check maxSlot (i + 1) (slot + 1))"
  by auto
termination
proof (relation "measure (\<lambda>(_, _, maxSlot, _, slot). unat (maxSlot - slot))")
  fix maxSlot slot :: u64
  assume "slot \<noteq> maxSlot"
  then have "maxSlot - slot \<noteq> 0" by simp
  then have "unat (maxSlot - slot - 1) < unat (maxSlot - slot)" by (rule measure_unat)
  then show "((a, b, maxSlot, i + 1, slot + 1), (a, b, maxSlot, i, slot))
      \<in> measure (\<lambda>(_, _, maxSlot, _, slot). unat (maxSlot - slot))" for a b i
    by (simp add: diff_diff_eq)
qed simp

definition FindNextSlotLeadershipContext ::
  "(bytes \<Rightarrow> bytes) \<Rightarrow> eligibility_cache \<Rightarrow> (nat \<Rightarrow> bool) option \<Rightarrow> u64 \<Rightarrow> u64 \<Rightarrow> bytes \<Rightarrow> u64 \<Rightarrow> u64 \<Rightarrow>
     rat option \<Rightarrow> vrf_signer option \<Rightarrow>
     ((leader_error + (u64 \<times> bytes \<times> bytes) option) \<times> eligibility_cache) option" where
  "FindNextSlotLeadershipContext hash256 cache context startSlot maxSlot epochNonce pool tot f signer =
     (case context of
        None \<Rightarrow> Some (Inl ContextNil, cache)
      | Some ctx \<Rightarrow>
          if maxSlot < startSlot then Some (Inl MaxSlotBeforeStart, cache)
          else if ctx 0 then Some (Inl ContextDone, cache)
          else map_option (\<lambda>(r, cache).
              (rbind r (\<lambda>(evaluator, zeroStake).
                 if zeroStake then Inr None
                 else findNextLoop ctx
                   (\<lambda>slot. checkSlotLeadership hash256 slot epochNonce signer ConsensusModeCPraos evaluator)
                   maxSlot 1 startSlot), cache))
            (prepareSlotLeadership cache epochNonce pool tot f signer ConsensusModeCPraos))"

definition FindNextSlotLeadership ::
  "(bytes \<Rightarrow> bytes) \<Rightarrow> eligibility_cache \<Rightarrow> u64 \<Rightarrow> u64 \<Rightarrow> bytes \<Rightarrow> u64 \<Rightarrow> u64 \<Rightarrow>
     rat option \<Rightarrow> vrf_signer option \<Rightarrow>
     ((leader_error + (u64 \<times> bytes \<times> bytes) option) \<times> eligibility_cache) option" where
  "FindNextSlotLeadership hash256 cache startSlot maxSlot epochNonce pool tot f signer =
     FindNextSlotLeadershipContext hash256 cache (Some (\<lambda>_. False)) startSlot maxSlot epochNonce pool tot f signer"

declare findNextLoop.simps [simp del]

lemma unat_succ: "x < m \<Longrightarrow> unat (x + 1 :: u64) = Suc (unat x)"
proof -
  assume "x < m"
  then have "Suc (unat x) < 2 ^ 64" using unat_u64_less[of m] by (simp add: word_less_nat_alt)
  then show ?thesis by (simp add: unat_word_ariths)
qed

lemma succ_le_iff_less: "x < m \<Longrightarrow> x + 1 \<le> t \<longleftrightarrow> x < (t :: u64)"
  by (simp add: word_le_nat_alt word_less_nat_alt unat_succ Suc_le_eq)

subsection \<open>The cache does not matter\<close>

definition eligibility_of :: "u64 \<Rightarrow> u64 \<Rightarrow> rat option \<Rightarrow> ConsensusMode \<Rightarrow> leader_error + leaderEligibilityState" where
  "eligibility_of pool tot f md =
     (case the (uncachedEligibility pool tot f md) of Inl e \<Rightarrow> Inl (EligibilityFailure e) | Inr st \<Rightarrow> Inr st)"

lemma NewLeaderEligibility_pure:
  assumes "memo_sound cache"
  shows "\<exists>cache'. NewLeaderEligibility cache pool tot f md = Some (eligibility_of pool tot f md, cache') \<and>
    memo_sound cache'"
  using newLeaderEligibility_transparent[OF assms, of pool tot f md]
  by (auto simp: NewLeaderEligibility_def eligibility_of_def)

definition leadership_of ::
  "bytes \<Rightarrow> u64 \<Rightarrow> u64 \<Rightarrow> rat option \<Rightarrow> vrf_signer option \<Rightarrow> ConsensusMode \<Rightarrow>
     leader_error + (leaderEligibilityState option \<times> bool)" where
  "leadership_of epochNonce pool tot f signer md =
     fst (the (prepareSlotLeadership leaderEligibilityMemo epochNonce pool tot f signer md))"

lemma prepare_pure:
  assumes "memo_sound cache"
  shows "\<exists>cache'. prepareSlotLeadership cache epochNonce pool tot f signer md =
    Some (leadership_of epochNonce pool tot f signer md, cache') \<and> memo_sound cache'"
proof -
  obtain c1 c2 where
    "NewLeaderEligibility cache pool tot f md = Some (eligibility_of pool tot f md, c1)" "memo_sound c1"
    "NewLeaderEligibility leaderEligibilityMemo pool tot f md = Some (eligibility_of pool tot f md, c2)"
    using NewLeaderEligibility_pure[OF assms] NewLeaderEligibility_pure[OF memo_sound_initial] by blast
  then show ?thesis using assms
    by (auto simp: prepareSlotLeadership_def leadership_of_def split: option.splits sum.splits)
qed

definition election_of ::
  "(bytes \<Rightarrow> bytes) \<Rightarrow> u64 \<Rightarrow> bytes \<Rightarrow> u64 \<Rightarrow> u64 \<Rightarrow> rat option \<Rightarrow> vrf_signer option \<Rightarrow> ConsensusMode \<Rightarrow>
     leader_error + LeaderElectionResult" where
  "election_of hash256 slot epochNonce pool tot f signer md =
     rbind (leadership_of epochNonce pool tot f signer md) (\<lambda>(evaluator, zeroStake).
       if zeroStake then Inr \<lparr>Eligible = False, Proof = [], Output = []\<rparr>
       else checkSlotLeadership hash256 slot epochNonce signer md evaluator)"

lemma IsSlotLeader_pure:
  assumes "memo_sound cache" "validateConsensusMode md = Inr ()"
  shows "\<exists>cache'. IsSlotLeaderWithMode hash256 cache slot epochNonce pool tot f signer md =
    Some (election_of hash256 slot epochNonce pool tot f signer md, cache') \<and> memo_sound cache'"
  using prepare_pure[OF assms(1), of epochNonce pool tot f signer md] assms(2)
  by (auto simp: IsSlotLeaderWithMode_def election_of_def)

subsection \<open>The search\<close>

lemma findNextLoop_result:
  assumes "slot \<le> maxSlot"
  shows "case findNextLoop ctx check maxSlot i slot of
      Inr (Some (s, p, out)) \<Rightarrow> slot \<le> s \<and> s \<le> maxSlot \<and>
        (\<exists>r. check s = Inr r \<and> Eligible r \<and> p = Proof r \<and> out = Output r) \<and>
        (\<forall>t. slot \<le> t \<and> t < s \<longrightarrow> (\<exists>r. check t = Inr r \<and> \<not> Eligible r))
    | Inr None \<Rightarrow> \<forall>t. slot \<le> t \<and> t \<le> maxSlot \<longrightarrow> (\<exists>r. check t = Inr r \<and> \<not> Eligible r)
    | Inl e \<Rightarrow> (\<exists>j. ctx j) \<or> (\<exists>t. slot \<le> t \<and> t \<le> maxSlot \<and> check t = Inl e)"
  using assms
proof (induction ctx check maxSlot i slot rule: findNextLoop.induct)
  case (1 ctx check maxSlot i slot)
  show ?case
  proof (cases "\<not> ctx i \<and> (\<exists>r. check slot = Inr r \<and> \<not> Eligible r) \<and> slot \<noteq> maxSlot")
    case False
    then show ?thesis using "1.prems"
      by (subst findNextLoop.simps) (auto simp: not_less split: sum.splits)
  next
    case True
    then obtain r where r: "\<not> ctx i" "check slot = Inr r" "\<not> Eligible r" "slot \<noteq> maxSlot" by blast
    have lt: "slot < maxSlot" using r(4) "1.prems" by simp
    have nxt: "slot + 1 \<le> t \<longleftrightarrow> slot < t" for t by (rule succ_le_iff_less[OF lt])
    have eq: "findNextLoop ctx check maxSlot i slot = findNextLoop ctx check maxSlot (i + 1) (slot + 1)"
      using r by (subst findNextLoop.simps) simp
    have split: "slot \<le> t \<longleftrightarrow> t = slot \<or> slot < t" for t by auto
    show ?thesis
      using "1.IH"[OF r(1,2,3,4)] lt r(2,3) unfolding eq nxt split
      by (auto split: sum.splits option.splits)
  qed
qed

text \<open>A check from a published output agrees with the election that produced it.\<close>

lemma check_result:
  assumes "checkSlotLeadership hash256 slot epochNonce signer md ev = Inr res"
  shows "length (Output res) = 64 \<and>
    (case ev of None \<Rightarrow> \<not> Eligible res | Some st \<Rightarrow> CheckVRFOutput hash256 (Some st) (Output res) = Inr (Eligible res))"
  using assms
  by (auto simp: checkSlotLeadership_def split: option.splits sum.splits if_splits)

lemma leadership_cases:
  assumes "leadership_of epochNonce pool tot f signer md = Inr (ev, zeroStake)"
  obtains q where "f = Some q"
    and "zeroStake \<longleftrightarrow> tot = 0 \<or> pool = 0" and "zeroStake \<and> 0 < q \<longrightarrow> validateActiveSlotCoefficient f = Inr ()"
    and "\<not> zeroStake \<longrightarrow> (case ev of None \<Rightarrow> q \<le> 0 | Some st \<Rightarrow> 0 < q \<and> eligibility_of pool tot f md = Inr st)"
proof -
  obtain c where "NewLeaderEligibility leaderEligibilityMemo pool tot f md = Some (eligibility_of pool tot f md, c)"
    using NewLeaderEligibility_pure[OF memo_sound_initial] by blast
  then show ?thesis using assms that
    by (auto simp: leadership_of_def prepareSlotLeadership_def split: option.splits sum.splits if_splits)
qed

lemma components_agree:
  assumes "memo_sound cache" "memo_sound cache2"
    and "IsSlotLeaderWithMode hash256 cache slot epochNonce pool tot f signer md = Some (Inr res, cache')"
  shows "\<exists>cache''. IsSlotLeaderFromComponentsWithMode hash256 cache2 (Output res) pool tot f md =
    Some (Inr (Eligible res), cache'')"
proof -
  have md: "validateConsensusMode md = Inr ()"
    using assms(3) by (cases "validateConsensusMode md") (auto simp: IsSlotLeaderWithMode_def)
  have "election_of hash256 slot epochNonce pool tot f signer md = Inr res"
    using IsSlotLeader_pure[OF assms(1) md, of hash256 slot epochNonce pool tot f signer] assms(3) by auto
  then obtain ev zeroStake where prep: "leadership_of epochNonce pool tot f signer md = Inr (ev, zeroStake)"
    and res: "if zeroStake then res = \<lparr>Eligible = False, Proof = [], Output = []\<rparr>
      else checkSlotLeadership hash256 slot epochNonce signer md ev = Inr res"
    by (auto simp: election_of_def split: if_splits)
  from prep obtain q where q: "f = Some q" "zeroStake \<longleftrightarrow> tot = 0 \<or> pool = 0"
      "zeroStake \<and> 0 < q \<longrightarrow> validateActiveSlotCoefficient f = Inr ()"
      "\<not> zeroStake \<longrightarrow> (case ev of None \<Rightarrow> q \<le> 0 | Some st \<Rightarrow> 0 < q \<and> eligibility_of pool tot f md = Inr st)"
    by (rule leadership_cases)
  obtain c where c: "NewLeaderEligibility cache2 pool tot f md = Some (eligibility_of pool tot f md, c)"
    using NewLeaderEligibility_pure[OF assms(2)] by blast
  note defs = IsSlotLeaderFromComponentsWithMode_def md q(1)
  show ?thesis
  proof (cases zeroStake)
    case True
    then show ?thesis using q res by (auto simp: defs)
  next
    case False
    then have r: "checkSlotLeadership hash256 slot epochNonce signer md ev = Inr res" using res by simp
    show ?thesis
    proof (cases ev)
      case None
      then show ?thesis using q(4) False check_result[OF r] by (simp add: defs)
    next
      case (Some st)
      then have "0 < q" "eligibility_of pool tot f md = Inr st" "tot \<noteq> 0" "pool \<noteq> 0"
        using q(2,4) False by auto
      then show ?thesis using c check_result[OF r] by (simp add: defs Some)
    qed
  qed
qed

subsection \<open>Properties\<close>

text \<open>C18: A leadership decision can be checked by everybody: whenever the election of a pool in a
  slot returns a result, the check from the published VRF output with the same stake
  and coefficient returns the same decision, in either mode and whatever the two caches hold.\<close>

theorem election_matches_check:
  assumes "memo_sound cache" and "memo_sound cache2"
    and "IsSlotLeaderWithMode hash256 cache slot epochNonce pool tot f signer md = Some (Inr res, cache')"
  shows "\<exists>cache''. IsSlotLeaderFromComponentsWithMode hash256 cache2 (Output res) pool tot f md =
    Some (Inr (Eligible res), cache'')"
  by (rule components_agree[OF assms])

text \<open>The result of the election of a slot, if it returns one.\<close>

definition elected ::
  "(bytes \<Rightarrow> bytes) \<Rightarrow> eligibility_cache \<Rightarrow> bytes \<Rightarrow> u64 \<Rightarrow> u64 \<Rightarrow> rat option \<Rightarrow> vrf_signer option \<Rightarrow> u64 \<Rightarrow>
     LeaderElectionResult option" where
  "elected hash256 cache epochNonce pool tot f signer slot =
     (case IsSlotLeader hash256 cache slot epochNonce pool tot f signer of
        Some (Inr res, _) \<Rightarrow> Some res | _ \<Rightarrow> None)"

lemma elected_eq:
  assumes "memo_sound cache"
  shows "elected hash256 cache epochNonce pool tot f signer slot =
    (case election_of hash256 slot epochNonce pool tot f signer ConsensusModeCPraos of
       Inl _ \<Rightarrow> None | Inr res \<Rightarrow> Some res)"
proof -
  obtain c where "IsSlotLeader hash256 cache slot epochNonce pool tot f signer =
      Some (election_of hash256 slot epochNonce pool tot f signer ConsensusModeCPraos, c)"
    using IsSlotLeader_pure[OF assms, of ConsensusModeCPraos hash256 slot epochNonce pool tot f signer]
    by (auto simp: IsSlotLeader_def)
  then show ?thesis by (simp add: elected_def split: sum.splits)
qed

lemma search_loop:
  assumes "slot \<le> maxSlot" "\<forall>t. el t = (case check t of Inl _ \<Rightarrow> None | Inr res \<Rightarrow> Some res)"
  shows "case findNextLoop (\<lambda>_. False) check maxSlot i slot of
      Inl e \<Rightarrow> True
    | Inr (Some (s, p, out)) \<Rightarrow> slot \<le> s \<and> s \<le> maxSlot \<and>
        el s = Some \<lparr>Eligible = True, Proof = p, Output = out\<rparr> \<and>
        (\<forall>t. slot \<le> t \<and> t < s \<longrightarrow> (\<exists>r. el t = Some r \<and> \<not> Eligible r))
    | Inr None \<Rightarrow> \<forall>t. slot \<le> t \<and> t \<le> maxSlot \<longrightarrow> (\<exists>r. el t = Some r \<and> \<not> Eligible r)"
proof -
  have eq: "Eligible r \<Longrightarrow> r = \<lparr>Eligible = True, Proof = Proof r, Output = Output r\<rparr>" for r
    by (intro LeaderElectionResult.equality) simp_all
  show ?thesis
  proof (cases "findNextLoop (\<lambda>_. False) check maxSlot i slot")
    case (Inr res)
    note b = findNextLoop_result[OF assms(1), of "\<lambda>_. False" check i, unfolded Inr]
    show ?thesis
    proof (cases res)
      case None
      then show ?thesis using b assms(2) by (force simp: Inr)
    next
      case (Some q)
      obtain s p out where q: "q = (s, p, out)" by (cases q)
      from b obtain r where r: "check s = Inr r" "Eligible r" "p = Proof r" "out = Output r"
        by (auto simp: Some q)
      have "el s = Some \<lparr>Eligible = True, Proof = p, Output = out\<rparr>" using assms(2) r eq[of r] by simp
      then show ?thesis using b assms(2) by (force simp: Inr Some q)
    qed
  qed simp
qed

text \<open>C40: The search returns the first slot the pool leads: the election at the returned slot
  succeeds with the returned proof and output and every earlier slot of the range has an
  election that fails; if it returns no slot, every slot of the range has one that fails.  It
  always returns, although the range may end at the largest \<open>uint64\<close>.\<close>

theorem search_finds_first_led_slot:
  assumes "memo_sound cache"
  shows "\<exists>r cache'. FindNextSlotLeadership hash256 cache startSlot maxSlot epochNonce pool tot f signer = Some (r, cache') \<and>
    (case r of
       Inl _ \<Rightarrow> True
     | Inr (Some (s, p, out)) \<Rightarrow> startSlot \<le> s \<and> s \<le> maxSlot \<and>
         elected hash256 cache epochNonce pool tot f signer s = Some \<lparr>Eligible = True, Proof = p, Output = out\<rparr> \<and>
         (\<forall>t. startSlot \<le> t \<and> t < s \<longrightarrow>
            (\<exists>res. elected hash256 cache epochNonce pool tot f signer t = Some res \<and> \<not> Eligible res))
     | Inr None \<Rightarrow> \<forall>t. startSlot \<le> t \<and> t \<le> maxSlot \<longrightarrow>
         (\<exists>res. elected hash256 cache epochNonce pool tot f signer t = Some res \<and> \<not> Eligible res))"
proof -
  let ?m = ConsensusModeCPraos
  let ?prep = "leadership_of epochNonce pool tot f signer ?m"
  obtain c where prep: "prepareSlotLeadership cache epochNonce pool tot f signer ?m = Some (?prep, c)"
    using prepare_pure[OF assms] by blast
  note fn = FindNextSlotLeadership_def FindNextSlotLeadershipContext_def prep
  consider (order) "maxSlot < startSlot" | (fail) e where "?prep = Inl e" "startSlot \<le> maxSlot"
    | (zero) ev where "?prep = Inr (ev, True)" "startSlot \<le> maxSlot"
    | (run) ev where "?prep = Inr (ev, False)" "startSlot \<le> maxSlot"
    by (cases ?prep) (auto simp: not_less[symmetric])
  then show ?thesis
  proof cases
    case order
    then show ?thesis by (simp add: fn)
  next
    case fail
    then show ?thesis by (simp add: fn not_less)
  next
    case zero
    then show ?thesis by (simp add: fn not_less elected_eq[OF assms] election_of_def)
  next
    case run
    let ?check = "\<lambda>slot. checkSlotLeadership hash256 slot epochNonce signer ?m ev"
    have F: "FindNextSlotLeadership hash256 cache startSlot maxSlot epochNonce pool tot f signer =
        Some (findNextLoop (\<lambda>_. False) ?check maxSlot 1 startSlot, c)"
    proof -
      have "\<not> maxSlot < startSlot" using run(2) by simp
      then show ?thesis by (simp add: fn run(1))
    qed
    have E: "\<forall>t. elected hash256 cache epochNonce pool tot f signer t =
        (case ?check t of Inl _ \<Rightarrow> None | Inr res \<Rightarrow> Some res)"
      by (simp add: elected_eq[OF assms] election_of_def run(1))
    show ?thesis by (rule exI, rule exI, rule conjI, rule F, rule search_loop[OF run(2) E])
  qed
qed

definition example_signer :: vrf_signer where
  "example_signer = (\<lambda>input. Some (replicate 80 0, replicate 64 0))"

lemma example_eligibility:
  "\<exists>st. eligibility_of 3 10 (Some (1 / 20)) ConsensusModeCPraos = Inr st \<and> le_maximum st = 2 ^ 256 \<and>
     le_mode st = ConsensusModeCPraos"
proof -
  let ?key = "eligibility_key 3 10 (1 / 20) ConsensusModeCPraos"
  have q: "quotient_of (1 / 20 :: rat) = (1, 20)" by code_simp
  have v: "validateActiveSlotCoefficient (Some (1 / 20)) = Inr ()"
    unfolding validateActiveSlotCoefficient_iff[OF q] by simp
  obtain st where st: "prepareLeaderEligibility ?key = Some (Inr st)"
    using prepare_main_domain[of ?key] by (auto simp: eligibility_key_def q e34Scale_def)
  have "le_maximum st = 2 ^ 256" "le_mode st = ConsensusModeCPraos"
    using prepare_maximum[OF st] by (simp_all add: eligibility_key_def twoTo256_def)
  then show ?thesis using st v by (simp add: eligibility_of_def uncachedEligibility_def)
qed

lemma example_leadership:
  "is_ok (election_of (\<lambda>b. replicate 32 0) 7 (replicate 32 1) 3 10 (Some (1 / 20)) (Some example_signer) ConsensusModeCPraos)"
proof -
  let ?f = "Some (1 / 20) :: rat option" and ?m = ConsensusModeCPraos
  obtain st where st: "eligibility_of 3 10 ?f ?m = Inr st" "le_maximum st = 2 ^ 256" "le_mode st = ?m"
    using example_eligibility by blast
  obtain c where "NewLeaderEligibility leaderEligibilityMemo 3 10 ?f ?m = Some (Inr st, c)"
    using NewLeaderEligibility_pure[OF memo_sound_initial, of 3 10 ?f ?m] st(1) by auto
  then have l: "leadership_of (replicate 32 1) 3 10 ?f (Some example_signer) ?m = Inr (Some st, False)"
    by (simp add: leadership_of_def prepareSlotLeadership_def)
  have "be_nat (replicate 32 0) < 256 ^ 32" using be_nat_less[of "replicate 32 0"] by simp
  then have "is_ok (CheckCertifiedNatural (Some st) (Some (int (be_nat (replicate 32 0)))))"
    using st(2) by (intro CheckCertifiedNatural_total) simp_all
  then obtain ok where "CheckCertifiedNatural (Some st) (Some (int (be_nat (replicate 32 0)))) = Inr ok"
    by (auto simp: is_ok_ex)
  moreover have "example_signer b = Some (replicate 80 0, replicate 64 0)" for b by (simp add: example_signer_def)
  ultimately show ?thesis
    unfolding election_of_def l using st(3)
    by (simp add: checkSlotLeadership_def leaderVrfInput_def MkInputVrf_def CheckVRFOutput_def VrfLeaderValue_def)
qed

theorem election_matches_check_witness:
  "memo_sound leaderEligibilityMemo \<and> (\<exists>res cache' cache''.
     IsSlotLeaderWithMode (\<lambda>b. replicate 32 0) leaderEligibilityMemo 7 (replicate 32 1) 3 10 (Some (1 / 20))
       (Some example_signer) ConsensusModeCPraos = Some (Inr res, cache') \<and>
     IsSlotLeaderFromComponentsWithMode (\<lambda>b. replicate 32 0) leaderEligibilityMemo (Output res) 3 10 (Some (1 / 20))
       ConsensusModeCPraos = Some (Inr (Eligible res), cache''))"
proof -
  have m: "validateConsensusMode ConsensusModeCPraos = Inr ()" by simp
  obtain res where e: "election_of (\<lambda>b. replicate 32 0) 7 (replicate 32 1) 3 10 (Some (1 / 20)) (Some example_signer)
      ConsensusModeCPraos = Inr res"
    using example_leadership by (auto simp: is_ok_ex)
  obtain cache' where r: "IsSlotLeaderWithMode (\<lambda>b. replicate 32 0) leaderEligibilityMemo 7 (replicate 32 1) 3 10
      (Some (1 / 20)) (Some example_signer) ConsensusModeCPraos = Some (Inr res, cache')"
    using IsSlotLeader_pure[OF memo_sound_initial m, of "\<lambda>b. replicate 32 0" 7 "replicate 32 1" 3 10 "Some (1 / 20)"
      "Some example_signer", unfolded e] by blast
  show ?thesis
    using memo_sound_initial r election_matches_check[OF memo_sound_initial memo_sound_initial r] by blast
qed

theorem search_finds_first_led_slot_witness:
  "memo_sound leaderEligibilityMemo \<and>
   (\<exists>r cache'. FindNextSlotLeadership (\<lambda>b. replicate 32 0) leaderEligibilityMemo 5 9 (replicate 32 1) 0 10
      (Some (1 / 20)) (Some example_signer) = Some (r, cache'))"
  using memo_sound_initial search_finds_first_led_slot[OF memo_sound_initial,
    of "\<lambda>b. replicate 32 0" 5 9 "replicate 32 1" 0 10 "Some (1 / 20)" "Some example_signer"] by blast

end
