(* ===== verification/Tachys.thy ===== *)
theory Tachys
  imports Leader "HOL-Library.List_Lexorder" "HOL-Library.Multiset"
begin

text \<open>
  Tachys leader selection (\<open>consensus/tachys.go\<close>): a stake distribution prepared as cumulative
  intervals ordered by pool identifier, and the pool whose interval contains the sample of a
  slot, found by Go's \<open>sort.Search\<close>.
\<close>

type_synonym pool_id = bytes

record TachysPool =
  tp_ID :: pool_id
  tp_Stake :: u64

record TachysLeaderSelector =
  intervals :: "(pool_id \<times> u64) list"
  tls_totalStake :: u64

datatype tachys_error =
    TachysEmpty | TachysZeroTotal | TachysZeroStake pool_id | TachysDuplicate pool_id | TachysOverflow
  | TachysMismatch u64 u64 | TachysUninitialized | TachysNonceLength nat | TachysSampleLength nat
  | TachysIndexPanic | TachysIssuerLength nat | TachysSelectorNil | TachysSignerNil | TachysSlotTooLarge u64
  | TachysVrfInput vrf_error | TachysSigner | TachysProofLength nat | TachysOutputLength nat

text \<open>The loop over the ordered pools; \<open>prev\<close> is the identifier before the current one.\<close>

fun tachysIntervals ::
  "pool_id option \<Rightarrow> u64 \<Rightarrow> TachysPool list \<Rightarrow> tachys_error + ((pool_id \<times> u64) list \<times> u64)" where
  "tachysIntervals prev cumulative [] = Inr ([], cumulative)"
| "tachysIntervals prev cumulative (pool # pools) =
     (if tp_Stake pool = 0 then Inl (TachysZeroStake (tp_ID pool))
      else if prev = Some (tp_ID pool) then Inl (TachysDuplicate (tp_ID pool))
      else let (nxt, carry) = add64 cumulative (tp_Stake pool) in
        if carry \<noteq> 0 then Inl TachysOverflow
        else rbind (tachysIntervals (Some (tp_ID pool)) nxt pools) (\<lambda>(rest, tot).
          Inr ((tp_ID pool, nxt) # rest, tot)))"

text \<open>\<open>sort.Slice\<close> with the byte-wise order; equal identifiers are rejected afterwards, so the
  order it leaves them in does not matter.\<close>

definition NewTachysLeaderSelector :: "TachysPool list \<Rightarrow> u64 \<Rightarrow> tachys_error + TachysLeaderSelector" where
  "NewTachysLeaderSelector pools totalStake =
     (if pools = [] then Inl TachysEmpty
      else if totalStake = 0 then Inl TachysZeroTotal
      else rbind (tachysIntervals None 0 (sort_key tp_ID pools)) (\<lambda>(ivs, cumulative).
        if cumulative \<noteq> totalStake then Inl (TachysMismatch cumulative totalStake)
        else Inr \<lparr>intervals = ivs, tls_totalStake = totalStake\<rparr>))"

definition TachysSample :: "(bytes \<Rightarrow> bytes) \<Rightarrow> bytes \<Rightarrow> u64 \<Rightarrow> tachys_error + bytes" where
  "TachysSample hash256 epochNonce slot =
     (if length epochNonce \<noteq> 32 then Inl (TachysNonceLength (length epochNonce))
      else Inr (hash256 (epochNonce @ be_bytes 8 (unat slot))))"

text \<open>\<open>sort.Search\<close>: binary search for the first index at which the predicate holds.\<close>

function sortSearch :: "(nat \<Rightarrow> bool) \<Rightarrow> nat \<Rightarrow> nat \<Rightarrow> nat" where
  "sortSearch f i j =
     (if i < j then let h = (i + j) div 2 in if \<not> f h then sortSearch f (h + 1) j else sortSearch f i h
      else i)"
  by auto
termination
  by (relation "measure (\<lambda>(_, i, j). j - i)") (auto simp: Let_def)

declare sortSearch.simps [simp del]

definition LeaderForSample :: "TachysLeaderSelector option \<Rightarrow> bytes \<Rightarrow> tachys_error + pool_id" where
  "LeaderForSample os sample =
     (case os of
        None \<Rightarrow> Inl TachysUninitialized
      | Some s \<Rightarrow>
          if intervals s = [] \<or> tls_totalStake s = 0 then Inl TachysUninitialized
          else if length sample \<noteq> 32 then Inl (TachysSampleLength (length sample))
          else let scaledSample = be_nat sample * unat (tls_totalStake s);
                   index = sortSearch (\<lambda>i. scaledSample < unat (snd (intervals s ! i)) * 2 ^ 256)
                     0 (length (intervals s))
            in if index < length (intervals s) then Inr (fst (intervals s ! index)) else Inl TachysIndexPanic)"

definition tachys_Leader ::
  "(bytes \<Rightarrow> bytes) \<Rightarrow> TachysLeaderSelector option \<Rightarrow> bytes \<Rightarrow> u64 \<Rightarrow> tachys_error + pool_id" where
  "tachys_Leader hash256 os epochNonce slot =
     (case os of
        None \<Rightarrow> Inl TachysUninitialized
      | Some s \<Rightarrow>
          if intervals s = [] \<or> tls_totalStake s = 0 then Inl TachysUninitialized
          else rbind (TachysSample hash256 epochNonce slot) (LeaderForSample os))"

definition tachys_IsLeader ::
  "(bytes \<Rightarrow> bytes) \<Rightarrow> TachysLeaderSelector option \<Rightarrow> bytes \<Rightarrow> u64 \<Rightarrow> pool_id \<Rightarrow> tachys_error + bool" where
  "tachys_IsLeader hash256 s epochNonce slot poolID =
     rbind (tachys_Leader hash256 s epochNonce slot) (\<lambda>leader. Inr (leader = poolID))"

definition AuthorizeIssuer ::
  "(bytes \<Rightarrow> bytes) \<Rightarrow> (bytes \<Rightarrow> bytes) \<Rightarrow> TachysLeaderSelector option \<Rightarrow> bytes \<Rightarrow> u64 \<Rightarrow> bytes \<Rightarrow> tachys_error + bool" where
  "AuthorizeIssuer hash256 hash224 s epochNonce slot issuerVkey =
     (if length issuerVkey \<noteq> 32 then Inl (TachysIssuerLength (length issuerVkey))
      else tachys_IsLeader hash256 s epochNonce slot (hash224 issuerVkey))"

definition IsTachysSlotLeader ::
  "(bytes \<Rightarrow> bytes) \<Rightarrow> (bytes \<Rightarrow> bytes) \<Rightarrow> u64 \<Rightarrow> bytes \<Rightarrow> bytes \<Rightarrow> TachysLeaderSelector option \<Rightarrow>
     vrf_signer option \<Rightarrow> tachys_error + LeaderElectionResult" where
  "IsTachysSlotLeader hash256 hash224 slot epochNonce issuerVkey selector signer =
     (if selector = None then Inl TachysSelectorNil
      else case signer of
          None \<Rightarrow> Inl TachysSignerNil
        | Some prove \<Rightarrow>
            rbind (AuthorizeIssuer hash256 hash224 selector epochNonce slot issuerVkey) (\<lambda>authorized.
              if \<not> authorized then Inr \<lparr>Eligible = False, Proof = [], Output = []\<rparr>
              else if 2 ^ 63 \<le> unat slot then Inl (TachysSlotTooLarge slot)
              else case MkInputVrf hash256 slot epochNonce of
                  Inl e \<Rightarrow> Inl (TachysVrfInput e)
                | Inr vrfInput \<Rightarrow>
                    (case prove vrfInput of
                       None \<Rightarrow> Inl TachysSigner
                     | Some (prf, output) \<Rightarrow>
                         if length prf \<noteq> 80 then Inl (TachysProofLength (length prf))
                         else if length output \<noteq> 64 then Inl (TachysOutputLength (length output))
                         else Inr \<lparr>Eligible = True, Proof = prf, Output = output\<rparr>)))"

subsection \<open>Binary search\<close>

lemma sortSearch_step:
  "i < j \<Longrightarrow> sortSearch f i j = (if f ((i + j) div 2) then sortSearch f i ((i + j) div 2) else sortSearch f (Suc ((i + j) div 2)) j)"
  "\<not> i < j \<Longrightarrow> sortSearch f i j = i"
  by (simp_all add: sortSearch.simps[of f i j] Let_def)

lemma sortSearch_first:
  assumes "i \<le> j" "\<forall>a b. i \<le> a \<longrightarrow> a \<le> b \<longrightarrow> b < j \<longrightarrow> f a \<longrightarrow> f b"
  shows "i \<le> sortSearch f i j \<and> sortSearch f i j \<le> j \<and>
    (\<forall>a. i \<le> a \<longrightarrow> a < sortSearch f i j \<longrightarrow> \<not> f a) \<and> (sortSearch f i j < j \<longrightarrow> f (sortSearch f i j))"
    (is "?P i j")
  using assms
proof (induction "j - i" arbitrary: i j rule: less_induct)
  case less
  show ?case
  proof (cases "i < j")
    case False
    then show ?thesis using less.prems(1) by (simp add: sortSearch_step(2))
  next
    case True
    define h where "h = (i + j) div 2"
    have h: "i \<le> h" "h < j" using True by (auto simp: h_def)
    have step: "sortSearch f i j = (if f h then sortSearch f i h else sortSearch f (Suc h) j)"
      unfolding h_def by (rule sortSearch_step(1)[OF True])
    have mono: "\<And>a b. i \<le> a \<Longrightarrow> a \<le> b \<Longrightarrow> b < j \<Longrightarrow> f a \<Longrightarrow> f b" using less.prems(2) by blast
    show ?thesis
    proof (cases "f h")
      case True
      have "?P i h" using h by (intro less.hyps) (auto intro: mono)
      then show ?thesis unfolding step using h True by (cases "sortSearch f i h < h") auto
    next
      case False
      have low: "\<not> f a" if "i \<le> a" "a \<le> h" for a using mono[OF that h(2)] False by blast
      have "\<forall>a b. Suc h \<le> a \<longrightarrow> a \<le> b \<longrightarrow> b < j \<longrightarrow> f a \<longrightarrow> f b" using mono h(1) by (meson Suc_leD le_trans)
      then have p: "?P (Suc h) j" using h by (intro less.hyps) auto
      have "\<not> f a" if "i \<le> a" "a < sortSearch f (Suc h) j" for a
        using p low[of a] that by (cases "a \<le> h") auto
      then show ?thesis unfolding step using p h False by auto
    qed
  qed
qed

subsection \<open>The intervals of an accepted distribution\<close>

abbreviation tp_weight :: "TachysPool \<Rightarrow> nat" where
  "tp_weight p \<equiv> unat (tp_Stake p)"

definition stake_sum :: "TachysPool list \<Rightarrow> nat" where
  "stake_sum ps = sum_list (map tp_weight ps)"

lemma stake_sum_simps [simp]:
  "stake_sum [] = 0"
  "stake_sum (p # ps) = tp_weight p + stake_sum ps"
  by (simp_all add: stake_sum_def)

lemma stake_sum_mset: "mset ps = mset qs \<Longrightarrow> stake_sum ps = stake_sum qs"
  using arg_cong[of "mset ps" "mset qs" "\<lambda>M. sum_mset (image_mset tp_weight M)"]
  by (simp add: stake_sum_def flip: sum_mset_sum_list)

lemma intervals_ok:
  assumes "sorted (map tp_ID ps)" "\<forall>x. prev = Some x \<longrightarrow> (\<forall>p \<in> set ps. x \<le> tp_ID p)"
  shows "is_ok (tachysIntervals prev c ps) \<longleftrightarrow>
    distinct (map tp_ID ps) \<and> prev \<notin> Some ` tp_ID ` set ps \<and> list_all (\<lambda>p. tp_Stake p \<noteq> 0) ps \<and>
    unat c + stake_sum ps < 2 ^ 64"
  using assms
proof (induction ps arbitrary: prev c)
  case Nil
  show ?case using unsigned_less[of c] by simp
next
  case (Cons p ps)
  obtain s k where a: "add64 c (tp_Stake p) = (s, k)" by force
  have k: "k = 0 \<longleftrightarrow> unat c + tp_weight p < 2 ^ 64" using add64_carry[of c "tp_Stake p"] a by simp
  have s: "k = 0 \<Longrightarrow> unat s = unat c + tp_weight p" using add64_no_carry a by simp
  have ih: "is_ok (tachysIntervals (Some (tp_ID p)) s ps) \<longleftrightarrow>
      distinct (map tp_ID ps) \<and> tp_ID p \<notin> tp_ID ` set ps \<and> list_all (\<lambda>p. tp_Stake p \<noteq> 0) ps \<and>
      unat s + stake_sum ps < 2 ^ 64"
    using Cons.IH[of "Some (tp_ID p)" s] Cons.prems by (simp add: image_iff)
  have step: "is_ok (tachysIntervals prev c (p # ps)) \<longleftrightarrow>
      tp_Stake p \<noteq> 0 \<and> prev \<noteq> Some (tp_ID p) \<and> k = 0 \<and> is_ok (tachysIntervals (Some (tp_ID p)) s ps)"
    by (auto simp: a is_ok_def rbind_def split: sum.splits)
  have new: "prev \<notin> Some ` tp_ID ` set ps" if "prev \<noteq> Some (tp_ID p)" "tp_ID p \<notin> tp_ID ` set ps"
  proof
    assume "prev \<in> Some ` tp_ID ` set ps"
    then obtain q where q: "q \<in> set ps" "prev = Some (tp_ID q)" by auto
    then have "tp_ID q \<le> tp_ID p" "tp_ID p \<le> tp_ID q" using Cons.prems by auto
    then show False using q that by auto
  qed
  show ?case unfolding step ih using k s new by (auto simp: add.assoc)
qed

lemma intervals_values:
  "tachysIntervals prev c ps = Inr (ivs, t) \<Longrightarrow>
     map fst ivs = map tp_ID ps \<and> unat t = unat c + stake_sum ps \<and>
     (\<forall>i < length ps. unat (snd (ivs ! i)) = unat c + stake_sum (take (Suc i) ps))"
proof (induction prev c ps arbitrary: ivs t rule: tachysIntervals.induct)
  case (2 prev c p ps)
  obtain s k where a: "add64 c (tp_Stake p) = (s, k)" by force
  from "2.prems" obtain rest where g: "tp_Stake p \<noteq> 0" "prev \<noteq> Some (tp_ID p)" "k = 0"
    "tachysIntervals (Some (tp_ID p)) s ps = Inr (rest, t)" "ivs = (tp_ID p, s) # rest"
    by (auto simp: a split: if_splits)
  have s: "unat s = unat c + tp_weight p" using add64_no_carry a g(3) by simp
  note ih = "2.IH"[OF g(1,2) a[symmetric] refl, unfolded not_not, OF g(3,4)]
  have "unat (snd (ivs ! i)) = unat c + stake_sum (take (Suc i) (p # ps))" if "i < Suc (length ps)" for i
    using ih that s g(5) by (cases i) auto
  then show ?case using ih s g(5) by auto
qed simp

lemma stake_sum_take_mono: "i \<le> j \<Longrightarrow> stake_sum (take i ps) \<le> stake_sum (take j ps)"
  using take_add[of i "j - i" ps] by (simp add: stake_sum_def)

lemma stake_sum_take_Suc: "i < length ps \<Longrightarrow> stake_sum (take (Suc i) ps) = stake_sum (take i ps) + tp_weight (ps ! i)"
  by (simp add: take_Suc_conv_app_nth stake_sum_def)

subsection \<open>The interval of a pool\<close>

text \<open>The specification: a pool owns the scaled samples from the total stake of the pools with a
  smaller identifier up to that total plus its own stake.\<close>

definition stake_below :: "TachysPool list \<Rightarrow> TachysPool \<Rightarrow> nat" where
  "stake_below pools p = stake_sum (filter (\<lambda>q. tp_ID q < tp_ID p) pools)"

definition owns_sample :: "TachysPool list \<Rightarrow> u64 \<Rightarrow> bytes \<Rightarrow> TachysPool \<Rightarrow> bool" where
  "owns_sample pools tot sample p \<longleftrightarrow>
     stake_below pools p * 2 ^ 256 \<le> be_nat sample * unat tot \<and>
     be_nat sample * unat tot < (stake_below pools p + tp_weight p) * 2 ^ 256"

lemma stake_below_mset: "mset ps = mset qs \<Longrightarrow> stake_below ps p = stake_below qs p"
  unfolding stake_below_def by (metis stake_sum_mset mset_filter)

lemma filter_unique:
  assumes "i < length xs" "\<And>j. j < length xs \<Longrightarrow> P (xs ! j) = (j = i)"
  shows "filter P xs = [xs ! i]"
proof -
  have "filter P (take i xs) = []"
    using assms by (force simp: filter_empty_conv in_set_conv_nth)
  moreover have "filter P (drop (Suc i) xs) = []"
    using assms by (auto simp: filter_empty_conv in_set_conv_nth)
  ultimately show ?thesis
    using assms by (subst id_take_nth_drop[OF assms(1)]) simp
qed

lemma stake_below_sorted:
  assumes "sorted (map tp_ID ps)" "distinct (map tp_ID ps)" "i < length ps"
  shows "stake_below ps (ps ! i) = stake_sum (take i ps)"
proof -
  have lt: "tp_ID (ps ! a) < tp_ID (ps ! b)" if "a < b" "b < length ps" for a b
    using that assms(1,2) strict_sorted_iff[of "map tp_ID ps"] by (auto simp: sorted_wrt_iff_nth_less)
  have "filter (\<lambda>q. tp_ID q < tp_ID (ps ! i)) (take i ps) = take i ps"
    using lt assms(3) by (auto simp: filter_id_conv in_set_conv_nth)
  moreover have "\<not> tp_ID (ps ! (i + j)) < tp_ID (ps ! i)" if "i + j < length ps" for j
    using lt[of i "i + j"] that by (cases j) auto
  then have "filter (\<lambda>q. tp_ID q < tp_ID (ps ! i)) (drop i ps) = []"
    by (auto simp: filter_empty_conv in_set_conv_nth)
  ultimately have "filter (\<lambda>q. tp_ID q < tp_ID (ps ! i)) ps = take i ps"
    by (metis append_take_drop_id filter_append append_Nil2)
  then show ?thesis by (simp add: stake_below_def)
qed

lemma sorted_pools:
  "sorted (map tp_ID (sort_key tp_ID pools))"
  "mset (sort_key tp_ID pools) = mset pools"
  by simp_all

lemma selector_inv:
  assumes "NewTachysLeaderSelector pools tot = Inr s"
  defines "ps \<equiv> sort_key tp_ID pools"
  shows "tls_totalStake s = tot" "tot \<noteq> 0" "ps \<noteq> []" "tachysIntervals None 0 ps = Inr (intervals s, tot)"
  using assms by (auto simp: NewTachysLeaderSelector_def split: if_splits)

lemma LeaderForSample_index:
  assumes s: "NewTachysLeaderSelector pools tot = Inr s" and len: "length sample = 32"
  defines "ps \<equiv> sort_key tp_ID pools" and "x \<equiv> be_nat sample * unat tot"
  obtains i where "i < length ps" "LeaderForSample (Some s) sample = Inr (tp_ID (ps ! i))"
    "stake_sum (take i ps) * 2 ^ 256 \<le> x" "x < stake_sum (take (Suc i) ps) * 2 ^ 256"
proof -
  note inv = selector_inv[OF s, folded ps_def]
  note v = intervals_values[OF inv(4)]
  define f where "f i = (x < unat (snd (intervals s ! i)) * 2 ^ 256)" for i
  have n: "length (intervals s) = length ps" using v by (metis length_map)
  have f: "f i = (x < stake_sum (take (Suc i) ps) * 2 ^ 256)" if "i < length ps" for i
    using v that by (simp add: f_def)
  have mono: "f b" if "a \<le> b" "b < length ps" "f a" for a b
    using that f stake_sum_take_mono[of "Suc a" "Suc b" ps] by (auto intro: less_le_trans)
  let ?i = "sortSearch f 0 (length ps)"
  have srch: "?i \<le> length ps" "\<forall>a < ?i. \<not> f a" "?i < length ps \<longrightarrow> f ?i"
    using sortSearch_first[of 0 "length ps" f] mono by auto
  have "x < unat tot * 2 ^ 256"
    using be_nat_less[of sample] len inv(2) by (simp add: x_def mult.commute unat_gt_0)
  then have "f (length ps - 1)" using f[of "length ps - 1"] inv(3) v by (simp add: Suc_diff_le)
  then have lt: "?i < length ps" using srch(1,2) inv(3) by (metis diff_less le_neq_implies_less length_greater_0_conv zero_less_one)
  have "stake_sum (take ?i ps) * 2 ^ 256 \<le> x"
  proof (cases ?i)
    case (Suc j)
    then have "\<not> f j" "j < length ps" using srch(2) lt by auto
    then show ?thesis using f[of j] Suc by simp
  qed simp
  moreover have "x < stake_sum (take (Suc ?i) ps) * 2 ^ 256" using srch(3) lt f[OF lt] by simp
  moreover have "fst (intervals s ! ?i) = tp_ID (ps ! ?i)" using v lt n by (metis nth_map)
  then have "LeaderForSample (Some s) sample = Inr (tp_ID (ps ! ?i))"
    using inv n lt len unfolding LeaderForSample_def by (auto simp: Let_def f_def[abs_def] x_def)
  ultimately show ?thesis using that lt by blast
qed

lemma selector_ok:
  "is_ok (NewTachysLeaderSelector pools tot) \<longleftrightarrow>
     pools \<noteq> [] \<and> distinct (map tp_ID pools) \<and> list_all (\<lambda>p. tp_Stake p \<noteq> 0) pools \<and>
     stake_sum pools = unat tot"
proof -
  let ?ps = "sort_key tp_ID pools"
  have ok: "is_ok (tachysIntervals None 0 ?ps) \<longleftrightarrow>
      distinct (map tp_ID pools) \<and> list_all (\<lambda>p. tp_Stake p \<noteq> 0) pools \<and> stake_sum pools < 2 ^ 64"
    unfolding intervals_ok[OF sorted_pools(1), of None, simplified] stake_sum_mset[OF sorted_pools(2)]
    by (simp add: list_all_iff distinct_map distinct_sort)
  have val: "tachysIntervals None 0 ?ps = Inr (ivs, t) \<Longrightarrow> unat t = stake_sum pools" for ivs t
    using intervals_values[of None 0 ?ps ivs t] stake_sum_mset[OF sorted_pools(2)] by simp
  have pos: "pools \<noteq> [] \<Longrightarrow> list_all (\<lambda>p. tp_Stake p \<noteq> 0) pools \<Longrightarrow> 0 < stake_sum pools"
    by (cases pools) (simp_all add: unat_gt_0)
  have "is_ok (NewTachysLeaderSelector pools tot) \<longleftrightarrow>
      pools \<noteq> [] \<and> tot \<noteq> 0 \<and> is_ok (tachysIntervals None 0 ?ps) \<and> stake_sum pools = unat tot"
  proof (cases "tachysIntervals None 0 ?ps")
    case (Inr r)
    then show ?thesis using val[of "fst r" "snd r"]
      by (cases r) (simp add: NewTachysLeaderSelector_def word_unat_eq_iff)
  qed (simp add: NewTachysLeaderSelector_def)
  then show ?thesis using ok pos unsigned_less[of tot] by auto
qed

text \<open>A Tachys selector is built exactly for the stake distributions that are non-empty, name every
  pool once, give every pool positive stake and sum to the declared total (the sum taken over the
  integers, so a 64-bit overflow never passes).
\<close>

lemma tachys_distribution_accepted:
  "(\<exists>s. NewTachysLeaderSelector pools tot = Inr s) \<longleftrightarrow>
     pools \<noteq> [] \<and> distinct (map tp_ID pools) \<and> list_all (\<lambda>p. tp_Stake p \<noteq> 0) pools \<and>
     stake_sum pools = unat tot"
  using selector_ok by (simp add: is_ok_ex)

text \<open>C24: Under an accepted distribution, listed in any order, every 32-byte sample has exactly one pool
  in whose stake interval it lies (from the stake of the pools with smaller identifiers up to that
  plus its own, scaled by \<open>total / 2^256\<close>), and the binary search returns that pool: it never runs
  past the last interval.
\<close>

theorem tachys_leader_unique:
  assumes "NewTachysLeaderSelector pools tot = Inr s" "length sample = 32"
  shows "\<exists>p. filter (owns_sample pools tot sample) pools = [p] \<and> LeaderForSample (Some s) sample = Inr (tp_ID p)"
proof -
  let ?ps = "sort_key tp_ID pools"
  obtain i where i: "i < length ?ps" "LeaderForSample (Some s) sample = Inr (tp_ID (?ps ! i))"
    "stake_sum (take i ?ps) * 2 ^ 256 \<le> be_nat sample * unat tot"
    "be_nat sample * unat tot < stake_sum (take (Suc i) ?ps) * 2 ^ 256"
    by (rule LeaderForSample_index[OF assms])
  have "is_ok (NewTachysLeaderSelector pools tot)" using assms by simp
  then have "distinct (map tp_ID pools)" by (simp add: selector_ok)
  then have d: "distinct (map tp_ID ?ps)" by (simp add: distinct_map distinct_sort)
  have owns: "owns_sample pools tot sample (?ps ! j) \<longleftrightarrow> j = i" if j: "j < length ?ps" for j
  proof -
    have "owns_sample pools tot sample (?ps ! j) \<longleftrightarrow>
        stake_sum (take j ?ps) * 2 ^ 256 \<le> be_nat sample * unat tot \<and>
        be_nat sample * unat tot < stake_sum (take (Suc j) ?ps) * 2 ^ 256"
      using stake_below_sorted[OF sorted_pools(1) d j] stake_below_mset[OF sorted_pools(2)[of pools]]
        stake_sum_take_Suc[OF j] by (simp add: owns_sample_def)
    moreover have "stake_sum (take (Suc j) ?ps) \<le> stake_sum (take i ?ps)" if "j < i"
      using that by (intro stake_sum_take_mono) simp
    moreover have "stake_sum (take (Suc i) ?ps) \<le> stake_sum (take j ?ps)" if "i < j"
      using that by (intro stake_sum_take_mono) simp
    ultimately show ?thesis using i(3,4) by (cases j i rule: linorder_cases) auto
  qed
  have "filter (owns_sample pools tot sample) ?ps = [?ps ! i]"
    using filter_unique[OF i(1)] owns by blast
  then have "mset (filter (owns_sample pools tot sample) pools) = mset [?ps ! i]"
    by (metis mset_filter sorted_pools(2))
  then have "filter (owns_sample pools tot sample) pools = [?ps ! i]" by (simp del: mset_filter)
  then show ?thesis using i(2) by blast
qed

definition example_pools :: "TachysPool list" where
  "example_pools = [\<lparr>tp_ID = [2], tp_Stake = 3\<rparr>, \<lparr>tp_ID = [1], tp_Stake = 1\<rparr>]"

theorem tachys_leader_unique_witness:
  "\<exists>s. NewTachysLeaderSelector example_pools 4 = Inr s \<and>
     (\<exists>p. filter (owns_sample example_pools 4 (replicate 32 0)) example_pools = [p] \<and>
        LeaderForSample (Some s) (replicate 32 0) = Inr (tp_ID p))"
proof -
  have "is_ok (NewTachysLeaderSelector example_pools 4)"
    unfolding selector_ok by (simp add: example_pools_def)
  then obtain s where "NewTachysLeaderSelector example_pools 4 = Inr s" by (auto simp: is_ok_ex)
  then show ?thesis using tachys_leader_unique[of example_pools 4 s "replicate 32 0"] by auto
qed

end
