(* ===== verification/KES.thy ===== *)
theory KES
  imports Words
begin

text \<open>
  Key-evolving signatures (\<open>kes/kes.go\<close>, \<open>kes/sign.go\<close>): the sum composition over Ed25519.
  Key generation, signing, evolution, decoding and verification are translated with their
  buffers: a Go slice that a callee fills is an argument and a result.  Blake2b-256 and the
  Ed25519 primitives are fields of \<open>kes_crypto\<close>; what the code relies on is the
  predicate \<open>kes_crypto_ok\<close>.  The central lemma gives the buffer after \<open>n\<close> evolutions in closed
  form, from which both the correctness of signatures and the erasure of spent seeds follow.
\<close>

subsection \<open>Constants and data\<close>

record kes_crypto =
  blake2b256 :: "bytes \<Rightarrow> bytes"
  ed_public :: "bytes \<Rightarrow> bytes"
  ed_sign :: "bytes \<Rightarrow> bytes \<Rightarrow> bytes"
  ed_verify :: "bytes \<Rightarrow> bytes \<Rightarrow> bytes \<Rightarrow> bool"

definition SigmaSize :: nat where "SigmaSize = 64"
definition PublicKeySize :: nat where "PublicKeySize = 32"
definition Sum0KesSigSize :: nat where "Sum0KesSigSize = 64"
definition CardanoKesDepth :: u64 where "CardanoKesDepth = 6"
definition MaxDepth :: u64 where "MaxDepth = 63"
definition MaxKeyGenDepth :: u64 where "MaxKeyGenDepth = 12"
definition kesSeedSize :: nat where "kesSeedSize = 32"
definition MaxInt :: nat where "MaxInt = 2 ^ 63 - 1"

datatype kes_error =
    DepthTooSmall | DepthTooLarge u64 | SignatureLength nat nat | SeedLength nat
  | SecretKeyNil | SecretKeyErased | SecretKeyLength nat nat
  | PeriodTooLarge u64 | PeriodMismatch u64 u64 | KeyExhausted u64

text \<open>A signature's \<open>Sigma any\<close> holds a deeper signature, a leaf, or anything else.\<close>

datatype kes_sigma =
    Sum0KesSig bytes
  | SumXKesSig (sig_Depth: u64) (sig_Sigma: kes_sigma) (sig_Left: bytes) (sig_Right: bytes)
  | OtherSigma

record SecretKey =
  sk_Depth :: u64
  sk_Period :: u64
  sk_Data :: "bytes option"
  sk_publicKey :: "bytes option"

subsection \<open>Decoding and verification\<close>

definition SignatureSize :: "u64 \<Rightarrow> int" where
  "SignatureSize depth =
     (let bytesPerLevel = 64; additionalBytes = depth * bytesPerLevel in
      if 0 < depth \<and> additionalBytes div depth \<noteq> bytesPerLevel then - 1
      else let totalBytes = 64 + additionalBytes in
        if totalBytes < 64 \<or> word_of_nat MaxInt < totalBytes then - 1 else uint totalBytes)"

definition Sum0KesSigFromBytes :: "bytes \<Rightarrow> kes_sigma" where
  "Sum0KesSigFromBytes sigBytes =
     (if length sigBytes < Sum0KesSigSize then Sum0KesSig [] else Sum0KesSig (take Sum0KesSigSize sigBytes))"

function NewSumKesFromBytes :: "u64 \<Rightarrow> bytes \<Rightarrow> kes_error + kes_sigma" where
  "NewSumKesFromBytes depth fromByte =
     (if depth = 0 then Inl DepthTooSmall
      else if MaxDepth < depth then Inl (DepthTooLarge depth)
      else let kesSize = nat (SignatureSize depth); nextKesSize = nat (SignatureSize (depth - 1)) in
        if length fromByte \<noteq> kesSize then Inl (SignatureLength kesSize (length fromByte))
        else rbind (if depth = 1 then Inr (Sum0KesSigFromBytes fromByte)
                    else NewSumKesFromBytes (depth - 1) (take nextKesSize fromByte))
               (\<lambda>sigma. Inr (SumXKesSig depth sigma
                  (take PublicKeySize (drop nextKesSize fromByte))
                  (take PublicKeySize (drop (nextKesSize + PublicKeySize) fromByte)))))"
  by auto
termination
  by (relation "measure (\<lambda>(d, _). unat d)") (auto intro: measure_unat)

text \<open>\<open>copy\<close> into a zeroed array of 32 bytes.\<close>

definition pad32 :: "bytes \<Rightarrow> bytes" where
  "pad32 b = take 32 (b @ replicate 32 0)"

definition HashPair :: "kes_crypto \<Rightarrow> bytes \<Rightarrow> bytes \<Rightarrow> bytes" where
  "HashPair K l r = blake2b256 K (pad32 l @ pad32 r)"

fun kes_Verify :: "kes_crypto \<Rightarrow> kes_sigma \<Rightarrow> u64 \<Rightarrow> bytes \<Rightarrow> bytes \<Rightarrow> bool" where
  "kes_Verify K (SumXKesSig depth sigma l r) period pubKey msg =
     (if push_bit (unat depth) 1 \<le> period then False
      else if HashPair K l r \<noteq> pubKey then False
      else let nextDepth = push_bit (unat (depth - 1)) 1 in
        if nextDepth \<le> period then kes_Verify K sigma (period - nextDepth) r msg
        else kes_Verify K sigma period l msg)"
| "kes_Verify K (Sum0KesSig s) period pubKey msg = (period = 0 \<and> ed_verify K pubKey msg s)"
| "kes_Verify K OtherSigma period pubKey msg = False"

definition VerifySignedKES :: "kes_crypto \<Rightarrow> bytes \<Rightarrow> u64 \<Rightarrow> bytes \<Rightarrow> bytes \<Rightarrow> bool" where
  "VerifySignedKES K vkey period msg sig =
     (case NewSumKesFromBytes CardanoKesDepth sig of
        Inl _ \<Rightarrow> False
      | Inr proof \<Rightarrow> kes_Verify K proof period vkey msg)"

subsection \<open>Key generation\<close>

text \<open>\<open>copy(dst[off:], src)\<close> for a source that fits; the sizes below make every copy fit.\<close>

definition copy_at :: "nat \<Rightarrow> bytes \<Rightarrow> bytes \<Rightarrow> bytes" where
  "copy_at off src dst =
     take off dst @ take (length dst - off) src @ drop (off + length src) dst"

text \<open>The panic of \<open>secretKeySize\<close> on depths over \<open>MaxInt/96\<close> is out of reach: every caller
  bounds the depth by \<open>MaxDepth\<close> or \<open>MaxKeyGenDepth\<close> first.\<close>

definition secretKeySize :: "nat \<Rightarrow> nat" where
  "secretKeySize depth = (if depth = 0 then 32 else 32 + depth * 96)"

definition validateSecretKeyStructure :: "u64 \<Rightarrow> bytes \<Rightarrow> kes_error + unit" where
  "validateSecretKeyStructure depth data =
     (if MaxDepth < depth then Inl (DepthTooLarge depth)
      else let expectedSize = secretKeySize (unat depth) in
        if length data \<noteq> expectedSize then Inl (SecretKeyLength expectedSize (length data)) else Inr ())"

definition expandSeed :: "kes_crypto \<Rightarrow> bytes \<Rightarrow> byte \<Rightarrow> bytes" where
  "expandSeed K seed separator = blake2b256 K (separator # pad32 seed)"

primrec publicKeyFromSeed :: "kes_crypto \<Rightarrow> nat \<Rightarrow> bytes \<Rightarrow> bytes" where
  "publicKeyFromSeed K 0 seed = ed_public K seed"
| "publicKeyFromSeed K (Suc depth) seed =
     HashPair K (publicKeyFromSeed K depth (expandSeed K seed 1)) (publicKeyFromSeed K depth (expandSeed K seed 2))"

primrec keyGenInternal :: "kes_crypto \<Rightarrow> nat \<Rightarrow> bytes \<Rightarrow> bytes \<Rightarrow> bytes \<times> bytes" where
  "keyGenInternal K 0 seed data = (ed_public K seed, copy_at 0 (take 32 seed) data)"
| "keyGenInternal K (Suc depth) seed data =
     (let leftSeed = expandSeed K seed 1; rightSeed = expandSeed K seed 2;
          childKeySize = secretKeySize depth;
          (leftPubKey, child) = keyGenInternal K depth leftSeed (take childKeySize data);
          data1 = child @ drop childKeySize data;
          rightPubKey = publicKeyFromSeed K depth rightSeed;
          data2 = copy_at childKeySize rightSeed data1;
          data3 = copy_at (childKeySize + 32) leftPubKey data2;
          data4 = copy_at (childKeySize + 64) rightPubKey data3
      in (HashPair K leftPubKey rightPubKey, data4))"

definition KeyGen :: "kes_crypto \<Rightarrow> u64 \<Rightarrow> bytes \<Rightarrow> kes_error + SecretKey \<times> bytes" where
  "KeyGen K depth seed =
     (if length seed \<noteq> kesSeedSize then Inl (SeedLength (length seed))
      else if MaxKeyGenDepth < depth then Inl (DepthTooLarge depth)
      else let (pubKey, data) = keyGenInternal K (unat depth) seed (replicate (secretKeySize (unat depth)) 0)
        in Inr (\<lparr>sk_Depth = depth, sk_Period = 0, sk_Data = Some data, sk_publicKey = Some pubKey\<rparr>, pubKey))"

subsection \<open>Signing\<close>

primrec signInternal :: "kes_crypto \<Rightarrow> nat \<Rightarrow> u64 \<Rightarrow> bytes \<Rightarrow> bytes \<Rightarrow> bytes \<Rightarrow> bytes" where
  "signInternal K 0 period data message sig = copy_at 0 (ed_sign K (take 32 data) message) sig"
| "signInternal K (Suc depth) period data message sig =
     (let childKeySize = secretKeySize depth; halfPeriod = push_bit depth 1;
          offset = childKeySize + 32;
          leftPubKey = take 32 (drop offset data);
          rightPubKey = take 32 (drop (offset + 32) data);
          childSigSize = SigmaSize + depth * PublicKeySize * 2;
          sig1 = copy_at childSigSize leftPubKey sig;
          sig2 = copy_at (childSigSize + 32) rightPubKey sig1;
          child = (if period < halfPeriod
            then signInternal K depth period (take childKeySize data) message (take childSigSize sig2)
            else signInternal K depth (period - halfPeriod) (take childKeySize data) message
                   (take childSigSize sig2))
      in child @ drop childSigSize sig2)"

definition kes_Sign :: "kes_crypto \<Rightarrow> SecretKey option \<Rightarrow> u64 \<Rightarrow> bytes \<Rightarrow> kes_error + bytes" where
  "kes_Sign K sk period message =
     (case sk of None \<Rightarrow> Inl SecretKeyNil
      | Some k \<Rightarrow> (case sk_Data k of None \<Rightarrow> Inl SecretKeyErased
        | Some data \<Rightarrow> rbind (validateSecretKeyStructure (sk_Depth k) data) (\<lambda>_.
            if push_bit (unat (sk_Depth k)) 1 \<le> period then Inl (PeriodTooLarge period)
            else if period \<noteq> sk_Period k then Inl (PeriodMismatch (sk_Period k) period)
            else Inr (signInternal K (unat (sk_Depth k)) period data message
              (replicate (SigmaSize + unat (sk_Depth k) * PublicKeySize * 2) 0)))))"

subsection \<open>Evolution\<close>

primrec updateInternal :: "kes_crypto \<Rightarrow> nat \<Rightarrow> u64 \<Rightarrow> bytes \<Rightarrow> bytes" where
  "updateInternal K 0 period data = replicate 32 0 @ drop 32 data"
| "updateInternal K (Suc depth) period data =
     (let childKeySize = secretKeySize depth; halfPeriod = push_bit depth 1;
          seed = take 32 (drop childKeySize data) in
      if period < halfPeriod - 1
      then updateInternal K depth period (take childKeySize data) @ drop childKeySize data
      else if period = halfPeriod - 1
      then copy_at childKeySize (replicate 32 0)
             (snd (keyGenInternal K depth seed (take childKeySize data)) @ drop childKeySize data)
      else updateInternal K depth (period - halfPeriod) (take childKeySize data) @ drop childKeySize data)"

definition Zeroize :: "SecretKey \<Rightarrow> SecretKey" where
  "Zeroize sk = sk\<lparr>sk_Data := None, sk_Period := 0\<rparr>"

text \<open>\<open>Update\<close> returns its result and the caller's key as it leaves it.\<close>

definition kes_Update ::
  "kes_crypto \<Rightarrow> SecretKey option \<Rightarrow> (kes_error + SecretKey) \<times> SecretKey option" where
  "kes_Update K sk =
     (case sk of None \<Rightarrow> (Inl SecretKeyNil, None)
      | Some k \<Rightarrow> (case sk_Data k of None \<Rightarrow> (Inl SecretKeyErased, sk)
        | Some data \<Rightarrow> (case validateSecretKeyStructure (sk_Depth k) data of
            Inl e \<Rightarrow> (Inl e, sk)
          | Inr _ \<Rightarrow>
              let newPeriod = sk_Period k + 1 in
              if push_bit (unat (sk_Depth k)) 1 \<le> newPeriod then (Inl (KeyExhausted (sk_Period k)), sk)
              else (Inr \<lparr>sk_Depth = sk_Depth k, sk_Period = newPeriod,
                     sk_Data = Some (updateInternal K (unat (sk_Depth k)) (sk_Period k) data),
                     sk_publicKey = sk_publicKey k\<rparr>, Some (Zeroize k)))))"

subsection \<open>Public keys\<close>

primrec publicKeyInternal :: "kes_crypto \<Rightarrow> nat \<Rightarrow> bytes \<Rightarrow> bytes" where
  "publicKeyInternal K 0 data = ed_public K (take 32 data)"
| "publicKeyInternal K (Suc depth) data =
     (let offset = secretKeySize depth + 32 in
      HashPair K (take 32 (drop offset data)) (take 32 (drop (offset + 32) data)))"

definition kes_PublicKey :: "kes_crypto \<Rightarrow> SecretKey option \<Rightarrow> bytes option" where
  "kes_PublicKey K sk =
     (case sk of None \<Rightarrow> None
      | Some k \<Rightarrow> (case sk_Data k of None \<Rightarrow> sk_publicKey k
        | Some data \<Rightarrow>
            if \<not> is_ok (validateSecretKeyStructure (sk_Depth k) data) then None
            else case sk_publicKey k of
                Some pk \<Rightarrow> Some pk
              | None \<Rightarrow> Some (publicKeyInternal K (unat (sk_Depth k)) data)))"

subsection \<open>What the primitives promise\<close>

definition kes_crypto_ok :: "kes_crypto \<Rightarrow> bool" where
  "kes_crypto_ok K \<longleftrightarrow>
     (\<forall>x. length (blake2b256 K x) = 32) \<and>
     (\<forall>s. length s = 32 \<longrightarrow> length (ed_public K s) = 32) \<and>
     (\<forall>s m. length s = 32 \<longrightarrow> length (ed_sign K s m) = 64 \<and> ed_verify K (ed_public K s) m (ed_sign K s m))"

subsection \<open>The key and its signature at a period, in closed form\<close>

text \<open>The buffer of a key of the given depth and seed after \<open>n\<close> evolutions: on the right half
  of the tree the left seed is gone and the slot of the right seed is zero.\<close>

primrec key_at :: "kes_crypto \<Rightarrow> nat \<Rightarrow> bytes \<Rightarrow> nat \<Rightarrow> bytes" where
  "key_at K 0 seed n = seed"
| "key_at K (Suc d) seed n =
     (if n < 2 ^ d then key_at K d (expandSeed K seed 1) n @ expandSeed K seed 2
      else key_at K d (expandSeed K seed 2) (n - 2 ^ d) @ replicate 32 0)
     @ publicKeyFromSeed K d (expandSeed K seed 1) @ publicKeyFromSeed K d (expandSeed K seed 2)"

primrec sig_at :: "kes_crypto \<Rightarrow> nat \<Rightarrow> bytes \<Rightarrow> nat \<Rightarrow> bytes \<Rightarrow> bytes" where
  "sig_at K 0 seed n m = ed_sign K seed m"
| "sig_at K (Suc d) seed n m =
     (if n < 2 ^ d then sig_at K d (expandSeed K seed 1) n m
      else sig_at K d (expandSeed K seed 2) (n - 2 ^ d) m)
     @ publicKeyFromSeed K d (expandSeed K seed 1) @ publicKeyFromSeed K d (expandSeed K seed 2)"

primrec sigma_at :: "kes_crypto \<Rightarrow> nat \<Rightarrow> bytes \<Rightarrow> nat \<Rightarrow> bytes \<Rightarrow> kes_sigma" where
  "sigma_at K 0 seed n m = Sum0KesSig (ed_sign K seed m)"
| "sigma_at K (Suc d) seed n m =
     SumXKesSig (word_of_nat (Suc d))
       (if n < 2 ^ d then sigma_at K d (expandSeed K seed 1) n m
        else sigma_at K d (expandSeed K seed 2) (n - 2 ^ d) m)
       (publicKeyFromSeed K d (expandSeed K seed 1)) (publicKeyFromSeed K d (expandSeed K seed 2))"

lemma crypto_lengths:
  assumes "kes_crypto_ok K"
  shows "length (expandSeed K seed b) = 32"
    and "length (HashPair K l r) = 32"
    and "length seed = 32 \<Longrightarrow> length (publicKeyFromSeed K d seed) = 32"
  using assms
  by (auto simp: kes_crypto_ok_def expandSeed_def HashPair_def gr0_conv_Suc intro: nat.exhaust[of d])

lemma secretKeySize_simps [simp]: "secretKeySize 0 = 32" "secretKeySize (Suc d) = secretKeySize d + 96"
  by (simp_all add: secretKeySize_def)

lemma copy_at_fit:
  assumes "length a = off" "length b = length src"
  shows "copy_at off src (a @ b @ c) = a @ src @ c"
  using assms by (simp add: copy_at_def)

lemma length_key_at:
  assumes "kes_crypto_ok K" "length seed = 32"
  shows "length (key_at K d seed n) = secretKeySize d"
  using assms(2) by (induction d arbitrary: seed n) (auto simp: crypto_lengths[OF assms(1)])

lemma length_sig_at:
  assumes "kes_crypto_ok K" "length seed = 32"
  shows "length (sig_at K d seed n m) = 64 + 64 * d"
  using assms by (induction d arbitrary: seed n) (auto simp: crypto_lengths[OF assms(1)] kes_crypto_ok_def)

lemma four_parts:
  assumes "length xs = s + 96"
  obtains k a b c where "xs = k @ a @ b @ c" "length k = s" "length a = 32" "length b = 32" "length c = 32"
proof (rule that)
  show "xs = take s xs @ take 32 (drop s xs) @ take 32 (drop 32 (drop s xs)) @ drop 32 (drop 32 (drop s xs))"
    by (simp only: append_take_drop_id)
qed (use assms in simp_all)

lemma copy_at_mid:
  "length k = off \<Longrightarrow> length b = length src \<Longrightarrow> copy_at off src (k @ b @ c) = k @ src @ c"
  "length k + length a = off \<Longrightarrow> length b = length src \<Longrightarrow> copy_at off src (k @ a @ b @ c) = k @ a @ src @ c"
  "length k + length a + length a' = off \<Longrightarrow> length b = length src \<Longrightarrow>
     copy_at off src (k @ a @ a' @ b) = k @ a @ a' @ src"
  by (auto simp: copy_at_def)

lemma keyGenInternal_eq:
  assumes K: "kes_crypto_ok K"
  shows "length seed = 32 \<Longrightarrow> length data = secretKeySize d \<Longrightarrow>
    keyGenInternal K d seed data = (publicKeyFromSeed K d seed, key_at K d seed 0)"
proof (induction d arbitrary: seed data)
  case 0
  then show ?case by (simp add: copy_at_def)
next
  case (Suc d)
  let ?s = "secretKeySize d" and ?L = "expandSeed K seed 1" and ?R = "expandSeed K seed 2"
  note len = crypto_lengths[OF K]
  from Suc.prems(2) obtain k a b c where d: "data = k @ a @ b @ c" "length k = ?s"
      "length a = 32" "length b = 32" "length c = 32"
    by (auto elim: four_parts)
  have child: "keyGenInternal K d ?L k = (publicKeyFromSeed K d ?L, key_at K d ?L 0)"
    using Suc.IH[of ?L k] d by (simp add: len)
  have "length (key_at K d ?L 0) = ?s" by (simp add: length_key_at K len)
  then show ?case
    using d by (simp add: child Let_def len copy_at_mid)
qed

lemma updateInternal_eq:
  assumes K: "kes_crypto_ok K"
  shows "length seed = 32 \<Longrightarrow> d \<le> 64 \<Longrightarrow> Suc (unat period) < 2 ^ d \<Longrightarrow>
    updateInternal K d period (key_at K d seed (unat period)) = key_at K d seed (Suc (unat period))"
proof (induction d arbitrary: seed period)
  case 0
  then show ?case by simp
next
  case (Suc d)
  note len = crypto_lengths[OF K] length_key_at[OF K]
  let ?h = "2 ^ d :: u64"
  have d: "d < 64" using Suc.prems by simp
  consider (left) "Suc (unat period) < 2 ^ d" | (cross) "Suc (unat period) = 2 ^ d" | (right) "2 ^ d \<le> unat period"
    by linarith
  then show ?case
  proof cases
    case left
    then have "period < ?h - 1" using d by (simp add: word_less_nat_alt word_pow2)
    then show ?thesis using left Suc.IH[of "expandSeed K seed 1" period] d by (simp add: Let_def len)
  next
    case cross
    then have p: "period = ?h - 1" using d by (simp add: word_unat_eq_iff word_pow2)
    have "\<not> Suc (unat period) < 2 ^ d" "unat period < 2 ^ d" using cross by auto
    then show ?thesis using p cross
      by (simp add: Let_def len keyGenInternal_eq[OF K] copy_at_mid)
  next
    case right
    moreover have "unat (?h - 1) < 2 ^ d" using d by (simp add: word_pow2)
    ultimately have "\<not> period < ?h - 1" "period \<noteq> ?h - 1"
      by (auto simp: word_less_nat_alt)
    moreover have "unat (period - ?h) = unat period - 2 ^ d" using right d by (simp add: word_pow2)
    ultimately show ?thesis
      using right d Suc.prems Suc.IH[of "expandSeed K seed 2" "period - ?h"]
      by (simp add: Let_def len Suc_diff_le)
  qed
qed

lemma signInternal_Suc:
  assumes "length u = 64 + 64 * d" "length a = 32" "length b = 32"
    and "length k = secretKeySize d" "length s = 32" "length l = 32" "length r = 32"
  shows "signInternal K (Suc d) period (k @ s @ l @ r) m (u @ a @ b) =
    signInternal K d (if period < push_bit d 1 then period else period - push_bit d 1) k m u @ l @ r"
proof -
  have off: "SigmaSize + d * PublicKeySize * 2 = length u"
    using assms by (simp add: SigmaSize_def PublicKeySize_def)
  have c1: "copy_at (length u) l (u @ a @ b) = u @ l @ b" using assms by (simp add: copy_at_def)
  have c2: "copy_at (length u + 32) r (u @ l @ b) = u @ l @ r" using assms by (simp add: copy_at_def)
  have sl: "take 32 (drop (secretKeySize d + 32) (k @ s @ l @ r)) = l"
      "take 32 (drop (secretKeySize d + 32 + 32) (k @ s @ l @ r)) = r" "take (secretKeySize d) (k @ s @ l @ r) = k"
    using assms by simp_all
  show ?thesis
    unfolding signInternal.simps Let_def off sl c1 c2 by simp
qed

lemma signInternal_eq:
  assumes K: "kes_crypto_ok K"
  shows "length seed = 32 \<Longrightarrow> d \<le> 64 \<Longrightarrow> unat period < 2 ^ d \<Longrightarrow> length sig = 64 + 64 * d \<Longrightarrow>
    signInternal K d period (key_at K d seed (unat period)) m sig = sig_at K d seed (unat period) m"
proof (induction d arbitrary: seed period sig)
  case 0
  then show ?case using K by (simp add: copy_at_def kes_crypto_ok_def)
next
  case (Suc d)
  note len = crypto_lengths[OF K] length_key_at[OF K]
  have d: "d < 64" using Suc.prems by simp
  obtain u a b where sig: "sig = u @ a @ b" "length u = 64 + 64 * d" "length a = 32" "length b = 32"
  proof (rule that)
    show "sig = take (64 + 64 * d) sig @ take 32 (drop (64 + 64 * d) sig) @ drop 32 (drop (64 + 64 * d) sig)"
      by (simp only: append_take_drop_id)
  qed (use Suc.prems in simp_all)
  show ?case
  proof (cases "unat period < 2 ^ d")
    case True
    then show ?thesis using sig d Suc.IH[of "expandSeed K seed 1" period u]
      by (simp add: len word_pow2 signInternal_Suc del: signInternal.simps)
  next
    case False
    moreover have "unat (period - 2 ^ d) = unat period - 2 ^ d" using False d by (simp add: word_pow2)
    ultimately show ?thesis using sig d Suc.prems Suc.IH[of "expandSeed K seed 2" "period - 2 ^ d" u]
      by (simp add: len word_pow2 signInternal_Suc del: signInternal.simps)
  qed
qed

lemma sigma_at_verifies:
  assumes K: "kes_crypto_ok K"
  shows "length seed = 32 \<Longrightarrow> d < 64 \<Longrightarrow> unat period < 2 ^ d \<Longrightarrow>
    kes_Verify K (sigma_at K d seed (unat period) m) period (publicKeyFromSeed K d seed) m"
proof (induction d arbitrary: seed period)
  case 0
  then show ?case using K by (simp add: kes_crypto_ok_def unat_eq_0)
next
  case (Suc d)
  note len = crypto_lengths[OF K]
  have n: "Suc d < 2 ^ 64" using Suc.prems by simp
  then have u: "unat (word_of_nat (Suc d) :: u64) = Suc d" by (rule unat_word_of_nat_u64)
  have v: "word_of_nat (Suc d) - 1 = (word_of_nat d :: u64)" "unat (word_of_nat d :: u64) = d"
    using n by (simp_all add: unat_word_of_nat_u64)
  have h: "\<not> 2 * 2 ^ d \<le> period" using pow2_le_iff[of "Suc d" period] Suc.prems by simp
  show ?case
  proof (cases "unat period < 2 ^ d")
    case True
    then show ?thesis
      using Suc.IH[of "expandSeed K seed 1" period] Suc.prems u v h
      by (simp add: Let_def len word_pow2 del: of_nat_Suc)
  next
    case False
    moreover have "unat (period - 2 ^ d) = unat period - 2 ^ d" using False Suc.prems by (simp add: word_pow2)
    ultimately show ?thesis
      using Suc.IH[of "expandSeed K seed 2" "period - 2 ^ d"] Suc.prems u v h
      by (simp add: Let_def len word_pow2 del: of_nat_Suc)
  qed
qed

lemma SignatureSize_eq:
  "SignatureSize depth = (if 64 + 64 * uint depth < 2 ^ 63 then 64 + 64 * uint depth else - 1)"
proof -
  let ?D = "uint depth" and ?m = "18446744073709551616 :: int"
  have D: "0 \<le> ?D" "?D < ?m" using uint_bounded[of depth] by simp_all
  have a: "uint (depth * 64) = ?D * 64 mod ?m" by (simp add: uint_word_ariths)
  have dv: "(depth * 64) div depth = 64 \<longleftrightarrow> uint (depth * 64) div ?D = 64"
    by (simp add: word_uint_eq_iff uint_div)
  have mx: "uint (word_of_nat MaxInt :: u64) = 9223372036854775807" by (simp add: MaxInt_def)
  show ?thesis
  proof (cases "?D * 64 < ?m")
    case True
    then have a': "uint (depth * 64) = ?D * 64" using a D by simp
    then have ok: "depth = 0 \<or> (depth * 64) div depth = 64" unfolding dv
      by (auto simp: word_uint_eq_iff)
    have t: "uint (64 + depth * 64) = (64 + ?D * 64) mod ?m"
      by (simp add: uint_word_ariths mod_add_right_eq)
    show ?thesis
    proof (cases "64 + ?D * 64 < ?m")
      case True
      then have "uint (64 + depth * 64) = 64 + ?D * 64" using t D by simp
      then show ?thesis using ok D by (auto simp: SignatureSize_def Let_def word_less_alt mx)
    next
      case False
      then have "64 + ?D * 64 = ?m" using \<open>?D * 64 < ?m\<close> by presburger
      then have "uint (64 + depth * 64) = 0" using t by simp
      then show ?thesis using ok \<open>64 + ?D * 64 = ?m\<close> by (auto simp: SignatureSize_def Let_def word_less_alt)
    qed
  next
    case False
    have "uint (depth * 64) < ?D * 64" using False uint_bounded[of "depth * 64"] by simp
    then have "uint (depth * 64) div ?D \<noteq> 64"
      using int_le_div_iff[of ?D 64 "uint (depth * 64)"] False D by auto
    then have "(depth * 64) div depth \<noteq> 64" unfolding dv .
    moreover have "0 < depth" using False by (auto simp: word_less_alt)
    ultimately show ?thesis using False by (simp add: SignatureSize_def)
  qed
qed

lemma SignatureSize_small: "d < 64 \<Longrightarrow> nat (SignatureSize (word_of_nat d)) = 64 + 64 * d"
proof -
  assume "d < 64"
  then have "uint (word_of_nat d :: u64) = int d" by (simp add: unsigned_of_nat take_bit_eq_mod)
  then show ?thesis using \<open>d < 64\<close> by (simp add: SignatureSize_eq)
qed
declare NewSumKesFromBytes.simps [simp del]

lemma decode_sig_at:
  assumes K: "kes_crypto_ok K"
  shows "length seed = 32 \<Longrightarrow> Suc d < 64 \<Longrightarrow>
    NewSumKesFromBytes (word_of_nat (Suc d)) (sig_at K (Suc d) seed n m) = Inr (sigma_at K (Suc d) seed n m)"
proof (induction d arbitrary: seed n)
  case 0
  have S: "nat (SignatureSize 1) = 128" "nat (SignatureSize 0) = 64" by (simp_all add: SignatureSize_eq)
  have "length (ed_sign K (expandSeed K seed b) m) = 64" "length (ed_public K (expandSeed K seed b)) = 32" for b
    using K by (simp_all add: kes_crypto_ok_def crypto_lengths[OF K])
  then show ?case
    by (auto simp: NewSumKesFromBytes.simps[of 1] MaxDepth_def S Let_def crypto_lengths[OF K] Sum0KesSigFromBytes_def
        Sum0KesSigSize_def PublicKeySize_def)
next
  case (Suc d)
  let ?w = "word_of_nat (Suc (Suc d)) :: u64"
  have w: "?w - 1 = word_of_nat (Suc d)" by simp
  have u: "unat ?w = Suc (Suc d)" using Suc.prems by (intro unat_word_of_nat_u64) simp
  then have c: "?w \<noteq> 0" "?w \<noteq> 1" "\<not> MaxDepth < ?w"
    using Suc.prems unfolding word_unat_eq_iff MaxDepth_def word_less_nat_alt by (simp_all del: of_nat_Suc)
  have S: "nat (SignatureSize ?w) = 64 + 64 * Suc (Suc d)" "nat (SignatureSize (word_of_nat (Suc d))) = 64 + 64 * Suc d"
    using Suc.prems SignatureSize_small[of "Suc (Suc d)"] SignatureSize_small[of "Suc d"]
    by (simp_all del: of_nat_Suc)
  let ?b = "if n < 2 ^ Suc d then 1 else 2" and ?n = "if n < 2 ^ Suc d then n else n - 2 ^ Suc d"
  let ?in = "sig_at K (Suc d) (expandSeed K seed ?b) ?n m"
  have e: "sig_at K (Suc (Suc d)) seed n m = ?in @
      publicKeyFromSeed K (Suc d) (expandSeed K seed 1) @ publicKeyFromSeed K (Suc d) (expandSeed K seed 2)"
    and se: "sigma_at K (Suc (Suc d)) seed n m = SumXKesSig ?w (sigma_at K (Suc d) (expandSeed K seed ?b) ?n m)
      (publicKeyFromSeed K (Suc d) (expandSeed K seed 1)) (publicKeyFromSeed K (Suc d) (expandSeed K seed 2))"
    by simp_all
  have l: "length ?in = 64 + 64 * Suc d" by (rule length_sig_at[OF K]) (simp add: crypto_lengths[OF K])
  have ih: "NewSumKesFromBytes (word_of_nat (Suc d)) ?in = Inr (sigma_at K (Suc d) (expandSeed K seed ?b) ?n m)"
    using Suc.prems by (intro Suc.IH) (simp_all add: crypto_lengths[OF K])
  show ?case
    unfolding se e NewSumKesFromBytes.simps[of ?w] w Let_def S
    using c l ih by (simp add: crypto_lengths[OF K] PublicKeySize_def del: of_nat_Suc sig_at.simps publicKeyFromSeed.simps)
qed

subsection \<open>The life of a key\<close>

text \<open>\<open>n\<close> evolutions with the call pattern \<open>sk, err = Update(sk)\<close>.\<close>

primrec kes_evolve :: "kes_crypto \<Rightarrow> nat \<Rightarrow> SecretKey \<Rightarrow> kes_error + SecretKey" where
  "kes_evolve K 0 sk = Inr sk"
| "kes_evolve K (Suc n) sk = rbind (kes_evolve K n sk) (\<lambda>k. fst (kes_Update K (Some k)))"

definition key_state :: "kes_crypto \<Rightarrow> nat \<Rightarrow> bytes \<Rightarrow> nat \<Rightarrow> SecretKey" where
  "key_state K d seed n = \<lparr>sk_Depth = word_of_nat d, sk_Period = word_of_nat n,
     sk_Data = Some (key_at K d seed n), sk_publicKey = Some (publicKeyFromSeed K d seed)\<rparr>"

lemma depth_word: "d < 64 \<Longrightarrow> unat (word_of_nat d :: u64) = d"
  by (rule unat_word_of_nat_u64) simp

lemma period_word: "d < 64 \<Longrightarrow> n < 2 ^ d \<Longrightarrow> unat (word_of_nat n :: u64) = n"
  using power_strict_increasing[of d 64 "2 :: nat"] by (intro unat_word_of_nat_u64) simp

lemma validate_key_state:
  assumes "kes_crypto_ok K" "length seed = 32" "d < 64"
  shows "validateSecretKeyStructure (word_of_nat d) (key_at K d seed n) = Inr ()"
  using assms
  by (simp add: validateSecretKeyStructure_def length_key_at depth_word MaxDepth_def word_less_nat_alt)

lemma KeyGen_ok:
  assumes "kes_crypto_ok K" "length seed = 32" "d \<le> 12"
  shows "KeyGen K (word_of_nat d) seed = Inr (key_state K d seed 0, publicKeyFromSeed K d seed)"
  using assms
  by (simp add: KeyGen_def kesSeedSize_def MaxKeyGenDepth_def word_less_nat_alt depth_word
      keyGenInternal_eq key_state_def)

lemma kes_Update_ok:
  assumes "kes_crypto_ok K" "length seed = 32" "d < 64" "Suc n < 2 ^ d"
  shows "kes_Update K (Some (key_state K d seed n)) =
    (Inr (key_state K d seed (Suc n)), Some (Zeroize (key_state K d seed n)))"
proof -
  have n: "unat (word_of_nat n :: u64) = n" "unat (word_of_nat (Suc n) :: u64) = Suc n"
    using period_word[of d] assms by (simp_all del: of_nat_Suc)
  have "\<not> (2 ^ d :: u64) \<le> word_of_nat (Suc n)"
    using assms n by (simp add: pow2_le_iff del: of_nat_Suc)
  then have "\<not> (2 ^ d :: u64) \<le> word_of_nat n + 1" by (simp add: add.commute)
  then show ?thesis
    using assms updateInternal_eq[OF assms(1,2), of d "word_of_nat n"] n
    by (simp add: kes_Update_def key_state_def validate_key_state depth_word Let_def add.commute)
qed

lemma kes_evolve_ok:
  assumes "kes_crypto_ok K" "length seed = 32" "d < 64"
  shows "n < 2 ^ d \<Longrightarrow> kes_evolve K n (key_state K d seed 0) = Inr (key_state K d seed n)"
  by (induction n) (simp_all add: kes_Update_ok[OF assms])

lemma kes_Sign_ok:
  assumes "kes_crypto_ok K" "length seed = 32" "d < 64" "n < 2 ^ d"
  shows "kes_Sign K (Some (key_state K d seed n)) (word_of_nat n) m = Inr (sig_at K d seed n m)"
  using assms signInternal_eq[OF assms(1,2), of d "word_of_nat n"]
  by (simp add: kes_Sign_def key_state_def validate_key_state depth_word period_word pow2_le_iff
      SigmaSize_def PublicKeySize_def)

text \<open>At the depth of Cardano headers.\<close>

lemma cardano_sign_verifies:
  assumes "kes_crypto_ok K" "KeyGen K CardanoKesDepth seed = Inr (sk, pk)" "kes_evolve K n sk = Inr sk'" "n < 64"
  shows "\<exists>sig. kes_Sign K (Some sk') (word_of_nat n) m = Inr sig \<and> length sig = 448 \<and>
    VerifySignedKES K pk (word_of_nat n) m sig \<and> kes_PublicKey K (Some sk') = Some pk \<and> length pk = 32"
proof -
  have c: "CardanoKesDepth = word_of_nat 6" by (simp add: CardanoKesDepth_def)
  have l: "length seed = 32" using assms(2) by (auto simp: KeyGen_def kesSeedSize_def split: if_splits)
  note k = KeyGen_ok[OF assms(1) l, of 6] kes_evolve_ok[OF assms(1) l, of 6 n] kes_Sign_ok[OF assms(1) l, of 6 n m]
  have g: "sk = key_state K 6 seed 0" "pk = publicKeyFromSeed K 6 seed" "sk' = key_state K 6 seed n"
    using k assms(2,3,4) by (simp_all add: c)
  have "kes_Verify K (sigma_at K 6 seed n m) (word_of_nat n) pk m"
    using sigma_at_verifies[OF assms(1) l, of 6 "word_of_nat n"] period_word[of 6 n] assms(4) by (simp add: g(2))
  moreover have "NewSumKesFromBytes (word_of_nat (Suc 5)) (sig_at K (Suc 5) seed n m) = Inr (sigma_at K (Suc 5) seed n m)"
    by (rule decode_sig_at[OF assms(1) l]) simp
  ultimately have "VerifySignedKES K pk (word_of_nat n) m (sig_at K 6 seed n m)"
    by (simp add: VerifySignedKES_def c del: sig_at.simps sigma_at.simps)
  moreover have "kes_PublicKey K (Some sk') = Some pk"
    using validate_key_state[OF assms(1) l, of 6] by (simp add: g kes_PublicKey_def key_state_def)
  moreover have "length (sig_at K 6 seed n m) = 448" using length_sig_at[OF assms(1) l, of 6] by simp
  moreover have "length pk = 32" using assms(1) by (simp add: g(2) HashPair_def kes_crypto_ok_def numeral_eq_Suc)
  ultimately show ?thesis using k(3) assms(4) by (auto simp: g(3))
qed

subsection \<open>Properties\<close>

text \<open>C11: A key generated from any 32-byte seed at any depth from 1 to 12 and evolved \<open>n\<close> times,
  for every period \<open>n\<close> of its tree, signs at that period; the signature decodes at that depth
  and verifies under the public key that key generation returned, which the evolved key still
  reports.\<close>

theorem kes_sign_verify:
  assumes "kes_crypto_ok K" and "length seed = 32" and "1 \<le> d" and "d \<le> 12" and "n < 2 ^ d"
  shows "\<exists>sk pk sk' sig sigma. KeyGen K (word_of_nat d) seed = Inr (sk, pk) \<and>
    kes_evolve K n sk = Inr sk' \<and> kes_Sign K (Some sk') (word_of_nat n) m = Inr sig \<and>
    NewSumKesFromBytes (word_of_nat d) sig = Inr sigma \<and>
    kes_Verify K sigma (word_of_nat n) pk m \<and> kes_PublicKey K (Some sk') = Some pk"
proof -
  obtain d' where d: "d = Suc d'" using assms(3) by (cases d) auto
  have d64: "d < 64" using assms by simp
  have "kes_Verify K (sigma_at K d seed n m) (word_of_nat n) (publicKeyFromSeed K d seed) m"
    using sigma_at_verifies[OF assms(1,2) d64, of "word_of_nat n"] period_word[OF d64 assms(5)] assms(5) by simp
  moreover have "kes_PublicKey K (Some (key_state K d seed n)) = Some (publicKeyFromSeed K d seed)"
    using validate_key_state[OF assms(1,2) d64] by (simp add: kes_PublicKey_def key_state_def)
  moreover have "NewSumKesFromBytes (word_of_nat d) (sig_at K d seed n m) = Inr (sigma_at K d seed n m)"
    unfolding d using decode_sig_at[OF assms(1,2)] d64 d by blast
  ultimately show ?thesis
    using KeyGen_ok[OF assms(1,2,4)] kes_evolve_ok[OF assms(1,2) d64 assms(5)]
      kes_Sign_ok[OF assms(1,2) d64 assms(5)] by blast
qed

text \<open>C32: Evolution erases: in the right half of the tree the buffer of the key is the right
  subtree's own buffer, 32 zero bytes in place of its seed, and the two public keys; neither
  the root seed nor the left seed enters it any more, at any depth.\<close>

theorem kes_evolution_erases:
  assumes "kes_crypto_ok K" and "length seed = 32" and "d < 12" and "2 ^ d \<le> n" and "n < 2 ^ Suc d"
  shows "\<exists>sk pk sk'. KeyGen K (word_of_nat (Suc d)) seed = Inr (sk, pk) \<and> kes_evolve K n sk = Inr sk' \<and>
    (\<exists>skR pkR skR' dataR. KeyGen K (word_of_nat d) (expandSeed K seed 2) = Inr (skR, pkR) \<and>
      kes_evolve K (n - 2 ^ d) skR = Inr skR' \<and> sk_Data skR' = Some dataR \<and>
      sk_Data sk' = Some (dataR @ replicate 32 0 @
        publicKeyFromSeed K d (expandSeed K seed 1) @ pkR))"
proof -
  have R: "length (expandSeed K seed 2) = 32" by (rule crypto_lengths(1)[OF assms(1)])
  have n: "n - 2 ^ d < 2 ^ d" using assms by simp
  show ?thesis
    using KeyGen_ok[OF assms(1,2), of "Suc d"] kes_evolve_ok[OF assms(1,2), of "Suc d" n]
      KeyGen_ok[OF assms(1) R, of d] kes_evolve_ok[OF assms(1) R _ n] assms
    by (auto simp: key_state_def simp del: of_nat_Suc)
qed

text \<open>A successful update consumes its argument: the caller's key refuses to sign and to
  update from then on and the evolved key refuses the spent period; a failed update leaves the
  caller's key as it was.\<close>

lemma kes_update_consumes:
  "case kes_Update K (Some k) of
     (Inr k', left) \<Rightarrow> left = Some (Zeroize k) \<and>
       kes_Sign K left p m = Inl SecretKeyErased \<and> fst (kes_Update K left) = Inl SecretKeyErased \<and>
       \<not> is_ok (kes_Sign K (Some k') (sk_Period k) m) \<and> sk_Period k' = sk_Period k + 1
   | (Inl _, left) \<Rightarrow> left = Some k"
proof -
  have ne: "p + 1 \<noteq> p" "p \<noteq> p + 1" for p :: u64 by simp_all
  show ?thesis
    by (auto simp: kes_Update_def kes_Sign_def Zeroize_def Let_def is_ok_ex ne
      split: option.splits sum.splits if_splits prod.splits)
qed

text \<open>A signature is accepted at the Cardano depth only if it has exactly 448 bytes and the
  period is one of the 64 of the tree.\<close>

lemma accepted_signature_shape:
  assumes "VerifySignedKES K vkey period msg sig"
  shows "length sig = 448 \<and> period < 64"
proof -
  obtain sigma where s: "NewSumKesFromBytes 6 sig = Inr sigma" "kes_Verify K sigma period vkey msg"
    using assms by (auto simp: VerifySignedKES_def CardanoKesDepth_def split: sum.splits)
  have S: "nat (SignatureSize 6) = 448" by (simp add: SignatureSize_eq)
  have l: "length sig = 448"
    using s(1) S by (simp add: NewSumKesFromBytes.simps[of 6] MaxDepth_def Let_def split: if_splits)
  obtain a b c where "sigma = SumXKesSig 6 a b c"
    using s(1) l S by (auto simp: NewSumKesFromBytes.simps[of 6] MaxDepth_def Let_def)
  then show ?thesis using s(2) l by (auto split: if_splits)
qed

text \<open>The size computation is exact on every 64-bit depth: it returns \<open>64 + 64 * depth\<close> when
  that fits a signed 64-bit integer and \<open>-1\<close> otherwise; the wrap-around of the
  product and of the sum never yields a wrong size.\<close>

lemma signature_size_exact:
  "SignatureSize depth = (if 64 + 64 * uint depth \<le> int MaxInt then 64 + 64 * uint depth else - 1)"
  by (simp add: SignatureSize_eq MaxInt_def)

text \<open>Primitives that meet the contract, for the witnesses.\<close>

definition example_crypto :: kes_crypto where
  "example_crypto = \<lparr>blake2b256 = pad32, ed_public = (\<lambda>s. s), ed_sign = (\<lambda>s m. s @ s),
     ed_verify = (\<lambda>pk m s. s = pk @ pk)\<rparr>"

lemma example_crypto_ok: "kes_crypto_ok example_crypto"
  by (simp add: kes_crypto_ok_def example_crypto_def pad32_def min_def)

theorem kes_sign_verify_witness:
  "kes_crypto_ok example_crypto \<and> length (replicate 32 (7 :: byte)) = 32 \<and>
   (\<exists>sk pk sk' sig sigma. KeyGen example_crypto (word_of_nat 6) (replicate 32 7) = Inr (sk, pk) \<and>
    kes_evolve example_crypto 37 sk = Inr sk' \<and>
    kes_Sign example_crypto (Some sk') (word_of_nat 37) [1, 2] = Inr sig \<and>
    NewSumKesFromBytes (word_of_nat 6) sig = Inr sigma \<and>
    kes_Verify example_crypto sigma (word_of_nat 37) pk [1, 2] \<and>
    kes_PublicKey example_crypto (Some sk') = Some pk)"
proof -
  have l: "length (replicate 32 (7 :: byte)) = 32" "(1 :: nat) \<le> 6" "(6 :: nat) \<le> 12" "(37 :: nat) < 2 ^ 6"
    by simp_all
  show ?thesis by (intro conjI example_crypto_ok l(1) kes_sign_verify[OF example_crypto_ok l])
qed

theorem kes_evolution_erases_witness:
  "(\<exists>sk pk sk'. KeyGen example_crypto (word_of_nat (Suc 5)) (replicate 32 7) = Inr (sk, pk) \<and>
     kes_evolve example_crypto 40 sk = Inr sk' \<and>
    (\<exists>skR pkR skR' dataR.
      KeyGen example_crypto (word_of_nat 5) (expandSeed example_crypto (replicate 32 7) 2) = Inr (skR, pkR) \<and>
      kes_evolve example_crypto (40 - 2 ^ 5) skR = Inr skR' \<and> sk_Data skR' = Some dataR \<and>
      sk_Data sk' = Some (dataR @ replicate 32 0 @
        publicKeyFromSeed example_crypto 5 (expandSeed example_crypto (replicate 32 7) 1) @ pkR)))"
proof -
  have l: "length (replicate 32 (7 :: byte)) = 32" "(5 :: nat) < 12" "(2 :: nat) ^ 5 \<le> 40" "(40 :: nat) < 2 ^ Suc 5"
    by simp_all
  show ?thesis by (rule kes_evolution_erases[OF example_crypto_ok l])
qed

end
