(* ===== verification/HeaderValidation.thy ===== *)
theory HeaderValidation
  imports Tachys KES
begin

text \<open>
  Header validation (\<open>consensus/validate.go\<close>), the network configuration it reads
  (\<open>consensus/consensus.go\<close>), the bytes an operational certificate signs
  (\<open>ledger/common/opcert.go\<close>) and the strict Ed25519 verification
  (\<open>internal/ed25519strict/verify.go\<close>).  The eleven checks call the models of the VRF, the KES
  and the leader election; a failed check is an error value, and the eligibility cache is threaded
  through the one check that uses it.
\<close>

subsection \<open>Strict Ed25519 verification\<close>

definition IsSmallOrder :: "'p :: ab_group_add \<Rightarrow> bool" where
  "IsSmallOrder point \<longleftrightarrow> smul 8 point = 0"

text \<open>\<open>verify\<close> is \<open>crypto/ed25519.Verify\<close>; points and canonical scalars are those of the curve
  library.\<close>

definition ed25519strict_Verify ::
  "('p :: ab_group_add, 'f) vrf_curve \<Rightarrow> (bytes \<Rightarrow> bytes \<Rightarrow> bytes \<Rightarrow> bool) \<Rightarrow> bytes \<Rightarrow> bytes \<Rightarrow> bytes \<Rightarrow> bool" where
  "ed25519strict_Verify C verify pubKey msg sig =
     (if length pubKey \<noteq> 32 \<or> length sig \<noteq> 64 then False
      else case pt_set C pubKey of
          None \<Rightarrow> False
        | Some publicPoint \<Rightarrow>
            if pt_bytes C publicPoint \<noteq> pubKey \<or> IsSmallOrder publicPoint then False
            else case pt_set C (take 32 sig) of
                None \<Rightarrow> False
              | Some rPoint \<Rightarrow>
                  if pt_bytes C rPoint \<noteq> take 32 sig \<or> IsSmallOrder rPoint then False
                  else if \<not> le_nat (drop 32 sig) < ord C then False
                  else verify pubKey msg sig)"

text \<open>The primitives as the signature code calls them: every verification is the strict one.\<close>

definition strict_crypto :: "('p :: ab_group_add, 'f) vrf_curve \<Rightarrow> kes_crypto \<Rightarrow> kes_crypto" where
  "strict_crypto C K = K\<lparr>ed_verify := ed25519strict_Verify C (ed_verify K)\<rparr>"

definition OpCertSignableBytes :: "bytes \<Rightarrow> u64 \<Rightarrow> u64 \<Rightarrow> bytes" where
  "OpCertSignableBytes kesVkey issueNumber kesPeriod =
     kesVkey @ be_bytes 8 (unat issueNumber) @ be_bytes 8 (unat kesPeriod)"

subsection \<open>Network configuration\<close>

record NetworkConfig =
  nc_SecurityParam :: u64
  nc_ActiveSlotCoeff :: "rat option"
  nc_SlotLength :: "rat option"
  nc_EpochLength :: u64
  nc_SlotsPerKESPeriod :: u64
  nc_MaxKESEvolutions :: u64

datatype config_error =
    SecurityParamZero | ConfigCoeffNil | ConfigCoeffRange rat | SlotLengthNil | SlotLengthNotPositive rat
  | SlotLengthNotWhole rat | SlotLengthRange rat | EpochLengthZero | SlotsPerKESPeriodZero | MaxKESEvolutionsZero

definition slotDuration :: "rat option \<Rightarrow> config_error + int" where
  "slotDuration slotLength =
     (case slotLength of
        None \<Rightarrow> Inl SlotLengthNil
      | Some len \<Rightarrow>
          if len \<le> 0 then Inl (SlotLengthNotPositive len)
          else let nanoseconds = len * 1000000000; (num, den) = quotient_of nanoseconds in
            if den \<noteq> 1 then Inl (SlotLengthNotWhole len)
            else if \<not> (- (2 ^ 63) \<le> num \<and> num < 2 ^ 63) then Inl (SlotLengthRange len)
            else Inr num)"

definition SlotDuration :: "NetworkConfig \<Rightarrow> int" where
  "SlotDuration c = (case slotDuration (nc_SlotLength c) of Inl _ \<Rightarrow> 0 | Inr d \<Rightarrow> d)"

definition network_validate :: "NetworkConfig \<Rightarrow> config_error + unit" where
  "network_validate c =
     (if nc_SecurityParam c = 0 then Inl SecurityParamZero
      else case nc_ActiveSlotCoeff c of
          None \<Rightarrow> Inl ConfigCoeffNil
        | Some f \<Rightarrow>
            if f \<le> 0 \<or> 1 < f then Inl (ConfigCoeffRange f)
            else case slotDuration (nc_SlotLength c) of
                Inl e \<Rightarrow> Inl e
              | Inr _ \<Rightarrow>
                  if nc_EpochLength c = 0 then Inl EpochLengthZero
                  else if nc_SlotsPerKESPeriod c = 0 then Inl SlotsPerKESPeriodZero
                  else if nc_MaxKESEvolutions c = 0 then Inl MaxKESEvolutionsZero
                  else Inr ())"

subsection \<open>The validator and its input\<close>

record HeaderValidator =
  hv_slotsPerKESPeriod :: u64
  hv_maxKESEvolutions :: u64
  hv_activeSlotCoeff :: "rat option"
  hv_mode :: ConsensusMode
  hv_tachys :: "TachysLeaderSelector option"

record ValidateHeaderInput =
  vi_Slot :: u64
  vi_BlockNumber :: u64
  vi_PrevHash :: bytes
  vi_IssuerVkey :: bytes
  vi_VrfKey :: bytes
  vi_VrfProof :: bytes
  vi_VrfOutput :: bytes
  vi_KesSignature :: bytes
  vi_HeaderBodyCbor :: bytes
  vi_NonceVrfProof :: bytes
  vi_NonceVrfOutput :: bytes
  vi_OpCertHotVkey :: bytes
  vi_OpCertSequenceNumber :: u64
  vi_OpCertKesPeriod :: u64
  vi_OpCertSignature :: bytes
  vi_OpCertCounterState :: "u64 option"
  vi_PrevSlot :: u64
  vi_PrevBlockNumber :: u64
  vi_PrevHeaderHash :: bytes
  vi_EpochNonce :: bytes
  vi_PoolStake :: u64
  vi_TotalStake :: u64
  vi_RegisteredVrfKeyHash :: bytes

datatype header_error =
    HSlotOrder u64 u64 | HBlockNumber u64 u64 | HPrevHashRequired | HPrevHashMismatch bytes bytes
  | HEpochNonceLength nat | HVrfKeySize nat | HVrfProofSize string nat | HVrfOutputSize string nat
  | HUnknownMode ConsensusMode | HVrfInput string u64 vrf_error | HVrfVerification string u64 vrf_error
  | HVrfFalse string u64 | HTachys tachys_error | HNotTachysLeader u64 | HTotalStakeZero | HPoolStakeZero
  | HEligibility leader_error | HNotEligible u64 | HSlotsPerKESPeriodZero | HOpCertFuture u64 u64
  | HOpCertExpired u64 u64 | HBodyCborRequired | HKesSignatureSize nat | HKesVkeySize nat | HKesSignature u64
  | HIssuerRequired | HIssuerSize nat | HOpCertSignatureSize nat | HOpCertSignature | HCounterRequired
  | HCounterRollback u64 u64 | HCounterSkip u64 u64 | HVrfHashRequired | HVrfKeySizeRegistration nat
  | HVrfKeyMismatch bytes bytes | HSlotZero

record ValidateResult =
  vr_Valid :: bool
  vr_VrfOutput :: "bytes option"
  vr_NextOpCertCounter :: "u64 option"
  vr_Errors :: "header_error list"

definition NewHeaderValidatorWithMode :: "NetworkConfig \<Rightarrow> ConsensusMode \<Rightarrow> HeaderValidator" where
  "NewHeaderValidatorWithMode config md =
     \<lparr>hv_slotsPerKESPeriod = nc_SlotsPerKESPeriod config, hv_maxKESEvolutions = nc_MaxKESEvolutions config,
      hv_activeSlotCoeff = nc_ActiveSlotCoeff config, hv_mode = md, hv_tachys = None\<rparr>"

definition NewHeaderValidator :: "NetworkConfig \<Rightarrow> HeaderValidator" where
  "NewHeaderValidator config = NewHeaderValidatorWithMode config ConsensusModeCPraos"

definition NewTachysHeaderValidator ::
  "NetworkConfig \<Rightarrow> TachysLeaderSelector option \<Rightarrow> tachys_error + HeaderValidator" where
  "NewTachysHeaderValidator config selector =
     (case selector of
        None \<Rightarrow> Inl TachysUninitialized
      | Some s \<Rightarrow>
          if intervals s = [] \<or> tls_totalStake s = 0 then Inl TachysUninitialized
          else Inr ((NewHeaderValidatorWithMode config ConsensusModeCPraos)\<lparr>hv_tachys := Some s\<rparr>))"

subsection \<open>The checks\<close>

definition validateOpCertSequence :: "HeaderValidator \<Rightarrow> ValidateHeaderInput \<Rightarrow> header_error + u64" where
  "validateOpCertSequence v input =
     (case vi_OpCertCounterState input of
        None \<Rightarrow> Inl HCounterRequired
      | Some previous \<Rightarrow>
          let current = vi_OpCertSequenceNumber input in
          if current < previous then Inl (HCounterRollback current previous)
          else if hv_mode v = ConsensusModeCPraos \<and> previous < current \<and> 1 < current - previous
            then Inl (HCounterSkip current previous)
          else Inr current)"

definition validateSlotOrdering :: "ValidateHeaderInput \<Rightarrow> header_error + unit" where
  "validateSlotOrdering input =
     (if vi_Slot input \<le> vi_PrevSlot input then Inl (HSlotOrder (vi_Slot input) (vi_PrevSlot input)) else Inr ())"

definition validateBlockNumber :: "ValidateHeaderInput \<Rightarrow> header_error + unit" where
  "validateBlockNumber input =
     (let expectedBlockNumber = vi_PrevBlockNumber input + 1 in
      if vi_BlockNumber input \<noteq> expectedBlockNumber
      then Inl (HBlockNumber (vi_BlockNumber input) expectedBlockNumber) else Inr ())"

definition validatePrevHash :: "ValidateHeaderInput \<Rightarrow> header_error + unit" where
  "validatePrevHash input =
     (if 0 < vi_BlockNumber input \<and> vi_PrevHeaderHash input = [] then Inl HPrevHashRequired
      else if vi_PrevHeaderHash input \<noteq> [] \<and> vi_PrevHash input \<noteq> vi_PrevHeaderHash input
        then Inl (HPrevHashMismatch (vi_PrevHash input) (vi_PrevHeaderHash input))
      else Inr ())"

text \<open>The conversion \<open>int64(slot)\<close> keeps the 64 bits, which is all the VRF input reads.\<close>

definition verifyCertifiedVRF ::
  "('p :: ab_group_add, 'f :: field) vrf_curve \<Rightarrow> (bytes \<Rightarrow> bytes) \<Rightarrow> HeaderValidator \<Rightarrow> u64 \<Rightarrow> bytes \<Rightarrow> bytes \<Rightarrow>
     bytes \<Rightarrow> bytes \<Rightarrow> bytes \<Rightarrow> bool \<Rightarrow> string \<Rightarrow> header_error + bytes" where
  "verifyCertifiedVRF C hash256 v slot epochNonce vrfKey prf output seed checkOutputSize label =
     (if length epochNonce \<noteq> 32 then Inl (HEpochNonceLength (length epochNonce))
      else if length vrfKey \<noteq> 32 then Inl (HVrfKeySize (length vrfKey))
      else if length prf \<noteq> 80 then Inl (HVrfProofSize label (length prf))
      else if checkOutputSize \<and> length output \<noteq> 64 then Inl (HVrfOutputSize label (length output))
      else rbind (case hv_mode v of
            ConsensusModeTPraos \<Rightarrow> Inr (MkSeedTPraos hash256 slot epochNonce seed)
          | ConsensusModeCPraos \<Rightarrow> Inr (MkInputVrf hash256 slot epochNonce)
          | md \<Rightarrow> Inl (HUnknownMode md)) (\<lambda>r.
        case r of
          Inl e \<Rightarrow> Inl (HVrfInput label slot e)
        | Inr vrfInput \<Rightarrow>
            (case vrf_Verify C vrfKey prf output vrfInput of
               Inl e \<Rightarrow> Inl (HVrfVerification label slot e)
             | Inr valid \<Rightarrow> if \<not> valid then Inl (HVrfFalse label slot) else Inr output)))"

definition validateVRFProof ::
  "('p :: ab_group_add, 'f :: field) vrf_curve \<Rightarrow> (bytes \<Rightarrow> bytes) \<Rightarrow> HeaderValidator \<Rightarrow> ValidateHeaderInput \<Rightarrow>
     header_error + bytes" where
  "validateVRFProof C hash256 v input =
     verifyCertifiedVRF C hash256 v (vi_Slot input) (vi_EpochNonce input) (vi_VrfKey input) (vi_VrfProof input)
       (vi_VrfOutput input) (SeedL hash256) False ''''"

definition validateNonceVRFProof ::
  "('p :: ab_group_add, 'f :: field) vrf_curve \<Rightarrow> (bytes \<Rightarrow> bytes) \<Rightarrow> HeaderValidator \<Rightarrow> ValidateHeaderInput \<Rightarrow>
     header_error + unit" where
  "validateNonceVRFProof C hash256 v input =
     (if hv_mode v \<noteq> ConsensusModeTPraos then Inr ()
      else rbind (verifyCertifiedVRF C hash256 v (vi_Slot input) (vi_EpochNonce input) (vi_VrfKey input)
             (vi_NonceVrfProof input) (vi_NonceVrfOutput input) (SeedEta hash256) True ''nonce '') (\<lambda>_. Inr ()))"

definition validateLeadership ::
  "(bytes \<Rightarrow> bytes) \<Rightarrow> (bytes \<Rightarrow> bytes) \<Rightarrow> eligibility_cache \<Rightarrow> HeaderValidator \<Rightarrow> ValidateHeaderInput \<Rightarrow> bytes \<Rightarrow>
     ((header_error + unit) \<times> eligibility_cache) option" where
  "validateLeadership hash256 hash224 cache v input vrfOutput =
     (case hv_tachys v of
        Some s \<Rightarrow>
          (case AuthorizeIssuer hash256 hash224 (Some s) (vi_EpochNonce input) (vi_Slot input) (vi_IssuerVkey input) of
             Inl e \<Rightarrow> Some (Inl (HTachys e), cache)
           | Inr authorized \<Rightarrow>
               Some (if \<not> authorized then Inl (HNotTachysLeader (vi_Slot input)) else Inr (), cache))
      | None \<Rightarrow>
          if vi_TotalStake input = 0 then Some (Inl HTotalStakeZero, cache)
          else if vi_PoolStake input = 0 then
            Some (case rbind (validateConsensusMode (hv_mode v)) (\<lambda>_. validateActiveSlotCoefficient (hv_activeSlotCoeff v)) of
                    Inl e \<Rightarrow> Inl (HEligibility (EligibilityFailure e))
                  | Inr _ \<Rightarrow> Inl HPoolStakeZero, cache)
          else map_option (\<lambda>(r, cache).
              (case r of
                 Inl e \<Rightarrow> Inl (HEligibility e)
               | Inr evaluator \<Rightarrow>
                   (case CheckVRFOutput hash256 (Some evaluator) vrfOutput of
                      Inl e \<Rightarrow> Inl (HEligibility (EligibilityFailure e))
                    | Inr eligible \<Rightarrow> if \<not> eligible then Inl (HNotEligible (vi_Slot input)) else Inr ()), cache))
            (NewLeaderEligibility cache (vi_PoolStake input) (vi_TotalStake input) (hv_activeSlotCoeff v) (hv_mode v)))"

definition validateKESPeriod :: "HeaderValidator \<Rightarrow> ValidateHeaderInput \<Rightarrow> header_error + unit" where
  "validateKESPeriod v input =
     (if hv_slotsPerKESPeriod v = 0 then Inl HSlotsPerKESPeriodZero
      else let currentKESPeriod = vi_Slot input div hv_slotsPerKESPeriod v;
               opCertKESPeriod = vi_OpCertKesPeriod input
        in if currentKESPeriod < opCertKESPeriod then Inl (HOpCertFuture currentKESPeriod opCertKESPeriod)
        else let evolutionPeriod = currentKESPeriod - opCertKESPeriod in
          if hv_maxKESEvolutions v \<le> evolutionPeriod then Inl (HOpCertExpired evolutionPeriod (hv_maxKESEvolutions v))
          else Inr ())"

definition validateKESSignature :: "kes_crypto \<Rightarrow> HeaderValidator \<Rightarrow> ValidateHeaderInput \<Rightarrow> header_error + unit" where
  "validateKESSignature K v input =
     (if hv_slotsPerKESPeriod v = 0 then Inl HSlotsPerKESPeriodZero
      else if vi_HeaderBodyCbor input = [] then Inl HBodyCborRequired
      else if length (vi_KesSignature input) \<noteq> 448 then Inl (HKesSignatureSize (length (vi_KesSignature input)))
      else if length (vi_OpCertHotVkey input) \<noteq> 32 then Inl (HKesVkeySize (length (vi_OpCertHotVkey input)))
      else let currentKESPeriod = vi_Slot input div hv_slotsPerKESPeriod v;
               opCertKESPeriod = vi_OpCertKesPeriod input
        in if currentKESPeriod < opCertKESPeriod then Inl (HOpCertFuture currentKESPeriod opCertKESPeriod)
        else let evolutionPeriod = currentKESPeriod - opCertKESPeriod in
          if \<not> VerifySignedKES K (vi_OpCertHotVkey input) evolutionPeriod (vi_HeaderBodyCbor input) (vi_KesSignature input)
          then Inl (HKesSignature (vi_Slot input)) else Inr ())"

definition validateOpCertSignature :: "kes_crypto \<Rightarrow> ValidateHeaderInput \<Rightarrow> header_error + unit" where
  "validateOpCertSignature K input =
     (if vi_IssuerVkey input = [] then Inl HIssuerRequired
      else if length (vi_IssuerVkey input) \<noteq> 32 then Inl (HIssuerSize (length (vi_IssuerVkey input)))
      else if length (vi_OpCertSignature input) \<noteq> 64 then Inl (HOpCertSignatureSize (length (vi_OpCertSignature input)))
      else let opCertBody = OpCertSignableBytes (vi_OpCertHotVkey input) (vi_OpCertSequenceNumber input)
                 (vi_OpCertKesPeriod input)
        in if \<not> ed_verify K (vi_IssuerVkey input) opCertBody (vi_OpCertSignature input)
           then Inl HOpCertSignature else Inr ())"

definition validateVRFKeyRegistration :: "(bytes \<Rightarrow> bytes) \<Rightarrow> ValidateHeaderInput \<Rightarrow> header_error + unit" where
  "validateVRFKeyRegistration hash256 input =
     (if vi_RegisteredVrfKeyHash input = [] then Inl HVrfHashRequired
      else if length (vi_VrfKey input) \<noteq> 32 then Inl (HVrfKeySizeRegistration (length (vi_VrfKey input)))
      else let vrfKeyHash = hash256 (vi_VrfKey input) in
        if vrfKeyHash \<noteq> vi_RegisteredVrfKeyHash input then Inl (HVrfKeyMismatch vrfKeyHash (vi_RegisteredVrfKeyHash input))
        else Inr ())"

definition QuickValidateHeader :: "ValidateHeaderInput \<Rightarrow> header_error + unit" where
  "QuickValidateHeader input =
     (if vi_Slot input = 0 then Inl HSlotZero
      else if vi_PrevHash input = [] \<and> 1 < vi_BlockNumber input then Inl HPrevHashRequired
      else if length (vi_VrfKey input) \<noteq> 32 then Inl (HVrfKeySize (length (vi_VrfKey input)))
      else if length (vi_VrfProof input) \<noteq> 80 then Inl (HVrfProofSize '''' (length (vi_VrfProof input)))
      else if length (vi_VrfOutput input) \<noteq> 64 then Inl (HVrfOutputSize '''' (length (vi_VrfOutput input)))
      else if length (vi_KesSignature input) \<noteq> 448 then Inl (HKesSignatureSize (length (vi_KesSignature input)))
      else if length (vi_OpCertHotVkey input) \<noteq> 32 then Inl (HKesVkeySize (length (vi_OpCertHotVkey input)))
      else Inr ())"

subsection \<open>The whole validation\<close>

text \<open>Every check runs and the errors are collected in order.  A verified VRF output is the slice
  of a 64-byte hash and so never nil: the leadership check runs exactly when the proof verified.\<close>

fun errors_of :: "header_error + 'a \<Rightarrow> header_error list" where
  "errors_of (Inl e) = [e]"
| "errors_of (Inr _) = []"

definition ValidateHeader ::
  "('p :: ab_group_add, 'f :: field) vrf_curve \<Rightarrow> kes_crypto \<Rightarrow> (bytes \<Rightarrow> bytes) \<Rightarrow> eligibility_cache \<Rightarrow>
     HeaderValidator \<Rightarrow> ValidateHeaderInput \<Rightarrow> (ValidateResult \<times> eligibility_cache) option" where
  "ValidateHeader C K hash224 cache v input =
     (let hash256 = blake2b256 K; KS = strict_crypto C K;
          slotErr = errors_of (validateSlotOrdering input);
          numberErr = errors_of (validateBlockNumber input);
          prevErr = errors_of (validatePrevHash input);
          vrfResult = validateVRFProof C hash256 v input
      in map_option (\<lambda>(leadership, cache).
           let nextOpCertSequence = validateOpCertSequence v input;
               errs = slotErr @ numberErr @ prevErr @ errors_of vrfResult @ errors_of leadership @
                 errors_of (validateNonceVRFProof C hash256 v input) @ errors_of (validateKESPeriod v input) @
                 errors_of (validateKESSignature KS v input) @ errors_of (validateOpCertSignature KS input) @
                 errors_of nextOpCertSequence @ errors_of (validateVRFKeyRegistration hash256 input)
           in (\<lparr>vr_Valid = (errs = []),
                vr_VrfOutput = (case vrfResult of Inl _ \<Rightarrow> None | Inr out \<Rightarrow> Some out),
                vr_NextOpCertCounter = (if errs = []
                  then (case nextOpCertSequence of Inl _ \<Rightarrow> Some 0 | Inr n \<Rightarrow> Some n) else None),
                vr_Errors = errs\<rparr>, cache))
         (case vrfResult of
            Inl _ \<Rightarrow> Some (Inr (), cache)
          | Inr vrfOutput \<Rightarrow> validateLeadership hash256 hash224 cache v input vrfOutput))"

subsection \<open>Acceptance\<close>

lemma errors_of_Nil [simp]: "errors_of r = [] \<longleftrightarrow> is_ok r"
  by (cases r) auto

lemma is_ok_unit: "is_ok (r :: 'e + unit) \<longleftrightarrow> r = Inr ()"
  by (simp add: is_ok_ex)

text \<open>The outcome of the leadership check, which does not depend on the cache.\<close>

definition leadership_verdict ::
  "(bytes \<Rightarrow> bytes) \<Rightarrow> (bytes \<Rightarrow> bytes) \<Rightarrow> HeaderValidator \<Rightarrow> ValidateHeaderInput \<Rightarrow> bytes \<Rightarrow> header_error + unit" where
  "leadership_verdict hash256 hash224 v input out =
     fst (the (validateLeadership hash256 hash224 leaderEligibilityMemo v input out))"

lemma validateLeadership_pure:
  assumes "memo_sound cache"
  shows "\<exists>cache'. validateLeadership hash256 hash224 cache v input out =
    Some (leadership_verdict hash256 hash224 v input out, cache') \<and> memo_sound cache'"
proof -
  let ?args = "\<lambda>c. NewLeaderEligibility c (vi_PoolStake input) (vi_TotalStake input) (hv_activeSlotCoeff v) (hv_mode v)"
  obtain c1 c2 where
    "?args cache = Some (eligibility_of (vi_PoolStake input) (vi_TotalStake input) (hv_activeSlotCoeff v) (hv_mode v), c1)"
    "memo_sound c1"
    "?args leaderEligibilityMemo = Some (eligibility_of (vi_PoolStake input) (vi_TotalStake input) (hv_activeSlotCoeff v) (hv_mode v), c2)"
    using NewLeaderEligibility_pure[OF assms] NewLeaderEligibility_pure[OF memo_sound_initial] by blast
  then show ?thesis using assms
    by (auto simp: validateLeadership_def leadership_verdict_def split: option.split sum.split)
qed

text \<open>The checks of an accepted header, each at its verdict.\<close>

definition header_accepted ::
  "('p :: ab_group_add, 'f :: field) vrf_curve \<Rightarrow> kes_crypto \<Rightarrow> (bytes \<Rightarrow> bytes) \<Rightarrow> HeaderValidator \<Rightarrow>
     ValidateHeaderInput \<Rightarrow> bool" where
  "header_accepted C K hash224 v input \<longleftrightarrow>
     validateSlotOrdering input = Inr () \<and> validateBlockNumber input = Inr () \<and> validatePrevHash input = Inr () \<and>
     (\<exists>out. validateVRFProof C (blake2b256 K) v input = Inr out \<and>
        leadership_verdict (blake2b256 K) hash224 v input out = Inr ()) \<and>
     validateNonceVRFProof C (blake2b256 K) v input = Inr () \<and> validateKESPeriod v input = Inr () \<and>
     validateKESSignature (strict_crypto C K) v input = Inr () \<and>
     validateOpCertSignature (strict_crypto C K) input = Inr () \<and>
     (\<exists>n. validateOpCertSequence v input = Inr n) \<and> validateVRFKeyRegistration (blake2b256 K) input = Inr ()"

lemma sequence_value: "validateOpCertSequence v input = Inr n \<Longrightarrow> n = vi_OpCertSequenceNumber input"
  by (auto simp: validateOpCertSequence_def Let_def split: option.splits if_splits)

definition certifiedInput :: "(bytes \<Rightarrow> bytes) \<Rightarrow> ConsensusMode \<Rightarrow> u64 \<Rightarrow> bytes \<Rightarrow> bytes \<Rightarrow> bytes option" where
  "certifiedInput hash256 md slot epochNonce seed =
     (case (case md of
        ConsensusModeTPraos \<Rightarrow> MkSeedTPraos hash256 slot epochNonce seed
      | ConsensusModeCPraos \<Rightarrow> MkInputVrf hash256 slot epochNonce
      | _ \<Rightarrow> Inl VrfPanic) of Inl _ \<Rightarrow> None | Inr alpha \<Rightarrow> Some alpha)"

lemma verifyCertifiedVRF_ok:
  "verifyCertifiedVRF C hash256 v slot epochNonce key prf output seed chk label = Inr out \<longleftrightarrow>
     out = output \<and> length epochNonce = 32 \<and> length key = 32 \<and> length prf = 80 \<and> (chk \<longrightarrow> length output = 64) \<and>
     (\<exists>alpha. certifiedInput hash256 (hv_mode v) slot epochNonce seed = Some alpha \<and>
        vrf_Verify C key prf output alpha = Inr True)"
proof -
  have step: "(case r of Inl e \<Rightarrow> Inl (HVrfInput label slot e)
      | Inr vrfInput \<Rightarrow> (case vrf_Verify C key prf output vrfInput of
          Inl e \<Rightarrow> Inl (HVrfVerification label slot e)
        | Inr valid \<Rightarrow> if \<not> valid then Inl (HVrfFalse label slot) else Inr output)) = Inr out \<longleftrightarrow>
      out = output \<and> (\<exists>alpha. r = Inr alpha \<and> vrf_Verify C key prf output alpha = Inr True)" for r
    by (cases r) (auto split: sum.splits)
  have sel: "certifiedInput hash256 md slot epochNonce seed = Some alpha \<longleftrightarrow>
      (case md of ConsensusModeTPraos \<Rightarrow> MkSeedTPraos hash256 slot epochNonce seed = Inr alpha
       | ConsensusModeCPraos \<Rightarrow> MkInputVrf hash256 slot epochNonce = Inr alpha | _ \<Rightarrow> False)" for md alpha
    by (cases md) (auto simp: certifiedInput_def split: sum.splits)
  show ?thesis
    by (cases "hv_mode v") (auto simp: verifyCertifiedVRF_def step sel)
qed

lemma vrf_value: "validateVRFProof C hash256 v input = Inr out \<Longrightarrow> out = vi_VrfOutput input"
  by (simp add: validateVRFProof_def verifyCertifiedVRF_ok)

lemma ValidateHeader_result:
  assumes "memo_sound cache"
  obtains res cache' where "ValidateHeader C K hash224 cache v input = Some (res, cache')" "memo_sound cache'"
    "vr_Valid res \<longleftrightarrow> header_accepted C K hash224 v input"
    "vr_Valid res \<longleftrightarrow> vr_Errors res = []"
    "vr_Valid res \<longrightarrow> vr_VrfOutput res = Some (vi_VrfOutput input) \<and>
       vr_NextOpCertCounter res = Some (vi_OpCertSequenceNumber input)"
proof (cases "validateVRFProof C (blake2b256 K) v input")
  case (Inl e)
  then show ?thesis using assms that unfolding ValidateHeader_def Let_def
    by (simp add: header_accepted_def)
next
  case (Inr out)
  obtain cache' where l: "validateLeadership (blake2b256 K) hash224 cache v input out =
      Some (leadership_verdict (blake2b256 K) hash224 v input out, cache')" "memo_sound cache'"
    using validateLeadership_pure[OF assms] by blast
  obtain res where r: "ValidateHeader C K hash224 cache v input = Some (res, cache')"
    "vr_Valid res \<longleftrightarrow> header_accepted C K hash224 v input" "vr_Valid res \<longleftrightarrow> vr_Errors res = []"
    "vr_VrfOutput res = Some out"
    "vr_NextOpCertCounter res = (if vr_Valid res
       then (case validateOpCertSequence v input of Inl _ \<Rightarrow> Some 0 | Inr n \<Rightarrow> Some n) else None)"
    using Inr l(1) unfolding ValidateHeader_def Let_def
    by (auto simp: header_accepted_def is_ok_unit is_ok_ex)
  have "vr_NextOpCertCounter res = Some (vi_OpCertSequenceNumber input)" if "vr_Valid res"
    using r(2,5) that sequence_value[of v input] by (auto simp: header_accepted_def)
  then show ?thesis using r(1-4) l(2) vrf_value[OF Inr] that by blast
qed

subsection \<open>What acceptance means\<close>

lemma kes_period_bound:
  assumes "VerifySignedKES K vk period m sig"
  shows "unat period < 64"
proof -
  obtain s where s: "NewSumKesFromBytes CardanoKesDepth sig = Inr s" "kes_Verify K s period vk m"
    using assms by (auto simp: VerifySignedKES_def split: sum.splits)
  then obtain sg l r where "s = SumXKesSig CardanoKesDepth sg l r"
    by (subst (asm) NewSumKesFromBytes.simps) (auto simp: Let_def split: if_splits)
  then have "\<not> push_bit (unat CardanoKesDepth) 1 \<le> period" using s(2) by (auto split: if_splits)
  then show ?thesis by (simp add: CardanoKesDepth_def word_le_nat_alt)
qed

lemma unat_diff_div:
  "(c :: u64) \<le> s div k \<Longrightarrow> unat (s div k - c) = unat s div unat k - unat c"
  by (simp add: unat_sub unat_div word_le_nat_alt)

lemma kes_accepted:
  assumes "validateKESPeriod v input = Inr ()" "validateKESSignature K v input = Inr ()"
  shows "unat (vi_OpCertKesPeriod input) \<le> unat (vi_Slot input) div unat (hv_slotsPerKESPeriod v)"
    "unat (vi_Slot input) div unat (hv_slotsPerKESPeriod v) - unat (vi_OpCertKesPeriod input) < min 64 (unat (hv_maxKESEvolutions v))"
proof -
  let ?p = "vi_Slot input div hv_slotsPerKESPeriod v"
  have le: "vi_OpCertKesPeriod input \<le> ?p" and lt: "?p - vi_OpCertKesPeriod input < hv_maxKESEvolutions v"
    using assms(1) by (auto simp: validateKESPeriod_def Let_def split: if_splits)
  have "VerifySignedKES K (vi_OpCertHotVkey input) (?p - vi_OpCertKesPeriod input) (vi_HeaderBodyCbor input) (vi_KesSignature input)"
    using assms(2) by (auto simp: validateKESSignature_def Let_def split: if_splits)
  then have "unat (?p - vi_OpCertKesPeriod input) < 64" by (rule kes_period_bound)
  then show "unat (vi_OpCertKesPeriod input) \<le> unat (vi_Slot input) div unat (hv_slotsPerKESPeriod v)"
    "unat (vi_Slot input) div unat (hv_slotsPerKESPeriod v) - unat (vi_OpCertKesPeriod input) < min 64 (unat (hv_maxKESEvolutions v))"
    using le lt unat_diff_div[OF le] by (simp_all add: word_le_nat_alt word_less_nat_alt unat_div)
qed

lemma counter_accepted:
  assumes "validateOpCertSequence v input = Inr n"
  shows "\<exists>c. vi_OpCertCounterState input = Some c \<and> c \<le> n \<and>
    (hv_mode v = ConsensusModeCPraos \<longrightarrow> unat n \<le> unat c + 1)"
proof -
  obtain c where c: "vi_OpCertCounterState input = Some c" "c \<le> n"
    "hv_mode v = ConsensusModeCPraos \<Longrightarrow> c < n \<Longrightarrow> n - c \<le> 1"
    using assms sequence_value[OF assms]
    by (auto simp: validateOpCertSequence_def Let_def not_less split: option.splits if_splits)
  have "unat n \<le> unat c + 1" if "hv_mode v = ConsensusModeCPraos"
  proof (cases "c < n")
    case True
    then have "unat (n - c) \<le> 1" using c(3)[OF that True] by (simp add: word_le_nat_alt)
    then show ?thesis using unat_sub[OF c(2)] c(2) by (simp add: word_le_nat_alt)
  qed (use c(2) in \<open>simp add: word_le_nat_alt word_less_nat_alt\<close>)
  then show ?thesis using c by blast
qed

lemma vrf_accepted:
  assumes "validateVRFProof C hash256 v input = Inr out"
  shows "\<exists>alpha. certifiedInput hash256 (hv_mode v) (vi_Slot input) (vi_EpochNonce input) (SeedL hash256) = Some alpha \<and>
    VerifyAndHash C (vi_VrfKey input) (vi_VrfProof input) alpha = Inr (vi_VrfOutput input)"
  using assms by (auto simp: validateVRFProof_def verifyCertifiedVRF_ok vrf_Verify_def)

lemma leadership_accepted:
  assumes "leadership_verdict hash256 hash224 v input out = Inr ()" "hv_tachys v = None"
  shows "\<exists>st. eligibility_of (vi_PoolStake input) (vi_TotalStake input) (hv_activeSlotCoeff v) (hv_mode v) = Inr st \<and>
    CheckVRFOutput hash256 (Some st) out = Inr True"
proof -
  obtain c where "NewLeaderEligibility leaderEligibilityMemo (vi_PoolStake input) (vi_TotalStake input)
      (hv_activeSlotCoeff v) (hv_mode v) =
      Some (eligibility_of (vi_PoolStake input) (vi_TotalStake input) (hv_activeSlotCoeff v) (hv_mode v), c)"
    using NewLeaderEligibility_pure[OF memo_sound_initial] by blast
  then show ?thesis using assms
    by (auto simp: leadership_verdict_def validateLeadership_def split: if_splits sum.splits)
qed

end
