(* ===== verification/BlockProduction.thy ===== *)
theory BlockProduction
  imports HeaderValidation
begin

text \<open>
  Block production (\<open>consensus/block.go\<close>): the header of a block from a leader election, a VRF
  signer, a KES signer and an operational certificate.  The CBOR encoder is a third-party package
  and a parameter; the arrays the code hands it are values of \<open>cbor_item\<close>.  The last section
  composes the builder with the validator: the headers an honest pool builds are accepted.
\<close>

subsection \<open>Data\<close>

record VRFSigner =
  vs_Prove :: vrf_signer
  vs_PublicKey :: bytes

record KESSigner =
  ks_Sign :: "bytes \<Rightarrow> bytes option"
  ks_PublicKey :: bytes

record OperationalCert =
  oc_HotVkey :: bytes
  oc_SequenceNumber :: u64
  oc_KesPeriod :: u64
  oc_Signature :: bytes

record BlockBuilder =
  bb_vrfSigner :: "VRFSigner option"
  bb_kesSigner :: "KESSigner option"
  bb_opCert :: "OperationalCert option"
  bb_poolId :: bytes
  bb_issuerVkey :: bytes
  bb_activeSlotCoeff :: "rat option"
  bb_mode :: ConsensusMode
  bb_tachys :: "TachysLeaderSelector option"

record HeaderBody =
  hb_BlockNumber :: u64
  hb_Slot :: u64
  hb_PrevHash :: bytes
  hb_IssuerVkey :: bytes
  hb_VrfKey :: bytes
  hb_NonceVrfOutput :: bytes
  hb_NonceVrfProof :: bytes
  hb_VrfOutput :: bytes
  hb_VrfProof :: bytes
  hb_BlockBodySize :: u64
  hb_BlockBodyHash :: bytes
  hb_OpCertHotVkey :: bytes
  hb_OpCertSequenceNumber :: u64
  hb_OpCertKesPeriod :: u64
  hb_OpCertSignature :: bytes
  hb_ProtoMajor :: u64
  hb_ProtoMinor :: u64

record Header =
  hd_Body :: HeaderBody
  hd_Signature :: bytes

record BuildHeaderInput =
  bi_Slot :: u64
  bi_BlockNumber :: u64
  bi_PrevHash :: bytes
  bi_EpochNonce :: bytes
  bi_PoolStake :: u64
  bi_TotalStake :: u64
  bi_BlockBodyHash :: bytes
  bi_BlockBodySize :: u64
  bi_ProtoMajor :: u64
  bi_ProtoMinor :: u64

datatype cbor_item = CUint u64 | CBytes bytes | CArray "cbor_item list"

datatype build_error =
    BVrfSignerNil | BKesSignerNil | BOpCertNil | BPrevHashEmpty | BEpochNonceEmpty | BBodyHashEmpty
  | BIssuerLength nat | BPrevHashLength nat | BEpochNonceLength nat | BBodyHashLength nat | BCoeffNil
  | BVrfKeyLength nat | BHotVkeyLength nat | BOpCertSignatureLength nat | BKesKeyLength nat | BKesKeyMismatch
  | BLeader leader_error | BTachys tachys_error | ErrNotSlotLeader | BSlotTooLarge u64 | BNonceInput vrf_error
  | BNonceProve | BNonceProofLength nat | BNonceOutputLength nat | BUnknownMode ConsensusMode | BEncode | BKesSign

subsection \<open>Constructors\<close>

text \<open>The in-memory VRF signer of \<open>consensus/leader.go\<close>.\<close>

definition NewSimpleVRFSigner ::
  "('p :: ab_group_add, 'f :: field) vrf_curve \<Rightarrow> bytes \<Rightarrow> vrf_error + VRFSigner" where
  "NewSimpleVRFSigner C seed =
     rbind (vrf_KeyGen C seed) (\<lambda>(pk, sk).
       Inr \<lparr>vs_Prove = (\<lambda>input. case vrf_Prove C sk input of Inl _ \<Rightarrow> None | Inr r \<Rightarrow> Some r), vs_PublicKey = pk\<rparr>)"

definition NewTachysBlockBuilder ::
  "VRFSigner option \<Rightarrow> KESSigner option \<Rightarrow> OperationalCert option \<Rightarrow> bytes \<Rightarrow> TachysLeaderSelector option \<Rightarrow>
     tachys_error + BlockBuilder" where
  "NewTachysBlockBuilder vrfSigner kesSigner opCert issuerVkey selector =
     (case selector of
        None \<Rightarrow> Inl TachysUninitialized
      | Some s \<Rightarrow>
          if intervals s = [] \<or> tls_totalStake s = 0 then Inl TachysUninitialized
          else Inr \<lparr>bb_vrfSigner = vrfSigner, bb_kesSigner = kesSigner, bb_opCert = opCert, bb_poolId = [],
                 bb_issuerVkey = issuerVkey, bb_activeSlotCoeff = None, bb_mode = ConsensusModeCPraos,
                 bb_tachys = Some s\<rparr>)"

definition NewBlockBuilderWithMode ::
  "VRFSigner option \<Rightarrow> KESSigner option \<Rightarrow> OperationalCert option \<Rightarrow> bytes \<Rightarrow> bytes \<Rightarrow> rat option \<Rightarrow> ConsensusMode \<Rightarrow>
     BlockBuilder" where
  "NewBlockBuilderWithMode vrfSigner kesSigner opCert poolId issuerVkey activeSlotCoeff md =
     \<lparr>bb_vrfSigner = vrfSigner, bb_kesSigner = kesSigner, bb_opCert = opCert, bb_poolId = poolId,
      bb_issuerVkey = issuerVkey, bb_activeSlotCoeff = activeSlotCoeff, bb_mode = md, bb_tachys = None\<rparr>"

definition NewBlockBuilder ::
  "VRFSigner option \<Rightarrow> KESSigner option \<Rightarrow> OperationalCert option \<Rightarrow> bytes \<Rightarrow> bytes \<Rightarrow> rat option \<Rightarrow> BlockBuilder" where
  "NewBlockBuilder vrfSigner kesSigner opCert poolId issuerVkey activeSlotCoeff =
     NewBlockBuilderWithMode vrfSigner kesSigner opCert poolId issuerVkey activeSlotCoeff ConsensusModeCPraos"

subsection \<open>Serialization\<close>

definition headerBodyCPraos :: "HeaderBody \<Rightarrow> cbor_item" where
  "headerBodyCPraos body = CArray
     [CUint (hb_BlockNumber body), CUint (hb_Slot body), CBytes (hb_PrevHash body), CBytes (hb_IssuerVkey body),
      CBytes (hb_VrfKey body), CArray [CBytes (hb_VrfOutput body), CBytes (hb_VrfProof body)],
      CUint (hb_BlockBodySize body), CBytes (hb_BlockBodyHash body),
      CArray [CBytes (hb_OpCertHotVkey body), CUint (hb_OpCertSequenceNumber body), CUint (hb_OpCertKesPeriod body),
        CBytes (hb_OpCertSignature body)],
      CArray [CUint (hb_ProtoMajor body), CUint (hb_ProtoMinor body)]]"

definition headerBodyTPraos :: "HeaderBody \<Rightarrow> cbor_item" where
  "headerBodyTPraos body = CArray
     [CUint (hb_BlockNumber body), CUint (hb_Slot body), CBytes (hb_PrevHash body), CBytes (hb_IssuerVkey body),
      CBytes (hb_VrfKey body), CArray [CBytes (hb_NonceVrfOutput body), CBytes (hb_NonceVrfProof body)],
      CArray [CBytes (hb_VrfOutput body), CBytes (hb_VrfProof body)],
      CUint (hb_BlockBodySize body), CBytes (hb_BlockBodyHash body), CBytes (hb_OpCertHotVkey body),
      CUint (hb_OpCertSequenceNumber body), CUint (hb_OpCertKesPeriod body), CBytes (hb_OpCertSignature body),
      CUint (hb_ProtoMajor body), CUint (hb_ProtoMinor body)]"

definition serializeHeaderBody ::
  "(cbor_item \<Rightarrow> bytes option) \<Rightarrow> ConsensusMode \<Rightarrow> HeaderBody \<Rightarrow> build_error + bytes" where
  "serializeHeaderBody encode md body =
     (case md of
        ConsensusModeTPraos \<Rightarrow> (case encode (headerBodyTPraos body) of None \<Rightarrow> Inl BEncode | Some b \<Rightarrow> Inr b)
      | ConsensusModeCPraos \<Rightarrow> (case encode (headerBodyCPraos body) of None \<Rightarrow> Inl BEncode | Some b \<Rightarrow> Inr b)
      | _ \<Rightarrow> Inl (BUnknownMode md))"

subsection \<open>Building a header\<close>

text \<open>The argument checks; on success the VRF signer, the KES signer and the certificate.\<close>

definition buildChecks ::
  "BlockBuilder \<Rightarrow> BuildHeaderInput \<Rightarrow> build_error + (VRFSigner \<times> KESSigner \<times> OperationalCert)" where
  "buildChecks b input =
     (case bb_vrfSigner b of None \<Rightarrow> Inl BVrfSignerNil | Some vrfSigner \<Rightarrow>
     (case bb_kesSigner b of None \<Rightarrow> Inl BKesSignerNil | Some kesSigner \<Rightarrow>
     (case bb_opCert b of None \<Rightarrow> Inl BOpCertNil | Some opCert \<Rightarrow>
        if bi_PrevHash input = [] then Inl BPrevHashEmpty
        else if bi_EpochNonce input = [] then Inl BEpochNonceEmpty
        else if bi_BlockBodyHash input = [] then Inl BBodyHashEmpty
        else if length (bb_issuerVkey b) \<noteq> 32 then Inl (BIssuerLength (length (bb_issuerVkey b)))
        else if length (bi_PrevHash input) \<noteq> 32 then Inl (BPrevHashLength (length (bi_PrevHash input)))
        else if length (bi_EpochNonce input) \<noteq> 32 then Inl (BEpochNonceLength (length (bi_EpochNonce input)))
        else if length (bi_BlockBodyHash input) \<noteq> 32 then Inl (BBodyHashLength (length (bi_BlockBodyHash input)))
        else if bb_tachys b = None \<and> bb_activeSlotCoeff b = None then Inl BCoeffNil
        else if length (vs_PublicKey vrfSigner) \<noteq> 32 then Inl (BVrfKeyLength (length (vs_PublicKey vrfSigner)))
        else if length (oc_HotVkey opCert) \<noteq> 32 then Inl (BHotVkeyLength (length (oc_HotVkey opCert)))
        else if length (oc_Signature opCert) \<noteq> 64 then Inl (BOpCertSignatureLength (length (oc_Signature opCert)))
        else if length (ks_PublicKey kesSigner) \<noteq> 32 then Inl (BKesKeyLength (length (ks_PublicKey kesSigner)))
        else if ks_PublicKey kesSigner \<noteq> oc_HotVkey opCert then Inl BKesKeyMismatch
        else Inr (vrfSigner, kesSigner, opCert))))"

text \<open>The nonce certificate of the TPraos eras, empty in the others.\<close>

definition nonceCertificate ::
  "(bytes \<Rightarrow> bytes) \<Rightarrow> ConsensusMode \<Rightarrow> vrf_signer \<Rightarrow> u64 \<Rightarrow> bytes \<Rightarrow> build_error + (bytes \<times> bytes)" where
  "nonceCertificate hash256 md prove slot epochNonce =
     (if md \<noteq> ConsensusModeTPraos then Inr ([], [])
      else if 2 ^ 63 \<le> unat slot then Inl (BSlotTooLarge slot)
      else case MkSeedTPraos hash256 slot epochNonce (SeedEta hash256) of
          Inl e \<Rightarrow> Inl (BNonceInput e)
        | Inr nonceVrfInput \<Rightarrow>
            (case prove nonceVrfInput of
               None \<Rightarrow> Inl BNonceProve
             | Some (nonceVrfProof, nonceVrfOutput) \<Rightarrow>
                 if length nonceVrfProof \<noteq> 80 then Inl (BNonceProofLength (length nonceVrfProof))
                 else if length nonceVrfOutput \<noteq> 64 then Inl (BNonceOutputLength (length nonceVrfOutput))
                 else Inr (nonceVrfProof, nonceVrfOutput)))"

definition headerBodyOf ::
  "BlockBuilder \<Rightarrow> BuildHeaderInput \<Rightarrow> VRFSigner \<Rightarrow> OperationalCert \<Rightarrow> LeaderElectionResult \<Rightarrow> bytes \<times> bytes \<Rightarrow> HeaderBody" where
  "headerBodyOf b input vrfSigner opCert res nonceCert =
     \<lparr>hb_BlockNumber = bi_BlockNumber input, hb_Slot = bi_Slot input, hb_PrevHash = bi_PrevHash input,
      hb_IssuerVkey = bb_issuerVkey b, hb_VrfKey = vs_PublicKey vrfSigner, hb_NonceVrfOutput = snd nonceCert,
      hb_NonceVrfProof = fst nonceCert, hb_VrfOutput = Output res, hb_VrfProof = Proof res,
      hb_BlockBodySize = bi_BlockBodySize input, hb_BlockBodyHash = bi_BlockBodyHash input,
      hb_OpCertHotVkey = oc_HotVkey opCert, hb_OpCertSequenceNumber = oc_SequenceNumber opCert,
      hb_OpCertKesPeriod = oc_KesPeriod opCert, hb_OpCertSignature = oc_Signature opCert,
      hb_ProtoMajor = bi_ProtoMajor input, hb_ProtoMinor = bi_ProtoMinor input\<rparr>"

text \<open>Step 1: the election, by the Tachys schedule or by stake.\<close>

definition buildElection ::
  "(bytes \<Rightarrow> bytes) \<Rightarrow> (bytes \<Rightarrow> bytes) \<Rightarrow> eligibility_cache \<Rightarrow> BlockBuilder \<Rightarrow> u64 \<Rightarrow> bytes \<Rightarrow> u64 \<Rightarrow> u64 \<Rightarrow>
     ((build_error + LeaderElectionResult) \<times> eligibility_cache) option" where
  "buildElection hash256 hash224 cache b slot epochNonce pool tot =
     (let signer = map_option vs_Prove (bb_vrfSigner b) in
      if bb_tachys b \<noteq> None then
        Some (case IsTachysSlotLeader hash256 hash224 slot epochNonce (bb_issuerVkey b) (bb_tachys b) signer of
                Inl e \<Rightarrow> Inl (BTachys e) | Inr r \<Rightarrow> Inr r, cache)
      else map_option (\<lambda>(r, cache). (case r of Inl e \<Rightarrow> Inl (BLeader e) | Inr x \<Rightarrow> Inr x, cache))
        (IsSlotLeaderWithMode hash256 cache slot epochNonce pool tot (bb_activeSlotCoeff b) signer (bb_mode b)))"

text \<open>The three results of the call: the header, the election and the error.\<close>

definition BuildHeader ::
  "(bytes \<Rightarrow> bytes) \<Rightarrow> (bytes \<Rightarrow> bytes) \<Rightarrow> (cbor_item \<Rightarrow> bytes option) \<Rightarrow> eligibility_cache \<Rightarrow> BlockBuilder \<Rightarrow>
     BuildHeaderInput \<Rightarrow>
     ((Header option \<times> LeaderElectionResult option \<times> build_error option) \<times> eligibility_cache) option" where
  "BuildHeader hash256 hash224 encode cache b input =
     (case buildChecks b input of
        Inl e \<Rightarrow> Some ((None, None, Some e), cache)
      | Inr (vrfSigner, kesSigner, opCert) \<Rightarrow>
          map_option (\<lambda>(r, cache).
            (case r of
               Inl e \<Rightarrow> (None, None, Some e)
             | Inr leaderResult \<Rightarrow>
                 if \<not> Eligible leaderResult then (None, Some leaderResult, Some ErrNotSlotLeader)
                 else case rbind (nonceCertificate hash256 (bb_mode b) (vs_Prove vrfSigner) (bi_Slot input)
                                (bi_EpochNonce input)) (\<lambda>nonceCert.
                        let headerBody = headerBodyOf b input vrfSigner opCert leaderResult nonceCert in
                        rbind (serializeHeaderBody encode (bb_mode b) headerBody) (\<lambda>bodyBytes.
                          case ks_Sign kesSigner bodyBytes of
                            None \<Rightarrow> Inl BKesSign
                          | Some signature \<Rightarrow> Inr \<lparr>hd_Body = headerBody, hd_Signature = signature\<rparr>)) of
                     Inl e \<Rightarrow> (None, Some leaderResult, Some e)
                   | Inr header \<Rightarrow> (Some header, Some leaderResult, None), cache))
            (buildElection hash256 hash224 cache b (bi_Slot input) (bi_EpochNonce input) (bi_PoolStake input)
               (bi_TotalStake input)))"

definition builder_CheckSlotLeadership ::
  "(bytes \<Rightarrow> bytes) \<Rightarrow> (bytes \<Rightarrow> bytes) \<Rightarrow> eligibility_cache \<Rightarrow> BlockBuilder \<Rightarrow> u64 \<Rightarrow> bytes \<Rightarrow> u64 \<Rightarrow> u64 \<Rightarrow>
     ((build_error + LeaderElectionResult) \<times> eligibility_cache) option" where
  "builder_CheckSlotLeadership hash256 hash224 cache b slot epochNonce pool tot =
     (if bb_tachys b \<noteq> None then buildElection hash256 hash224 cache b slot epochNonce pool tot
      else if bb_activeSlotCoeff b = None then Some (Inl BCoeffNil, cache)
      else if length epochNonce \<noteq> 32 then Some (Inl (BEpochNonceLength (length epochNonce)), cache)
      else buildElection hash256 hash224 cache b slot epochNonce pool tot)"

definition ComputeBlockBodyHash :: "(bytes \<Rightarrow> bytes) \<Rightarrow> bytes \<Rightarrow> bytes" where
  "ComputeBlockBodyHash hash256 bodyBytes = hash256 bodyBytes"

definition ComputeVRFInput :: "(bytes \<Rightarrow> bytes) \<Rightarrow> u64 \<Rightarrow> bytes \<Rightarrow> bytes option" where
  "ComputeVRFInput hash256 slot epochNonce =
     (if length epochNonce \<noteq> 32 \<or> 2 ^ 63 \<le> unat slot then None
      else case MkInputVrf hash256 slot epochNonce of Inl _ \<Rightarrow> None | Inr b \<Rightarrow> Some b)"

subsection \<open>The certificates of a built header\<close>

lemma relabel_Inr [simp]: "(case r of Inl e \<Rightarrow> Inl (f e) | Inr x \<Rightarrow> Inr x) = Inr y \<longleftrightarrow> r = Inr y"
  by (cases r) auto

lemma simple_signer:
  assumes "vrf_curve_ok C" "NewSimpleVRFSigner C seed = Inr vs"
  shows "length (vs_PublicKey vs) = 32"
    "vs_Prove vs alpha = Some (p, out) \<Longrightarrow>
       vrf_Verify C (vs_PublicKey vs) p out alpha = Inr True \<and> length p = 80 \<and> length out = 64"
proof -
  obtain pk sk where k: "vrf_KeyGen C seed = Inr (pk, sk)"
    "vs = \<lparr>vs_Prove = (\<lambda>input. case vrf_Prove C sk input of Inl _ \<Rightarrow> None | Inr r \<Rightarrow> Some r), vs_PublicKey = pk\<rparr>"
    using assms(2) by (auto simp: NewSimpleVRFSigner_def)
  have "length (pt_bytes C P) = 32" for P using assms(1) unfolding vrf_curve_ok_def by blast
  then show "length (vs_PublicKey vs) = 32"
    using k by (auto simp: vrf_KeyGen_def Let_def split: if_splits)
  show "vrf_Verify C (vs_PublicKey vs) p out alpha = Inr True \<and> length p = 80 \<and> length out = 64"
    if "vs_Prove vs alpha = Some (p, out)"
    using that k(2) prove_verifies[OF assms(1) k(1), of alpha p out] by (auto split: sum.splits)
qed

lemma election_stake:
  assumes "memo_sound cache" "bb_tachys b = None"
    "buildElection hash256 hash224 cache b slot epochNonce pool tot = Some (Inr res, cache')"
  shows "validateConsensusMode (bb_mode b) = Inr ()"
    "election_of hash256 slot epochNonce pool tot (bb_activeSlotCoeff b) (map_option vs_Prove (bb_vrfSigner b)) (bb_mode b) = Inr res"
proof -
  obtain c where r: "IsSlotLeaderWithMode hash256 cache slot epochNonce pool tot (bb_activeSlotCoeff b)
      (map_option vs_Prove (bb_vrfSigner b)) (bb_mode b) = Some (Inr res, c)"
    using assms(2,3) by (auto simp: buildElection_def)
  then show m: "validateConsensusMode (bb_mode b) = Inr ()"
    by (cases "validateConsensusMode (bb_mode b)") (auto simp: IsSlotLeaderWithMode_def)
  show "election_of hash256 slot epochNonce pool tot (bb_activeSlotCoeff b) (map_option vs_Prove (bb_vrfSigner b)) (bb_mode b) = Inr res"
    using IsSlotLeader_pure[OF assms(1) m, of hash256 slot epochNonce pool tot "bb_activeSlotCoeff b" "map_option vs_Prove (bb_vrfSigner b)"] r by auto
qed

lemma election_cases:
  assumes "election_of hash256 slot epochNonce pool tot f signer md = Inr res" "Eligible res"
  obtains st where "checkSlotLeadership hash256 slot epochNonce signer md (Some st) = Inr res"
    "eligibility_of pool tot f md = Inr st" "tot \<noteq> 0" "pool \<noteq> 0"
proof -
  obtain ev where l: "leadership_of epochNonce pool tot f signer md = Inr (ev, False)"
    and c: "checkSlotLeadership hash256 slot epochNonce signer md ev = Inr res"
    using assms by (auto simp: election_of_def split: if_splits)
  obtain st where "ev = Some st" using check_result[OF c] assms(2) by (cases ev) auto
  moreover from l obtain q where "f = Some q" "False \<longleftrightarrow> tot = 0 \<or> pool = 0" "False \<and> 0 < q \<longrightarrow> validateActiveSlotCoefficient f = Inr ()"
    "\<not> False \<longrightarrow> (case ev of None \<Rightarrow> q \<le> 0 | Some st \<Rightarrow> 0 < q \<and> eligibility_of pool tot f md = Inr st)"
    by (rule leadership_cases)
  ultimately show ?thesis using c that by simp
qed

lemma check_certificate:
  assumes "checkSlotLeadership hash256 slot epochNonce (Some prove) md ev = Inr res" "validateConsensusMode md = Inr ()"
  shows "\<exists>alpha. certifiedInput hash256 md slot epochNonce (SeedL hash256) = Some alpha \<and>
    prove alpha = Some (Proof res, Output res)"
  using assms
  by (cases md) (auto simp: checkSlotLeadership_def leaderVrfInput_def certifiedInput_def
      split: if_splits sum.splits option.splits)

lemma election_certificate:
  assumes "memo_sound cache" "bb_vrfSigner b = Some vs" "bb_tachys b = None \<or> bb_mode b = ConsensusModeCPraos"
    "buildElection hash256 hash224 cache b slot epochNonce pool tot = Some (Inr res, cache')" "Eligible res"
  shows "\<exists>alpha. certifiedInput hash256 (bb_mode b) slot epochNonce (SeedL hash256) = Some alpha \<and>
    vs_Prove vs alpha = Some (Proof res, Output res)"
proof (cases "bb_tachys b")
  case None
  note e = election_stake[OF assms(1) None assms(4)]
  obtain st where "checkSlotLeadership hash256 slot epochNonce (Some (vs_Prove vs)) (bb_mode b) (Some st) = Inr res"
    using election_cases[OF e(2) assms(5)] assms(2) by auto
  then show ?thesis using check_certificate e(1) by blast
next
  case (Some s)
  then have "IsTachysSlotLeader hash256 hash224 slot epochNonce (bb_issuerVkey b) (Some s) (Some (vs_Prove vs)) = Inr res"
    using assms(2,4) by (simp add: buildElection_def)
  then show ?thesis using assms(3,5) Some
    by (auto simp: IsTachysSlotLeader_def certifiedInput_def split: if_splits sum.splits option.splits)
qed

lemma election_leadership:
  assumes "memo_sound cache" "bb_vrfSigner b = Some vs"
    "buildElection hash256 hash224 cache b (vi_Slot input) (vi_EpochNonce input) (vi_PoolStake input)
       (vi_TotalStake input) = Some (Inr res, cache')" "Eligible res"
    "hv_mode v = bb_mode b" "hv_activeSlotCoeff v = bb_activeSlotCoeff b" "hv_tachys v = bb_tachys b"
    "vi_IssuerVkey input = bb_issuerVkey b"
  shows "leadership_verdict hash256 hash224 v input (Output res) = Inr ()"
proof (cases "bb_tachys b")
  case None
  obtain st where c: "checkSlotLeadership hash256 (vi_Slot input) (vi_EpochNonce input) (Some (vs_Prove vs)) (bb_mode b) (Some st) = Inr res"
    and st: "eligibility_of (vi_PoolStake input) (vi_TotalStake input) (bb_activeSlotCoeff b) (bb_mode b) = Inr st"
    "vi_TotalStake input \<noteq> 0" "vi_PoolStake input \<noteq> 0"
    using election_cases[OF election_stake(2)[OF assms(1) None assms(3)] assms(4)] assms(2) by auto
  obtain k where "NewLeaderEligibility leaderEligibilityMemo (vi_PoolStake input) (vi_TotalStake input)
      (bb_activeSlotCoeff b) (bb_mode b) = Some (Inr st, k)"
    using NewLeaderEligibility_pure[OF memo_sound_initial] st(1) by metis
  then show ?thesis using check_result[OF c] st assms None
    by (simp add: leadership_verdict_def validateLeadership_def)
next
  case (Some s)
  then have "IsTachysSlotLeader hash256 hash224 (vi_Slot input) (vi_EpochNonce input) (bb_issuerVkey b) (Some s) (Some (vs_Prove vs)) = Inr res"
    using assms(2,3) by (simp add: buildElection_def)
  then have "AuthorizeIssuer hash256 hash224 (Some s) (vi_EpochNonce input) (vi_Slot input) (bb_issuerVkey b) = Inr True"
    using assms(4) by (auto simp: IsTachysSlotLeader_def split: if_splits)
  then show ?thesis using assms Some by (simp add: leadership_verdict_def validateLeadership_def)
qed

lemma nonce_certificate:
  assumes "vrf_curve_ok C" "NewSimpleVRFSigner C seed = Inr vs"
    "nonceCertificate hash256 md (vs_Prove vs) slot epochNonce = Inr (p, out)" "length epochNonce = 32" "hv_mode v = md"
    "vi_Slot input = slot" "vi_EpochNonce input = epochNonce" "vi_VrfKey input = vs_PublicKey vs"
    "vi_NonceVrfProof input = p" "vi_NonceVrfOutput input = out"
  shows "validateNonceVRFProof C hash256 v input = Inr ()"
proof (cases "md = ConsensusModeTPraos")
  case True
  then obtain alpha where "certifiedInput hash256 md slot epochNonce (SeedEta hash256) = Some alpha"
    "vs_Prove vs alpha = Some (p, out)"
    using assms(3) by (auto simp: nonceCertificate_def certifiedInput_def split: if_splits sum.splits option.splits)
  then show ?thesis using assms(4-) simple_signer[OF assms(1,2)] True
    by (simp add: validateNonceVRFProof_def verifyCertifiedVRF_ok)
qed (use assms in \<open>simp add: validateNonceVRFProof_def\<close>)

subsection \<open>Honest pools\<close>

text \<open>A KES signer over an evolved key, as the tests of the package build it.\<close>

definition kes_signer :: "kes_crypto \<Rightarrow> SecretKey \<Rightarrow> u64 \<Rightarrow> bytes \<Rightarrow> KESSigner" where
  "kes_signer K sk period pk =
     \<lparr>ks_Sign = (\<lambda>m. case kes_Sign K (Some sk) period m of Inl _ \<Rightarrow> None | Inr s \<Rightarrow> Some s), ks_PublicKey = pk\<rparr>"

text \<open>The keys of a builder come from this library's key generation, its KES key has been evolved
  \<open>n\<close> times, and its certificate is signed by the cold key.\<close>

definition honest_builder ::
  "('p :: ab_group_add, 'f :: field) vrf_curve \<Rightarrow> kes_crypto \<Rightarrow> nat \<Rightarrow> BlockBuilder \<Rightarrow> bool" where
  "honest_builder C K n b \<longleftrightarrow>
     (\<exists>vrfSeed kesSeed vs sk0 sk pk oc.
        NewSimpleVRFSigner C vrfSeed = Inr vs \<and> KeyGen K CardanoKesDepth kesSeed = Inr (sk0, pk) \<and>
        n < 64 \<and> kes_evolve K n sk0 = Inr sk \<and> bb_vrfSigner b = Some vs \<and>
        bb_kesSigner b = Some (kes_signer K sk (word_of_nat n) pk) \<and> bb_opCert b = Some oc \<and>
        ed_verify K (bb_issuerVkey b) (OpCertSignableBytes (oc_HotVkey oc) (oc_SequenceNumber oc) (oc_KesPeriod oc))
          (oc_Signature oc) \<and>
        (bb_tachys b = None \<or> bb_mode b = ConsensusModeCPraos))"

text \<open>What the validator is given for a header: its fields, its encoded body and the chain it
  extends.\<close>

record chain_context =
  cx_slot :: u64
  cx_number :: u64
  cx_hash :: bytes
  cx_counter :: u64
  cx_vrfHash :: bytes

definition header_input :: "Header \<Rightarrow> bytes \<Rightarrow> BuildHeaderInput \<Rightarrow> chain_context \<Rightarrow> ValidateHeaderInput" where
  "header_input h body input cx =
     \<lparr>vi_Slot = hb_Slot (hd_Body h), vi_BlockNumber = hb_BlockNumber (hd_Body h), vi_PrevHash = hb_PrevHash (hd_Body h),
      vi_IssuerVkey = hb_IssuerVkey (hd_Body h), vi_VrfKey = hb_VrfKey (hd_Body h), vi_VrfProof = hb_VrfProof (hd_Body h),
      vi_VrfOutput = hb_VrfOutput (hd_Body h), vi_KesSignature = hd_Signature h, vi_HeaderBodyCbor = body,
      vi_NonceVrfProof = hb_NonceVrfProof (hd_Body h), vi_NonceVrfOutput = hb_NonceVrfOutput (hd_Body h),
      vi_OpCertHotVkey = hb_OpCertHotVkey (hd_Body h), vi_OpCertSequenceNumber = hb_OpCertSequenceNumber (hd_Body h),
      vi_OpCertKesPeriod = hb_OpCertKesPeriod (hd_Body h), vi_OpCertSignature = hb_OpCertSignature (hd_Body h),
      vi_OpCertCounterState = Some (cx_counter cx), vi_PrevSlot = cx_slot cx, vi_PrevBlockNumber = cx_number cx,
      vi_PrevHeaderHash = cx_hash cx, vi_EpochNonce = bi_EpochNonce input, vi_PoolStake = bi_PoolStake input,
      vi_TotalStake = bi_TotalStake input, vi_RegisteredVrfKeyHash = cx_vrfHash cx\<rparr>"

text \<open>The header extends the chain, the certificate's counter is due, and the KES key is in the
  period of the slot, which the validator still accepts.\<close>

definition extends_chain ::
  "kes_crypto \<Rightarrow> HeaderValidator \<Rightarrow> nat \<Rightarrow> BlockBuilder \<Rightarrow> BuildHeaderInput \<Rightarrow> chain_context \<Rightarrow> bool" where
  "extends_chain K v n b input cx \<longleftrightarrow>
     cx_slot cx < bi_Slot input \<and> bi_BlockNumber input = cx_number cx + 1 \<and> bi_PrevHash input = cx_hash cx \<and>
     (\<exists>vs. bb_vrfSigner b = Some vs \<and> cx_vrfHash cx = blake2b256 K (vs_PublicKey vs)) \<and>
     (\<exists>oc. bb_opCert b = Some oc \<and> cx_counter cx \<le> oc_SequenceNumber oc \<and>
        unat (oc_SequenceNumber oc) \<le> unat (cx_counter cx) + 1 \<and>
        unat (bi_Slot input) div unat (hv_slotsPerKESPeriod v) = unat (oc_KesPeriod oc) + n) \<and>
     0 < hv_slotsPerKESPeriod v \<and> n < unat (hv_maxKESEvolutions v)"

lemma kes_checks:
  assumes "kes_crypto_ok K" "KeyGen K CardanoKesDepth seed = Inr (sk0, pk)" "kes_evolve K n sk0 = Inr sk" "n < 64"
    "ks_Sign (kes_signer K sk (word_of_nat n) pk) body = Some sig" "body \<noteq> []"
    "vi_HeaderBodyCbor input = body" "vi_KesSignature input = sig" "vi_OpCertHotVkey input = pk"
    "unat (vi_Slot input) div unat (hv_slotsPerKESPeriod v) = unat (vi_OpCertKesPeriod input) + n"
    "0 < hv_slotsPerKESPeriod v" "n < unat (hv_maxKESEvolutions v)"
  shows "validateKESPeriod v input = Inr ()" "validateKESSignature K v input = Inr ()"
proof -
  let ?p = "vi_Slot input div hv_slotsPerKESPeriod v"
  obtain s where s: "kes_Sign K (Some sk) (word_of_nat n) body = Inr s" "length s = 448"
    "VerifySignedKES K pk (word_of_nat n) body s" "length pk = 32"
    using cardano_sign_verifies[OF assms(1-4)] by blast
  then have sig: "sig = s" using assms(5) by (simp add: kes_signer_def)
  have le: "vi_OpCertKesPeriod input \<le> ?p" using assms(10) by (simp add: word_le_nat_alt unat_div)
  have n: "unat (?p - vi_OpCertKesPeriod input) = n" using unat_diff_div[OF le] assms(10) by simp
  then have p: "?p - vi_OpCertKesPeriod input = word_of_nat n" using assms(4) by (simp add: word_unat_eq_iff unat_word_of_nat_u64)
  have lt: "?p - vi_OpCertKesPeriod input < hv_maxKESEvolutions v" using n assms(12) by (simp add: word_less_nat_alt)
  have nz: "hv_slotsPerKESPeriod v \<noteq> 0" using assms(11) by auto
  show "validateKESPeriod v input = Inr ()"
    using nz le lt by (simp add: validateKESPeriod_def Let_def not_less not_le)
  show "validateKESSignature K v input = Inr ()"
    using nz le s(2-4) assms(6-9) sig by (simp add: validateKESSignature_def Let_def not_less p)
qed


text \<open>What a successful build returns.\<close>

lemma BuildHeader_ok:
  assumes "BuildHeader hash256 hash224 encode cache b input = Some ((Some h, lr, err), cache')"
    "bb_vrfSigner b = Some vs" "bb_kesSigner b = Some ks" "bb_opCert b = Some oc"
  obtains res np no body where
    "buildElection hash256 hash224 cache b (bi_Slot input) (bi_EpochNonce input) (bi_PoolStake input) (bi_TotalStake input)
       = Some (Inr res, cache')"
    "Eligible res" "nonceCertificate hash256 (bb_mode b) (vs_Prove vs) (bi_Slot input) (bi_EpochNonce input) = Inr (np, no)"
    "hd_Body h = headerBodyOf b input vs oc res (np, no)"
    "serializeHeaderBody encode (bb_mode b) (hd_Body h) = Inr body" "ks_Sign ks body = Some (hd_Signature h)"
    "buildChecks b input = Inr (vs, ks, oc)"
proof -
  have chk: "buildChecks b input = Inr (vs, ks, oc)"
    using assms unfolding BuildHeader_def
    by (cases "buildChecks b input") (auto simp: buildChecks_def split: if_splits)
  obtain r where el: "buildElection hash256 hash224 cache b (bi_Slot input) (bi_EpochNonce input) (bi_PoolStake input)
      (bi_TotalStake input) = Some (r, cache')"
    using assms(1) by (auto simp: BuildHeader_def chk)
  obtain res where r: "r = Inr res" "Eligible res"
    using assms(1) el by (cases r) (auto simp: BuildHeader_def chk split: if_splits)
  let ?make = "rbind (nonceCertificate hash256 (bb_mode b) (vs_Prove vs) (bi_Slot input) (bi_EpochNonce input)) (\<lambda>nc.
      rbind (serializeHeaderBody encode (bb_mode b) (headerBodyOf b input vs oc res nc)) (\<lambda>bodyBytes.
        case ks_Sign ks bodyBytes of
          None \<Rightarrow> Inl BKesSign
        | Some signature \<Rightarrow> Inr \<lparr>hd_Body = headerBodyOf b input vs oc res nc, hd_Signature = signature\<rparr>))"
  have "?make = Inr h"
    using assms(1) el r by (cases ?make) (simp_all add: BuildHeader_def chk Let_def)
  then obtain nc body sig where
    "nonceCertificate hash256 (bb_mode b) (vs_Prove vs) (bi_Slot input) (bi_EpochNonce input) = Inr nc"
    "serializeHeaderBody encode (bb_mode b) (headerBodyOf b input vs oc res nc) = Inr body"
    "ks_Sign ks body = Some sig" "h = \<lparr>hd_Body = headerBodyOf b input vs oc res nc, hd_Signature = sig\<rparr>"
    by (auto split: option.splits)
  then show ?thesis using that[of res "fst nc" "snd nc" body] el r chk by simp
qed

lemma buildChecks_ok:
  "buildChecks b input = Inr (vs, ks, oc) \<Longrightarrow>
     length (bb_issuerVkey b) = 32 \<and> length (bi_PrevHash input) = 32 \<and> length (bi_EpochNonce input) = 32 \<and>
     length (oc_Signature oc) = 64 \<and> ks_PublicKey ks = oc_HotVkey oc"
  by (auto simp: buildChecks_def split: option.splits if_splits)

lemma strict_crypto_simps [simp]:
  "blake2b256 (strict_crypto C K) = blake2b256 K"
  by (simp add: strict_crypto_def)

lemma header_input_simps:
  assumes "hd_Body h = headerBodyOf b input vs oc res (np, no)"
  shows "vi_Slot (header_input h body input cx) = bi_Slot input"
    "vi_BlockNumber (header_input h body input cx) = bi_BlockNumber input"
    "vi_PrevHash (header_input h body input cx) = bi_PrevHash input"
    "vi_IssuerVkey (header_input h body input cx) = bb_issuerVkey b"
    "vi_VrfKey (header_input h body input cx) = vs_PublicKey vs"
    "vi_VrfProof (header_input h body input cx) = Proof res"
    "vi_VrfOutput (header_input h body input cx) = Output res"
    "vi_KesSignature (header_input h body input cx) = hd_Signature h"
    "vi_HeaderBodyCbor (header_input h body input cx) = body"
    "vi_NonceVrfProof (header_input h body input cx) = np"
    "vi_NonceVrfOutput (header_input h body input cx) = no"
    "vi_OpCertHotVkey (header_input h body input cx) = oc_HotVkey oc"
    "vi_OpCertSequenceNumber (header_input h body input cx) = oc_SequenceNumber oc"
    "vi_OpCertKesPeriod (header_input h body input cx) = oc_KesPeriod oc"
    "vi_OpCertSignature (header_input h body input cx) = oc_Signature oc"
    "vi_OpCertCounterState (header_input h body input cx) = Some (cx_counter cx)"
    "vi_PrevSlot (header_input h body input cx) = cx_slot cx"
    "vi_PrevBlockNumber (header_input h body input cx) = cx_number cx"
    "vi_PrevHeaderHash (header_input h body input cx) = cx_hash cx"
    "vi_EpochNonce (header_input h body input cx) = bi_EpochNonce input"
    "vi_PoolStake (header_input h body input cx) = bi_PoolStake input"
    "vi_TotalStake (header_input h body input cx) = bi_TotalStake input"
    "vi_RegisteredVrfKeyHash (header_input h body input cx) = cx_vrfHash cx"
  unfolding header_input_def assms headerBodyOf_def by simp_all

lemma counter_due:
  assumes "vi_OpCertCounterState input = Some c" "c \<le> vi_OpCertSequenceNumber input"
    "unat (vi_OpCertSequenceNumber input) \<le> unat c + 1"
  shows "\<exists>n. validateOpCertSequence v input = Inr n"
proof -
  have "\<not> 1 < vi_OpCertSequenceNumber input - c"
    using assms(2,3) unat_sub[OF assms(2)] by (simp add: word_less_nat_alt word_le_nat_alt)
  then show ?thesis using assms by (simp add: validateOpCertSequence_def Let_def not_less)
qed

lemma built_header_accepted:
  assumes C: "vrf_curve_ok C" and K: "kes_crypto_ok (strict_crypto C K)" and m: "memo_sound cache"
    and enc: "\<forall>i. encode i \<noteq> Some []"
    and honest: "honest_builder C (strict_crypto C K) n b"
    and built: "BuildHeader (blake2b256 K) hash224 encode cache b input = Some ((Some h, lr, err), cache')"
    and ser: "serializeHeaderBody encode (bb_mode b) (hd_Body h) = Inr body"
    and v: "hv_mode v = bb_mode b" "hv_activeSlotCoeff v = bb_activeSlotCoeff b" "hv_tachys v = bb_tachys b"
    and ext: "extends_chain K v n b input cx"
  shows "header_accepted C K hash224 v (header_input h body input cx)"
proof -
  from honest obtain vrfSeed kesSeed vs sk0 sk pk oc where
    hv: "NewSimpleVRFSigner C vrfSeed = Inr vs" and
    hk: "KeyGen (strict_crypto C K) CardanoKesDepth kesSeed = Inr (sk0, pk)" "kes_evolve (strict_crypto C K) n sk0 = Inr sk" "n < 64" and
    hb: "bb_vrfSigner b = Some vs" "bb_kesSigner b = Some (kes_signer (strict_crypto C K) sk (word_of_nat n) pk)" "bb_opCert b = Some oc" and
    hc: "ed_verify (strict_crypto C K) (bb_issuerVkey b)
      (OpCertSignableBytes (oc_HotVkey oc) (oc_SequenceNumber oc) (oc_KesPeriod oc)) (oc_Signature oc)" and
    ht: "bb_tachys b = None \<or> bb_mode b = ConsensusModeCPraos"
    unfolding honest_builder_def by blast
  from built hb obtain res np no body' where
    el: "buildElection (blake2b256 K) hash224 cache b (bi_Slot input) (bi_EpochNonce input) (bi_PoolStake input)
       (bi_TotalStake input) = Some (Inr res, cache')" "Eligible res" and
    nc: "nonceCertificate (blake2b256 K) (bb_mode b) (vs_Prove vs) (bi_Slot input) (bi_EpochNonce input) = Inr (np, no)" and
    bo: "hd_Body h = headerBodyOf b input vs oc res (np, no)" and
    sg: "serializeHeaderBody encode (bb_mode b) (hd_Body h) = Inr body'"
      "ks_Sign (kes_signer (strict_crypto C K) sk (word_of_nat n) pk) body' = Some (hd_Signature h)" and
    ck: "buildChecks b input = Inr (vs, kes_signer (strict_crypto C K) sk (word_of_nat n) pk, oc)"
    by (rule BuildHeader_ok)
  note hi = header_input_simps[OF bo, of body cx]
  note ck = buildChecks_ok[OF ck]
  note x = ext[unfolded extends_chain_def hb option.inject, simplified]
  have body: "body' = body" "body \<noteq> []"
    using ser sg(1) enc by (auto simp: serializeHeaderBody_def split: ConsensusMode.splits option.splits)
  have pk: "oc_HotVkey oc = pk" using ck by (simp add: kes_signer_def)
  obtain alpha where cert: "certifiedInput (blake2b256 K) (bb_mode b) (bi_Slot input) (bi_EpochNonce input) (SeedL (blake2b256 K)) = Some alpha"
    "vs_Prove vs alpha = Some (Proof res, Output res)"
    using election_certificate[OF m hb(1) ht el] by blast
  note sig = simple_signer[OF C hv]
  let ?i = "header_input h body input cx"
  have "validateSlotOrdering ?i = Inr ()" "validateBlockNumber ?i = Inr ()" "validatePrevHash ?i = Inr ()"
    using x ck by (auto simp: hi validateSlotOrdering_def validateBlockNumber_def validatePrevHash_def Let_def)
  moreover have "validateVRFProof C (blake2b256 K) v ?i = Inr (Output res)"
    using cert sig(1) sig(2)[OF cert(2)] ck by (simp add: validateVRFProof_def verifyCertifiedVRF_ok hi v)
  moreover have "leadership_verdict (blake2b256 K) hash224 v ?i (Output res) = Inr ()"
    using el by (intro election_leadership[OF m hb(1) _ el(2) v]) (simp_all add: hi)
  moreover have "validateNonceVRFProof C (blake2b256 K) v ?i = Inr ()"
    using ck by (intro nonce_certificate[OF C hv nc _ v(1)]) (simp_all add: hi)
  moreover have "validateKESPeriod v ?i = Inr ()" "validateKESSignature (strict_crypto C K) v ?i = Inr ()"
    using kes_checks[OF K hk sg(2), of ?i v] x pk body by (simp_all add: hi)
  moreover have "validateOpCertSignature (strict_crypto C K) ?i = Inr ()"
    using ck hc by (auto simp: validateOpCertSignature_def hi Let_def)
  moreover have "\<exists>n. validateOpCertSequence v ?i = Inr n"
    using x by (intro counter_due) (auto simp: hi)
  moreover have "length (blake2b256 K (vs_PublicKey vs)) = 32" using K by (simp add: kes_crypto_ok_def)
  then have "validateVRFKeyRegistration (blake2b256 K) ?i = Inr ()"
    using sig(1) x by (auto simp: validateVRFKeyRegistration_def hi Let_def)
  ultimately show ?thesis unfolding header_accepted_def by blast
qed

subsection \<open>Properties\<close>

text \<open>C1: A block an honest pool builds is accepted: when the VRF and KES keys of a builder come
  from this library's key generation, its KES key has evolved to the period of the slot and its
  certificate is signed by the cold key, every header that \<open>BuildHeader\<close> returns passes all
  eleven checks of a validator with the same mode, coefficient and schedule, for the chain the
  header extends.  The result carries no error, the header's VRF output and its certificate
  counter; the caches of the two sides may differ.  The encoder never returns an empty string.\<close>

theorem honest_header_accepted:
  assumes "vrf_curve_ok C" and "kes_crypto_ok (strict_crypto C K)" and "memo_sound cache" and "memo_sound cache2"
    and "\<forall>i. encode i \<noteq> Some []" and "honest_builder C (strict_crypto C K) n b"
    and "BuildHeader (blake2b256 K) hash224 encode cache b input = Some ((Some h, lr, err), cache')"
    and "serializeHeaderBody encode (bb_mode b) (hd_Body h) = Inr body"
    and "hv_mode v = bb_mode b" and "hv_activeSlotCoeff v = bb_activeSlotCoeff b" and "hv_tachys v = bb_tachys b"
    and "extends_chain K v n b input cx"
  shows "\<exists>cache''. ValidateHeader C K hash224 cache2 v (header_input h body input cx) =
    Some (\<lparr>vr_Valid = True, vr_VrfOutput = Some (hb_VrfOutput (hd_Body h)),
           vr_NextOpCertCounter = Some (hb_OpCertSequenceNumber (hd_Body h)), vr_Errors = []\<rparr>, cache'')"
proof -
  let ?i = "header_input h body input cx"
  have "header_accepted C K hash224 v ?i" by (rule built_header_accepted[OF assms(1-3,5-)])
  moreover obtain res c where "ValidateHeader C K hash224 cache2 v ?i = Some (res, c)" "memo_sound c"
    "vr_Valid res \<longleftrightarrow> header_accepted C K hash224 v ?i" "vr_Valid res \<longleftrightarrow> vr_Errors res = []"
    "vr_Valid res \<longrightarrow> vr_VrfOutput res = Some (vi_VrfOutput ?i) \<and>
       vr_NextOpCertCounter res = Some (vi_OpCertSequenceNumber ?i)"
    by (rule ValidateHeader_result[OF assms(4), of C K hash224 v ?i])
  moreover have "vi_VrfOutput ?i = hb_VrfOutput (hd_Body h)" "vi_OpCertSequenceNumber ?i = hb_OpCertSequenceNumber (hd_Body h)"
    by (simp_all add: header_input_def)
  ultimately show ?thesis by (cases res) auto
qed

text \<open>C2: An accepted header is what it claims to be: its slot and number follow the previous header,
  its VRF output is the hash of a proof that verifies for the slot under a key that hashes to the
  registered one, outside a Tachys schedule the output satisfies the leader predicate of the
  pool's stake, the KES period of the slot is at or after the certificate's and within both the
  64 periods of the key and the network's limit, and the counter neither rolls back nor, in CPraos,
  advances by more than one; it is the counter that is returned.\<close>

theorem accepted_header_sound:
  assumes "memo_sound cache" and "ValidateHeader C K hash224 cache v input = Some (res, cache')" and "vr_Valid res"
  shows "vi_PrevSlot input < vi_Slot input \<and> vi_BlockNumber input = vi_PrevBlockNumber input + 1 \<and>
    (\<exists>alpha. certifiedInput (blake2b256 K) (hv_mode v) (vi_Slot input) (vi_EpochNonce input) (SeedL (blake2b256 K)) = Some alpha \<and>
       VerifyAndHash C (vi_VrfKey input) (vi_VrfProof input) alpha = Inr (vi_VrfOutput input)) \<and>
    blake2b256 K (vi_VrfKey input) = vi_RegisteredVrfKeyHash input \<and>
    (hv_tachys v = None \<longrightarrow>
       (\<exists>st. eligibility_of (vi_PoolStake input) (vi_TotalStake input) (hv_activeSlotCoeff v) (hv_mode v) = Inr st \<and>
          CheckVRFOutput (blake2b256 K) (Some st) (vi_VrfOutput input) = Inr True)) \<and>
    unat (vi_OpCertKesPeriod input) \<le> unat (vi_Slot input) div unat (hv_slotsPerKESPeriod v) \<and>
    unat (vi_Slot input) div unat (hv_slotsPerKESPeriod v) - unat (vi_OpCertKesPeriod input)
      < min 64 (unat (hv_maxKESEvolutions v)) \<and>
    (\<exists>c. vi_OpCertCounterState input = Some c \<and> c \<le> vi_OpCertSequenceNumber input \<and>
       (hv_mode v = ConsensusModeCPraos \<longrightarrow> unat (vi_OpCertSequenceNumber input) \<le> unat c + 1)) \<and>
    vr_NextOpCertCounter res = Some (vi_OpCertSequenceNumber input)"
proof -
  obtain res' c where r: "ValidateHeader C K hash224 cache v input = Some (res', c)" "memo_sound c"
    "vr_Valid res' \<longleftrightarrow> header_accepted C K hash224 v input" "vr_Valid res' \<longleftrightarrow> vr_Errors res' = []"
    "vr_Valid res' \<longrightarrow> vr_VrfOutput res' = Some (vi_VrfOutput input) \<and>
       vr_NextOpCertCounter res' = Some (vi_OpCertSequenceNumber input)"
    by (rule ValidateHeader_result[OF assms(1), of C K hash224 v input])
  then have acc: "header_accepted C K hash224 v input" "vr_NextOpCertCounter res = Some (vi_OpCertSequenceNumber input)"
    using assms(2,3) by auto
  note a = acc(1)[unfolded header_accepted_def]
  have "validateSlotOrdering input = Inr ()" "validateBlockNumber input = Inr ()"
    "validateVRFKeyRegistration (blake2b256 K) input = Inr ()" using a by blast+
  then have "vi_PrevSlot input < vi_Slot input" "vi_BlockNumber input = vi_PrevBlockNumber input + 1"
    "blake2b256 K (vi_VrfKey input) = vi_RegisteredVrfKeyHash input"
    by (auto simp: validateSlotOrdering_def validateBlockNumber_def validateVRFKeyRegistration_def Let_def split: if_splits)
  moreover obtain out where o: "validateVRFProof C (blake2b256 K) v input = Inr out"
    "leadership_verdict (blake2b256 K) hash224 v input out = Inr ()" using a by blast
  moreover obtain n where n: "validateOpCertSequence v input = Inr n" using a by blast
  moreover have "validateKESPeriod v input = Inr ()" "validateKESSignature (strict_crypto C K) v input = Inr ()" using a by blast+
  note kes_accepted[OF this]
  ultimately show ?thesis
    using vrf_accepted[OF o(1)] leadership_accepted[OF o(2)] vrf_value[OF o(1)] counter_accepted[OF n]
      sequence_value[OF n] acc(2) by blast
qed


subsection \<open>A pool with keys\<close>

definition example_point :: bytes where
  "example_point = pt_bytes example_curve cyclic_one"

definition example_keys :: kes_crypto where
  "example_keys = \<lparr>blake2b256 = pad32, ed_public = (\<lambda>s. example_point),
     ed_sign = (\<lambda>s m. example_point @ replicate 32 0), ed_verify = (\<lambda>pk m s. s = pk @ replicate 32 0)\<rparr>"

lemma length_pad32: "length (pad32 x) = 32"
  by (simp add: pad32_def min_def)

lemma example_point_ok:
  "length example_point = 32" "pt_set example_curve example_point = Some cyclic_one"
  "\<not> IsSmallOrder cyclic_one" "pt_bytes example_curve cyclic_one = example_point"
proof -
  note c = example_curve_ok[unfolded vrf_curve_ok_def]
  show "length example_point = 32" "pt_set example_curve example_point = Some cyclic_one"
    unfolding example_point_def using c by blast+
  have "smul n cyclic_one = 0 \<longleftrightarrow> 2 ^ 252 + 1 dvd n" for n
    using c by (simp add: example_curve_def)
  then show "\<not> IsSmallOrder cyclic_one" by (simp add: IsSmallOrder_def nat_dvd_not_less)
qed (simp add: example_point_def)

lemma example_verify:
  "ed_verify (strict_crypto example_curve example_keys) example_point m (example_point @ replicate 32 0)"
  using example_point_ok
  by (simp add: strict_crypto_def ed25519strict_Verify_def example_keys_def) (simp add: example_curve_def)

lemma example_keys_ok: "kes_crypto_ok (strict_crypto example_curve example_keys)"
  using example_point_ok(1) example_verify
  by (simp add: kes_crypto_ok_def strict_crypto_def example_keys_def length_pad32)

definition example_input :: BuildHeaderInput where
  "example_input = \<lparr>bi_Slot = 25, bi_BlockNumber = 8, bi_PrevHash = replicate 32 1, bi_EpochNonce = replicate 32 2,
     bi_PoolStake = 1, bi_TotalStake = 1, bi_BlockBodyHash = replicate 32 3, bi_BlockBodySize = 0,
     bi_ProtoMajor = 9, bi_ProtoMinor = 0\<rparr>"

definition example_cert :: "bytes \<Rightarrow> OperationalCert" where
  "example_cert pk = \<lparr>oc_HotVkey = pk, oc_SequenceNumber = 4, oc_KesPeriod = 1, oc_Signature = example_point @ replicate 32 0\<rparr>"

definition example_builder :: "VRFSigner \<Rightarrow> KESSigner \<Rightarrow> BlockBuilder" where
  "example_builder vs ks = NewBlockBuilder (Some vs) (Some ks) (Some (example_cert (ks_PublicKey ks))) [] example_point (Some 1)"

definition example_config :: NetworkConfig where
  "example_config = \<lparr>nc_SecurityParam = 5, nc_ActiveSlotCoeff = Some 1, nc_SlotLength = Some 1, nc_EpochLength = 100,
     nc_SlotsPerKESPeriod = 10, nc_MaxKESEvolutions = 62\<rparr>"

definition example_context :: "VRFSigner \<Rightarrow> chain_context" where
  "example_context vs = \<lparr>cx_slot = 24, cx_number = 7, cx_hash = replicate 32 1, cx_counter = 3,
     cx_vrfHash = pad32 (vs_PublicKey vs)\<rparr>"

lemma example_unconditional:
  "\<exists>st. eligibility_of 1 1 (Some 1) ConsensusModeCPraos = Inr st \<and> le_unconditional st \<and> le_maximum st = 2 ^ 256 \<and>
     le_mode st = ConsensusModeCPraos"
proof -
  have q: "quotient_of (1 :: rat) = (1, 1)" by code_simp
  have "validateActiveSlotCoefficient (Some 1) = Inr ()" unfolding validateActiveSlotCoefficient_iff[OF q] by simp
  then show ?thesis
    by (simp add: eligibility_of_def uncachedEligibility_def prepareLeaderEligibility_def eligibility_key_def q
        lift_e34_def e34FromRatio_def ensure_def twoTo256_def e34FloorQuotient_def e34Scale_def)
qed

lemma example_election:
  assumes "\<And>alpha. \<exists>p out. prove alpha = Some (p, out) \<and> length p = 80 \<and> length out = 64"
  shows "\<exists>res. election_of pad32 25 (replicate 32 2) 1 1 (Some 1) (Some prove) ConsensusModeCPraos = Inr res \<and> Eligible res"
proof -
  obtain st where st: "eligibility_of 1 1 (Some 1) ConsensusModeCPraos = Inr st" "le_unconditional st"
    "le_maximum st = 2 ^ 256" "le_mode st = ConsensusModeCPraos" using example_unconditional by blast
  obtain c where "NewLeaderEligibility leaderEligibilityMemo 1 1 (Some 1) ConsensusModeCPraos = Some (Inr st, c)"
    using NewLeaderEligibility_pure[OF memo_sound_initial, of 1 1 "Some 1" ConsensusModeCPraos] st(1) by auto
  then have l: "leadership_of (replicate 32 2) 1 1 (Some 1) (Some prove) ConsensusModeCPraos = Inr (Some st, False)"
    by (simp add: leadership_of_def prepareSlotLeadership_def)
  let ?a = "pad32 (be_bytes 8 25 @ replicate 32 2)"
  obtain p out where p: "prove ?a = Some (p, out)" "length p = 80" "length out = 64" using assms by blast
  have "be_nat (pad32 x) < 256 ^ 32" for x using be_nat_less[of "pad32 x"] by (simp add: length_pad32)
  then have "int (be_nat (VrfLeaderValue pad32 out)) \<le> 2 ^ 256"
    by (simp add: VrfLeaderValue_def less_imp_le)
  then have "CheckVRFOutput pad32 (Some st) out = Inr True"
    using st p(3) by (simp add: CheckVRFOutput_def CheckCertifiedNatural_def)
  then show ?thesis using p by (simp add: election_of_def l checkSlotLeadership_def leaderVrfInput_def MkInputVrf_def)
qed

abbreviation example_strict :: kes_crypto where
  "example_strict \<equiv> strict_crypto example_curve example_keys"

lemma example_builder_simps:
  "bb_vrfSigner (example_builder vs ks) = Some vs" "bb_kesSigner (example_builder vs ks) = Some ks"
  "bb_opCert (example_builder vs ks) = Some (example_cert (ks_PublicKey ks))"
  "bb_issuerVkey (example_builder vs ks) = example_point" "bb_tachys (example_builder vs ks) = None"
  "bb_mode (example_builder vs ks) = ConsensusModeCPraos" "bb_activeSlotCoeff (example_builder vs ks) = Some 1"
  by (simp_all add: example_builder_def NewBlockBuilder_def NewBlockBuilderWithMode_def)

lemma example_vrf:
  "\<exists>vs. NewSimpleVRFSigner example_curve (replicate 32 9) = Inr vs \<and> length (vs_PublicKey vs) = 32 \<and>
     (\<forall>alpha. \<exists>p out. vs_Prove vs alpha = Some (p, out) \<and> length p = 80 \<and> length out = 64)"
proof -
  obtain pk where k: "vrf_KeyGen example_curve (replicate 32 9) = Inr (pk, replicate 32 9)"
    using example_prove by blast
  obtain vs where vs: "NewSimpleVRFSigner example_curve (replicate 32 9) = Inr vs"
    "vs_Prove vs = (\<lambda>input. case vrf_Prove example_curve (replicate 32 9) input of Inl _ \<Rightarrow> None | Inr r \<Rightarrow> Some r)"
    using k by (simp add: NewSimpleVRFSigner_def)
  have "\<exists>p out. vs_Prove vs alpha = Some (p, out)" for alpha
    unfolding vs(2) using example_prove[of alpha] by auto
  then show ?thesis using vs(1) simple_signer[OF example_curve_ok vs(1)] by blast
qed

lemma example_kes:
  "\<exists>sk0 sk pk. KeyGen example_strict CardanoKesDepth (replicate 32 7) = Inr (sk0, pk) \<and>
     kes_evolve example_strict 1 sk0 = Inr sk \<and> length pk = 32 \<and>
     (\<exists>s. kes_Sign example_strict (Some sk) (word_of_nat 1) [0] = Inr s)"
proof -
  have l: "length (replicate 32 (7 :: byte)) = 32" by simp
  have c: "CardanoKesDepth = word_of_nat 6" by (simp add: CardanoKesDepth_def)
  obtain sk0 pk where k: "KeyGen example_strict CardanoKesDepth (replicate 32 7) = Inr (sk0, pk)"
    "sk0 = key_state example_strict 6 (replicate 32 7) 0"
    unfolding c using KeyGen_ok[OF example_keys_ok l, of 6] by simp
  obtain sk where e: "kes_evolve example_strict 1 sk0 = Inr sk"
    unfolding k(2) using kes_evolve_ok[OF example_keys_ok l, of 6 1] by simp
  have "(1 :: nat) < 64" by simp
  then show ?thesis using cardano_sign_verifies[OF example_keys_ok k(1) e] k(1) e by blast
qed

lemma example_build:
  assumes "length (vs_PublicKey vs) = 32" "length (ks_PublicKey ks) = 32" "ks_Sign ks [0] = Some s"
    "\<forall>alpha. \<exists>p out. vs_Prove vs alpha = Some (p, out) \<and> length p = 80 \<and> length out = 64"
  shows "\<exists>h lr c. BuildHeader pad32 (\<lambda>b. b) (\<lambda>i. Some [0]) leaderEligibilityMemo (example_builder vs ks) example_input =
      Some ((Some h, lr, None), c)"
proof -
  let ?b = "example_builder vs ks"
  have chk: "buildChecks ?b example_input = Inr (vs, ks, example_cert (ks_PublicKey ks))"
    using assms(1,2) example_point_ok(1)
    by (simp add: buildChecks_def example_builder_simps example_cert_def example_input_def)
  obtain res where res: "election_of pad32 25 (replicate 32 2) 1 1 (Some 1) (Some (vs_Prove vs)) ConsensusModeCPraos = Inr res"
    "Eligible res" using example_election[of "vs_Prove vs"] assms(4) by blast
  obtain c where "IsSlotLeaderWithMode pad32 leaderEligibilityMemo 25 (replicate 32 2) 1 1 (Some 1) (Some (vs_Prove vs))
      ConsensusModeCPraos = Some (election_of pad32 25 (replicate 32 2) 1 1 (Some 1) (Some (vs_Prove vs)) ConsensusModeCPraos, c)"
    using IsSlotLeader_pure[OF memo_sound_initial validateConsensusMode.simps(1)] by blast
  then have "buildElection pad32 (\<lambda>b. b) leaderEligibilityMemo ?b 25 (replicate 32 2) 1 1 = Some (Inr res, c)"
    by (simp add: buildElection_def example_builder_simps res(1))
  then show ?thesis
    using assms(3) res(2) chk
    by (simp add: BuildHeader_def example_input_def nonceCertificate_def example_builder_simps serializeHeaderBody_def Let_def)
qed

lemma example_extends:
  "extends_chain example_keys (NewHeaderValidator example_config) 1 (example_builder vs ks) example_input (example_context vs)"
  by (simp add: extends_chain_def example_builder_simps example_input_def example_context_def example_cert_def
      example_config_def NewHeaderValidator_def NewHeaderValidatorWithMode_def example_keys_def word_le_nat_alt)

lemma example_pool:
  "\<exists>vs ks h lr c. honest_builder example_curve example_strict 1 (example_builder vs ks) \<and>
     BuildHeader pad32 (\<lambda>b. b) (\<lambda>i. Some [0]) leaderEligibilityMemo (example_builder vs ks) example_input =
       Some ((Some h, lr, None), c) \<and>
     serializeHeaderBody (\<lambda>i. Some [0]) ConsensusModeCPraos (hd_Body h) = Inr [0] \<and>
     extends_chain example_keys (NewHeaderValidator example_config) 1 (example_builder vs ks) example_input (example_context vs)"
proof -
  obtain vs where vs: "NewSimpleVRFSigner example_curve (replicate 32 9) = Inr vs" "length (vs_PublicKey vs) = 32"
    "\<forall>alpha. \<exists>p out. vs_Prove vs alpha = Some (p, out) \<and> length p = 80 \<and> length out = 64"
    using example_vrf by blast
  obtain sk0 sk pk s where k: "KeyGen example_strict CardanoKesDepth (replicate 32 7) = Inr (sk0, pk)"
    "kes_evolve example_strict 1 sk0 = Inr sk" "length pk = 32" "kes_Sign example_strict (Some sk) (word_of_nat 1) [0] = Inr s"
    using example_kes by blast
  define ks where "ks = kes_signer example_strict sk (word_of_nat 1) pk"
  have ks: "ks_PublicKey ks = pk" "ks_Sign ks [0] = Some s" using k(4) by (simp_all add: ks_def kes_signer_def)
  have "ed_verify example_strict (bb_issuerVkey (example_builder vs ks))
      (OpCertSignableBytes (oc_HotVkey (example_cert pk)) (oc_SequenceNumber (example_cert pk)) (oc_KesPeriod (example_cert pk)))
      (oc_Signature (example_cert pk))"
    unfolding example_builder_simps using example_verify by (simp add: example_cert_def)
  moreover have "bb_opCert (example_builder vs ks) = Some (example_cert pk)"
    "bb_kesSigner (example_builder vs ks) = Some (kes_signer example_strict sk (word_of_nat 1) pk)"
    using ks(1) by (simp_all add: example_builder_simps ks_def)
  moreover have "(1 :: nat) < 64" by simp
  ultimately have "honest_builder example_curve example_strict 1 (example_builder vs ks)"
    unfolding honest_builder_def using vs(1) k(1,2) example_builder_simps(1,5)[of vs ks] by blast
  moreover have "length (ks_PublicKey ks) = 32" using k(3) ks(1) by simp
  note example_build[OF vs(2) this ks(2) vs(3)]
  ultimately show ?thesis using example_extends by (fastforce simp: serializeHeaderBody_def)
qed

lemma example_sides:
  "hv_mode (NewHeaderValidator example_config) = bb_mode (example_builder vs ks)"
  "hv_activeSlotCoeff (NewHeaderValidator example_config) = bb_activeSlotCoeff (example_builder vs ks)"
  "hv_tachys (NewHeaderValidator example_config) = bb_tachys (example_builder vs ks)"
  "bb_mode (example_builder vs ks) = ConsensusModeCPraos"
  "\<forall>i :: cbor_item. Some [0 :: byte] \<noteq> Some []"
  "blake2b256 example_keys = pad32"
  by (simp_all add: example_builder_def NewBlockBuilder_def NewBlockBuilderWithMode_def NewHeaderValidator_def
      NewHeaderValidatorWithMode_def example_config_def example_keys_def)

theorem honest_header_accepted_witness:
  "vrf_curve_ok example_curve \<and> kes_crypto_ok example_strict \<and> memo_sound leaderEligibilityMemo \<and>
   (\<exists>vs ks h lr c cache''. honest_builder example_curve example_strict 1 (example_builder vs ks) \<and>
      BuildHeader pad32 (\<lambda>b. b) (\<lambda>i. Some [0]) leaderEligibilityMemo (example_builder vs ks) example_input =
        Some ((Some h, lr, None), c) \<and>
      extends_chain example_keys (NewHeaderValidator example_config) 1 (example_builder vs ks) example_input (example_context vs) \<and>
      ValidateHeader example_curve example_keys (\<lambda>b. b) leaderEligibilityMemo (NewHeaderValidator example_config)
        (header_input h [0] example_input (example_context vs)) =
      Some (\<lparr>vr_Valid = True, vr_VrfOutput = Some (hb_VrfOutput (hd_Body h)),
        vr_NextOpCertCounter = Some (hb_OpCertSequenceNumber (hd_Body h)), vr_Errors = []\<rparr>, cache''))"
proof -
  obtain vs ks h lr c where p: "honest_builder example_curve example_strict 1 (example_builder vs ks)"
    "BuildHeader pad32 (\<lambda>b. b) (\<lambda>i. Some [0]) leaderEligibilityMemo (example_builder vs ks) example_input = Some ((Some h, lr, None), c)"
    "serializeHeaderBody (\<lambda>i. Some [0]) ConsensusModeCPraos (hd_Body h) = Inr [0]"
    "extends_chain example_keys (NewHeaderValidator example_config) 1 (example_builder vs ks) example_input (example_context vs)"
    using example_pool by blast
  from honest_header_accepted[OF example_curve_ok example_keys_ok memo_sound_initial memo_sound_initial example_sides(5) p(1)
      p(2)[folded example_sides(6)] p(3)[folded example_sides(4)[of vs ks]] example_sides(1-3) p(4)]
  show ?thesis using p example_curve_ok example_keys_ok memo_sound_initial by blast
qed

theorem accepted_header_sound_witness:
  "\<exists>h cx res c. ValidateHeader example_curve example_keys (\<lambda>b. b) leaderEligibilityMemo (NewHeaderValidator example_config)
       (header_input h [0] example_input cx) = Some (res, c) \<and> vr_Valid res \<and>
     vi_PrevSlot (header_input h [0] example_input cx) < vi_Slot (header_input h [0] example_input cx)"
proof -
  obtain vs ks h lr c where p: "honest_builder example_curve example_strict 1 (example_builder vs ks)"
    "BuildHeader pad32 (\<lambda>b. b) (\<lambda>i. Some [0]) leaderEligibilityMemo (example_builder vs ks) example_input = Some ((Some h, lr, None), c)"
    "serializeHeaderBody (\<lambda>i. Some [0]) ConsensusModeCPraos (hd_Body h) = Inr [0]"
    "extends_chain example_keys (NewHeaderValidator example_config) 1 (example_builder vs ks) example_input (example_context vs)"
    using example_pool by blast
  let ?v = "NewHeaderValidator example_config" and ?i = "header_input h [0] example_input (example_context vs)"
  have "header_accepted example_curve example_keys (\<lambda>b. b) ?v ?i"
    by (rule built_header_accepted[OF example_curve_ok example_keys_ok memo_sound_initial example_sides(5) p(1)
      p(2)[folded example_sides(6)] p(3)[folded example_sides(4)[of vs ks]] example_sides(1-3) p(4)])
  moreover obtain res c where r: "ValidateHeader example_curve example_keys (\<lambda>b. b) leaderEligibilityMemo ?v ?i = Some (res, c)"
    "vr_Valid res \<longleftrightarrow> header_accepted example_curve example_keys (\<lambda>b. b) ?v ?i"
    using ValidateHeader_result[OF memo_sound_initial, of example_curve example_keys "\<lambda>b. b" ?v ?i] by blast
  ultimately have v: "vr_Valid res" by simp
  then have "vi_PrevSlot ?i < vi_Slot ?i" using accepted_header_sound[OF memo_sound_initial r(1) v] by blast
  then show ?thesis using r(1) v by blast
qed

end
