(* ===== verification/Segments.thy ===== *)
theory Segments
  imports Words
begin

text \<open>
  Multiplexer segments and the egress scheduler (\<open>muxer/segment.go\<close>, \<open>muxer/egress.go\<close>, and
  \<open>Send\<close> of \<open>muxer/muxer.go\<close>).  A segment is written as an 8-byte big-endian header followed by
  its payload.  The scheduler is a record of its fields; the critical sections of \<open>acquire\<close>,
  \<open>remove\<close> and \<open>release\<close> are functions on it, a waiting goroutine is the number of its channel,
  and an execution is a sequence of such critical sections.
\<close>

unbundle bit_operations_syntax

type_synonym u16 = "16 word"
type_synonym u32 = "32 word"

subsection \<open>Segments\<close>

definition SegmentMaxPayloadLength :: nat where
  "SegmentMaxPayloadLength = 65535"

definition segmentProtocolIdResponseFlag :: u16 where
  "segmentProtocolIdResponseFlag = 0x8000"

record SegmentHeader =
  sg_Timestamp :: u32
  sg_ProtocolId :: u16
  sg_PayloadLength :: u16

record Segment = SegmentHeader +
  sg_Payload :: bytes

text \<open>\<open>now\<close> is the clock reading in nanoseconds.\<close>

definition NewSegment :: "nat \<Rightarrow> u16 \<Rightarrow> bytes \<Rightarrow> bool \<Rightarrow> Segment option" where
  "NewSegment now protocolId payload isResponse =
     (let pid = (if isResponse then protocolId + segmentProtocolIdResponseFlag else protocolId); size = length payload in
      if SegmentMaxPayloadLength < size \<or> 65535 < size then None
      else Some \<lparr>sg_Timestamp = word_of_nat (now mod 2 ^ 32), sg_ProtocolId = pid,
                 sg_PayloadLength = word_of_nat size, sg_Payload = payload\<rparr>)"

definition IsRequest :: "'a SegmentHeader_scheme \<Rightarrow> bool" where
  "IsRequest s \<longleftrightarrow> sg_ProtocolId s AND segmentProtocolIdResponseFlag = 0"

definition IsResponse :: "'a SegmentHeader_scheme \<Rightarrow> bool" where
  "IsResponse s \<longleftrightarrow> 0 < sg_ProtocolId s AND segmentProtocolIdResponseFlag"

definition GetProtocolId :: "'a SegmentHeader_scheme \<Rightarrow> u16" where
  "GetProtocolId s =
     (if segmentProtocolIdResponseFlag \<le> sg_ProtocolId s then sg_ProtocolId s - segmentProtocolIdResponseFlag
      else sg_ProtocolId s)"

text \<open>The bytes \<open>Send\<close> hands to the connection: \<open>binary.Write\<close> of the header, then the payload.\<close>

definition segment_bytes :: "Segment \<Rightarrow> bytes" where
  "segment_bytes s = be_bytes 4 (unat (sg_Timestamp s)) @ be_bytes 2 (unat (sg_ProtocolId s)) @
     be_bytes 2 (unat (sg_PayloadLength s)) @ sg_Payload s"

subsection \<open>The egress scheduler\<close>

datatype EgressClass = EgressClassPraos | EgressClassLeios

definition EgressClassOf :: "u16 \<Rightarrow> EgressClass" where
  "EgressClassOf protocolId = (if protocolId = 18 \<or> protocolId = 19 \<or> protocolId = 20 then EgressClassLeios else EgressClassPraos)"

definition praosBurst :: nat where
  "praosBurst = 8"

record egress =
  eg_busy :: bool
  eg_praos :: "nat list"
  eg_leios :: "nat list"
  eg_praosRun :: nat

definition egress_new :: egress where
  "egress_new = \<lparr>eg_busy = False, eg_praos = [], eg_leios = [], eg_praosRun = 0\<rparr>"

text \<open>The critical section of \<open>acquire\<close>: the turn is taken at once (\<open>True\<close>) or the waiter queues.\<close>

definition egress_acquire :: "egress \<Rightarrow> nat \<Rightarrow> EgressClass \<Rightarrow> egress \<times> bool" where
  "egress_acquire e w cls =
     (if \<not> eg_busy e then (e\<lparr>eg_busy := True\<rparr>, True)
      else if cls = EgressClassLeios then (e\<lparr>eg_leios := eg_leios e @ [w]\<rparr>, False)
      else (e\<lparr>eg_praos := eg_praos e @ [w]\<rparr>, False))"

text \<open>\<open>remove\<close> takes a waiter that gives up out of its queue and reports whether it was there.\<close>

definition egress_remove :: "egress \<Rightarrow> nat \<Rightarrow> egress \<times> bool" where
  "egress_remove e w =
     (if w \<in> set (eg_praos e) then (e\<lparr>eg_praos := remove1 w (eg_praos e)\<rparr>, True)
      else if w \<in> set (eg_leios e) then (e\<lparr>eg_leios := remove1 w (eg_leios e)\<rparr>, True)
      else (e, False))"

text \<open>\<open>release\<close> returns the waiter whose channel it closes, if any.\<close>

definition egress_release :: "egress \<Rightarrow> egress \<times> nat option" where
  "egress_release e =
     (if eg_leios e = [] \<and> eg_praos e = [] then (e\<lparr>eg_busy := False, eg_praosRun := 0\<rparr>, None)
      else if eg_leios e \<noteq> [] \<and> (eg_praos e = [] \<or> praosBurst \<le> eg_praosRun e) then
        (e\<lparr>eg_leios := tl (eg_leios e), eg_praosRun := 0\<rparr>, Some (hd (eg_leios e)))
      else (e\<lparr>eg_praos := tl (eg_praos e),
              eg_praosRun := (if eg_leios e \<noteq> [] then eg_praosRun e + 1 else eg_praosRun e)\<rparr>,
            Some (hd (eg_praos e))))"

subsection \<open>Executions\<close>

text \<open>\<open>Acquire\<close> is the start of a \<open>Send\<close>, \<open>Release\<close> its end, and \<open>Cancel\<close> a waiter leaving because
  the muxer stops.  A step returns the waiter that obtains the turn.\<close>

datatype egress_event = Acquire nat EgressClass | Release | Cancel nat

fun egress_step :: "egress \<Rightarrow> egress_event \<Rightarrow> egress \<times> nat option" where
  "egress_step e (Acquire w cls) = (let (e', now) = egress_acquire e w cls in (e', if now then Some w else None))"
| "egress_step e Release = egress_release e"
| "egress_step e (Cancel w) = (let (e', queued) = egress_remove e w in if queued then (e', None) else egress_release e')"

text \<open>The waiters that obtain the turn along a sequence of steps.\<close>

fun egress_grants :: "egress \<Rightarrow> egress_event list \<Rightarrow> nat list" where
  "egress_grants e [] = []"
| "egress_grants e (ev # evs) =
     (case snd (egress_step e ev) of None \<Rightarrow> [] | Some w \<Rightarrow> [w]) @ egress_grants (fst (egress_step e ev)) evs"

text \<open>The states of a connection: the scheduler and the \<open>Send\<close>s that hold a turn, that is whose \<open>acquire\<close>
  returned at once or whose channel was closed, and that have not released it.  Nothing but the
  scheduler keeps them from being many.  A goroutine starts with a fresh channel; every holder may
  release; a waiter that gives up is queued or, when the turn was decided as the muxer stopped, a holder
  that releases.\<close>

inductive egress_reachable :: "egress \<Rightarrow> nat list \<Rightarrow> bool" where
  start: "egress_reachable egress_new []"
| acquire: "egress_reachable e ws \<Longrightarrow> w \<notin> set (eg_praos e) \<union> set (eg_leios e) \<union> set ws \<Longrightarrow>
    egress_acquire e w cls = (e', now) \<Longrightarrow> egress_reachable e' (if now then w # ws else ws)"
| release: "egress_reachable e ws \<Longrightarrow> w \<in> set ws \<Longrightarrow> egress_release e = (e', g) \<Longrightarrow>
    egress_reachable e' (case g of None \<Rightarrow> remove1 w ws | Some v \<Rightarrow> v # remove1 w ws)"
| cancel: "egress_reachable e ws \<Longrightarrow> egress_remove e w = (e', True) \<Longrightarrow> egress_reachable e' ws"

inductive_cases egress_reachable_cases: "egress_reachable e ws"

subsection \<open>The scheduler's invariant\<close>

definition egress_inv :: "egress \<Rightarrow> nat list \<Rightarrow> bool" where
  "egress_inv e ws \<longleftrightarrow>
     length ws \<le> 1 \<and> (eg_busy e \<longleftrightarrow> ws \<noteq> []) \<and>
     (\<not> eg_busy e \<longrightarrow> eg_praos e = [] \<and> eg_leios e = [] \<and> eg_praosRun e = 0) \<and>
     eg_praosRun e \<le> praosBurst \<and> distinct (eg_praos e @ eg_leios e @ ws)"

lemma egress_inv_acquire:
  assumes "egress_inv e ws" "w \<notin> set (eg_praos e) \<union> set (eg_leios e) \<union> set ws"
    "egress_acquire e w cls = (e', now)"
  shows "egress_inv e' (if now then w # ws else ws)"
  using assms by (auto simp: egress_inv_def egress_acquire_def split: if_splits)

lemma egress_inv_release:
  assumes "egress_inv e ws" "w \<in> set ws" "egress_release e = (e', g)"
  shows "egress_inv e' (case g of None \<Rightarrow> remove1 w ws | Some v \<Rightarrow> v # remove1 w ws)"
proof -
  have "ws = [w]" using assms(1,2) by (cases ws) (auto simp: egress_inv_def)
  then show ?thesis using assms(1,3)
    by (cases "eg_praos e"; cases "eg_leios e")
      (auto simp: egress_inv_def egress_release_def praosBurst_def split: if_splits)
qed

lemma egress_inv_cancel:
  assumes "egress_inv e ws" "egress_remove e w = (e', True)"
  shows "egress_inv e' ws"
  using assms
  by (auto simp: egress_inv_def egress_remove_def split: if_splits dest: in_set_remove1[THEN iffD1] notin_set_remove1)

lemma egress_inv_reachable: "egress_reachable e ws \<Longrightarrow> egress_inv e ws"
proof (induction rule: egress_reachable.induct)
  case start
  show ?case by (simp add: egress_inv_def egress_new_def)
qed (blast intro: egress_inv_acquire egress_inv_release egress_inv_cancel)+

subsection \<open>Progress of Leios segments\<close>

text \<open>The most releases a waiter at a position of the Leios queue may still have to sit through.\<close>

primrec index_of :: "nat \<Rightarrow> nat list \<Rightarrow> nat" where
  "index_of w [] = 0"
| "index_of w (x # xs) = (if x = w then 0 else Suc (index_of w xs))"

definition leios_rank :: "egress \<Rightarrow> nat \<Rightarrow> nat" where
  "leios_rank e w = Suc praosBurst * index_of w (eg_leios e) + (praosBurst - eg_praosRun e)"

lemma index_of_append [simp]: "w \<in> set xs \<Longrightarrow> index_of w (xs @ ys) = index_of w xs"
  by (induction xs) auto

lemma index_of_remove1: "w \<noteq> v \<Longrightarrow> index_of w (remove1 v xs) \<le> index_of w xs"
  by (induction xs) auto

lemma index_of_le: "w \<in> set xs \<Longrightarrow> index_of w xs < length xs"
  by (induction xs) auto

lemma leios_rank_release:
  assumes "w \<in> set (eg_leios e)" "eg_praosRun e \<le> praosBurst" "egress_release e = (e', g)" "g \<noteq> Some w"
  shows "w \<in> set (eg_leios e') \<and> eg_praosRun e' \<le> praosBurst \<and> leios_rank e' w < leios_rank e w"
  using assms
  by (cases "eg_leios e") (auto simp: egress_release_def leios_rank_def praosBurst_def split: if_splits)

lemma leios_rank_remove:
  assumes "w \<in> set (eg_leios e)" "w \<noteq> v" "egress_remove e v = (e', q)"
  shows "w \<in> set (eg_leios e') \<and> eg_praosRun e' = eg_praosRun e \<and> leios_rank e' w \<le> leios_rank e w"
  using assms index_of_remove1[OF assms(2), of "eg_leios e"]
  by (auto simp: egress_remove_def leios_rank_def praosBurst_def split: if_splits)

lemma leios_rank_acquire:
  assumes "w \<in> set (eg_leios e)" "egress_acquire e v cls = (e', now)"
  shows "w \<in> set (eg_leios e') \<and> eg_praosRun e' = eg_praosRun e \<and> leios_rank e' w = leios_rank e w"
  using assms by (auto simp: egress_acquire_def leios_rank_def split: if_splits)

text \<open>A step that does not grant \<open>w\<close> the turn keeps it queued and its rank does not grow; a release
  lowers it.\<close>

lemma leios_rank_step:
  assumes "w \<in> set (eg_leios e)" "eg_praosRun e \<le> praosBurst" "ev \<noteq> Cancel w"
    "egress_step e ev = (e', g)" "g \<noteq> Some w"
  shows "w \<in> set (eg_leios e') \<and> eg_praosRun e' \<le> praosBurst \<and>
    leios_rank e' w + (if ev = Release then 1 else 0) \<le> leios_rank e w"
proof (cases ev)
  case (Acquire v cls)
  then show ?thesis using assms leios_rank_acquire[OF assms(1), of v cls] by (auto split: prod.splits)
next
  case Release
  then show ?thesis using assms leios_rank_release[OF assms(1,2)] by (auto simp: Suc_le_eq)
next
  case (Cancel v)
  then have v: "w \<noteq> v" using assms(3) by auto
  obtain e1 q where r: "egress_remove e v = (e1, q)" by force
  note r1 = leios_rank_remove[OF assms(1) v r]
  show ?thesis
  proof (cases q)
    case True
    then show ?thesis using assms(2,4) r r1 Cancel by auto
  next
    case False
    then have "egress_release e1 = (e', g)" using assms(4) r Cancel by simp
    then show ?thesis using leios_rank_release[of w e1 e' g] assms(2,5) r1 Cancel by auto
  qed
qed

lemma leios_granted:
  assumes "w \<in> set (eg_leios e)" "eg_praosRun e \<le> praosBurst" "Cancel w \<notin> set evs"
    "leios_rank e w < count_list evs Release"
  shows "w \<in> set (egress_grants e evs)"
  using assms
proof (induction evs arbitrary: e)
  case (Cons ev evs)
  obtain e' g where s: "egress_step e ev = (e', g)" by force
  show ?case
  proof (cases "g = Some w")
    case False
    have "ev \<noteq> Cancel w" using Cons.prems(3) by auto
    note st = leios_rank_step[OF Cons.prems(1,2) this s False]
    then have "leios_rank e' w < count_list evs Release" using Cons.prems(4) by (auto split: if_splits)
    then show ?thesis using Cons.IH[of e'] st Cons.prems(3) s by simp
  qed (use s in simp)
qed simp

subsection \<open>Properties\<close>

text \<open>C27: At every moment at most one segment is being written: whatever \<open>Send\<close>s start, finish and give
  up, in whatever order, in every reachable state at most one of them holds the turn, the scheduler is busy
  exactly when one does, the holder is not queued, no segment is queued twice, and a free turn leaves
  nobody waiting (no lost wake-up).\<close>

theorem egress_single_writer:
  assumes "egress_reachable e ws"
  shows "length ws \<le> 1 \<and> (eg_busy e \<longleftrightarrow> ws \<noteq> []) \<and> (ws = [] \<longrightarrow> eg_praos e = [] \<and> eg_leios e = []) \<and>
    distinct (eg_praos e @ eg_leios e @ ws) \<and> eg_praosRun e \<le> praosBurst"
  using egress_inv_reachable[OF assms] by (auto simp: egress_inv_def)

text \<open>C26: Leios segments are not starved: from any reachable state, a Leios segment at position
  \<open>k\<close> of its queue obtains the turn before \<open>9 * (k + 1)\<close> further releases are over, whatever
  segments arrive or give up in between, unless it gives up itself.\<close>

theorem leios_not_starved:
  assumes "egress_reachable e ws" and "w \<in> set (eg_leios e)" and "Cancel w \<notin> set evs"
    and "9 * (index_of w (eg_leios e) + 1) \<le> count_list evs Release"
  shows "w \<in> set (egress_grants e evs)"
proof -
  have "eg_praosRun e \<le> praosBurst" using egress_inv_reachable[OF assms(1)] by (simp add: egress_inv_def)
  moreover have "leios_rank e w < count_list evs Release"
    using assms(4) by (simp add: leios_rank_def praosBurst_def)
  ultimately show ?thesis using leios_granted assms(2,3) by blast
qed

definition example_egress :: egress where
  "example_egress = \<lparr>eg_busy = True, eg_praos = [], eg_leios = [1], eg_praosRun = 0\<rparr>"

lemma example_egress_reachable: "egress_reachable example_egress [0]"
proof -
  have a: "egress_acquire egress_new 0 EgressClassPraos = (egress_new\<lparr>eg_busy := True\<rparr>, True)"
    by (simp add: egress_acquire_def egress_new_def)
  have b: "egress_acquire (egress_new\<lparr>eg_busy := True\<rparr>) 1 EgressClassLeios = (example_egress, False)"
    by (simp add: egress_acquire_def egress_new_def example_egress_def)
  have "egress_reachable (egress_new\<lparr>eg_busy := True\<rparr>) [0]"
    using egress_reachable.acquire[OF egress_reachable.start _ a] by (simp add: egress_new_def)
  from egress_reachable.acquire[OF this _ b] show ?thesis by (simp add: egress_new_def)
qed

theorem egress_single_writer_witness:
  "egress_reachable example_egress [0] \<and> eg_busy example_egress"
  using example_egress_reachable egress_single_writer[OF example_egress_reachable] by simp

theorem leios_not_starved_witness:
  "egress_reachable example_egress [0] \<and> 1 \<in> set (egress_grants example_egress (replicate 9 Release))"
proof -
  have "1 \<in> set (eg_leios example_egress)" "Cancel 1 \<notin> set (replicate 9 Release)"
    "9 * (index_of 1 (eg_leios example_egress) + 1) \<le> count_list (replicate 9 Release) Release"
    by (simp_all add: example_egress_def numeral_eq_Suc)
  from leios_not_starved[OF example_egress_reachable this] show ?thesis using example_egress_reachable by simp
qed

end
