(* ===== verification/Multiplexer.thy ===== *)
theory Multiplexer
  imports Segments
begin

text \<open>
  The receiving side of the multiplexer (\<open>muxer/muxer.go\<close>): the connection-wide ingress account,
  the per-role ingress queues, the registry of protocol roles and the read loop.  Queues live in
  a store and the registry maps a protocol and a role to an address in it, because a queue that is
  unregistered is still drained by its forwarder.  The critical section of each operation is a
  function on the state; goroutines interleave as steps of \<open>mux_step\<close>.  The channels that wake
  waiting goroutines, metrics callbacks, deadlines and the shutdown handshake are not modelled: an
  enqueue that has to wait returns \<open>WaitForRoom\<close> and is tried again later.  Byte counts are
  \<open>int\<close>: each is bounded by memory, and the one sum that could overflow saturates as in the code.
\<close>

subsection \<open>The ingress account\<close>

definition MaxInt64 :: int where
  "MaxInt64 = 2 ^ 63 - 1"

definition DefaultIngressLimit :: int where
  "DefaultIngressLimit = 16 * 1024 * 1024"

definition DefaultIngressBudget :: int where
  "DefaultIngressBudget = 64 * 1024 * 1024"

definition maxBudgetExtension :: int where
  "maxBudgetExtension = MaxInt64 div 64"

record ingressAccount =
  ia_budget :: int
  ia_extended :: int
  ia_limit :: int
  ia_used :: int
  ia_payload :: int

definition updateLimitLocked :: "ingressAccount \<Rightarrow> ingressAccount" where
  "updateLimitLocked a =
     (let maxExtension = MaxInt64 - ia_budget a in
      a\<lparr>ia_limit := (if maxExtension < ia_extended a then MaxInt64 else ia_budget a + ia_extended a)\<rparr>)"

definition account_extend :: "ingressAccount \<Rightarrow> int \<Rightarrow> ingressAccount" where
  "account_extend a delta =
     (let ext = ia_extended a + delta in
      updateLimitLocked (a\<lparr>ia_extended := (if ext < 0 then 0 else ext)\<rparr>))"

definition newIngressAccount :: ingressAccount where
  "newIngressAccount = \<lparr>ia_budget = DefaultIngressBudget, ia_extended = 0, ia_limit = DefaultIngressBudget,
     ia_used = 0, ia_payload = 0\<rparr>"

definition account_setBudget :: "ingressAccount \<Rightarrow> int \<Rightarrow> ingressAccount" where
  "account_setBudget a budget =
     updateLimitLocked (a\<lparr>ia_budget := (if budget \<le> 0 then DefaultIngressBudget else budget)\<rparr>)"

definition account_reserve :: "ingressAccount \<Rightarrow> int \<Rightarrow> int \<Rightarrow> bool \<Rightarrow> ingressAccount \<times> bool" where
  "account_reserve a cost payloadBytes force =
     (if \<not> force \<and> ia_limit a - ia_used a < cost then (a, False)
      else (a\<lparr>ia_used := ia_used a + cost, ia_payload := ia_payload a + payloadBytes\<rparr>, True))"

definition account_release :: "ingressAccount \<Rightarrow> int \<Rightarrow> int \<Rightarrow> ingressAccount" where
  "account_release a cost payloadBytes =
     a\<lparr>ia_used := max (ia_used a - cost) 0, ia_payload := max (ia_payload a - payloadBytes) 0\<rparr>"

subsection \<open>Ingress queues\<close>

text \<open>A payload read from the connection is allocated at its exact size; a \<open>Segment\<close> and a pointer
  to it take 48 bytes on a 64-bit target.\<close>

definition payload_length :: "Segment \<Rightarrow> int" where
  "payload_length s = int (length (sg_Payload s))"

definition segmentRetainedOverhead :: int where
  "segmentRetainedOverhead = 48"

definition segmentRetainedCost :: "Segment \<Rightarrow> int" where
  "segmentRetainedCost s = payload_length s + segmentRetainedOverhead"

record segmentChannel =
  sc_limit :: int
  sc_extension :: int
  sc_backpressure :: bool
  sc_queue :: "Segment list"
  sc_pendingBytes :: int
  sc_pendingCost :: int
  sc_closed :: bool
  sc_suspended :: bool
  sc_carry :: "bytes option"

definition newSegmentChannel :: segmentChannel where
  "newSegmentChannel = \<lparr>sc_limit = DefaultIngressLimit, sc_extension = 0, sc_backpressure = False, sc_queue = [],
     sc_pendingBytes = 0, sc_pendingCost = 0, sc_closed = False, sc_suspended = False, sc_carry = None\<rparr>"

definition setBudgetExtension :: "ingressAccount \<Rightarrow> segmentChannel \<Rightarrow> int \<Rightarrow> ingressAccount \<times> segmentChannel" where
  "setBudgetExtension a sc extra =
     (let extra = min (max extra 0) maxBudgetExtension in
      if extra = sc_extension sc then (a, sc)
      else (account_extend a (extra - sc_extension sc), sc\<lparr>sc_extension := extra\<rparr>))"

datatype enqueue_outcome =
    Enqueued | ChannelClosed | QueueOverflow int int | BudgetOverflow int int int | WaitForRoom

text \<open>One round of the loop of \<open>enqueue\<close>.\<close>

definition channel_enqueue ::
  "ingressAccount \<Rightarrow> segmentChannel \<Rightarrow> Segment \<Rightarrow> enqueue_outcome \<times> ingressAccount \<times> segmentChannel" where
  "channel_enqueue a sc msg =
     (let retainedCost = segmentRetainedCost msg in
      if sc_closed sc then (ChannelClosed, a, sc)
      else let newPending = sc_pendingBytes sc + payload_length msg;
               force = (sc_backpressure sc \<and> sc_queue sc = []);
               fitsQueue = (newPending \<le> sc_limit sc \<or> force);
               (a', reserved) = (if fitsQueue then account_reserve a retainedCost (payload_length msg) force else (a, False))
        in if reserved then
             (Enqueued, a', sc\<lparr>sc_queue := sc_queue sc @ [msg], sc_pendingBytes := newPending,
                               sc_pendingCost := sc_pendingCost sc + retainedCost\<rparr>)
           else if \<not> sc_backpressure sc then
             (if sc_limit sc < newPending then (QueueOverflow newPending (sc_limit sc), a, sc)
              else (BudgetOverflow (ia_used a) retainedCost (ia_limit a), a, sc))
           else (WaitForRoom, a, sc))"

text \<open>One round of \<open>forward\<close>: the head of the queue is taken and its share returned.\<close>

definition forward_dequeue ::
  "ingressAccount \<Rightarrow> segmentChannel \<Rightarrow> (Segment \<times> ingressAccount \<times> segmentChannel) option" where
  "forward_dequeue a sc =
     (case sc_queue sc of
        [] \<Rightarrow> None
      | seg # rest \<Rightarrow>
          let retainedCost = segmentRetainedCost seg in
          Some (seg, account_release a retainedCost (payload_length seg),
                sc\<lparr>sc_pendingBytes := sc_pendingBytes sc - payload_length seg,
                   sc_pendingCost := sc_pendingCost sc - retainedCost, sc_queue := rest\<rparr>))"

text \<open>The deferred cleanup of \<open>forward\<close>.\<close>

definition forward_exit :: "ingressAccount \<Rightarrow> segmentChannel \<Rightarrow> ingressAccount \<times> segmentChannel" where
  "forward_exit a sc =
     (account_extend (account_release a (sc_pendingCost sc) (sc_pendingBytes sc)) (- sc_extension sc),
      sc\<lparr>sc_pendingBytes := 0, sc_pendingCost := 0, sc_extension := 0, sc_queue := []\<rparr>)"

definition channel_suspend :: "segmentChannel \<Rightarrow> bytes option \<Rightarrow> segmentChannel" where
  "channel_suspend sc carry = sc\<lparr>sc_suspended := True, sc_carry := carry\<rparr>"

definition channel_resume :: "segmentChannel \<Rightarrow> segmentChannel \<times> bool" where
  "channel_resume sc =
     (if \<not> sc_suspended sc \<or> sc_closed sc then (sc, False) else (sc\<lparr>sc_suspended := False\<rparr>, True))"

definition takeCarry :: "segmentChannel \<Rightarrow> segmentChannel \<times> bytes option" where
  "takeCarry sc = (sc\<lparr>sc_carry := None\<rparr>, sc_carry sc)"

definition channel_stop :: "segmentChannel \<Rightarrow> segmentChannel" where
  "channel_stop sc = sc\<lparr>sc_closed := True\<rparr>"

subsection \<open>The registry\<close>

datatype DiffusionMode =
    DiffusionModeNone | DiffusionModeInitiator | DiffusionModeResponder | DiffusionModeInitiatorAndResponder

datatype ProtocolRole = ProtocolRoleInitiator | ProtocolRoleResponder

type_synonym 'v registry = "u16 \<rightharpoonup> (ProtocolRole \<rightharpoonup> 'v)"

definition ProtocolUnknown :: u16 where
  "ProtocolUnknown = 0xabcd"

record Muxer =
  mx_done :: bool
  mx_channels :: "segmentChannel list"
  mx_receivers :: "nat registry"
  mx_senders :: "unit registry"
  mx_tombstones :: "unit registry"
  mx_diffusionMode :: DiffusionMode
  mx_ingress :: ingressAccount
  mx_readBufferBudget :: int
  mx_readBufferUsed :: int

definition newMuxer :: Muxer where
  "newMuxer = \<lparr>mx_done = False, mx_channels = [], mx_receivers = (\<lambda>_. None), mx_senders = (\<lambda>_. None),
     mx_tombstones = (\<lambda>_. None), mx_diffusionMode = DiffusionModeNone, mx_ingress = newIngressAccount,
     mx_readBufferBudget = 0, mx_readBufferUsed = 0\<rparr>"

text \<open>Nested Go maps: a missing inner map reads as empty.\<close>

definition reg_get :: "'v registry \<Rightarrow> u16 \<Rightarrow> ProtocolRole \<Rightarrow> 'v option" where
  "reg_get r p role = (case r p of None \<Rightarrow> None | Some inner \<Rightarrow> inner role)"

definition reg_put :: "'v registry \<Rightarrow> u16 \<Rightarrow> ProtocolRole \<Rightarrow> 'v \<Rightarrow> 'v registry" where
  "reg_put r p role v = r(p \<mapsto> (case r p of None \<Rightarrow> (\<lambda>_. None) | Some inner \<Rightarrow> inner)(role \<mapsto> v))"

definition reg_delete :: "'v registry \<Rightarrow> u16 \<Rightarrow> ProtocolRole \<Rightarrow> 'v registry" where
  "reg_delete r p role =
     (case r p of
        None \<Rightarrow> r
      | Some inner \<Rightarrow>
          let inner' = inner(role := None) in
          if inner' ProtocolRoleInitiator = None \<and> inner' ProtocolRoleResponder = None then r(p := None)
          else r(p \<mapsto> inner'))"

definition RegisterProtocol :: "Muxer \<Rightarrow> u16 \<Rightarrow> ProtocolRole \<Rightarrow> Muxer \<times> nat option" where
  "RegisterProtocol m p role =
     (if mx_done m then (m, None)
      else let (m1, addr) = (case reg_get (mx_receivers m) p role of
                 Some i \<Rightarrow>
                   (let (sc, ok) = channel_resume (mx_channels m ! i) in
                    if ok then (m\<lparr>mx_channels := (mx_channels m)[i := sc]\<rparr>, i)
                    else (m\<lparr>mx_channels := mx_channels m @ [newSegmentChannel]\<rparr>, length (mx_channels m)))
               | None \<Rightarrow> (m\<lparr>mx_channels := mx_channels m @ [newSegmentChannel]\<rparr>, length (mx_channels m)))
        in (m1\<lparr>mx_senders := reg_put (mx_senders m1) p role (), mx_receivers := reg_put (mx_receivers m1) p role addr,
              mx_tombstones := (mx_tombstones m1)(p \<mapsto>
                (case mx_tombstones m1 p of None \<Rightarrow> (\<lambda>_. None) | Some inner \<Rightarrow> inner)(role := None))\<rparr>, Some addr))"

definition UnregisterProtocol :: "Muxer \<Rightarrow> u16 \<Rightarrow> ProtocolRole \<Rightarrow> Muxer" where
  "UnregisterProtocol m p role =
     (let recvChan = reg_get (mx_receivers m) p role; sender = reg_get (mx_senders m) p role;
          m1 = m\<lparr>mx_receivers := (if recvChan \<noteq> None then reg_delete (mx_receivers m) p role else mx_receivers m),
                 mx_senders := (if sender \<noteq> None then reg_delete (mx_senders m) p role else mx_senders m)\<rparr>;
          m2 = (if recvChan \<noteq> None \<or> sender \<noteq> None
                then m1\<lparr>mx_tombstones := reg_put (mx_tombstones m1) p role ()\<rparr> else m1)
      in case recvChan of
           None \<Rightarrow> m2
         | Some i \<Rightarrow> m2\<lparr>mx_channels := (mx_channels m2)[i := channel_stop (mx_channels m2 ! i)]\<rparr>)"

definition SuspendProtocol :: "Muxer \<Rightarrow> u16 \<Rightarrow> ProtocolRole \<Rightarrow> bytes option \<Rightarrow> Muxer \<times> bool" where
  "SuspendProtocol m p role carry =
     (case reg_get (mx_receivers m) p role of
        None \<Rightarrow> (m, False)
      | Some i \<Rightarrow>
          (m\<lparr>mx_channels := (mx_channels m)[i := channel_suspend (mx_channels m ! i) carry],
             mx_senders := reg_delete (mx_senders m) p role\<rparr>, True))"

definition TakeCarriedIngress :: "Muxer \<Rightarrow> u16 \<Rightarrow> ProtocolRole \<Rightarrow> Muxer \<times> bytes option" where
  "TakeCarriedIngress m p role =
     (case reg_get (mx_receivers m) p role of
        None \<Rightarrow> (m, None)
      | Some i \<Rightarrow> let (sc, carry) = takeCarry (mx_channels m ! i) in (m\<lparr>mx_channels := (mx_channels m)[i := sc]\<rparr>, carry))"

definition SetIngressBudget :: "Muxer \<Rightarrow> int \<Rightarrow> Muxer" where
  "SetIngressBudget m budget = m\<lparr>mx_ingress := account_setBudget (mx_ingress m) budget\<rparr>"

definition SetIngressBudgetExtension :: "Muxer \<Rightarrow> u16 \<Rightarrow> ProtocolRole \<Rightarrow> int \<Rightarrow> Muxer \<times> bool" where
  "SetIngressBudgetExtension m p role extra =
     (case reg_get (mx_receivers m) p role of
        None \<Rightarrow> (m, False)
      | Some i \<Rightarrow> let (a, sc) = setBudgetExtension (mx_ingress m) (mx_channels m ! i) extra in
          (m\<lparr>mx_ingress := a, mx_channels := (mx_channels m)[i := sc]\<rparr>, True))"

definition SetIngressLimit :: "Muxer \<Rightarrow> u16 \<Rightarrow> ProtocolRole \<Rightarrow> int \<Rightarrow> Muxer \<times> bool" where
  "SetIngressLimit m p role limit =
     (case reg_get (mx_receivers m) p role of
        None \<Rightarrow> (m, False)
      | Some i \<Rightarrow> (m\<lparr>mx_channels := (mx_channels m)[i := (mx_channels m ! i)
            \<lparr>sc_limit := (if limit \<le> 0 then DefaultIngressLimit else limit)\<rparr>]\<rparr>, True))"

definition SetIngressBackpressure :: "Muxer \<Rightarrow> u16 \<Rightarrow> ProtocolRole \<Rightarrow> bool \<Rightarrow> Muxer \<times> bool" where
  "SetIngressBackpressure m p role enabled =
     (case reg_get (mx_receivers m) p role of
        None \<Rightarrow> (m, False)
      | Some i \<Rightarrow> (m\<lparr>mx_channels := (mx_channels m)[i := (mx_channels m ! i)\<lparr>sc_backpressure := enabled\<rparr>]\<rparr>, True))"

definition IngressLimit :: "Muxer \<Rightarrow> u16 \<Rightarrow> ProtocolRole \<Rightarrow> int" where
  "IngressLimit m p role =
     (case reg_get (mx_receivers m) p role of None \<Rightarrow> 0 | Some i \<Rightarrow> sc_limit (mx_channels m ! i))"

definition IngressBackpressure :: "Muxer \<Rightarrow> u16 \<Rightarrow> ProtocolRole \<Rightarrow> bool" where
  "IngressBackpressure m p role =
     (case reg_get (mx_receivers m) p role of None \<Rightarrow> False | Some i \<Rightarrow> sc_backpressure (mx_channels m ! i))"

subsection \<open>The reassembly allowance\<close>

definition RaiseReadBufferBudget :: "Muxer \<Rightarrow> int \<Rightarrow> Muxer" where
  "RaiseReadBufferBudget m n =
     (if n \<le> 0 then m else if mx_readBufferBudget m < n then m\<lparr>mx_readBufferBudget := n\<rparr> else m)"

definition ReserveReadBuffer :: "Muxer \<Rightarrow> int \<Rightarrow> Muxer \<times> bool" where
  "ReserveReadBuffer m n =
     (if n \<le> 0 then (m, True)
      else if mx_readBufferBudget m \<le> 0 then (m, True)
      else if mx_readBufferBudget m < mx_readBufferUsed m + n then (m, False)
      else (m\<lparr>mx_readBufferUsed := mx_readBufferUsed m + n\<rparr>, True))"

definition ReleaseReadBuffer :: "Muxer \<Rightarrow> int \<Rightarrow> Muxer" where
  "ReleaseReadBuffer m n =
     (if n \<le> 0 then m
      else let used = mx_readBufferUsed m - n in m\<lparr>mx_readBufferUsed := (if used < 0 then 0 else used)\<rparr>)"

subsection \<open>The read loop\<close>

datatype mux_error =
    ReadingHeader | ZeroPayload | ReadingPayload | FromInitiator | FromResponder | UnknownProtocol u16
  | IngressOverflow u16 enqueue_outcome

text \<open>A segment off the wire: the header is read big-endian, then the payload in full.\<close>

definition readSegment :: "bytes \<Rightarrow> mux_error + (Segment \<times> bytes)" where
  "readSegment stream =
     (if length stream < 8 then Inl ReadingHeader
      else let ts = word_of_nat (be_nat (take 4 stream)); pid = word_of_nat (be_nat (take 2 (drop 4 stream)));
               len = word_of_nat (be_nat (take 2 (drop 6 stream))) :: u16; rest = drop 8 stream
        in if len = 0 then Inl ZeroPayload
           else if length rest < unat len then Inl ReadingPayload
           else Inr (\<lparr>sg_Timestamp = ts, sg_ProtocolId = pid, sg_PayloadLength = len, sg_Payload = take (unat len) rest\<rparr>,
                     drop (unat len) rest))"

datatype loop_action = Continue | StopWith mux_error | Blocked

text \<open>The role a segment is for.\<close>

definition segmentRole :: "Segment \<Rightarrow> ProtocolRole" where
  "segmentRole msg = (if IsResponse msg then ProtocolRoleInitiator else ProtocolRoleResponder)"

text \<open>The receiver of a segment: \<open>Inl Continue\<close> when a tombstone says to drop it.\<close>

definition lookupReceiver :: "Muxer \<Rightarrow> Segment \<Rightarrow> loop_action + nat" where
  "lookupReceiver m msg =
     (let p = GetProtocolId msg; role = segmentRole msg;
          tombstoned = (reg_get (mx_tombstones m) p role \<noteq> None);
          roles = (case mx_receivers m p of
            Some inner \<Rightarrow> Inr inner
          | None \<Rightarrow> if tombstoned then Inl Continue
                    else (case mx_receivers m ProtocolUnknown of
                            None \<Rightarrow> Inl (StopWith (UnknownProtocol p)) | Some inner \<Rightarrow> Inr inner))
      in rbind roles (\<lambda>inner.
           case inner role of
             Some i \<Rightarrow> Inr i
           | None \<Rightarrow> Inl (if tombstoned then Continue else StopWith (UnknownProtocol p))))"

definition handleSegment :: "Muxer \<Rightarrow> Segment \<Rightarrow> Muxer \<times> loop_action" where
  "handleSegment m msg =
     (if mx_diffusionMode m = DiffusionModeInitiator \<and> \<not> IsResponse msg then (m\<lparr>mx_done := True\<rparr>, StopWith FromInitiator)
      else if mx_diffusionMode m = DiffusionModeResponder \<and> IsResponse msg then (m\<lparr>mx_done := True\<rparr>, StopWith FromResponder)
      else case lookupReceiver m msg of
          Inl Continue \<Rightarrow> (m, Continue)
        | Inl act \<Rightarrow> (m\<lparr>mx_done := True\<rparr>, act)
        | Inr i \<Rightarrow>
            (let (out, a, sc) = channel_enqueue (mx_ingress m) (mx_channels m ! i) msg;
                 m' = m\<lparr>mx_ingress := a, mx_channels := (mx_channels m)[i := sc]\<rparr>
             in case out of
                  Enqueued \<Rightarrow> (m', Continue)
                | ChannelClosed \<Rightarrow> (m', Continue)
                | WaitForRoom \<Rightarrow> (m', Blocked)
                | _ \<Rightarrow> (m'\<lparr>mx_done := True\<rparr>, StopWith (IngressOverflow (GetProtocolId msg) out))))"

text \<open>The loop over the bytes of the connection, with no other goroutine running in between; it
  ends at an error (the end of the stream is one) or where it has to wait.\<close>

function readLoop :: "Muxer \<Rightarrow> bytes \<Rightarrow> Muxer \<times> loop_action" where
  "readLoop m stream =
     (if mx_done m then (m, Continue)
      else case readSegment stream of
          Inl e \<Rightarrow> (m\<lparr>mx_done := True\<rparr>, StopWith e)
        | Inr (msg, rest) \<Rightarrow>
            (case handleSegment m msg of
               (m', Continue) \<Rightarrow> readLoop m' rest
             | (m', act) \<Rightarrow> (m', act)))"
  by pat_completeness auto
termination
  by (relation "measure (\<lambda>(_, stream). length stream)")
    (auto simp: readSegment_def Let_def split: if_splits)

declare readLoop.simps [simp del]

subsection \<open>Segments on the wire\<close>

lemma flag_and: "(x :: u16) AND 0x8000 = 0 \<longleftrightarrow> \<not> 0x8000 \<le> x"
proof -
  have "unat x < 2 ^ 16" using unsigned_less[of x] by simp
  then have "unat x div 2 ^ 15 < 2" by (simp add: less_mult_imp_div_less)
  then have "unat x div 2 ^ 15 = 0 \<or> unat x div 2 ^ 15 = 1" by linarith
  moreover have "unat x div 2 ^ 15 = 0 \<longleftrightarrow> unat x < 2 ^ 15" by (simp add: div_eq_0_iff)
  ultimately have "odd (unat x div 2 ^ 15) \<longleftrightarrow> 2 ^ 15 \<le> unat x" by auto
  moreover have "bit (unat x) 15 \<longleftrightarrow> odd (unat x div 2 ^ 15)" by (rule bit_iff_odd)
  moreover have "bit (unat x) 15 \<longleftrightarrow> bit x 15" by (simp add: bit_unsigned_iff)
  moreover have "x AND 2 ^ 15 = 0 \<longleftrightarrow> \<not> bit x 15" by (rule and_exp_eq_0_iff_not_bit)
  ultimately show ?thesis by (simp add: word_le_nat_alt)
qed

lemma new_segment:
  assumes "NewSegment now pid payload resp = Some s" "pid < 0x8000"
  shows "GetProtocolId s = pid" "IsResponse s \<longleftrightarrow> resp" "IsRequest s \<longleftrightarrow> \<not> resp" "sg_Payload s = payload"
    "unat (sg_PayloadLength s) = length payload"
proof -
  have s: "s = \<lparr>sg_Timestamp = word_of_nat (now mod 2 ^ 32), sg_ProtocolId = (if resp then pid + 0x8000 else pid),
      sg_PayloadLength = word_of_nat (length payload), sg_Payload = payload\<rparr>" "length payload \<le> 65535"
    using assms(1) by (auto simp: NewSegment_def segmentProtocolIdResponseFlag_def Let_def split: if_splits)
  have u: "unat (pid + 0x8000) = unat pid + 0x8000"
    using assms(2) by (simp add: unat_word_ariths word_less_nat_alt)
  then have ge: "0x8000 \<le> pid + 0x8000" by (simp add: word_le_nat_alt)
  have nge: "\<not> 0x8000 \<le> pid" using assms(2) by simp
  show "GetProtocolId s = pid" using ge nge by (auto simp: s GetProtocolId_def segmentProtocolIdResponseFlag_def)
  show "IsResponse s \<longleftrightarrow> resp" "IsRequest s \<longleftrightarrow> \<not> resp"
    using ge nge by (auto simp: s IsResponse_def IsRequest_def segmentProtocolIdResponseFlag_def flag_and word_gt_0)
  show "sg_Payload s = payload" by (simp add: s)
  show "unat (sg_PayloadLength s) = length payload" 
    using s(2) mod_less[of "length payload" 65536] by (simp add: s(1) unat_of_nat take_bit_eq_mod)
qed

lemma readSegment_bytes:
  assumes "unat (sg_PayloadLength s) = length (sg_Payload s)" "sg_Payload s \<noteq> []"
  shows "readSegment (segment_bytes s @ rest) = Inr (s, rest)"
proof -
  let ?h = "be_bytes 4 (unat (sg_Timestamp s)) @ be_bytes 2 (unat (sg_ProtocolId s)) @ be_bytes 2 (unat (sg_PayloadLength s))"
  let ?st = "segment_bytes s @ rest"
  have st: "?st = ?h @ sg_Payload s @ rest" by (simp add: segment_bytes_def)
  have l: "length ?h = 8" by simp
  have w: "unat (sg_Timestamp s) < 256 ^ 4" "unat (sg_ProtocolId s) < 256 ^ 2" "unat (sg_PayloadLength s) < 256 ^ 2"
    using unsigned_less[of "sg_Timestamp s"] unsigned_less[of "sg_ProtocolId s"] unsigned_less[of "sg_PayloadLength s"]
    by simp_all
  have t: "take 4 ?st = be_bytes 4 (unat (sg_Timestamp s))" "take 2 (drop 4 ?st) = be_bytes 2 (unat (sg_ProtocolId s))"
    "take 2 (drop 6 ?st) = be_bytes 2 (unat (sg_PayloadLength s))" "drop 8 ?st = sg_Payload s @ rest" "\<not> length ?st < 8"
    unfolding st by (simp_all del: be_bytes.simps)
  have word_of_nat_unat: "word_of_nat (unat (sg_PayloadLength s)) = sg_PayloadLength s" by simp
  have "sg_PayloadLength s \<noteq> 0" using assms by auto
  moreover have "s = \<lparr>sg_Timestamp = sg_Timestamp s, sg_ProtocolId = sg_ProtocolId s,
      sg_PayloadLength = sg_PayloadLength s, sg_Payload = sg_Payload s\<rparr>" by simp
  ultimately show ?thesis
    using t(5) assms(1) unfolding readSegment_def Let_def t(1-4) be_nat_be_bytes mod_less[OF w(1)] mod_less[OF w(2)] mod_less[OF w(3)]
      word_of_nat_unat by simp
qed

subsection \<open>Interleavings\<close>

text \<open>One critical section of one goroutine: the read loop handles a segment, a forwarder takes a
  segment from its queue or ends after its queue was closed, or a caller uses the interface.\<close>

inductive mux_step :: "Muxer \<Rightarrow> Muxer \<Rightarrow> bool" where
  read: "\<not> mx_done m \<Longrightarrow> handleSegment m msg = (m', act) \<Longrightarrow> mux_step m m'"
| deliver: "i < length (mx_channels m) \<Longrightarrow> forward_dequeue (mx_ingress m) (mx_channels m ! i) = Some (seg, a, sc) \<Longrightarrow>
    mux_step m (m\<lparr>mx_ingress := a, mx_channels := (mx_channels m)[i := sc]\<rparr>)"
| exit: "i < length (mx_channels m) \<Longrightarrow> sc_closed (mx_channels m ! i) \<Longrightarrow>
    forward_exit (mx_ingress m) (mx_channels m ! i) = (a, sc) \<Longrightarrow>
    mux_step m (m\<lparr>mx_ingress := a, mx_channels := (mx_channels m)[i := sc]\<rparr>)"
| register: "RegisterProtocol m p role = (m', r) \<Longrightarrow> mux_step m m'"
| unregister: "mux_step m (UnregisterProtocol m p role)"
| suspend: "SuspendProtocol m p role carry = (m', ok) \<Longrightarrow> mux_step m m'"
| take_carry: "TakeCarriedIngress m p role = (m', carry) \<Longrightarrow> mux_step m m'"
| set_budget: "mux_step m (SetIngressBudget m budget)"
| set_extension: "SetIngressBudgetExtension m p role extra = (m', ok) \<Longrightarrow> mux_step m m'"
| set_limit: "SetIngressLimit m p role limit = (m', ok) \<Longrightarrow> mux_step m m'"
| set_backpressure: "SetIngressBackpressure m p role enabled = (m', ok) \<Longrightarrow> mux_step m m'"
| set_mode: "mux_step m (m\<lparr>mx_diffusionMode := md\<rparr>)"
| stop: "mux_step m (m\<lparr>mx_done := True\<rparr>)"

inductive mux_reachable :: "Muxer \<Rightarrow> bool" where
  init: "mux_reachable newMuxer"
| step: "mux_reachable m \<Longrightarrow> mux_step m m' \<Longrightarrow> mux_reachable m'"

subsection \<open>Accounting\<close>

definition queue_bytes :: "Segment list \<Rightarrow> int" where
  "queue_bytes q = sum_list (map payload_length q)"

definition queue_cost :: "Segment list \<Rightarrow> int" where
  "queue_cost q = sum_list (map segmentRetainedCost q)"

lemma queue_sums [simp]:
  "queue_bytes [] = 0" "queue_bytes (s # q) = payload_length s + queue_bytes q" "queue_bytes (q @ q') = queue_bytes q + queue_bytes q'"
  "queue_cost [] = 0" "queue_cost (s # q) = segmentRetainedCost s + queue_cost q" "queue_cost (q @ q') = queue_cost q + queue_cost q'"
  by (simp_all add: queue_bytes_def queue_cost_def)

lemma queue_nonneg: "0 \<le> queue_bytes q" "0 \<le> queue_cost q"
  by (induction q) (simp_all add: payload_length_def segmentRetainedCost_def segmentRetainedOverhead_def)

definition channel_ok :: "segmentChannel \<Rightarrow> bool" where
  "channel_ok sc \<longleftrightarrow> sc_pendingBytes sc = queue_bytes (sc_queue sc) \<and> sc_pendingCost sc = queue_cost (sc_queue sc) \<and>
     0 \<le> sc_extension sc"

definition total :: "(segmentChannel \<Rightarrow> int) \<Rightarrow> Muxer \<Rightarrow> int" where
  "total f m = sum_list (map f (mx_channels m))"

definition registry_ok :: "nat registry \<Rightarrow> nat \<Rightarrow> bool" where
  "registry_ok r n \<longleftrightarrow> (\<forall>p role i. reg_get r p role = Some i \<longrightarrow> i < n) \<and>
     (\<forall>p role p' role' i. reg_get r p role = Some i \<longrightarrow> reg_get r p' role' = Some i \<longrightarrow> p = p' \<and> role = role')"

definition account_ok :: "ingressAccount \<Rightarrow> int \<Rightarrow> int \<Rightarrow> int \<Rightarrow> bool" where
  "account_ok a cost payload ext \<longleftrightarrow> ia_used a = cost \<and> ia_payload a = payload \<and> ia_extended a = ext \<and>
     ia_limit a = min MaxInt64 (ia_budget a + ext)"

definition mux_inv :: "Muxer \<Rightarrow> bool" where
  "mux_inv m \<longleftrightarrow> list_all channel_ok (mx_channels m) \<and>
     account_ok (mx_ingress m) (total sc_pendingCost m) (total sc_pendingBytes m) (total sc_extension m) \<and>
     registry_ok (mx_receivers m) (length (mx_channels m))"

lemma sum_list_update_int:
  "i < length xs \<Longrightarrow> sum_list (map f (xs[i := y])) = sum_list (map f xs) + f y - (f (xs ! i) :: int)"
  by (induction xs arbitrary: i) (auto split: nat.split)

lemma sum_list_member_le:
  "list_all (\<lambda>x. (0 :: int) \<le> f x) xs \<Longrightarrow> i < length xs \<Longrightarrow> f (xs ! i) \<le> sum_list (map f xs)"
proof (induction xs arbitrary: i)
  case (Cons x xs)
  have "0 \<le> sum_list (map f xs)" using Cons.prems(1) by (intro sum_list_nonneg) (auto simp: list_all_iff)
  then show ?case using Cons by (cases i) force+
qed simp

lemma channel_nonneg:
  assumes "mux_inv m" "i < length (mx_channels m)"
  shows "sc_pendingCost (mx_channels m ! i) \<le> total sc_pendingCost m"
    "sc_pendingBytes (mx_channels m ! i) \<le> total sc_pendingBytes m"
    "sc_extension (mx_channels m ! i) \<le> total sc_extension m"
  unfolding total_def
  by (rule sum_list_member_le[OF _ assms(2)];
      use assms(1) in \<open>auto simp: mux_inv_def channel_ok_def list_all_iff queue_nonneg\<close>)+

lemma mux_inv_update:
  assumes inv: "mux_inv m" and i: "i < length (mx_channels m)" and ok: "channel_ok sc"
    and a: "account_ok a (total sc_pendingCost m + (sc_pendingCost sc - sc_pendingCost (mx_channels m ! i)))
      (total sc_pendingBytes m + (sc_pendingBytes sc - sc_pendingBytes (mx_channels m ! i)))
      (total sc_extension m + (sc_extension sc - sc_extension (mx_channels m ! i)))"
  shows "mux_inv (m\<lparr>mx_ingress := a, mx_channels := (mx_channels m)[i := sc]\<rparr>)"
proof -
  have "list_all channel_ok ((mx_channels m)[i := sc])"
    using inv ok by (auto simp: mux_inv_def list_all_iff dest!: set_update_subset_insert[THEN subsetD])
  moreover have "total f (m\<lparr>mx_ingress := a, mx_channels := (mx_channels m)[i := sc]\<rparr>) =
      total f m + (f sc - f (mx_channels m ! i))" for f
    using i by (simp add: total_def sum_list_update_int)
  ultimately show ?thesis using inv a by (simp add: mux_inv_def)
qed

text \<open>An update that leaves the accounted fields alone.\<close>

lemma mux_inv_same:
  assumes "mux_inv m" "i < length (mx_channels m)"
    "sc_queue sc = sc_queue (mx_channels m ! i)" "sc_pendingCost sc = sc_pendingCost (mx_channels m ! i)"
    "sc_pendingBytes sc = sc_pendingBytes (mx_channels m ! i)" "sc_extension sc = sc_extension (mx_channels m ! i)"
  shows "mux_inv (m\<lparr>mx_channels := (mx_channels m)[i := sc]\<rparr>)"
proof -
  have "channel_ok (mx_channels m ! i)" using assms(1,2) by (simp add: mux_inv_def list_all_length)
  then have "channel_ok sc" using assms by (simp add: channel_ok_def)
  from mux_inv_update[OF assms(1,2) this, of "mx_ingress m"] show ?thesis
    using assms by (simp add: mux_inv_def)
qed

lemma account_extend_ok:
  "account_ok a c p e \<Longrightarrow> 0 \<le> e + d \<Longrightarrow> account_ok (account_extend a d) c p (e + d)"
  by (auto simp: account_ok_def account_extend_def updateLimitLocked_def Let_def)

lemma account_release_ok:
  "account_ok a c p e \<Longrightarrow> x \<le> c \<Longrightarrow> y \<le> p \<Longrightarrow> account_ok (account_release a x y) (c - x) (p - y) e"
  by (simp add: account_ok_def account_release_def)

lemma inv_parts:
  assumes "mux_inv m" "i < length (mx_channels m)"
  shows "channel_ok (mx_channels m ! i)"
    "account_ok (mx_ingress m) (total sc_pendingCost m) (total sc_pendingBytes m) (total sc_extension m)"
  using assms by (simp_all add: mux_inv_def list_all_length)

lemma inv_enqueue:
  assumes "mux_inv m" "i < length (mx_channels m)"
    "channel_enqueue (mx_ingress m) (mx_channels m ! i) msg = (out, a, sc)"
  shows "mux_inv (m\<lparr>mx_ingress := a, mx_channels := (mx_channels m)[i := sc]\<rparr>)"
proof (rule mux_inv_update[OF assms(1,2)])
  note p = inv_parts[OF assms(1,2)]
  show "channel_ok sc" using assms(3) p(1)
    by (auto simp: channel_enqueue_def channel_ok_def Let_def split: if_splits prod.splits)
  show "account_ok a (total sc_pendingCost m + (sc_pendingCost sc - sc_pendingCost (mx_channels m ! i)))
      (total sc_pendingBytes m + (sc_pendingBytes sc - sc_pendingBytes (mx_channels m ! i)))
      (total sc_extension m + (sc_extension sc - sc_extension (mx_channels m ! i)))"
    using assms(3) p(2)
    by (auto simp: channel_enqueue_def account_reserve_def account_ok_def Let_def split: if_splits)
qed

lemma inv_dequeue:
  assumes "mux_inv m" "i < length (mx_channels m)"
    "forward_dequeue (mx_ingress m) (mx_channels m ! i) = Some (seg, a, sc)"
  shows "mux_inv (m\<lparr>mx_ingress := a, mx_channels := (mx_channels m)[i := sc]\<rparr>)"
proof (rule mux_inv_update[OF assms(1,2)])
  note p = inv_parts[OF assms(1,2)]
  obtain q where q: "sc_queue (mx_channels m ! i) = seg # q" "a = account_release (mx_ingress m) (segmentRetainedCost seg) (payload_length seg)"
    "sc = (mx_channels m ! i)\<lparr>sc_pendingBytes := sc_pendingBytes (mx_channels m ! i) - payload_length seg,
       sc_pendingCost := sc_pendingCost (mx_channels m ! i) - segmentRetainedCost seg, sc_queue := q\<rparr>"
    using assms(3) by (auto simp: forward_dequeue_def Let_def split: list.splits)
  show "channel_ok sc" using p(1) q by (simp add: channel_ok_def)
  have "segmentRetainedCost seg \<le> total sc_pendingCost m" "payload_length seg \<le> total sc_pendingBytes m"
    using channel_nonneg(1,2)[OF assms(1,2)] p(1) q(1) queue_nonneg[of q] by (auto simp: channel_ok_def)
  from account_release_ok[OF p(2) this]
  show "account_ok a (total sc_pendingCost m + (sc_pendingCost sc - sc_pendingCost (mx_channels m ! i)))
      (total sc_pendingBytes m + (sc_pendingBytes sc - sc_pendingBytes (mx_channels m ! i)))
      (total sc_extension m + (sc_extension sc - sc_extension (mx_channels m ! i)))"
    by (simp add: q(2,3))
qed

lemma inv_exit:
  assumes "mux_inv m" "i < length (mx_channels m)" "forward_exit (mx_ingress m) (mx_channels m ! i) = (a, sc)"
  shows "mux_inv (m\<lparr>mx_ingress := a, mx_channels := (mx_channels m)[i := sc]\<rparr>)"
proof (rule mux_inv_update[OF assms(1,2)])
  note p = inv_parts[OF assms(1,2)]
  have d: "sc_pendingCost sc = 0" "sc_pendingBytes sc = 0" "sc_extension sc = 0" "sc_queue sc = []"
    "a = account_extend (account_release (mx_ingress m) (sc_pendingCost (mx_channels m ! i)) (sc_pendingBytes (mx_channels m ! i)))
      (- sc_extension (mx_channels m ! i))"
    using assms(3) by (auto simp: forward_exit_def)
  show "channel_ok sc" by (simp add: channel_ok_def d)
  show "account_ok a (total sc_pendingCost m + (sc_pendingCost sc - sc_pendingCost (mx_channels m ! i)))
      (total sc_pendingBytes m + (sc_pendingBytes sc - sc_pendingBytes (mx_channels m ! i)))
      (total sc_extension m + (sc_extension sc - sc_extension (mx_channels m ! i)))"
    unfolding d using account_extend_ok[OF account_release_ok[OF p(2) channel_nonneg(1,2)[OF assms(1,2)]],
      of "- sc_extension (mx_channels m ! i)"] channel_nonneg(3)[OF assms(1,2)] by simp
qed

lemma inv_extension:
  assumes "mux_inv m" "i < length (mx_channels m)"
    "setBudgetExtension (mx_ingress m) (mx_channels m ! i) extra = (a, sc)"
  shows "mux_inv (m\<lparr>mx_ingress := a, mx_channels := (mx_channels m)[i := sc]\<rparr>)"
proof (rule mux_inv_update[OF assms(1,2)])
  note p = inv_parts[OF assms(1,2)]
  show "channel_ok sc" using assms(3) p(1)
    by (auto simp: setBudgetExtension_def channel_ok_def maxBudgetExtension_def MaxInt64_def Let_def split: if_splits)
  then have "0 \<le> sc_extension sc" by (simp add: channel_ok_def)
  then have "account_ok (account_extend (mx_ingress m) (sc_extension sc - sc_extension (mx_channels m ! i)))
      (total sc_pendingCost m) (total sc_pendingBytes m) (total sc_extension m + (sc_extension sc - sc_extension (mx_channels m ! i)))"
    using channel_nonneg(3)[OF assms(1,2)] by (intro account_extend_ok[OF p(2)]) simp
  then show "account_ok a (total sc_pendingCost m + (sc_pendingCost sc - sc_pendingCost (mx_channels m ! i)))
      (total sc_pendingBytes m + (sc_pendingBytes sc - sc_pendingBytes (mx_channels m ! i)))
      (total sc_extension m + (sc_extension sc - sc_extension (mx_channels m ! i)))"
    using assms(3) p(2) by (auto simp: setBudgetExtension_def Let_def split: if_splits)
qed

subsection \<open>The registry\<close>

lemma reg_get_put: "reg_get (reg_put r p role v) p' role' = (if p' = p \<and> role' = role then Some v else reg_get r p' role')"
  by (auto simp: reg_get_def reg_put_def split: option.splits)

lemma reg_get_delete: "reg_get (reg_delete r p role) p' role' = (if p' = p \<and> role' = role then None else reg_get r p' role')"
  by (cases role; cases role') (auto simp: reg_get_def reg_delete_def Let_def split: option.splits)

lemma registry_put_fresh: "registry_ok r n \<Longrightarrow> registry_ok (reg_put r p role n) (Suc n)"
  by (auto simp: registry_ok_def reg_get_put less_Suc_eq split: if_splits)

lemma registry_put_same: "registry_ok r n \<Longrightarrow> reg_get r p role = Some i \<Longrightarrow> registry_ok (reg_put r p role i) n"
  by (auto simp: registry_ok_def reg_get_put split: if_splits)

lemma registry_delete: "registry_ok r n \<Longrightarrow> registry_ok (reg_delete r p role) n"
  unfolding registry_ok_def reg_get_delete by (simp split: if_split)

lemma registered_address: "mux_inv m \<Longrightarrow> reg_get (mx_receivers m) p role = Some i \<Longrightarrow> i < length (mx_channels m)"
  by (simp add: mux_inv_def registry_ok_def)

subsection \<open>Every step keeps the accounts\<close>

lemma inv_fields:
  "mux_inv (m\<lparr>mx_done := d\<rparr>) = mux_inv m" "mux_inv (m\<lparr>mx_diffusionMode := md\<rparr>) = mux_inv m"
  "mux_inv (m\<lparr>mx_senders := s\<rparr>) = mux_inv m" "mux_inv (m\<lparr>mx_tombstones := t\<rparr>) = mux_inv m"
  by (simp_all add: mux_inv_def total_def)

lemma mux_inv_eq:
  assumes "mux_inv m" "mx_channels m' = mx_channels m" "mx_ingress m' = mx_ingress m" "mx_receivers m' = mx_receivers m"
  shows "mux_inv m'"
  using assms by (simp add: mux_inv_def total_def)

lemma inv_receivers: "mux_inv m \<Longrightarrow> registry_ok r (length (mx_channels m)) \<Longrightarrow> mux_inv (m\<lparr>mx_receivers := r\<rparr>)"
  by (simp add: mux_inv_def total_def)

lemma inv_new_channel:
  "mux_inv m \<Longrightarrow> mux_inv (m\<lparr>mx_channels := mx_channels m @ [newSegmentChannel],
     mx_receivers := reg_put (mx_receivers m) p role (length (mx_channels m))\<rparr>)"
  by (auto simp: mux_inv_def total_def channel_ok_def newSegmentChannel_def intro: registry_put_fresh)

lemma register_cases:
  assumes "RegisterProtocol m p role = (m', r)" "\<not> mx_done m"
  obtains
    (fresh) "mx_channels m' = mx_channels m @ [newSegmentChannel]" "mx_ingress m' = mx_ingress m"
      "mx_receivers m' = reg_put (mx_receivers m) p role (length (mx_channels m))"
  | (resumed) i where "reg_get (mx_receivers m) p role = Some i"
      "mx_channels m' = (mx_channels m)[i := (mx_channels m ! i)\<lparr>sc_suspended := False\<rparr>]" "mx_ingress m' = mx_ingress m"
      "mx_receivers m' = reg_put (mx_receivers m) p role i"
  using assms
  by (cases "reg_get (mx_receivers m) p role")
    (auto simp: RegisterProtocol_def channel_resume_def split: if_splits)

lemma inv_register:
  assumes "mux_inv m" "RegisterProtocol m p role = (m', r)"
  shows "mux_inv m'"
proof (cases "mx_done m")
  case True
  then show ?thesis using assms by (simp add: RegisterProtocol_def)
next
  case False
  from assms(2) False show ?thesis
  proof (cases rule: register_cases)
    case fresh
    then show ?thesis by (intro mux_inv_eq[OF inv_new_channel[OF assms(1), of p role]]) simp_all
  next
    case (resumed i)
    let ?m = "m\<lparr>mx_channels := (mx_channels m)[i := (mx_channels m ! i)\<lparr>sc_suspended := False\<rparr>]\<rparr>"
    have a: "mux_inv ?m" by (rule mux_inv_same[OF assms(1) registered_address[OF assms(1) resumed(1)]]) simp_all
    have b: "registry_ok (reg_put (mx_receivers m) p role i) (length (mx_channels ?m))"
      using assms(1) resumed(1) by (simp add: mux_inv_def registry_put_same)
    show ?thesis by (rule mux_inv_eq[OF inv_receivers[OF a b]]) (simp_all add: resumed)
  qed
qed

lemma inv_unregister:
  assumes "mux_inv m"
  shows "mux_inv (UnregisterProtocol m p role)"
proof (cases "reg_get (mx_receivers m) p role")
  case None
  then show ?thesis by (intro mux_inv_eq[OF assms]) (simp_all add: UnregisterProtocol_def Let_def)
next
  case (Some i)
  let ?m = "m\<lparr>mx_channels := (mx_channels m)[i := channel_stop (mx_channels m ! i)]\<rparr>"
  have a: "mux_inv ?m" by (rule mux_inv_same[OF assms registered_address[OF assms Some]]) (simp_all add: channel_stop_def)
  have b: "registry_ok (reg_delete (mx_receivers m) p role) (length (mx_channels ?m))"
    using assms by (simp add: mux_inv_def registry_delete)
  show ?thesis by (rule mux_inv_eq[OF inv_receivers[OF a b]]) (simp_all add: UnregisterProtocol_def Let_def Some)
qed

lemma lookup_registered:
  assumes "lookupReceiver m msg = Inr i"
  shows "\<exists>p role. reg_get (mx_receivers m) p role = Some i"
proof -
  obtain p inner where r: "mx_receivers m p = Some inner" "inner (segmentRole msg) = Some i"
    using assms by (auto simp: lookupReceiver_def Let_def split: option.splits if_splits)
  then have "reg_get (mx_receivers m) p (segmentRole msg) = Some i" by (simp add: reg_get_def)
  then show ?thesis by blast
qed

lemma inv_handle:
  assumes "mux_inv m" "handleSegment m msg = (m', act)"
  shows "mux_inv m'"
proof (cases "lookupReceiver m msg")
  case (Inl b)
  then show ?thesis using assms by (cases b) (auto simp: handleSegment_def inv_fields split: if_splits)
next
  case (Inr i)
  obtain out a sc where e: "channel_enqueue (mx_ingress m) (mx_channels m ! i) msg = (out, a, sc)"
    by (cases "channel_enqueue (mx_ingress m) (mx_channels m ! i) msg") auto
  have "i < length (mx_channels m)" using lookup_registered[OF Inr] registered_address[OF assms(1)] by blast
  from inv_enqueue[OF assms(1) this e] show ?thesis
    using assms Inr e by (cases out) (auto simp: handleSegment_def inv_fields Let_def split: if_splits)
qed

lemma inv_step:
  assumes "mux_step m m'" "mux_inv m"
  shows "mux_inv m'"
  using assms
proof (cases rule: mux_step.cases)
  case (suspend p role carry ok)
  then show ?thesis using assms(2) registered_address[OF assms(2)]
    by (auto simp: SuspendProtocol_def inv_fields channel_suspend_def intro!: mux_inv_same split: option.splits)
next
  case (take_carry p role carry)
  then show ?thesis using assms(2) registered_address[OF assms(2)]
    by (auto simp: TakeCarriedIngress_def takeCarry_def intro!: mux_inv_same split: option.splits)
next
  case (set_budget budget)
  then show ?thesis using assms(2)
    by (auto simp: SetIngressBudget_def mux_inv_def account_setBudget_def account_ok_def updateLimitLocked_def total_def Let_def)
next
  case (set_extension p role extra ok)
  then show ?thesis using assms(2) registered_address[OF assms(2)] inv_extension[OF assms(2)]
    by (auto simp: SetIngressBudgetExtension_def split: option.splits prod.splits)
next
  case (set_limit p role limit ok)
  then show ?thesis using assms(2) registered_address[OF assms(2)]
    by (auto simp: SetIngressLimit_def intro!: mux_inv_same split: option.splits)
next
  case (set_backpressure p role enabled ok)
  then show ?thesis using assms(2) registered_address[OF assms(2)]
    by (auto simp: SetIngressBackpressure_def intro!: mux_inv_same split: option.splits)
qed (use assms(2) in \<open>auto simp: inv_fields intro: inv_handle inv_dequeue inv_exit inv_register inv_unregister\<close>)

lemma inv_reachable: "mux_reachable m \<Longrightarrow> mux_inv m"
proof (induction rule: mux_reachable.induct)
  case init
  show ?case
    by (simp add: mux_inv_def newMuxer_def newIngressAccount_def account_ok_def total_def registry_ok_def reg_get_def
        DefaultIngressBudget_def MaxInt64_def)
qed (blast intro: inv_step)

subsection \<open>Demultiplexing\<close>

text \<open>The messages of a peer: a clock reading, a protocol, a payload and the direction.\<close>

type_synonym peer_message = "nat \<times> u16 \<times> bytes \<times> bool"

definition sent_bytes :: "peer_message \<Rightarrow> bytes" where
  "sent_bytes msg = (case msg of (now, pid, payload, resp) \<Rightarrow>
     (case NewSegment now pid payload resp of None \<Rightarrow> [] | Some s \<Rightarrow> segment_bytes s))"

definition message_role :: "peer_message \<Rightarrow> ProtocolRole" where
  "message_role msg = (case msg of (_, _, _, resp) \<Rightarrow> if resp then ProtocolRoleInitiator else ProtocolRoleResponder)"

definition message_pid :: "peer_message \<Rightarrow> u16" where
  "message_pid msg = (case msg of (_, pid, _, _) \<Rightarrow> pid)"

definition message_payload :: "peer_message \<Rightarrow> bytes" where
  "message_payload msg = (case msg of (_, _, payload, _) \<Rightarrow> payload)"

text \<open>The payloads for one protocol role, in the order they were sent.\<close>

definition payloads_for :: "u16 \<Rightarrow> ProtocolRole \<Rightarrow> peer_message list \<Rightarrow> bytes list" where
  "payloads_for p role msgs = map message_payload (filter (\<lambda>m. message_pid m = p \<and> message_role m = role) msgs)"

definition payload_sum :: "bytes list \<Rightarrow> int" where
  "payload_sum ps = sum_list (map (\<lambda>b. int (length b)) ps)"

definition legal_message :: "peer_message \<Rightarrow> bool" where
  "legal_message msg \<longleftrightarrow> message_pid msg < 0x8000 \<and> message_payload msg \<noteq> [] \<and> length (message_payload msg) \<le> 65535"

text \<open>A muxer that can take the messages without waiting: it runs in both directions, every
  protocol role addressed is registered and open, and the limits leave room.\<close>

definition ready_for :: "Muxer \<Rightarrow> peer_message list \<Rightarrow> bool" where
  "ready_for m msgs \<longleftrightarrow> \<not> mx_done m \<and> mx_diffusionMode m = DiffusionModeInitiatorAndResponder \<and>
     list_all legal_message msgs \<and>
     list_all (\<lambda>msg. reg_get (mx_receivers m) (message_pid msg) (message_role msg) \<noteq> None) msgs \<and>
     (\<forall>p role i. reg_get (mx_receivers m) p role = Some i \<longrightarrow>
        \<not> sc_closed (mx_channels m ! i) \<and>
        sc_pendingBytes (mx_channels m ! i) + payload_sum (payloads_for p role msgs) \<le> sc_limit (mx_channels m ! i)) \<and>
     ia_used (mx_ingress m) + payload_sum (map message_payload msgs) + 48 * int (length msgs) \<le> ia_limit (mx_ingress m)"

lemma payload_sum_simps [simp]:
  "payload_sum [] = 0" "payload_sum (b # bs) = int (length b) + payload_sum bs"
  by (simp_all add: payload_sum_def)

lemma payload_sum_nonneg: "0 \<le> payload_sum ps"
  by (induction ps) simp_all

lemma payloads_for_simps [simp]:
  "payloads_for p role [] = []"
  "payloads_for p role (msg # msgs) =
     (if message_pid msg = p \<and> message_role msg = role then [message_payload msg] else []) @ payloads_for p role msgs"
  by (simp_all add: payloads_for_def)

text \<open>The segment of a message, and its way to the queue of its role.\<close>

lemma message_segment:
  assumes "legal_message msg"
  obtains s where "sent_bytes msg = segment_bytes s" "readSegment (segment_bytes s @ rest) = Inr (s, rest)"
    "GetProtocolId s = message_pid msg" "segmentRole s = message_role msg" "sg_Payload s = message_payload msg"
proof -
  obtain now pid payload resp where msg: "msg = (now, pid, payload, resp)" by (cases msg)
  have l: "pid < 0x8000" "payload \<noteq> []" "length payload \<le> 65535"
    using assms by (simp_all add: legal_message_def msg message_pid_def message_payload_def)
  obtain s where s: "NewSegment now pid payload resp = Some s"
    using l(3) by (simp add: NewSegment_def SegmentMaxPayloadLength_def Let_def)
  note n = new_segment[OF s l(1)]
  show ?thesis
  proof (rule that[of s])
    show "readSegment (segment_bytes s @ rest) = Inr (s, rest)" using n l(2) by (intro readSegment_bytes) simp_all
  qed (use n s in \<open>simp_all add: sent_bytes_def msg message_pid_def message_role_def message_payload_def segmentRole_def\<close>)
qed

lemma enqueue_fits:
  assumes "\<not> sc_closed sc" "sc_pendingBytes sc + payload_length s \<le> sc_limit sc" "ia_used a + segmentRetainedCost s \<le> ia_limit a"
  shows "channel_enqueue a sc s =
    (Enqueued, a\<lparr>ia_used := ia_used a + segmentRetainedCost s, ia_payload := ia_payload a + payload_length s\<rparr>,
     sc\<lparr>sc_queue := sc_queue sc @ [s], sc_pendingBytes := sc_pendingBytes sc + payload_length s,
        sc_pendingCost := sc_pendingCost sc + segmentRetainedCost s\<rparr>)"
  using assms by (simp add: channel_enqueue_def account_reserve_def Let_def)

lemma handle_ready:
  assumes inv: "mux_inv m" and ready: "ready_for m (msg # msgs)"
    and s: "GetProtocolId s = message_pid msg" "segmentRole s = message_role msg" "sg_Payload s = message_payload msg"
  obtains m' i where "handleSegment m s = (m', Continue)" "mux_inv m'" "ready_for m' msgs"
    "mx_receivers m' = mx_receivers m" "reg_get (mx_receivers m) (message_pid msg) (message_role msg) = Some i"
    "\<And>j. j < length (mx_channels m) \<Longrightarrow>
       sc_queue (mx_channels m' ! j) = sc_queue (mx_channels m ! j) @ (if j = i then [s] else [])"
proof -
  obtain i where i: "reg_get (mx_receivers m) (message_pid msg) (message_role msg) = Some i"
    using ready by (auto simp: ready_for_def)
  note lt = registered_address[OF inv i]
  let ?sc = "mx_channels m ! i" and ?a = "mx_ingress m"
  have pl: "payload_length s = int (length (message_payload msg))" "segmentRetainedCost s = payload_length s + 48"
    by (simp_all add: payload_length_def s(3) segmentRetainedCost_def segmentRetainedOverhead_def)
  have fits: "\<not> sc_closed ?sc" "sc_pendingBytes ?sc + payload_length s \<le> sc_limit ?sc" "ia_used ?a + segmentRetainedCost s \<le> ia_limit ?a"
  proof -
    show "\<not> sc_closed ?sc" using ready i by (auto simp: ready_for_def)
    have "sc_pendingBytes ?sc + payload_sum (payloads_for (message_pid msg) (message_role msg) (msg # msgs)) \<le> sc_limit ?sc"
      using ready i unfolding ready_for_def by blast
    then show "sc_pendingBytes ?sc + payload_length s \<le> sc_limit ?sc"
      using payload_sum_nonneg[of "payloads_for (message_pid msg) (message_role msg) msgs"] pl by simp
    show "ia_used ?a + segmentRetainedCost s \<le> ia_limit ?a"
      using ready payload_sum_nonneg[of "map message_payload msgs"] pl by (simp add: ready_for_def)
  qed
  define a' where "a' = ?a\<lparr>ia_used := ia_used ?a + segmentRetainedCost s, ia_payload := ia_payload ?a + payload_length s\<rparr>"
  define sc' where "sc' = ?sc\<lparr>sc_queue := sc_queue ?sc @ [s], sc_pendingBytes := sc_pendingBytes ?sc + payload_length s,
        sc_pendingCost := sc_pendingCost ?sc + segmentRetainedCost s\<rparr>"
  define m' where "m' = m\<lparr>mx_ingress := a', mx_channels := (mx_channels m)[i := sc']\<rparr>"
  have e: "channel_enqueue ?a ?sc s = (Enqueued, a', sc')" using enqueue_fits[OF fits] by (simp add: a'_def sc'_def)
  have "lookupReceiver m s = Inr i"
    using i by (auto simp: lookupReceiver_def s Let_def reg_get_def split: option.splits)
  then have h: "handleSegment m s = (m', Continue)"
    using ready e by (simp add: handleSegment_def m'_def ready_for_def)
  have others: "reg_get (mx_receivers m) p role = Some j \<Longrightarrow>
      mx_channels m' ! j = (if p = message_pid msg \<and> role = message_role msg then sc' else mx_channels m ! j)" for p role j
    using inv i registered_address[OF inv, of p role j] by (auto simp: m'_def mux_inv_def registry_ok_def nth_list_update)
  have "ready_for m' msgs"
    unfolding ready_for_def
  proof (intro conjI allI impI)
    fix p role j
    assume j: "reg_get (mx_receivers m') p role = Some j"
    then have j': "reg_get (mx_receivers m) p role = Some j" by (simp add: m'_def)
    have "\<not> sc_closed (mx_channels m ! j)"
      "sc_pendingBytes (mx_channels m ! j) + payload_sum (payloads_for p role (msg # msgs)) \<le> sc_limit (mx_channels m ! j)"
      using ready j' unfolding ready_for_def by blast+
    moreover have "p = message_pid msg \<Longrightarrow> role = message_role msg \<Longrightarrow> j = i" using j' i by simp
    ultimately show "\<not> sc_closed (mx_channels m' ! j)"
      "sc_pendingBytes (mx_channels m' ! j) + payload_sum (payloads_for p role msgs) \<le> sc_limit (mx_channels m' ! j)"
      unfolding others[OF j'] by (auto simp: sc'_def pl split: if_splits)
  qed (use ready in \<open>auto simp: ready_for_def m'_def a'_def pl\<close>)
  moreover have "mux_inv m'" using inv_handle[OF inv h] .
  moreover have "sc_queue (mx_channels m' ! j) = sc_queue (mx_channels m ! j) @ (if j = i then [s] else [])"
    if "j < length (mx_channels m)" for j
    using that by (simp add: m'_def sc'_def)
  ultimately show ?thesis using that[of m' i] h i by (simp add: m'_def)
qed

lemma readLoop_end: "\<not> mx_done m \<Longrightarrow> readLoop m [] = (m\<lparr>mx_done := True\<rparr>, StopWith ReadingHeader)"
  by (subst readLoop.simps) (simp add: readSegment_def)

lemma readLoop_messages:
  assumes "mux_inv m" "ready_for m msgs"
  shows "\<exists>m'. readLoop m (concat (map sent_bytes msgs)) = (m', StopWith ReadingHeader) \<and>
    (\<forall>p role i. reg_get (mx_receivers m) p role = Some i \<longrightarrow>
       map sg_Payload (sc_queue (mx_channels m' ! i)) =
       map sg_Payload (sc_queue (mx_channels m ! i)) @ payloads_for p role msgs)"
  using assms
proof (induction msgs arbitrary: m)
  case Nil
  then show ?case by (simp add: ready_for_def readLoop_end)
next
  case (Cons msg msgs)
  have legal: "legal_message msg" "\<not> mx_done m" using Cons.prems(2) by (simp_all add: ready_for_def)
  obtain s where s: "sent_bytes msg = segment_bytes s"
    "readSegment (segment_bytes s @ concat (map sent_bytes msgs)) = Inr (s, concat (map sent_bytes msgs))"
    "GetProtocolId s = message_pid msg" "segmentRole s = message_role msg" "sg_Payload s = message_payload msg"
    using message_segment[OF legal(1)] by blast
  obtain m1 i where h: "handleSegment m s = (m1, Continue)" "mux_inv m1" "ready_for m1 msgs" "mx_receivers m1 = mx_receivers m"
    "reg_get (mx_receivers m) (message_pid msg) (message_role msg) = Some i"
    "\<And>j. j < length (mx_channels m) \<Longrightarrow>
       sc_queue (mx_channels m1 ! j) = sc_queue (mx_channels m ! j) @ (if j = i then [s] else [])"
    using handle_ready[OF Cons.prems s(3-5)] by blast
  obtain m' where m': "readLoop m1 (concat (map sent_bytes msgs)) = (m', StopWith ReadingHeader)"
    "\<forall>p role i. reg_get (mx_receivers m) p role = Some i \<longrightarrow>
       map sg_Payload (sc_queue (mx_channels m' ! i)) =
       map sg_Payload (sc_queue (mx_channels m1 ! i)) @ payloads_for p role msgs"
    using Cons.IH[OF h(2,3)] h(4) by auto
  have "readLoop m (concat (map sent_bytes (msg # msgs))) = (m', StopWith ReadingHeader)"
    using s(1,2) h(1) m'(1) legal(2) by (subst readLoop.simps) simp
  moreover have "map sg_Payload (sc_queue (mx_channels m' ! j)) =
      map sg_Payload (sc_queue (mx_channels m ! j)) @ payloads_for p role (msg # msgs)"
    if j: "reg_get (mx_receivers m) p role = Some j" for p role j
  proof -
    have "j = i \<longleftrightarrow> message_pid msg = p \<and> message_role msg = role"
      using Cons.prems(1) h(5) j by (auto simp: mux_inv_def registry_ok_def)
    then show ?thesis using m'(2) j h(6)[OF registered_address[OF Cons.prems(1) j]] s(5) by auto
  qed
  ultimately show ?case by blast
qed

subsection \<open>Properties\<close>

text \<open>C7: Multiplexing is transparent while the receiving side has room: take a running muxer that serves
  both directions (initiator and responder) and any sequence of messages with a protocol number
  below 0x8000 and a payload of 1 to 65535 bytes, such that every protocol role they address is registered,
  no registered queue is closed, each queue's limit holds what it has pending plus the payloads addressed to
  it, and the connection budget holds what is in use plus every payload and its overhead.  When a peer
  sends the sequence, each message wrapped by \<open>NewSegment\<close> and written by \<open>Send\<close>, the read loop delivers
  to the queue of every registered protocol role exactly the payloads addressed to it, in order, and
  ends only at the end of the stream.\<close>

theorem mux_demux_roundtrip:
  assumes "mux_reachable m" and "ready_for m msgs"
  shows "\<exists>m'. readLoop m (concat (map sent_bytes msgs)) = (m', StopWith ReadingHeader) \<and>
    (\<forall>p role i. reg_get (mx_receivers m) p role = Some i \<longrightarrow>
       map sg_Payload (sc_queue (mx_channels m' ! i)) =
       map sg_Payload (sc_queue (mx_channels m ! i)) @ payloads_for p role msgs)"
  by (rule readLoop_messages[OF inv_reachable[OF assms(1)] assms(2)])

text \<open>C21: The ingress account is exact under every interleaving of the read loop, the forwarders and
  the interface: the retained cost and the payload charged to the connection are those of the
  segments in its queues, registered or not, and the limit is the budget with the extensions of all
  queues, saturated; so the clamps at zero never hide a lost byte.\<close>

theorem ingress_account_exact:
  assumes "mux_reachable m"
  shows "ia_used (mx_ingress m) = (\<Sum>sc\<leftarrow>mx_channels m. queue_cost (sc_queue sc)) \<and>
    ia_payload (mx_ingress m) = (\<Sum>sc\<leftarrow>mx_channels m. queue_bytes (sc_queue sc)) \<and>
    ia_limit (mx_ingress m) = min MaxInt64 (ia_budget (mx_ingress m) + (\<Sum>sc\<leftarrow>mx_channels m. sc_extension sc))"
proof -
  have inv: "mux_inv m" by (rule inv_reachable[OF assms])
  have eq: "map sc_pendingCost (mx_channels m) = map (\<lambda>sc. queue_cost (sc_queue sc)) (mx_channels m)"
    "map sc_pendingBytes (mx_channels m) = map (\<lambda>sc. queue_bytes (sc_queue sc)) (mx_channels m)"
    using inv by (auto simp: mux_inv_def list_all_iff channel_ok_def)
  show ?thesis using inv unfolding mux_inv_def account_ok_def total_def eq by blast
qed

text \<open>A connection with one protocol, for the witnesses.\<close>

definition example_muxer :: Muxer where
  "example_muxer = (fst (RegisterProtocol newMuxer 2 ProtocolRoleResponder))\<lparr>mx_diffusionMode := DiffusionModeInitiatorAndResponder\<rparr>"

definition example_messages :: "peer_message list" where
  "example_messages = [(5, 2, [1, 2, 3], False), (6, 2, [4], False)]"

lemma example_muxer_reachable: "mux_reachable example_muxer"
proof -
  have "mux_reachable (fst (RegisterProtocol newMuxer 2 ProtocolRoleResponder))"
    by (rule mux_reachable.step[OF mux_reachable.init mux_step.register[OF surjective_pairing]])
  from mux_reachable.step[OF this mux_step.set_mode] show ?thesis unfolding example_muxer_def .
qed

lemma reg_get_empty [simp]: "reg_get (\<lambda>_. None) p role = None"
  by (simp add: reg_get_def)

lemma example_muxer_receivers:
  "reg_get (mx_receivers example_muxer) p role = (if p = 2 \<and> role = ProtocolRoleResponder then Some 0 else None)"
  by (simp add: example_muxer_def RegisterProtocol_def newMuxer_def reg_get_put)

lemma example_muxer_fields:
  "mx_channels example_muxer = [newSegmentChannel]" "mx_done example_muxer = False"
  "mx_diffusionMode example_muxer = DiffusionModeInitiatorAndResponder" "mx_ingress example_muxer = newIngressAccount"
  by (simp_all add: example_muxer_def RegisterProtocol_def newMuxer_def reg_get_def)

lemma example_ready: "ready_for example_muxer example_messages"
  by (simp add: ready_for_def example_muxer_receivers example_muxer_fields example_messages_def legal_message_def message_pid_def
      message_payload_def message_role_def payloads_for_def newSegmentChannel_def newIngressAccount_def
      DefaultIngressLimit_def DefaultIngressBudget_def)

theorem mux_demux_roundtrip_witness:
  "mux_reachable example_muxer \<and> (\<exists>m'. readLoop example_muxer (concat (map sent_bytes example_messages)) = (m', StopWith ReadingHeader) \<and>
     map sg_Payload (sc_queue (mx_channels m' ! 0)) = [[1, 2, 3], [4]])"
proof -
  obtain m' where m': "readLoop example_muxer (concat (map sent_bytes example_messages)) = (m', StopWith ReadingHeader)"
    "\<forall>p role i. reg_get (mx_receivers example_muxer) p role = Some i \<longrightarrow>
       map sg_Payload (sc_queue (mx_channels m' ! i)) =
       map sg_Payload (sc_queue (mx_channels example_muxer ! i)) @ payloads_for p role example_messages"
    using mux_demux_roundtrip[OF example_muxer_reachable example_ready] by blast
  have "map sg_Payload (sc_queue (mx_channels m' ! 0)) = payloads_for 2 ProtocolRoleResponder example_messages"
    using m'(2)[rule_format, of 2 ProtocolRoleResponder 0]
    by (simp add: example_muxer_receivers example_muxer_fields newSegmentChannel_def)
  then show ?thesis using m'(1) example_muxer_reachable
    by (simp add: example_messages_def payloads_for_def message_pid_def message_role_def message_payload_def)
qed

theorem ingress_account_exact_witness:
  "mux_reachable example_muxer \<and> ia_used (mx_ingress example_muxer) = 0"
  using example_muxer_reachable ingress_account_exact[OF example_muxer_reachable]
  by (simp add: example_muxer_fields newSegmentChannel_def)

end
