(* ===== verification/Protocol.thy ===== *)
theory Protocol
  imports Prelude "HOL-Library.Sublist"
begin

text \<open>
  The mini-protocol engine (\<open>protocol/state.go\<close> and the state machine of \<open>protocol/protocol.go\<close>):
  state maps, the transition of a message, agency and pipelining.  A match function may change the
  context of its protocol, so a transition returns the context too.  Two endpoints that run the
  same state map over two ordered streams form a session; its steps are the ordinary send, the
  pipelined send with its deferred transition, the flush of a deferred transition and the receipt of
  a message.  The read loop admits a message before it is handled (\<open>reserveInboundAdmission\<close>): the
  function is defined here over the engine's counters, and the locale \<open>pipelining\<close> shows for which
  state maps it denies none of a peer's messages.  A step of a session that receives a message is its
  admission and its handling in one; a change of state between the start of a message and its admission
  is not a step.  Timers and byte limits end a connection and are not steps of a session.
\<close>

subsection \<open>State maps\<close>

datatype ProtocolStateAgency = AgencyNone | AgencyClient | AgencyServer

record State =
  st_Id :: nat
  st_Name :: string

definition NewState :: "nat \<Rightarrow> string \<Rightarrow> State" where
  "NewState i name = \<lparr>st_Id = i, st_Name = name\<rparr>"

text \<open>What the match functions read of a message: the blocking flag of a request, its counts, the
  identifiers it carries, and for each object it carries the identifier \<open>VoteID()\<close> computes or None
  where that fails.  Identifiers are opaque.\<close>

record message =
  msg_Type :: nat
  msg_Blocking :: bool
  msg_Count :: nat
  msg_AckCount :: nat
  msg_ObjectIDs :: "nat list"
  msg_Objects :: "nat option list"

record 'c StateTransition =
  tr_MsgType :: nat
  tr_NewState :: State
  tr_MatchFunc :: "('c \<Rightarrow> message \<Rightarrow> bool \<times> 'c) option"

record 'c StateMapEntry =
  en_Agency :: ProtocolStateAgency
  en_Transitions :: "'c StateTransition list"
  en_PendingMessageByteLimit :: int
  en_PendingReceiveByteBudget :: int
  en_AllowPipelinedSend :: bool
  en_PipelinedMessageTypes :: "nat list"

type_synonym 'c StateMap = "(State \<times> 'c StateMapEntry) list"

text \<open>A missing state reads as the zero entry.\<close>

definition lookupEntry :: "'c StateMap \<Rightarrow> State \<Rightarrow> 'c StateMapEntry" where
  "lookupEntry sm s = (case map_of sm s of
     Some e \<Rightarrow> e
   | None \<Rightarrow> \<lparr>en_Agency = AgencyNone, en_Transitions = [], en_PendingMessageByteLimit = 0,
       en_PendingReceiveByteBudget = 0, en_AllowPipelinedSend = False, en_PipelinedMessageTypes = []\<rparr>)"

datatype proto_error = MessageNotAllowed nat State

fun matchTransition :: "'c StateTransition list \<Rightarrow> 'c \<Rightarrow> message \<Rightarrow> State option \<times> 'c" where
  "matchTransition [] ctx msg = (None, ctx)"
| "matchTransition (t # ts) ctx msg =
     (if tr_MsgType t = msg_Type msg then
        (case tr_MatchFunc t of
           None \<Rightarrow> (Some (tr_NewState t), ctx)
         | Some match \<Rightarrow> (let (ok, ctx') = match ctx msg in
             if \<not> ok then matchTransition ts ctx' msg else (Some (tr_NewState t), ctx')))
      else matchTransition ts ctx msg)"

definition nextState :: "'c StateMap \<Rightarrow> 'c \<Rightarrow> State \<Rightarrow> message \<Rightarrow> (proto_error + State) \<times> 'c" where
  "nextState sm ctx currentState msg =
     (case matchTransition (en_Transitions (lookupEntry sm currentState)) ctx msg of
        (Some s, ctx') \<Rightarrow> (Inr s, ctx')
      | (None, ctx') \<Rightarrow> (Inl (MessageNotAllowed (msg_Type msg) currentState), ctx'))"

subsection \<open>Agency\<close>

datatype ProtoRole = ProtocolRoleNone | ProtocolRoleClient | ProtocolRoleServer

datatype agencyHolder = agencyNeither | agencyLocal | agencyPeer

definition agencyHolderFor :: "ProtoRole \<Rightarrow> 'c StateMapEntry \<Rightarrow> agencyHolder" where
  "agencyHolderFor role entry =
     (case role of
        ProtocolRoleNone \<Rightarrow> agencyNeither
      | _ \<Rightarrow> (let local = (if role = ProtocolRoleClient then AgencyClient else AgencyServer) in
          case en_Agency entry of
            AgencyNone \<Rightarrow> agencyNeither
          | a \<Rightarrow> if a = local then agencyLocal else agencyPeer))"

definition roleMayPipeline :: "ProtoRole \<Rightarrow> 'c StateMapEntry \<Rightarrow> bool" where
  "roleMayPipeline role entry \<longleftrightarrow> en_AllowPipelinedSend entry \<and> agencyHolderFor role entry = agencyPeer"

definition roleHasAgency :: "ProtoRole \<Rightarrow> 'c StateMapEntry \<Rightarrow> bool" where
  "roleHasAgency role entry \<longleftrightarrow> agencyHolderFor role entry = agencyLocal"

definition messageHasAgencyTransition :: "'c StateMap \<Rightarrow> ProtoRole \<Rightarrow> message \<Rightarrow> bool" where
  "messageHasAgencyTransition sm role msg \<longleftrightarrow>
     (\<exists>(s, entry) \<in> set sm. roleHasAgency role entry \<and> (\<exists>t \<in> set (en_Transitions entry). tr_MsgType t = msg_Type msg))"

definition pipelinedMessageFits :: "'c StateMapEntry \<Rightarrow> message \<Rightarrow> bool" where
  "pipelinedMessageFits entry msg \<longleftrightarrow> msg_Type msg \<in> set (en_PipelinedMessageTypes entry)"

definition stateHasNoAgency :: "'c StateMap \<Rightarrow> State \<Rightarrow> bool" where
  "stateHasNoAgency sm s \<longleftrightarrow> (case map_of sm s of None \<Rightarrow> False | Some entry \<Rightarrow> en_Agency entry = AgencyNone)"

definition messageEndsProtocol :: "'c StateMap \<Rightarrow> State \<Rightarrow> nat \<Rightarrow> bool" where
  "messageEndsProtocol sm s msgType =
     (let ts = filter (\<lambda>t. tr_MsgType t = msgType) (en_Transitions (lookupEntry sm s)) in
      ts \<noteq> [] \<and> (\<forall>t \<in> set ts. stateHasNoAgency sm (tr_NewState t)))"

definition pendingMessageByteLimit :: "'c StateMap \<Rightarrow> State \<Rightarrow> int" where
  "pendingMessageByteLimit sm s = (case map_of sm s of None \<Rightarrow> 0 | Some entry \<Rightarrow> en_PendingMessageByteLimit entry)"

definition pendingReceiveBudget :: "'c StateMap \<Rightarrow> State \<Rightarrow> int" where
  "pendingReceiveBudget sm s =
     (case map_of sm s of
        None \<Rightarrow> 0
      | Some entry \<Rightarrow> if 0 < en_PendingReceiveByteBudget entry then en_PendingReceiveByteBudget entry
          else en_PendingMessageByteLimit entry)"

definition hasPendingReceiveBudget :: "'c StateMap \<Rightarrow> bool" where
  "hasPendingReceiveBudget sm \<longleftrightarrow> (\<exists>(s, entry) \<in> set sm. 0 < en_PendingReceiveByteBudget entry)"

definition IsInTerminalOrIdleState :: "'c StateMap \<Rightarrow> State \<Rightarrow> bool \<Rightarrow> State \<Rightarrow> bool" where
  "IsInTerminalOrIdleState sm initialState doneClosed currentState =
     (if doneClosed then True
      else if stateHasNoAgency sm currentState then True
      else currentState = initialState)"

subsection \<open>Inbound admission\<close>

text \<open>The fields of \<open>Protocol\<close> that decide whether the read loop admits a message.  Generations count
  the transitions of the endpoint; \<open>eng_pipelinedTypeGenerations\<close> is the last generation of a state of
  its own that declared a type.\<close>

record engine =
  eng_currentState :: State
  eng_currentStateGeneration :: nat
  eng_peerAgencyReserved :: bool
  eng_pipelinedTypeGenerations :: "nat \<Rightarrow> nat option"
  eng_pendingPipelinedRequests :: nat
  eng_pendingPipelinedReplies :: nat

datatype inboundAdmissionResult = inboundAdmissionDenied | inboundAdmissionGranted | inboundAdmissionWait

definition reservePipelinedReply :: "engine \<Rightarrow> bool \<times> engine" where
  "reservePipelinedReply p =
     (if eng_pendingPipelinedRequests p \<le> eng_pendingPipelinedReplies p then (False, p)
      else (True, p\<lparr>eng_pendingPipelinedReplies := eng_pendingPipelinedReplies p + 1\<rparr>))"

definition reserveInboundAdmission ::
  "'c StateMap \<Rightarrow> ProtoRole \<Rightarrow> nat \<Rightarrow> State \<Rightarrow> nat \<Rightarrow> bool \<Rightarrow> engine \<Rightarrow> (State \<times> bool \<times> inboundAdmissionResult) \<times> engine" where
  "reserveInboundAdmission sm role messageType initialState initialGeneration hadUnreserved p =
     (let state = eng_currentState p; generation = eng_currentStateGeneration p in
      case map_of sm state of
        None \<Rightarrow> ((state, False, inboundAdmissionDenied), p)
      | Some entry \<Rightarrow>
        (case agencyHolderFor role entry of
           agencyPeer \<Rightarrow>
             (let continuesPeerAgency = (case map_of sm initialState of
                    None \<Rightarrow> False
                  | Some initialEntry \<Rightarrow> generation = initialGeneration + 1 \<and> agencyHolderFor role initialEntry = agencyPeer);
                pipelinedAcrossRoundTrip = (case eng_pipelinedTypeGenerations p messageType of
                    None \<Rightarrow> False
                  | Some typeGeneration \<Rightarrow> initialGeneration \<le> typeGeneration) in
              if generation \<noteq> initialGeneration \<and> \<not> continuesPeerAgency \<and> \<not> pipelinedAcrossRoundTrip \<and> \<not> hadUnreserved
              then ((state, False, inboundAdmissionDenied), p)
              else if \<not> eng_peerAgencyReserved p
              then ((state, False, inboundAdmissionGranted), p\<lparr>eng_peerAgencyReserved := True\<rparr>)
              else ((state, False, inboundAdmissionWait), p))
         | agencyLocal \<Rightarrow>
             if messageType \<in> set (en_PipelinedMessageTypes entry) then ((state, False, inboundAdmissionGranted), p)
             else if \<not> hadUnreserved then ((state, False, inboundAdmissionDenied), p)
             else (case reservePipelinedReply p of
                 (True, p') \<Rightarrow> ((state, True, inboundAdmissionGranted), p')
               | (False, p') \<Rightarrow> ((state, False, inboundAdmissionDenied), p'))
         | agencyNeither \<Rightarrow> ((state, False, inboundAdmissionDenied), p)))"

definition currentInboundSnapshot :: "engine \<Rightarrow> State \<times> nat \<times> bool \<times> bool" where
  "currentInboundSnapshot p = (eng_currentState p, eng_currentStateGeneration p,
     eng_pendingPipelinedReplies p < eng_pendingPipelinedRequests p, 0 < eng_pendingPipelinedReplies p)"

text \<open>One round of \<open>waitForInboundSnapshot\<close>: None while an admitted reply is unresolved and no
  request is left that could claim the message.\<close>

definition inboundSnapshot :: "engine \<Rightarrow> (State \<times> nat \<times> bool) option" where
  "inboundSnapshot p = (case currentInboundSnapshot p of
     (state, generation, hadUnreserved, awaitingReply) \<Rightarrow>
       if hadUnreserved \<or> \<not> awaitingReply then Some (state, generation, hadUnreserved) else None)"

subsection \<open>Sessions\<close>

definition peer :: "ProtoRole \<Rightarrow> ProtoRole" where
  "peer r = (case r of ProtocolRoleNone \<Rightarrow> ProtocolRoleNone | ProtocolRoleClient \<Rightarrow> ProtocolRoleServer | ProtocolRoleServer \<Rightarrow> ProtocolRoleClient)"

record 'c endpoint =
  ep_state :: State
  ep_ctx :: 'c
  ep_deferred :: "message list"

text \<open>\<open>wire r\<close> are the messages role \<open>r\<close> has written and its peer has not handled.\<close>

record 'c session =
  ends :: "ProtoRole \<Rightarrow> 'c endpoint"
  wire :: "ProtoRole \<Rightarrow> message list"

definition session_start :: "State \<Rightarrow> 'c \<Rightarrow> 'c session" where
  "session_start s c = \<lparr>ends = (\<lambda>r. \<lparr>ep_state = s, ep_ctx = c, ep_deferred = []\<rparr>), wire = (\<lambda>r. [])\<rparr>"

abbreviation entry_of :: "'c StateMap \<Rightarrow> 'c session \<Rightarrow> ProtoRole \<Rightarrow> 'c StateMapEntry" where
  "entry_of sm S r \<equiv> lookupEntry sm (ep_state (ends S r))"

abbreviation transit :: "'c StateMap \<Rightarrow> 'c session \<Rightarrow> ProtoRole \<Rightarrow> message \<Rightarrow> (proto_error + State) \<times> 'c" where
  "transit sm S r m \<equiv> nextState sm (ep_ctx (ends S r)) (ep_state (ends S r)) m"

text \<open>A pipelined write is decided by \<^const>\<open>pipelinedMessageFits\<close> alone: the state may have moved
  between the check of \<^const>\<open>roleMayPipeline\<close> and the dequeue (\<open>resolvePipelinedDequeue\<close>).  An
  application queues only messages of its own role, which is what the guard
  \<^const>\<open>messageHasAgencyTransition\<close> says.\<close>

inductive session_step :: "'c StateMap \<Rightarrow> 'c session \<Rightarrow> 'c session \<Rightarrow> bool" for sm where
  send: "roleHasAgency r (entry_of sm S r) \<Longrightarrow> ep_deferred (ends S r) = [] \<Longrightarrow> transit sm S r m = (Inr s, c) \<Longrightarrow>
    session_step sm S (S\<lparr>ends := (ends S)(r := (ends S r)\<lparr>ep_state := s, ep_ctx := c\<rparr>), wire := (wire S)(r := wire S r @ [m])\<rparr>)"
| pipeline: "messageHasAgencyTransition sm r m \<Longrightarrow> pipelinedMessageFits (entry_of sm S r) m \<Longrightarrow>
    session_step sm S (S\<lparr>ends := (ends S)(r := (ends S r)\<lparr>ep_deferred := ep_deferred (ends S r) @ [m]\<rparr>),
      wire := (wire S)(r := wire S r @ [m])\<rparr>)"
| flush: "roleHasAgency r (entry_of sm S r) \<Longrightarrow> ep_deferred (ends S r) = m # ms \<Longrightarrow> transit sm S r m = (Inr s, c) \<Longrightarrow>
    session_step sm S (S\<lparr>ends := (ends S)(r := \<lparr>ep_state = s, ep_ctx = c, ep_deferred = ms\<rparr>)\<rparr>)"
| receive: "agencyHolderFor r (entry_of sm S r) = agencyPeer \<Longrightarrow> wire S (peer r) = m # ms \<Longrightarrow> transit sm S r m = (Inr s, c) \<Longrightarrow>
    session_step sm S (S\<lparr>ends := (ends S)(r := (ends S r)\<lparr>ep_state := s, ep_ctx := c\<rparr>), wire := (wire S)(peer r := ms)\<rparr>)"

inductive session_reachable :: "'c StateMap \<Rightarrow> State \<Rightarrow> 'c \<Rightarrow> 'c session \<Rightarrow> bool" for sm s0 c0 where
  start: "session_reachable sm s0 c0 (session_start s0 c0)"
| step: "session_reachable sm s0 c0 S \<Longrightarrow> session_step sm S S' \<Longrightarrow> session_reachable sm s0 c0 S'"

subsection \<open>Runs\<close>

text \<open>The run of one endpoint: the messages it applied, each labelled with the role that has agency.\<close>

fun run :: "'c StateMap \<Rightarrow> State \<times> 'c \<Rightarrow> (ProtoRole \<times> message) list \<Rightarrow> (State \<times> 'c) option" where
  "run sm x [] = Some x"
| "run sm (s, c) ((r, m) # T) =
     (if roleHasAgency r (lookupEntry sm s) then
        (case nextState sm c s m of (Inr s', c') \<Rightarrow> run sm (s', c') T | _ \<Rightarrow> None)
      else None)"

definition msgs_of :: "ProtoRole \<Rightarrow> (ProtoRole \<times> message) list \<Rightarrow> message list" where
  "msgs_of r T = map snd (filter (\<lambda>x. fst x = r) T)"

lemma msgs_of_simps [simp]:
  "msgs_of r [] = []" "msgs_of r ((r', m) # T) = (if r' = r then [m] else []) @ msgs_of r T"
  "msgs_of r (T @ U) = msgs_of r T @ msgs_of r U"
  by (simp_all add: msgs_of_def)

lemma peer_peer [simp]: "peer (peer r) = r"
  by (cases r) (simp_all add: peer_def)

lemma peer_eq_iff [simp]: "peer r = r \<longleftrightarrow> r = ProtocolRoleNone" "r = peer r \<longleftrightarrow> r = ProtocolRoleNone"
  by (cases r; simp add: peer_def)+

lemma role_cases: "r \<noteq> ProtocolRoleNone \<Longrightarrow> q = ProtocolRoleNone \<or> q = r \<or> q = peer r"
  by (cases r; cases q) (simp_all add: peer_def)

lemma agency_role: "roleHasAgency r e \<Longrightarrow> r \<noteq> ProtocolRoleNone" "agencyHolderFor r e = agencyPeer \<Longrightarrow> r \<noteq> ProtocolRoleNone"
  by (auto simp: roleHasAgency_def agencyHolderFor_def)

lemma agency_unique: "roleHasAgency r e \<Longrightarrow> roleHasAgency r' e \<Longrightarrow> r' = r"
  by (cases r; cases r'; cases "en_Agency e") (simp_all add: roleHasAgency_def agencyHolderFor_def)

lemma agency_peer: "agencyHolderFor r e = agencyPeer \<longleftrightarrow> roleHasAgency (peer r) e"
  by (cases r; cases "en_Agency e") (simp_all add: roleHasAgency_def agencyHolderFor_def peer_def)

lemma run_append: "run sm x (T @ U) = (case run sm x T of None \<Rightarrow> None | Some y \<Rightarrow> run sm y U)"
  by (induction sm x T rule: run.induct) (auto split: prod.splits sum.splits)

text \<open>Two runs that consume compatible streams are prefixes of one another: at each state the
  agency says whose stream the next message comes from.\<close>

lemma runs_comparable:
  assumes "run sm x T \<noteq> None" "run sm x U \<noteq> None"
    "\<forall>r. prefix (msgs_of r T) (msgs_of r U) \<or> prefix (msgs_of r U) (msgs_of r T)"
  shows "prefix T U \<or> prefix U T"
  using assms
proof (induction sm x T arbitrary: U rule: run.induct)
  case (2 sm s c r m T)
  show ?case
  proof (cases U)
    case (Cons a U')
    obtain r' m' where a: "a = (r', m')" by force
    have ag: "roleHasAgency r (lookupEntry sm s)" "roleHasAgency r' (lookupEntry sm s)"
      using "2.prems"(1,2) Cons a by (auto split: if_splits)
    then have r: "r' = r" by (rule agency_unique)
    have m: "m' = m" using "2.prems"(3)[rule_format, of r] Cons a r by auto
    obtain s' c' where n: "nextState sm c s m = (Inr s', c')"
      using "2.prems"(1) ag(1) by (auto split: prod.splits sum.splits)
    have "\<forall>q. prefix (msgs_of q T) (msgs_of q U') \<or> prefix (msgs_of q U') (msgs_of q T)"
    proof
      fix q
      show "prefix (msgs_of q T) (msgs_of q U') \<or> prefix (msgs_of q U') (msgs_of q T)"
        using "2.prems"(3)[rule_format, of q] by (cases "q = r") (auto simp: Cons a r m)
    qed
    then show ?thesis using "2.IH"[OF ag(1) n[symmetric] refl, of U'] "2.prems"(1,2) ag n by (simp add: Cons a r m)
  qed simp
qed simp

subsection \<open>The session invariant\<close>

text \<open>Each endpoint's machine is the outcome of a run; a role's stream is what its own run applied and
  what it deferred, or what its peer's run applied and what is still on the wire.\<close>

definition session_inv :: "'c StateMap \<Rightarrow> State \<times> 'c \<Rightarrow> (ProtoRole \<Rightarrow> (ProtoRole \<times> message) list) \<Rightarrow> 'c session \<Rightarrow> bool" where
  "session_inv sm x T S \<longleftrightarrow>
     (\<forall>r. run sm x (T r) = Some (ep_state (ends S r), ep_ctx (ends S r))) \<and>
     (\<forall>r. msgs_of r (T r) @ ep_deferred (ends S r) = msgs_of r (T (peer r)) @ wire S r) \<and>
     wire S ProtocolRoleNone = [] \<and> ep_deferred (ends S ProtocolRoleNone) = []"

lemma run_snoc:
  assumes "run sm x T = Some (s, c)" "roleHasAgency r (lookupEntry sm s)" "nextState sm c s m = (Inr s', c')"
  shows "run sm x (T @ [(r, m)]) = Some (s', c')"
  using assms by (simp add: run_append)

lemma session_inv_step:
  assumes inv: "session_inv sm x T S" and st: "session_step sm S S'"
  shows "\<exists>T'. session_inv sm x T' S'"
  using st
proof cases
  case (send r m s c)
  have "session_inv sm x (T(r := T r @ [(r, m)])) S'"
    using inv send(1) agency_role(1)[OF send(2)] run_snoc[OF _ send(2), of x "T r" "ep_ctx (ends S r)" m s c] send(3,4)
    unfolding session_inv_def by (auto simp: peer_def split: ProtoRole.splits)
  then show ?thesis by blast
next
  case (pipeline r m)
  have "r \<noteq> ProtocolRoleNone" using pipeline(2) agency_role(1) by (auto simp: messageHasAgencyTransition_def)
  then have "session_inv sm x T S'"
    using inv pipeline(1) unfolding session_inv_def by auto
  then show ?thesis by blast
next
  case (flush r m ms s c)
  have "session_inv sm x (T(r := T r @ [(r, m)])) S'"
    using inv flush(1) agency_role(1)[OF flush(2)] run_snoc[OF _ flush(2), of x "T r" "ep_ctx (ends S r)" m s c] flush(3,4)
    unfolding session_inv_def by (auto simp: peer_def split: ProtoRole.splits)
  then show ?thesis by blast
next
  case (receive r m ms s c)
  have ag: "roleHasAgency (peer r) (entry_of sm S r)" using receive(2) by (simp add: agency_peer)
  have "session_inv sm x (T(r := T r @ [(peer r, m)])) S'"
    using inv receive(1) agency_role(2)[OF receive(2)] run_snoc[OF _ ag, of x "T r" "ep_ctx (ends S r)" m s c] receive(3,4)
    unfolding session_inv_def by (auto simp: peer_def split: ProtoRole.splits)
  then show ?thesis by blast
qed

lemma session_inv_reachable:
  assumes "session_reachable sm s0 c0 S"
  obtains T where "session_inv sm (s0, c0) T S"
  using assms
proof (induction arbitrary: thesis)
  case start
  show ?case by (rule start[of "\<lambda>_. []"]) (simp add: session_inv_def session_start_def)
next
  case (step S S')
  obtain T where "session_inv sm (s0, c0) T S" using step.IH by blast
  then show ?case using session_inv_step[OF _ step.hyps(2)] step.prems by blast
qed

lemma run_no_none: "run sm x T \<noteq> None \<Longrightarrow> msgs_of ProtocolRoleNone T = []"
proof (induction sm x T rule: run.induct)
  case (2 sm s c r m T)
  then have ag: "roleHasAgency r (lookupEntry sm s)" by (simp split: if_splits)
  obtain s' c' where n: "nextState sm c s m = (Inr s', c')" using 2(2) ag by (auto split: prod.splits sum.splits)
  have "msgs_of ProtocolRoleNone T = []" using 2(1)[OF ag n[symmetric] refl] 2(2) ag n by simp
  then show ?case using agency_role(1)[OF ag] by simp
qed simp

lemma session_runs_comparable:
  assumes inv: "session_inv sm x T S"
  shows "prefix (T r) (T (peer r)) \<or> prefix (T (peer r)) (T r)"
proof (rule runs_comparable)
  show runs: "run sm x (T r) \<noteq> None" "run sm x (T (peer r)) \<noteq> None" using inv by (simp_all add: session_inv_def)
  have own: "prefix (msgs_of q (T q)) (msgs_of q (T (peer q))) \<or> prefix (msgs_of q (T (peer q))) (msgs_of q (T q))" for q
  proof (rule prefix_same_cases)
    show "prefix (msgs_of q (T q)) (msgs_of q (T q) @ ep_deferred (ends S q))" by simp
    have "msgs_of q (T q) @ ep_deferred (ends S q) = msgs_of q (T (peer q)) @ wire S q" using inv by (simp add: session_inv_def)
    then show "prefix (msgs_of q (T (peer q))) (msgs_of q (T q) @ ep_deferred (ends S q))" by simp
  qed
  show "\<forall>q. prefix (msgs_of q (T r)) (msgs_of q (T (peer r))) \<or> prefix (msgs_of q (T (peer r))) (msgs_of q (T r))"
  proof
    fix q
    consider "r = ProtocolRoleNone" | "q = ProtocolRoleNone" | "q = r" | "q = peer r" using role_cases by blast
    then show "prefix (msgs_of q (T r)) (msgs_of q (T (peer r))) \<or> prefix (msgs_of q (T (peer r))) (msgs_of q (T r))"
    proof cases
      case 1 then show ?thesis by (simp add: peer_def)
    next
      case 2 then show ?thesis using run_no_none[OF runs(1)] by simp
    next
      case 3 then show ?thesis using own[of r] by simp
    next
      case 4 then show ?thesis using own[of "peer r"] by auto
    qed
  qed
qed

text \<open>What one endpoint's run lacks of the other's decides its next step.\<close>

lemma run_next:
  assumes "run sm x (T @ (q, m) # U) \<noteq> None" "run sm x T = Some (s, c)"
  shows "roleHasAgency q (lookupEntry sm s)" "\<exists>s' c'. nextState sm c s m = (Inr s', c')"
  using assms by (auto simp: run_append split: if_splits prod.splits sum.splits)

lemma session_progress:
  assumes inv: "session_inv sm x T S" and r: "r \<noteq> ProtocolRoleNone"
    and fl: "length (ep_deferred (ends S (peer r))) < length (wire S (peer r))"
  shows "(agencyHolderFor r (entry_of sm S r) = agencyPeer \<and> (\<exists>s c. transit sm S r (hd (wire S (peer r))) = (Inr s, c)))
    \<or> (roleHasAgency r (entry_of sm S r) \<and> ep_deferred (ends S r) \<noteq> [] \<and>
        (\<exists>s c. transit sm S r (hd (ep_deferred (ends S r))) = (Inr s, c)))"
proof -
  have eqs: "msgs_of (peer r) (T (peer r)) @ ep_deferred (ends S (peer r)) = msgs_of (peer r) (T r) @ wire S (peer r)"
    "msgs_of r (T r) @ ep_deferred (ends S r) = msgs_of r (T (peer r)) @ wire S r"
    using inv by (simp_all add: session_inv_def)
  have len: "length (msgs_of (peer r) (T r)) < length (msgs_of (peer r) (T (peer r)))"
    using fl arg_cong[OF eqs(1), of length] by simp
  then have "\<not> prefix (T (peer r)) (T r)" by (auto elim!: prefixE)
  then obtain V where V: "T (peer r) = T r @ V" using session_runs_comparable[OF inv, of r] by (auto elim!: prefixE)
  obtain q m U where "V = (q, m) # U" using V len by (cases V) auto
  then have T: "T (peer r) = T r @ (q, m) # U" using V by simp
  have run_r: "run sm x (T r) = Some (ep_state (ends S r), ep_ctx (ends S r))" using inv by (simp add: session_inv_def)
  have run_T: "run sm x (T r @ (q, m) # U) \<noteq> None" using inv unfolding T[symmetric] session_inv_def by simp
  have nx: "roleHasAgency q (entry_of sm S r)" "\<exists>s c. transit sm S r m = (Inr s, c)"
    using run_next[OF run_T run_r] by blast+
  have "q = r \<or> q = peer r" using role_cases[OF r, of q] agency_role(1)[OF nx(1)] by blast
  then show ?thesis
  proof
    assume q: "q = peer r"
    have "hd (wire S (peer r)) = m" using eqs(1) T q by (cases "wire S (peer r)") auto
    then show ?thesis using nx q by (auto simp: agency_peer)
  next
    assume q: "q = r"
    have "ep_deferred (ends S r) = m # msgs_of r U @ wire S r" using eqs(2) T q by simp
    then show ?thesis using nx q by auto
  qed
qed

lemma session_exclusive:
  assumes inv: "session_inv sm x T S" and d: "ep_deferred (ends S r) = []" "ep_deferred (ends S (peer r)) = []"
    and ag: "roleHasAgency r (entry_of sm S r)"
  shows "\<not> roleHasAgency (peer r) (entry_of sm S (peer r))"
proof
  assume ag': "roleHasAgency (peer r) (entry_of sm S (peer r))"
  have ahead: False if p: "T (peer q) = T q @ V" and a: "roleHasAgency q (entry_of sm S q)"
    and a': "roleHasAgency (peer q) (entry_of sm S (peer q))" and dq: "ep_deferred (ends S q) = []" for q V
  proof (cases V)
    case Nil
    have "run sm x (T q) = Some (ep_state (ends S q), ep_ctx (ends S q))"
      "run sm x (T (peer q)) = Some (ep_state (ends S (peer q)), ep_ctx (ends S (peer q)))"
      using inv by (simp_all add: session_inv_def)
    then have "ep_state (ends S (peer q)) = ep_state (ends S q)" using p Nil by simp
    then have "roleHasAgency (peer q) (entry_of sm S q)" using a' by simp
    then have "peer q = q" by (rule agency_unique[OF a])
    then show False using agency_role(1)[OF a] by simp
  next
    case (Cons y U)
    obtain q' m where y: "y = (q', m)" by force
    have run_q: "run sm x (T q) = Some (ep_state (ends S q), ep_ctx (ends S q))" using inv by (simp add: session_inv_def)
    have "run sm x (T (peer q)) \<noteq> None" using inv by (simp add: session_inv_def)
    then have run_T: "run sm x (T q @ (q', m) # U) \<noteq> None" by (simp add: p Cons y)
    have "q' = q" by (rule agency_unique[OF a run_next(1)[OF run_T run_q]])
    moreover have "msgs_of q (T q) = msgs_of q (T (peer q)) @ wire S q" using inv dq by (metis append_Nil2 session_inv_def)
    ultimately show False using p Cons y by simp
  qed
  consider V where "T (peer r) = T r @ V" | V where "T r = T (peer r) @ V"
    using session_runs_comparable[OF inv, of r] by (auto elim!: prefixE)
  then show False
  proof cases
    case 1 then show False using ahead[OF 1 ag ag' d(1)] by blast
  next
    case 2 then show False using ahead[of "peer r" V] ag ag' d(2) by simp
  qed
qed

lemma session_agree:
  assumes inv: "session_inv sm x T S" and d: "\<And>q. ep_deferred (ends S q) = [] \<and> wire S q = []"
  shows "ends S r = ends S (peer r)"
proof -
  have m: "msgs_of q (T q) = msgs_of q (T (peer q))" for q using inv d by (metis append_Nil2 session_inv_def)
  have runs: "run sm x (T q) = Some (ep_state (ends S q), ep_ctx (ends S q))" for q using inv by (simp add: session_inv_def)
  have eq: "T (peer q) = T q" if p: "T (peer q) = T q @ V" and q: "q \<noteq> ProtocolRoleNone" for q V
  proof (cases V)
    case (Cons y U)
    obtain q' k where y: "y = (q', k)" by force
    have run_T: "run sm x (T q @ (q', k) # U) \<noteq> None" using runs[of "peer q"] by (simp add: p Cons y)
    have "q' = q \<or> q' = peer q" using role_cases[OF q] agency_role(1)[OF run_next(1)[OF run_T runs[of q]]] by blast
    then show ?thesis using m[of q] m[of "peer q"] p Cons y by auto
  qed (simp add: p)
  have "T (peer r) = T r"
  proof (cases "r = ProtocolRoleNone")
    case True then show ?thesis by (simp add: peer_def)
  next
    case False
    then have pr: "peer r \<noteq> ProtocolRoleNone" by (cases r) (simp_all add: peer_def)
    consider V where "T (peer r) = T r @ V" | V where "T r = T (peer r) @ V"
      using session_runs_comparable[OF inv, of r] by (auto elim!: prefixE)
    then show ?thesis
    proof cases
      case 1 then show ?thesis by (rule eq[OF _ False])
    next
      case 2
      have "T (peer (peer r)) = T (peer r)" by (rule eq[OF _ pr]) (simp add: 2)
      then show ?thesis by simp
    qed
  qed
  then show ?thesis using runs[of r] runs[of "peer r"] d[of r] d[of "peer r"] by simp
qed

subsection \<open>Well-formed state maps\<close>

definition wf_map :: "'c StateMap \<Rightarrow> State \<Rightarrow> bool" where
  "wf_map sm s0 \<longleftrightarrow> distinct (map fst sm) \<and> s0 \<in> set (map fst sm) \<and>
     (\<forall>(s, e) \<in> set sm. (\<forall>t \<in> set (en_Transitions e). tr_NewState t \<in> set (map fst sm)) \<and>
        (en_Agency e = AgencyNone \<longleftrightarrow> en_Transitions e = []))"

text \<open>A type that may be pipelined is accepted wherever its sender has agency.\<close>

definition pipeline_safe :: "'c StateMap \<Rightarrow> bool" where
  "pipeline_safe sm \<longleftrightarrow>
     (\<forall>e \<in> snd ` set sm. \<forall>ty \<in> set (en_PipelinedMessageTypes e). \<forall>r m c. \<forall>(s, e') \<in> set sm.
        msg_Type m = ty \<and> messageHasAgencyTransition sm r m \<and> roleHasAgency r e' \<longrightarrow>
        (\<exists>s' c'. matchTransition (en_Transitions e') c m = (Some s', c')))"

lemma nextState_Inr: "nextState sm c s m = (Inr s', c') \<longleftrightarrow> matchTransition (en_Transitions (lookupEntry sm s)) c m = (Some s', c')"
  by (auto simp: nextState_def split: prod.splits option.splits)

lemma matchTransition_target: "matchTransition ts c m = (Some s, c') \<Longrightarrow> s \<in> tr_NewState ` set ts"
  by (induction ts c m rule: matchTransition.induct) (auto split: if_splits option.splits prod.splits)

lemma lookupEntry_cases: "(s, lookupEntry sm s) \<in> set sm \<or> en_Agency (lookupEntry sm s) = AgencyNone \<and> en_Transitions (lookupEntry sm s) = [] \<and> en_PipelinedMessageTypes (lookupEntry sm s) = []"
  by (auto simp: lookupEntry_def split: option.splits dest: map_of_SomeD)

lemma agency_entry: "roleHasAgency r (lookupEntry sm s) \<Longrightarrow> (s, lookupEntry sm s) \<in> set sm"
  using lookupEntry_cases[of s sm] by (cases r) (auto simp: roleHasAgency_def agencyHolderFor_def)

subsection \<open>Pipelining\<close>

text \<open>The order in which an application queues pipelined messages: nothing goes behind a message that
  leads to a state where its sender has no agency and nothing may be pipelined.  In the code these are
  the quit of the Leios notifications, after which the client sends no further request, and the blocking
  request of the transaction submission, behind which none is pipelined.\<close>

definition ends_pipeline :: "'c StateMap \<Rightarrow> ProtoRole \<Rightarrow> message \<Rightarrow> bool" where
  "ends_pipeline sm r m \<longleftrightarrow> (\<exists>(s, e) \<in> set sm. \<exists>c s' c'. roleHasAgency r e \<and>
     matchTransition (en_Transitions e) c m = (Some s', c') \<and>
     \<not> roleHasAgency r (lookupEntry sm s') \<and> en_PipelinedMessageTypes (lookupEntry sm s') = [])"

definition orderly :: "'c StateMap \<Rightarrow> 'c session \<Rightarrow> bool" where
  "orderly sm S \<longleftrightarrow> (\<forall>r. \<forall>m \<in> set (butlast (ep_deferred (ends S r))). \<not> ends_pipeline sm r m)"

inductive orderly_reachable :: "'c StateMap \<Rightarrow> State \<Rightarrow> 'c \<Rightarrow> 'c session \<Rightarrow> bool" for sm s0 c0 where
  start: "orderly_reachable sm s0 c0 (session_start s0 c0)"
| step: "orderly_reachable sm s0 c0 S \<Longrightarrow> session_step sm S S' \<Longrightarrow> orderly sm S' \<Longrightarrow> orderly_reachable sm s0 c0 S'"

text \<open>A state that declares pipelined types declares those of every other such state of its holder, does
  not declare what its holder sends, and hands agency to the pipelining side or to another such state.\<close>

definition takes_pipelined :: "ProtoRole \<Rightarrow> 'c StateMapEntry \<Rightarrow> bool" where
  "takes_pipelined r e \<longleftrightarrow> roleHasAgency (peer r) e \<and> en_PipelinedMessageTypes e \<noteq> []"

definition pipeline_closed :: "'c StateMap \<Rightarrow> bool" where
  "pipeline_closed sm \<longleftrightarrow> (\<forall>(s, e) \<in> set sm. en_PipelinedMessageTypes e \<noteq> [] \<longrightarrow>
     en_Agency e \<noteq> AgencyNone \<and>
     (\<forall>r m. pipelinedMessageFits e m \<and> messageHasAgencyTransition sm r m \<longrightarrow> \<not> roleHasAgency r e) \<and>
     (\<forall>(s', e') \<in> set sm. en_PipelinedMessageTypes e' \<noteq> [] \<and> en_Agency e' = en_Agency e \<longrightarrow>
        set (en_PipelinedMessageTypes e') = set (en_PipelinedMessageTypes e)) \<and>
     (\<forall>t \<in> set (en_Transitions e). let e' = lookupEntry sm (tr_NewState t) in
        en_Agency e' \<notin> {AgencyNone, en_Agency e} \<or> en_PipelinedMessageTypes e' \<noteq> [] \<and> en_Agency e' = en_Agency e))"

lemma orderly_session_reachable: "orderly_reachable sm s0 c0 S \<Longrightarrow> session_reachable sm s0 c0 S"
  by (induction rule: orderly_reachable.induct) (auto intro: session_reachable.intros)

lemma peer_agency_iff: "r \<noteq> ProtocolRoleNone \<Longrightarrow> en_Agency e \<noteq> AgencyNone \<Longrightarrow> roleHasAgency (peer r) e \<longleftrightarrow> \<not> roleHasAgency r e"
  by (cases r; cases "en_Agency e") (simp_all add: roleHasAgency_def agencyHolderFor_def peer_def)

lemma agency_same: "roleHasAgency r e \<Longrightarrow> roleHasAgency r e' \<longleftrightarrow> en_Agency e' = en_Agency e"
  by (cases r; cases "en_Agency e"; cases "en_Agency e'") (simp_all add: roleHasAgency_def agencyHolderFor_def)

abbreviation open_for :: "'c StateMap \<Rightarrow> ProtoRole \<Rightarrow> State \<Rightarrow> bool" where
  "open_for sm r s \<equiv> roleHasAgency r (lookupEntry sm s) \<or> takes_pipelined r (lookupEntry sm s)"

locale pipelining =
  fixes sm :: "'c StateMap"
  assumes closed: "pipeline_closed sm"
begin

lemma types_entry: "en_PipelinedMessageTypes (lookupEntry sm s) \<noteq> [] \<Longrightarrow> (s, lookupEntry sm s) \<in> set sm"
  using lookupEntry_cases[of s sm] by auto

lemma types_agency: "en_PipelinedMessageTypes (lookupEntry sm s) \<noteq> [] \<Longrightarrow> en_Agency (lookupEntry sm s) \<noteq> AgencyNone"
  using closed types_entry[of s] unfolding pipeline_closed_def by blast

lemma fits_takes:
  assumes "pipelinedMessageFits (lookupEntry sm s) m" "messageHasAgencyTransition sm r m"
  shows "takes_pipelined r (lookupEntry sm s)"
proof -
  have ne: "en_PipelinedMessageTypes (lookupEntry sm s) \<noteq> []" using assms(1) by (auto simp: pipelinedMessageFits_def)
  have "\<not> roleHasAgency r (lookupEntry sm s)" using closed types_entry[OF ne] ne assms unfolding pipeline_closed_def by blast
  moreover have "r \<noteq> ProtocolRoleNone" using assms(2) agency_role(1) by (auto simp: messageHasAgencyTransition_def)
  ultimately show ?thesis using ne types_agency[OF ne] by (simp add: takes_pipelined_def peer_agency_iff)
qed

lemma takes_same:
  assumes "takes_pipelined r (lookupEntry sm s)" "takes_pipelined r (lookupEntry sm s')"
  shows "pipelinedMessageFits (lookupEntry sm s) m \<longleftrightarrow> pipelinedMessageFits (lookupEntry sm s') m"
proof -
  have "en_Agency (lookupEntry sm s') = en_Agency (lookupEntry sm s)"
    using assms agency_same[of "peer r" "lookupEntry sm s" "lookupEntry sm s'"] by (simp add: takes_pipelined_def)
  then have "set (en_PipelinedMessageTypes (lookupEntry sm s')) = set (en_PipelinedMessageTypes (lookupEntry sm s))"
    using closed types_entry[of s] types_entry[of s'] assms unfolding pipeline_closed_def takes_pipelined_def by blast
  then show ?thesis by (simp add: pipelinedMessageFits_def)
qed

lemma takes_step:
  assumes "takes_pipelined r (lookupEntry sm s)" "nextState sm c s m = (Inr s', c')" "r \<noteq> ProtocolRoleNone"
  shows "open_for sm r s'"
proof -
  let ?e = "lookupEntry sm s" and ?e' = "lookupEntry sm s'"
  have ne: "en_PipelinedMessageTypes ?e \<noteq> []" and ag: "roleHasAgency (peer r) ?e" using assms(1) by (simp_all add: takes_pipelined_def)
  obtain t where "t \<in> set (en_Transitions ?e)" "s' = tr_NewState t"
    using matchTransition_target[OF assms(2)[unfolded nextState_Inr]] by blast
  then have "en_Agency ?e' \<notin> {AgencyNone, en_Agency ?e} \<or> en_PipelinedMessageTypes ?e' \<noteq> [] \<and> en_Agency ?e' = en_Agency ?e"
    using closed types_entry[OF ne] ne unfolding pipeline_closed_def Let_def by blast
  then show ?thesis
    using agency_same[OF ag, of ?e'] peer_agency_iff[OF assms(3), of ?e'] by (auto simp: takes_pipelined_def)
qed

lemma open_step:
  assumes o: "open_for sm r s" and q: "roleHasAgency q (lookupEntry sm s)" and n: "nextState sm c s m = (Inr s', c')"
    and e: "q = r \<Longrightarrow> \<not> ends_pipeline sm r m" and r: "r \<noteq> ProtocolRoleNone"
  shows "open_for sm r s'"
proof (cases "q = r")
  case True
  have "\<not> (\<not> roleHasAgency r (lookupEntry sm s') \<and> en_PipelinedMessageTypes (lookupEntry sm s') = [])"
    using e[OF True] agency_entry[OF q] q n True unfolding ends_pipeline_def nextState_Inr by blast
  then show ?thesis using types_agency[of s'] peer_agency_iff[OF r, of "lookupEntry sm s'"] by (auto simp: takes_pipelined_def)
next
  case False
  then have "takes_pipelined r (lookupEntry sm s)" using o agency_unique[OF q] by blast
  then show ?thesis using takes_step n r by blast
qed

lemma run_open:
  assumes "run sm (s, c) V = Some (s', c')" "open_for sm r s" "\<forall>m \<in> set (msgs_of r V). \<not> ends_pipeline sm r m" "r \<noteq> ProtocolRoleNone"
  shows "open_for sm r s'"
  using assms
proof (induction V arbitrary: s c)
  case (Cons a V)
  obtain q m where a: "a = (q, m)" by force
  have q: "roleHasAgency q (lookupEntry sm s)" using Cons.prems(1) a by (auto split: if_splits)
  obtain s1 c1 where n: "nextState sm c s m = (Inr s1, c1)" and rest: "run sm (s1, c1) V = Some (s', c')"
    using Cons.prems(1) a q by (auto split: prod.splits sum.splits)
  have "open_for sm r s1" by (rule open_step[OF Cons.prems(2) q n _ Cons.prems(4)]) (use Cons.prems(3) a in auto)
  then show ?case using Cons.IH[OF rest] Cons.prems(3,4) a by auto
qed simp

lemma deferred_open:
  assumes "orderly_reachable sm s0 c0 S" "ep_deferred (ends S r) \<noteq> []"
  shows "r \<noteq> ProtocolRoleNone \<and> open_for sm r (ep_state (ends S r))"
  using assms
proof (induction arbitrary: r)
  case start
  then show ?case by (simp add: session_start_def)
next
  case (step S S')
  from step.hyps(2) show ?case
  proof cases
    case (send q m s c)
    then show ?thesis using step.IH[of r] step.prems by (auto split: if_splits)
  next
    case (pipeline q m)
    show ?thesis
    proof (cases "r = q")
      case True
      have "q \<noteq> ProtocolRoleNone" using pipeline(2) agency_role(1) by (auto simp: messageHasAgencyTransition_def)
      then show ?thesis using fits_takes[OF pipeline(3,2)] pipeline(1) True by simp
    qed (use step.IH[of r] step.prems pipeline(1) in simp)
  next
    case (flush q m ms s c)
    show ?thesis
    proof (cases "r = q")
      case True
      have ms: "ms \<noteq> []" using step.prems flush(1) True by simp
      have "orderly sm S" using step.hyps(1) by cases (simp_all add: orderly_def session_start_def)
      then have "\<not> ends_pipeline sm q m" using flush(3) ms by (auto simp: orderly_def)
      then show ?thesis using step.IH[of q] open_step[of q "ep_state (ends S q)" q] flush True by simp
    qed (use step.IH[of r] step.prems flush(1) in simp)
  next
    case (receive q m ms s c)
    show ?thesis
    proof (cases "r = q")
      case True
      then have o: "q \<noteq> ProtocolRoleNone" "open_for sm q (ep_state (ends S q))" using step.IH[of q] step.prems receive(1) by simp_all
      then have "open_for sm q s" using open_step[of q "ep_state (ends S q)" "peer q"] receive(2,4) by (simp add: agency_peer)
      then show ?thesis using o receive(1) True by simp
    qed (use step.IH[of r] step.prems receive(1) in simp)
  qed
qed

lemma deferred_fits:
  assumes "orderly_reachable sm s0 c0 S" "m \<in> set (ep_deferred (ends S r))"
  shows "\<exists>s. takes_pipelined r (lookupEntry sm s) \<and> pipelinedMessageFits (lookupEntry sm s) m"
  using assms
proof (induction arbitrary: r m)
  case start
  then show ?case by (simp add: session_start_def)
next
  case (step S S')
  from step.hyps(2) show ?case
  proof cases
    case (pipeline q m')
    then show ?thesis using step.IH[of m r] step.prems fits_takes[OF pipeline(3,2)] by (auto split: if_splits)
  next
    case (flush q m' ms s c)
    then have "m \<in> set (ep_deferred (ends S r))" using step.prems by (auto split: if_splits)
    then show ?thesis by (rule step.IH)
  qed (use step.IH step.prems in \<open>auto split: if_splits\<close>)
qed

text \<open>What an endpoint may find on the wire while its peer has no agency: a pipelined message its state
  declares, or the reply to a request it pipelined itself.\<close>

lemma wire_admissible:
  assumes re: "orderly_reachable sm s0 c0 S" and m: "m \<in> set (wire S (peer r))"
    and ag: "agencyHolderFor r (entry_of sm S r) \<noteq> agencyPeer"
  shows "roleHasAgency r (entry_of sm S r) \<and> (ep_deferred (ends S r) \<noteq> [] \<or> pipelinedMessageFits (entry_of sm S r) m)"
proof -
  obtain T where inv: "session_inv sm (s0, c0) T S" using session_inv_reachable[OF orderly_session_reachable[OF re]] by blast
  have r: "r \<noteq> ProtocolRoleNone" using m inv by (auto simp: session_inv_def peer_def)
  then have pr: "peer r \<noteq> ProtocolRoleNone" by (cases r) (simp_all add: peer_def)
  have runs: "run sm (s0, c0) (T q) = Some (ep_state (ends S q), ep_ctx (ends S q))" for q using inv by (simp add: session_inv_def)
  have eqs: "msgs_of (peer r) (T (peer r)) @ ep_deferred (ends S (peer r)) = msgs_of (peer r) (T r) @ wire S (peer r)"
    "msgs_of r (T r) @ ep_deferred (ends S r) = msgs_of r (T (peer r)) @ wire S r" using inv by (metis peer_peer session_inv_def)+
  consider (behind) a V where "T (peer r) = T r @ a # V" | (ahead) V where "T r = T (peer r) @ V"
    using session_runs_comparable[OF inv, of r] by (metis append_Nil2 list.exhaust prefixE)
  then show ?thesis
  proof cases
    case behind
    obtain q k where a: "a = (q, k)" by force
    have ne: "run sm (s0, c0) (T r @ (q, k) # V) \<noteq> None" using runs[of "peer r"] by (simp add: behind a)
    have q: "roleHasAgency q (entry_of sm S r)" by (rule run_next(1)[OF ne runs[of r]])
    then have "q = r" using ag role_cases[OF r, of q] agency_role(1)[OF q] by (auto simp: agency_peer)
    then show ?thesis using q eqs(2) behind a by auto
  next
    case ahead
    have d: "ep_deferred (ends S (peer r)) = msgs_of (peer r) V @ wire S (peer r)" using eqs(1) ahead by simp
    then have "ep_deferred (ends S (peer r)) \<noteq> []" using m by auto
    then have o: "open_for sm (peer r) (ep_state (ends S (peer r)))" using deferred_open[OF re] by blast
    have od: "orderly sm S" using re by cases (simp_all add: orderly_def session_start_def)
    have "set (msgs_of (peer r) V) \<subseteq> set (butlast (ep_deferred (ends S (peer r))))" using m by (auto simp: d butlast_append)
    then have nl: "\<forall>k \<in> set (msgs_of (peer r) V). \<not> ends_pipeline sm (peer r) k"
      using od unfolding orderly_def by blast
    have "run sm (ep_state (ends S (peer r)), ep_ctx (ends S (peer r))) V = Some (ep_state (ends S r), ep_ctx (ends S r))"
      using runs[of r] runs[of "peer r"] ahead by (simp add: run_append)
    then have "open_for sm (peer r) (ep_state (ends S r))" using run_open o nl pr by blast
    then have tk: "takes_pipelined (peer r) (entry_of sm S r)" using ag by (auto simp: agency_peer)
    obtain s where "takes_pipelined (peer r) (lookupEntry sm s)" "pipelinedMessageFits (lookupEntry sm s) m"
      using deferred_fits[OF re, of m "peer r"] d m by auto
    then show ?thesis using takes_same[OF tk] tk by (auto simp: takes_pipelined_def)
  qed
qed

text \<open>The engine of an endpoint: its state is the endpoint's and its pending requests are those whose
  transition is deferred.\<close>

lemma wire_not_denied:
  assumes re: "orderly_reachable sm s0 c0 S" and m: "m \<in> set (wire S (peer r))"
    and e: "eng_currentState p = ep_state (ends S r)" "eng_pendingPipelinedRequests p = length (ep_deferred (ends S r))"
    and sn: "inboundSnapshot p = Some (s, g, h)" and st: "ep_state (ends S r) \<in> set (map fst sm)"
  shows "snd (snd (fst (reserveInboundAdmission sm r (msg_Type m) s g h p))) \<noteq> inboundAdmissionDenied"
proof -
  obtain en where en: "map_of sm (ep_state (ends S r)) = Some en" using st by (metis map_of_eq_None_iff not_None_eq set_map)
  then have le: "lookupEntry sm (ep_state (ends S r)) = en" by (simp add: lookupEntry_def)
  have sn': "s = ep_state (ends S r)" "g = eng_currentStateGeneration p"
    "h \<longleftrightarrow> eng_pendingPipelinedReplies p < length (ep_deferred (ends S r))" "h \<or> eng_pendingPipelinedReplies p = 0"
    using sn e by (auto simp: inboundSnapshot_def currentInboundSnapshot_def split: if_splits)
  show ?thesis
  proof (cases "agencyHolderFor r en = agencyPeer")
    case True
    then show ?thesis by (simp add: reserveInboundAdmission_def Let_def e en sn'(2))
  next
    case False
    have "roleHasAgency r en" "ep_deferred (ends S r) \<noteq> [] \<or> pipelinedMessageFits en m"
      using wire_admissible[OF re m] False le by auto
    then show ?thesis using sn'(3,4)
      by (auto simp: reserveInboundAdmission_def Let_def e en roleHasAgency_def pipelinedMessageFits_def reservePipelinedReply_def)
  qed
qed

end

subsection \<open>The contract of a mini-protocol\<close>

locale mini_protocol = pipelining sm for sm :: "'c StateMap" +
  fixes s0 :: State
  assumes wf: "wf_map sm s0" and safe: "pipeline_safe sm"
begin

lemma nextState_in_map:
  assumes "nextState sm c s m = (Inr s', c')"
  shows "s' \<in> set (map fst sm)"
proof -
  have "s' \<in> tr_NewState ` set (en_Transitions (lookupEntry sm s))"
    using assms matchTransition_target by (auto simp: nextState_Inr)
  then show ?thesis using lookupEntry_cases[of s sm] wf by (fastforce simp: wf_map_def)
qed

lemma states_in_map:
  assumes "session_reachable sm s0 c0 S"
  shows "ep_state (ends S r) \<in> set (map fst sm)"
  using assms
proof (induction arbitrary: r)
  case start
  then show ?case using wf by (simp add: session_start_def wf_map_def)
next
  case (step S S')
  from step.hyps(2) show ?case
    by cases (use step.IH nextState_in_map in \<open>auto simp del: set_map\<close>)
qed

lemma done_refuses:
  assumes "stateHasNoAgency sm s"
  shows "fst (nextState sm c s m) = Inl (MessageNotAllowed (msg_Type m) s)"
proof -
  obtain e where "map_of sm s = Some e" "en_Agency e = AgencyNone" using assms by (auto simp: stateHasNoAgency_def split: option.splits)
  then show ?thesis using wf by (auto simp: wf_map_def nextState_def lookupEntry_def dest: map_of_SomeD)
qed

lemma deferred_pipelinable:
  assumes "session_reachable sm s0 c0 S" "m \<in> set (ep_deferred (ends S r))"
  shows "messageHasAgencyTransition sm r m \<and> (\<exists>e \<in> snd ` set sm. msg_Type m \<in> set (en_PipelinedMessageTypes e))"
  using assms
proof (induction arbitrary: r m)
  case start
  then show ?case by (simp add: session_start_def)
next
  case (step S S')
  from step.hyps(2) show ?case
  proof cases
    case (pipeline q m')
    have "\<exists>e \<in> snd ` set sm. msg_Type m' \<in> set (en_PipelinedMessageTypes e)"
      using pipeline(3) lookupEntry_cases[of "ep_state (ends S q)" sm] by (force simp: pipelinedMessageFits_def)
    then show ?thesis using step.IH[of m r] step.prems pipeline(1,2) by (auto split: if_splits)
  next
    case (flush q m' ms s c)
    then have "m \<in> set (ep_deferred (ends S r))" using step.prems by (auto split: if_splits)
    then show ?thesis by (rule step.IH)
  qed (use step.IH step.prems in \<open>auto split: if_splits\<close>)
qed

lemma deferred_accepted:
  assumes "session_reachable sm s0 c0 S" "m \<in> set (ep_deferred (ends S r))" "roleHasAgency r (lookupEntry sm s)"
  shows "\<exists>s' c'. nextState sm c s m = (Inr s', c')"
proof -
  obtain e where "e \<in> snd ` set sm" "msg_Type m \<in> set (en_PipelinedMessageTypes e)" "messageHasAgencyTransition sm r m"
    using deferred_pipelinable[OF assms(1,2)] by blast
  then show ?thesis using safe agency_entry[OF assms(3)] assms(3) unfolding pipeline_safe_def nextState_Inr by fast
qed

lemma wire_accepted:
  assumes re: "session_reachable sm s0 c0 S" and ag: "agencyHolderFor r (entry_of sm S r) = agencyPeer"
    and w: "wire S (peer r) = m # ms"
  shows "\<exists>s c. transit sm S r m = (Inr s, c)"
proof -
  obtain T where inv: "session_inv sm (s0, c0) T S" using session_inv_reachable[OF re] by blast
  have r: "r \<noteq> ProtocolRoleNone" using agency_role(2)[OF ag] .
  show ?thesis
  proof (cases "length (ep_deferred (ends S (peer r))) < length (wire S (peer r))")
    case True
    then show ?thesis using session_progress[OF inv r] ag w by (auto simp: roleHasAgency_def)
  next
    case False
    have "msgs_of (peer r) (T (peer r)) @ ep_deferred (ends S (peer r)) = msgs_of (peer r) (T r) @ wire S (peer r)"
      using inv by (metis peer_peer session_inv_def)
    then have "m \<in> set (ep_deferred (ends S (peer r)))"
      using False w by (auto simp: append_eq_append_conv2 Cons_eq_append_conv append_eq_Cons_conv)
    then show ?thesis using deferred_accepted[OF re] ag by (auto simp: agency_peer)
  qed
qed

end

end
