(* ===== verification/MiniProtocols.thy ===== *)
theory MiniProtocols
  imports Protocol
begin

text \<open>
  The state maps of the mini-protocols (\<open>protocol/*/*.go\<close>), with the match functions of the maps
  that have them, and what the engine's session theorems give for each of them.  Timeouts are left
  out; byte limits are the values of the constants the maps name.
\<close>

definition transition :: "nat \<Rightarrow> State \<Rightarrow> ('c \<Rightarrow> message \<Rightarrow> bool \<times> 'c) option \<Rightarrow> 'c StateTransition" where
  "transition ty s mf = \<lparr>tr_MsgType = ty, tr_NewState = s, tr_MatchFunc = mf\<rparr>"

definition entry :: "ProtocolStateAgency \<Rightarrow> 'c StateTransition list \<Rightarrow> int \<Rightarrow> int \<Rightarrow> bool \<Rightarrow> nat list \<Rightarrow> 'c StateMapEntry" where
  "entry a ts limit budget pipe types = \<lparr>en_Agency = a, en_Transitions = ts, en_PendingMessageByteLimit = limit,
     en_PendingReceiveByteBudget = budget, en_AllowPipelinedSend = pipe, en_PipelinedMessageTypes = types\<rparr>"

subsection \<open>Match functions\<close>

text \<open>The contexts of Leios votes, the transaction monitor and Peras votes; every match function
  first asserts the type of its context.\<close>

record perasContext =
  px_maxObjectsUnacknowledged :: nat
  px_requestCount :: nat
  px_requestBlocking :: bool
  px_objectIDsRequestPending :: bool
  px_outstanding :: "nat list"
  px_requested :: "nat set"
  px_requestObjects :: "nat list"

datatype stateContext = NoContext | VotesContext nat | MonitorContext nat | PerasContext perasContext

type_synonym match_func = "stateContext \<Rightarrow> message \<Rightarrow> bool \<times> stateContext"

definition matchBlocking :: match_func where
  "matchBlocking ctx msg = (msg_Blocking msg, ctx)"

definition matchNonBlocking :: match_func where
  "matchNonBlocking ctx msg = (\<not> msg_Blocking msg, ctx)"

definition MaxRequestNextCount :: nat where
  "MaxRequestNextCount = 1000"

definition matchRequestNext :: match_func where
  "matchRequestNext ctx msg = (case ctx of
     VotesContext tokens \<Rightarrow>
       if msg_Count msg = 0 \<or> msg_Count msg > MaxRequestNextCount then (False, ctx)
       else (True, VotesContext (msg_Count msg))
   | _ \<Rightarrow> (False, ctx))"

definition matchVoteWithMorePending :: match_func where
  "matchVoteWithMorePending ctx msg = (case ctx of
     VotesContext tokens \<Rightarrow> if msg_Type msg \<noteq> 1 \<or> tokens \<le> 1 then (False, ctx) else (True, VotesContext (tokens - 1))
   | _ \<Rightarrow> (False, ctx))"

definition matchFinalVote :: match_func where
  "matchFinalVote ctx msg = (case ctx of
     VotesContext tokens \<Rightarrow> if msg_Type msg \<noteq> 1 \<or> tokens \<noteq> 1 then (False, ctx) else (True, VotesContext 0)
   | _ \<Rightarrow> (False, ctx))"

definition queryReplyTypes :: "nat \<rightharpoonup> nat" where
  "queryReplyTypes = [7 \<mapsto> 8, 5 \<mapsto> 6, 9 \<mapsto> 10]"

definition matchQuery :: match_func where
  "matchQuery ctx msg = (case ctx of
     MonitorContext query \<Rightarrow> (True, MonitorContext (msg_Type msg))
   | _ \<Rightarrow> (False, ctx))"

definition matchReply :: match_func where
  "matchReply ctx msg = (case ctx of
     MonitorContext query \<Rightarrow> (queryReplyTypes query = Some (msg_Type msg), ctx)
   | _ \<Rightarrow> (False, ctx))"

definition newPerasContext :: "nat \<Rightarrow> perasContext" where
  "newPerasContext mx = \<lparr>px_maxObjectsUnacknowledged = mx, px_requestCount = 0, px_requestBlocking = False,
     px_objectIDsRequestPending = False, px_outstanding = [], px_requested = {}, px_requestObjects = []\<rparr>"

definition matchObjectIDsRequest :: "bool \<Rightarrow> match_func" where
  "matchObjectIDsRequest blocking ctx msg = (case ctx of
     PerasContext x \<Rightarrow>
       if msg_Blocking msg \<noteq> blocking \<or> (blocking \<and> msg_Count msg = 0)
         \<or> (\<not> blocking \<and> msg_AckCount msg = 0 \<and> msg_Count msg = 0)
         \<or> msg_AckCount msg > length (px_outstanding x)
       then (False, ctx)
       else let remaining = length (px_outstanding x) - msg_AckCount msg in
         if blocking \<noteq> (remaining = 0) \<or> remaining + msg_Count msg > px_maxObjectsUnacknowledged x
         then (False, ctx)
         else (True, PerasContext (x\<lparr>px_requested := px_requested x - set (take (msg_AckCount msg) (px_outstanding x)),
           px_outstanding := drop (msg_AckCount msg) (px_outstanding x), px_requestCount := msg_Count msg,
           px_requestBlocking := blocking, px_objectIDsRequestPending := True\<rparr>))
   | _ \<Rightarrow> (False, ctx))"

definition matchBlockingObjectIDsRequest :: match_func where
  "matchBlockingObjectIDsRequest = matchObjectIDsRequest True"

definition matchNonBlockingObjectIDsRequest :: match_func where
  "matchNonBlockingObjectIDsRequest = matchObjectIDsRequest False"

fun seen_new :: "nat set \<Rightarrow> nat list \<Rightarrow> bool" where
  "seen_new seen [] = True"
| "seen_new seen (i # is) = (if i \<in> seen then False else seen_new (insert i seen) is)"

definition matchReplyObjectIDs :: match_func where
  "matchReplyObjectIDs ctx msg = (case ctx of
     PerasContext x \<Rightarrow>
       if \<not> px_objectIDsRequestPending x \<or> length (msg_ObjectIDs msg) > px_requestCount x
         \<or> (px_requestBlocking x \<and> length (msg_ObjectIDs msg) = 0)
         \<or> int (length (msg_ObjectIDs msg)) > int (px_maxObjectsUnacknowledged x) - int (length (px_outstanding x))
       then (False, ctx)
       else if \<not> seen_new (set (px_outstanding x)) (msg_ObjectIDs msg) then (False, ctx)
       else (True, PerasContext (x\<lparr>px_outstanding := px_outstanding x @ msg_ObjectIDs msg,
         px_requestCount := 0, px_objectIDsRequestPending := False\<rparr>))
   | _ \<Rightarrow> (False, ctx))"

fun requestable :: "perasContext \<Rightarrow> nat set \<Rightarrow> nat list \<Rightarrow> bool" where
  "requestable x seen [] = True"
| "requestable x seen (i # is) =
     (if i \<in> px_requested x then False
      else if i \<in> seen \<or> i \<notin> set (px_outstanding x) then False
      else requestable x (insert i seen) is)"

definition matchRequestObjects :: match_func where
  "matchRequestObjects ctx msg = (case ctx of
     PerasContext x \<Rightarrow>
       if msg_ObjectIDs msg = [] then (False, ctx)
       else if \<not> requestable x {} (msg_ObjectIDs msg) then (False, ctx)
       else (True, PerasContext (x\<lparr>px_requested := px_requested x \<union> set (msg_ObjectIDs msg),
         px_requestObjects := msg_ObjectIDs msg\<rparr>))
   | _ \<Rightarrow> (False, ctx))"

fun answers :: "nat set \<Rightarrow> nat set \<Rightarrow> nat option list \<Rightarrow> bool" where
  "answers requested seen [] = True"
| "answers requested seen (v # vs) =
     (case v of
        None \<Rightarrow> False
      | Some i \<Rightarrow> if i \<notin> requested then False
          else if i \<in> seen then False
          else answers requested (insert i seen) vs)"

definition matchReplyObjects :: match_func where
  "matchReplyObjects ctx msg = (case ctx of
     PerasContext x \<Rightarrow>
       if px_requestObjects x = [] \<or> length (msg_Objects msg) > length (px_requestObjects x) then (False, ctx)
       else if \<not> answers (set (px_requestObjects x)) {} (msg_Objects msg) then (False, ctx)
       else (True, PerasContext (x\<lparr>px_requestObjects := []\<rparr>))
   | _ \<Rightarrow> (False, ctx))"

subsection \<open>Block fetch\<close>

abbreviation (input) blockfetch_MessageTypeRequestRange :: nat where "blockfetch_MessageTypeRequestRange \<equiv> 0"
abbreviation (input) blockfetch_MessageTypeClientDone :: nat where "blockfetch_MessageTypeClientDone \<equiv> 1"
abbreviation (input) blockfetch_MessageTypeStartBatch :: nat where "blockfetch_MessageTypeStartBatch \<equiv> 2"
abbreviation (input) blockfetch_MessageTypeNoBlocks :: nat where "blockfetch_MessageTypeNoBlocks \<equiv> 3"
abbreviation (input) blockfetch_MessageTypeBlock :: nat where "blockfetch_MessageTypeBlock \<equiv> 4"
abbreviation (input) blockfetch_MessageTypeBatchDone :: nat where "blockfetch_MessageTypeBatchDone \<equiv> 5"

definition blockfetch_StateIdle :: State where
  "blockfetch_StateIdle = NewState 1 ''Idle''"

definition blockfetch_StateBusy :: State where
  "blockfetch_StateBusy = NewState 2 ''Busy''"

definition blockfetch_StateStreaming :: State where
  "blockfetch_StateStreaming = NewState 3 ''Streaming''"

definition blockfetch_StateDone :: State where
  "blockfetch_StateDone = NewState 4 ''Done''"

definition blockfetch_StateMap :: "stateContext StateMap" where
  "blockfetch_StateMap = [
   (blockfetch_StateIdle, entry AgencyClient [
     transition blockfetch_MessageTypeRequestRange blockfetch_StateBusy None,
     transition blockfetch_MessageTypeClientDone blockfetch_StateDone None] 65535 0 False []),
   (blockfetch_StateBusy, entry AgencyServer [
     transition blockfetch_MessageTypeStartBatch blockfetch_StateStreaming None,
     transition blockfetch_MessageTypeNoBlocks blockfetch_StateIdle None] 2500000 0 False [blockfetch_MessageTypeRequestRange]),
   (blockfetch_StateStreaming, entry AgencyServer [
     transition blockfetch_MessageTypeBlock blockfetch_StateStreaming None,
     transition blockfetch_MessageTypeBatchDone blockfetch_StateIdle None] 2500000 0 False [blockfetch_MessageTypeRequestRange]),
   (blockfetch_StateDone, entry AgencyNone [] 0 0 False [])]"

subsection \<open>Chain sync\<close>

abbreviation (input) chainsync_MessageTypeRequestNext :: nat where "chainsync_MessageTypeRequestNext \<equiv> 0"
abbreviation (input) chainsync_MessageTypeAwaitReply :: nat where "chainsync_MessageTypeAwaitReply \<equiv> 1"
abbreviation (input) chainsync_MessageTypeRollForward :: nat where "chainsync_MessageTypeRollForward \<equiv> 2"
abbreviation (input) chainsync_MessageTypeRollBackward :: nat where "chainsync_MessageTypeRollBackward \<equiv> 3"
abbreviation (input) chainsync_MessageTypeFindIntersect :: nat where "chainsync_MessageTypeFindIntersect \<equiv> 4"
abbreviation (input) chainsync_MessageTypeIntersectFound :: nat where "chainsync_MessageTypeIntersectFound \<equiv> 5"
abbreviation (input) chainsync_MessageTypeIntersectNotFound :: nat where "chainsync_MessageTypeIntersectNotFound \<equiv> 6"
abbreviation (input) chainsync_MessageTypeDone :: nat where "chainsync_MessageTypeDone \<equiv> 7"

definition chainsync_stateIdle :: State where
  "chainsync_stateIdle = NewState 1 ''Idle''"

definition chainsync_stateCanAwait :: State where
  "chainsync_stateCanAwait = NewState 2 ''CanAwait''"

definition chainsync_stateMustReply :: State where
  "chainsync_stateMustReply = NewState 3 ''MustReply''"

definition chainsync_stateIntersect :: State where
  "chainsync_stateIntersect = NewState 4 ''Intersect''"

definition chainsync_stateDone :: State where
  "chainsync_stateDone = NewState 5 ''Done''"

definition chainsync_idleTransitions :: "stateContext StateTransition list" where
  "chainsync_idleTransitions = [
     transition chainsync_MessageTypeRequestNext chainsync_stateCanAwait None,
     transition chainsync_MessageTypeFindIntersect chainsync_stateIntersect None,
     transition chainsync_MessageTypeDone chainsync_stateDone None]"

definition chainsync_canAwaitTransitions :: "stateContext StateTransition list" where
  "chainsync_canAwaitTransitions = [
     transition chainsync_MessageTypeAwaitReply chainsync_stateMustReply None,
     transition chainsync_MessageTypeRollForward chainsync_stateIdle None,
     transition chainsync_MessageTypeRollBackward chainsync_stateIdle None]"

definition chainsync_intersectTransitions :: "stateContext StateTransition list" where
  "chainsync_intersectTransitions = [
     transition chainsync_MessageTypeIntersectFound chainsync_stateIdle None,
     transition chainsync_MessageTypeIntersectNotFound chainsync_stateIdle None]"

definition chainsync_mustReplyTransitions :: "stateContext StateTransition list" where
  "chainsync_mustReplyTransitions = [
     transition chainsync_MessageTypeRollForward chainsync_stateIdle None,
     transition chainsync_MessageTypeRollBackward chainsync_stateIdle None]"

definition chainsync_StateMapNtN :: "stateContext StateMap" where
  "chainsync_StateMapNtN = [
   (chainsync_stateIdle, entry AgencyClient chainsync_idleTransitions 462000 0 False []),
   (chainsync_stateCanAwait, entry AgencyServer chainsync_canAwaitTransitions 462000 0 True [chainsync_MessageTypeRequestNext]),
   (chainsync_stateIntersect, entry AgencyServer chainsync_intersectTransitions 462000 0 False []),
   (chainsync_stateMustReply, entry AgencyServer chainsync_mustReplyTransitions 462000 0 False [chainsync_MessageTypeRequestNext]),
   (chainsync_stateDone, entry AgencyNone [] 462000 0 False [])]"

definition chainsync_StateMapNtC :: "stateContext StateMap" where
  "chainsync_StateMapNtC = [
   (chainsync_stateIdle, entry AgencyClient chainsync_idleTransitions 0 8388608 False []),
   (chainsync_stateCanAwait, entry AgencyServer chainsync_canAwaitTransitions 0 8388608 True [chainsync_MessageTypeRequestNext]),
   (chainsync_stateIntersect, entry AgencyServer chainsync_intersectTransitions 0 8388608 False []),
   (chainsync_stateMustReply, entry AgencyServer chainsync_mustReplyTransitions 0 8388608 False [chainsync_MessageTypeRequestNext]),
   (chainsync_stateDone, entry AgencyNone [] 0 8388608 False [])]"

subsection \<open>Handshake\<close>

abbreviation (input) handshake_MessageTypeProposeVersions :: nat where "handshake_MessageTypeProposeVersions \<equiv> 0"
abbreviation (input) handshake_MessageTypeAcceptVersion :: nat where "handshake_MessageTypeAcceptVersion \<equiv> 1"
abbreviation (input) handshake_MessageTypeRefuse :: nat where "handshake_MessageTypeRefuse \<equiv> 2"
abbreviation (input) handshake_MessageTypeQueryReply :: nat where "handshake_MessageTypeQueryReply \<equiv> 3"

definition handshake_statePropose :: State where
  "handshake_statePropose = NewState 1 ''Propose''"

definition handshake_stateConfirm :: State where
  "handshake_stateConfirm = NewState 2 ''Confirm''"

definition handshake_stateDone :: State where
  "handshake_stateDone = NewState 3 ''Done''"

definition handshake_confirmTransitions :: "stateContext StateTransition list" where
  "handshake_confirmTransitions = [
     transition handshake_MessageTypeAcceptVersion handshake_stateDone None,
     transition handshake_MessageTypeRefuse handshake_stateDone None,
     transition handshake_MessageTypeQueryReply handshake_stateDone None]"

definition handshake_proposeTransitions :: "stateContext StateTransition list" where
  "handshake_proposeTransitions = [
     transition handshake_MessageTypeProposeVersions handshake_stateConfirm None]"

definition handshake_StateMapNtN :: "stateContext StateMap" where
  "handshake_StateMapNtN = [
   (handshake_statePropose, entry AgencyClient handshake_proposeTransitions 5760 0 False []),
   (handshake_stateConfirm, entry AgencyServer handshake_confirmTransitions 5760 0 False []),
   (handshake_stateDone, entry AgencyNone [] 0 0 False [])]"

definition handshake_StateMapNtC :: "stateContext StateMap" where
  "handshake_StateMapNtC = [
   (handshake_statePropose, entry AgencyClient handshake_proposeTransitions 5760 0 False []),
   (handshake_stateConfirm, entry AgencyServer handshake_confirmTransitions 5760 0 False []),
   (handshake_stateDone, entry AgencyNone [] 0 0 False [])]"

subsection \<open>Keep alive\<close>

abbreviation (input) keepalive_MessageTypeKeepAlive :: nat where "keepalive_MessageTypeKeepAlive \<equiv> 0"
abbreviation (input) keepalive_MessageTypeKeepAliveResponse :: nat where "keepalive_MessageTypeKeepAliveResponse \<equiv> 1"
abbreviation (input) keepalive_MessageTypeDone :: nat where "keepalive_MessageTypeDone \<equiv> 2"

definition keepalive_StateClient :: State where
  "keepalive_StateClient = NewState 1 ''Client''"

definition keepalive_StateServer :: State where
  "keepalive_StateServer = NewState 2 ''Server''"

definition keepalive_StateDone :: State where
  "keepalive_StateDone = NewState 3 ''Done''"

definition keepalive_StateMap :: "stateContext StateMap" where
  "keepalive_StateMap = [
   (keepalive_StateClient, entry AgencyClient [
     transition keepalive_MessageTypeKeepAlive keepalive_StateServer None,
     transition keepalive_MessageTypeDone keepalive_StateDone None] 65535 0 False []),
   (keepalive_StateServer, entry AgencyServer [
     transition keepalive_MessageTypeKeepAliveResponse keepalive_StateClient None] 65535 0 False []),
   (keepalive_StateDone, entry AgencyNone [] 0 0 False [])]"

subsection \<open>Leios fetch\<close>

abbreviation (input) leiosfetch_MessageTypeDone :: nat where "leiosfetch_MessageTypeDone \<equiv> 0"
abbreviation (input) leiosfetch_MessageTypeBlockRequest :: nat where "leiosfetch_MessageTypeBlockRequest \<equiv> 1"
abbreviation (input) leiosfetch_MessageTypeBlock :: nat where "leiosfetch_MessageTypeBlock \<equiv> 2"
abbreviation (input) leiosfetch_MessageTypeBlockTxsRequest :: nat where "leiosfetch_MessageTypeBlockTxsRequest \<equiv> 3"
abbreviation (input) leiosfetch_MessageTypeBlockTxs :: nat where "leiosfetch_MessageTypeBlockTxs \<equiv> 4"
abbreviation (input) leiosfetch_MessageTypeVotesRequest :: nat where "leiosfetch_MessageTypeVotesRequest \<equiv> 10"
abbreviation (input) leiosfetch_MessageTypeVotes :: nat where "leiosfetch_MessageTypeVotes \<equiv> 11"
abbreviation (input) leiosfetch_MessageTypeBlockRangeRequest :: nat where "leiosfetch_MessageTypeBlockRangeRequest \<equiv> 12"
abbreviation (input) leiosfetch_MessageTypeNextBlockAndTxsInRange :: nat where "leiosfetch_MessageTypeNextBlockAndTxsInRange \<equiv> 13"
abbreviation (input) leiosfetch_MessageTypeLastBlockAndTxsInRange :: nat where "leiosfetch_MessageTypeLastBlockAndTxsInRange \<equiv> 14"

definition leiosfetch_StateIdle :: State where
  "leiosfetch_StateIdle = NewState 1 ''Idle''"

definition leiosfetch_StateBlock :: State where
  "leiosfetch_StateBlock = NewState 2 ''Block''"

definition leiosfetch_StateBlockTxs :: State where
  "leiosfetch_StateBlockTxs = NewState 3 ''BlockTxs''"

definition leiosfetch_StateVotes :: State where
  "leiosfetch_StateVotes = NewState 4 ''Votes''"

definition leiosfetch_StateBlockRange :: State where
  "leiosfetch_StateBlockRange = NewState 5 ''BlockRange''"

definition leiosfetch_StateDone :: State where
  "leiosfetch_StateDone = NewState 6 ''Done''"

definition leiosfetch_pipelinedFetchRequests :: "nat list" where
  "leiosfetch_pipelinedFetchRequests = [leiosfetch_MessageTypeBlockRequest, leiosfetch_MessageTypeBlockTxsRequest]"

definition leiosfetch_StateMap :: "stateContext StateMap" where
  "leiosfetch_StateMap = [
   (leiosfetch_StateIdle, entry AgencyClient [
     transition leiosfetch_MessageTypeBlockRequest leiosfetch_StateBlock None,
     transition leiosfetch_MessageTypeBlockTxsRequest leiosfetch_StateBlockTxs None,
     transition leiosfetch_MessageTypeVotesRequest leiosfetch_StateVotes None,
     transition leiosfetch_MessageTypeBlockRangeRequest leiosfetch_StateBlockRange None,
     transition leiosfetch_MessageTypeDone leiosfetch_StateDone None] 65535 0 False []),
   (leiosfetch_StateBlock, entry AgencyServer [
     transition leiosfetch_MessageTypeBlock leiosfetch_StateIdle None] 660000 0 False leiosfetch_pipelinedFetchRequests),
   (leiosfetch_StateBlockTxs, entry AgencyServer [
     transition leiosfetch_MessageTypeBlockTxs leiosfetch_StateIdle None] 550000 0 False leiosfetch_pipelinedFetchRequests),
   (leiosfetch_StateVotes, entry AgencyServer [
     transition leiosfetch_MessageTypeVotes leiosfetch_StateIdle None] 0 0 False []),
   (leiosfetch_StateBlockRange, entry AgencyServer [
     transition leiosfetch_MessageTypeNextBlockAndTxsInRange leiosfetch_StateBlockRange None,
     transition leiosfetch_MessageTypeLastBlockAndTxsInRange leiosfetch_StateIdle None] 0 0 False []),
   (leiosfetch_StateDone, entry AgencyNone [] 0 0 False [])]"

subsection \<open>Leios notify\<close>

abbreviation (input) leiosnotify_MessageTypeDone :: nat where "leiosnotify_MessageTypeDone \<equiv> 0"
abbreviation (input) leiosnotify_MessageTypeQuit :: nat where "leiosnotify_MessageTypeQuit \<equiv> 1"
abbreviation (input) leiosnotify_MessageTypeCanceled :: nat where "leiosnotify_MessageTypeCanceled \<equiv> 2"
abbreviation (input) leiosnotify_MessageTypeNotificationRequestNext :: nat where "leiosnotify_MessageTypeNotificationRequestNext \<equiv> 3"
abbreviation (input) leiosnotify_MessageTypeBlockAnnouncement :: nat where "leiosnotify_MessageTypeBlockAnnouncement \<equiv> 4"
abbreviation (input) leiosnotify_MessageTypeBlockOffer :: nat where "leiosnotify_MessageTypeBlockOffer \<equiv> 5"
abbreviation (input) leiosnotify_MessageTypeBlockTxsOffer :: nat where "leiosnotify_MessageTypeBlockTxsOffer \<equiv> 6"
abbreviation (input) leiosnotify_MessageTypeVotesOffer :: nat where "leiosnotify_MessageTypeVotesOffer \<equiv> 7"

definition leiosnotify_StateIdle :: State where
  "leiosnotify_StateIdle = NewState 1 ''Idle''"

definition leiosnotify_StateBusy :: State where
  "leiosnotify_StateBusy = NewState 2 ''Busy''"

definition leiosnotify_StateDone :: State where
  "leiosnotify_StateDone = NewState 3 ''Done''"

definition leiosnotify_StateQuit :: State where
  "leiosnotify_StateQuit = NewState 4 ''Quit''"

definition leiosnotify_StateMap :: "stateContext StateMap" where
  "leiosnotify_StateMap = [
   (leiosnotify_StateIdle, entry AgencyClient [
     transition leiosnotify_MessageTypeNotificationRequestNext leiosnotify_StateBusy None,
     transition leiosnotify_MessageTypeQuit leiosnotify_StateQuit None] 655350 0 False []),
   (leiosnotify_StateBusy, entry AgencyServer [
     transition leiosnotify_MessageTypeBlockAnnouncement leiosnotify_StateIdle None,
     transition leiosnotify_MessageTypeBlockOffer leiosnotify_StateIdle None,
     transition leiosnotify_MessageTypeBlockTxsOffer leiosnotify_StateIdle None,
     transition leiosnotify_MessageTypeVotesOffer leiosnotify_StateIdle None,
     transition leiosnotify_MessageTypeCanceled leiosnotify_StateIdle None] 655350 0 True [leiosnotify_MessageTypeNotificationRequestNext, leiosnotify_MessageTypeQuit]),
   (leiosnotify_StateQuit, entry AgencyServer [
     transition leiosnotify_MessageTypeDone leiosnotify_StateDone None] 655350 0 False []),
   (leiosnotify_StateDone, entry AgencyNone [] 655350 0 False [])]"

subsection \<open>Leios votes\<close>

abbreviation (input) leiosvotes_MessageTypeVotesRequestNext :: nat where "leiosvotes_MessageTypeVotesRequestNext \<equiv> 0"
abbreviation (input) leiosvotes_MessageTypeVote :: nat where "leiosvotes_MessageTypeVote \<equiv> 1"
abbreviation (input) leiosvotes_MessageTypeDone :: nat where "leiosvotes_MessageTypeDone \<equiv> 2"

definition leiosvotes_StateIdle :: State where
  "leiosvotes_StateIdle = NewState 1 ''Idle''"

definition leiosvotes_StateBusy :: State where
  "leiosvotes_StateBusy = NewState 2 ''Busy''"

definition leiosvotes_StateDone :: State where
  "leiosvotes_StateDone = NewState 3 ''Done''"

definition leiosvotes_StateMap :: "stateContext StateMap" where
  "leiosvotes_StateMap = [
   (leiosvotes_StateIdle, entry AgencyClient [
     transition leiosvotes_MessageTypeVotesRequestNext leiosvotes_StateBusy (Some matchRequestNext),
     transition leiosvotes_MessageTypeDone leiosvotes_StateDone None] 0 0 False []),
   (leiosvotes_StateBusy, entry AgencyServer [
     transition leiosvotes_MessageTypeVote leiosvotes_StateBusy (Some matchVoteWithMorePending),
     transition leiosvotes_MessageTypeVote leiosvotes_StateIdle (Some matchFinalVote)] 0 0 False []),
   (leiosvotes_StateDone, entry AgencyNone [] 0 0 False [])]"

subsection \<open>Local message notification\<close>

abbreviation (input) localmessagenotification_MessageTypeRequestMessages :: nat where "localmessagenotification_MessageTypeRequestMessages \<equiv> 0"
abbreviation (input) localmessagenotification_MessageTypeReplyMessagesNonBlocking :: nat where "localmessagenotification_MessageTypeReplyMessagesNonBlocking \<equiv> 1"
abbreviation (input) localmessagenotification_MessageTypeReplyMessagesBlocking :: nat where "localmessagenotification_MessageTypeReplyMessagesBlocking \<equiv> 2"
abbreviation (input) localmessagenotification_MessageTypeClientDone :: nat where "localmessagenotification_MessageTypeClientDone \<equiv> 3"

definition localmessagenotification_protocolStateIdle :: State where
  "localmessagenotification_protocolStateIdle = NewState 1 ''idle''"

definition localmessagenotification_protocolStateBusyNonBlock :: State where
  "localmessagenotification_protocolStateBusyNonBlock = NewState 2 ''busyNonBlocking''"

definition localmessagenotification_protocolStateBusyBlock :: State where
  "localmessagenotification_protocolStateBusyBlock = NewState 3 ''busyBlocking''"

definition localmessagenotification_protocolStateDone :: State where
  "localmessagenotification_protocolStateDone = NewState 4 ''done''"

definition localmessagenotification_stateMap :: "stateContext StateMap" where
  "localmessagenotification_stateMap = [
   (localmessagenotification_protocolStateIdle, entry AgencyClient [
     transition localmessagenotification_MessageTypeRequestMessages localmessagenotification_protocolStateBusyNonBlock (Some matchNonBlocking),
     transition localmessagenotification_MessageTypeRequestMessages localmessagenotification_protocolStateBusyBlock (Some matchBlocking),
     transition localmessagenotification_MessageTypeClientDone localmessagenotification_protocolStateDone None] 0 0 False []),
   (localmessagenotification_protocolStateBusyNonBlock, entry AgencyServer [
     transition localmessagenotification_MessageTypeReplyMessagesNonBlocking localmessagenotification_protocolStateIdle None] 0 0 False []),
   (localmessagenotification_protocolStateBusyBlock, entry AgencyServer [
     transition localmessagenotification_MessageTypeReplyMessagesBlocking localmessagenotification_protocolStateIdle None] 0 0 False []),
   (localmessagenotification_protocolStateDone, entry AgencyNone [] 0 0 False [])]"

subsection \<open>Local message submission\<close>

abbreviation (input) localmessagesubmission_MessageTypeSubmitMessage :: nat where "localmessagesubmission_MessageTypeSubmitMessage \<equiv> 0"
abbreviation (input) localmessagesubmission_MessageTypeAcceptMessage :: nat where "localmessagesubmission_MessageTypeAcceptMessage \<equiv> 1"
abbreviation (input) localmessagesubmission_MessageTypeRejectMessage :: nat where "localmessagesubmission_MessageTypeRejectMessage \<equiv> 2"
abbreviation (input) localmessagesubmission_MessageTypeDone :: nat where "localmessagesubmission_MessageTypeDone \<equiv> 3"

definition localmessagesubmission_protocolStateIdle :: State where
  "localmessagesubmission_protocolStateIdle = NewState 1 ''idle''"

definition localmessagesubmission_protocolStateBusy :: State where
  "localmessagesubmission_protocolStateBusy = NewState 2 ''busy''"

definition localmessagesubmission_protocolStateDone :: State where
  "localmessagesubmission_protocolStateDone = NewState 3 ''done''"

definition localmessagesubmission_stateMap :: "stateContext StateMap" where
  "localmessagesubmission_stateMap = [
   (localmessagesubmission_protocolStateIdle, entry AgencyClient [
     transition localmessagesubmission_MessageTypeSubmitMessage localmessagesubmission_protocolStateBusy None,
     transition localmessagesubmission_MessageTypeDone localmessagesubmission_protocolStateDone None] 0 0 False []),
   (localmessagesubmission_protocolStateBusy, entry AgencyServer [
     transition localmessagesubmission_MessageTypeAcceptMessage localmessagesubmission_protocolStateIdle None,
     transition localmessagesubmission_MessageTypeRejectMessage localmessagesubmission_protocolStateIdle None] 0 0 False []),
   (localmessagesubmission_protocolStateDone, entry AgencyNone [] 0 0 False [])]"

subsection \<open>Local state query\<close>

abbreviation (input) localstatequery_MessageTypeAcquire :: nat where "localstatequery_MessageTypeAcquire \<equiv> 0"
abbreviation (input) localstatequery_MessageTypeAcquired :: nat where "localstatequery_MessageTypeAcquired \<equiv> 1"
abbreviation (input) localstatequery_MessageTypeFailure :: nat where "localstatequery_MessageTypeFailure \<equiv> 2"
abbreviation (input) localstatequery_MessageTypeQuery :: nat where "localstatequery_MessageTypeQuery \<equiv> 3"
abbreviation (input) localstatequery_MessageTypeResult :: nat where "localstatequery_MessageTypeResult \<equiv> 4"
abbreviation (input) localstatequery_MessageTypeRelease :: nat where "localstatequery_MessageTypeRelease \<equiv> 5"
abbreviation (input) localstatequery_MessageTypeReacquire :: nat where "localstatequery_MessageTypeReacquire \<equiv> 6"
abbreviation (input) localstatequery_MessageTypeDone :: nat where "localstatequery_MessageTypeDone \<equiv> 7"
abbreviation (input) localstatequery_MessageTypeAcquireVolatileTip :: nat where "localstatequery_MessageTypeAcquireVolatileTip \<equiv> 8"
abbreviation (input) localstatequery_MessageTypeReacquireVolatileTip :: nat where "localstatequery_MessageTypeReacquireVolatileTip \<equiv> 9"
abbreviation (input) localstatequery_MessageTypeAcquireImmutableTip :: nat where "localstatequery_MessageTypeAcquireImmutableTip \<equiv> 10"
abbreviation (input) localstatequery_MessageTypeReacquireImmutableTip :: nat where "localstatequery_MessageTypeReacquireImmutableTip \<equiv> 11"

definition localstatequery_stateIdle :: State where
  "localstatequery_stateIdle = NewState 1 ''Idle''"

definition localstatequery_stateAcquiring :: State where
  "localstatequery_stateAcquiring = NewState 2 ''Acquiring''"

definition localstatequery_stateAcquired :: State where
  "localstatequery_stateAcquired = NewState 3 ''Acquired''"

definition localstatequery_stateQuerying :: State where
  "localstatequery_stateQuerying = NewState 4 ''Querying''"

definition localstatequery_stateDone :: State where
  "localstatequery_stateDone = NewState 5 ''Done''"

definition localstatequery_StateMap :: "stateContext StateMap" where
  "localstatequery_StateMap = [
   (localstatequery_stateIdle, entry AgencyClient [
     transition localstatequery_MessageTypeAcquire localstatequery_stateAcquiring None,
     transition localstatequery_MessageTypeAcquireVolatileTip localstatequery_stateAcquiring None,
     transition localstatequery_MessageTypeAcquireImmutableTip localstatequery_stateAcquiring None,
     transition localstatequery_MessageTypeDone localstatequery_stateDone None] 0 0 False []),
   (localstatequery_stateAcquiring, entry AgencyServer [
     transition localstatequery_MessageTypeFailure localstatequery_stateIdle None,
     transition localstatequery_MessageTypeAcquired localstatequery_stateAcquired None] 0 0 False []),
   (localstatequery_stateAcquired, entry AgencyClient [
     transition localstatequery_MessageTypeQuery localstatequery_stateQuerying None,
     transition localstatequery_MessageTypeReacquire localstatequery_stateAcquiring None,
     transition localstatequery_MessageTypeReacquireVolatileTip localstatequery_stateAcquiring None,
     transition localstatequery_MessageTypeReacquireImmutableTip localstatequery_stateAcquiring None,
     transition localstatequery_MessageTypeRelease localstatequery_stateIdle None] 0 0 False []),
   (localstatequery_stateQuerying, entry AgencyServer [
     transition localstatequery_MessageTypeResult localstatequery_stateAcquired None] 0 0 False []),
   (localstatequery_stateDone, entry AgencyNone [] 0 0 False [])]"

subsection \<open>Local transaction monitor\<close>

abbreviation (input) localtxmonitor_MessageTypeDone :: nat where "localtxmonitor_MessageTypeDone \<equiv> 0"
abbreviation (input) localtxmonitor_MessageTypeAcquire :: nat where "localtxmonitor_MessageTypeAcquire \<equiv> 1"
abbreviation (input) localtxmonitor_MessageTypeAcquired :: nat where "localtxmonitor_MessageTypeAcquired \<equiv> 2"
abbreviation (input) localtxmonitor_MessageTypeRelease :: nat where "localtxmonitor_MessageTypeRelease \<equiv> 3"
abbreviation (input) localtxmonitor_MessageTypeNextTx :: nat where "localtxmonitor_MessageTypeNextTx \<equiv> 5"
abbreviation (input) localtxmonitor_MessageTypeReplyNextTx :: nat where "localtxmonitor_MessageTypeReplyNextTx \<equiv> 6"
abbreviation (input) localtxmonitor_MessageTypeHasTx :: nat where "localtxmonitor_MessageTypeHasTx \<equiv> 7"
abbreviation (input) localtxmonitor_MessageTypeReplyHasTx :: nat where "localtxmonitor_MessageTypeReplyHasTx \<equiv> 8"
abbreviation (input) localtxmonitor_MessageTypeGetSizes :: nat where "localtxmonitor_MessageTypeGetSizes \<equiv> 9"
abbreviation (input) localtxmonitor_MessageTypeReplyGetSizes :: nat where "localtxmonitor_MessageTypeReplyGetSizes \<equiv> 10"

definition localtxmonitor_stateIdle :: State where
  "localtxmonitor_stateIdle = NewState 1 ''Idle''"

definition localtxmonitor_stateAcquiring :: State where
  "localtxmonitor_stateAcquiring = NewState 2 ''Acquiring''"

definition localtxmonitor_stateAcquired :: State where
  "localtxmonitor_stateAcquired = NewState 3 ''Acquired''"

definition localtxmonitor_stateBusy :: State where
  "localtxmonitor_stateBusy = NewState 4 ''Busy''"

definition localtxmonitor_stateDone :: State where
  "localtxmonitor_stateDone = NewState 5 ''Done''"

definition localtxmonitor_StateMap :: "stateContext StateMap" where
  "localtxmonitor_StateMap = [
   (localtxmonitor_stateIdle, entry AgencyClient [
     transition localtxmonitor_MessageTypeAcquire localtxmonitor_stateAcquiring None,
     transition localtxmonitor_MessageTypeDone localtxmonitor_stateDone None] 0 0 False []),
   (localtxmonitor_stateAcquiring, entry AgencyServer [
     transition localtxmonitor_MessageTypeAcquired localtxmonitor_stateAcquired None] 0 0 False []),
   (localtxmonitor_stateAcquired, entry AgencyClient [
     transition localtxmonitor_MessageTypeAcquire localtxmonitor_stateAcquiring None,
     transition localtxmonitor_MessageTypeRelease localtxmonitor_stateIdle None,
     transition localtxmonitor_MessageTypeHasTx localtxmonitor_stateBusy (Some matchQuery),
     transition localtxmonitor_MessageTypeNextTx localtxmonitor_stateBusy (Some matchQuery),
     transition localtxmonitor_MessageTypeGetSizes localtxmonitor_stateBusy (Some matchQuery)] 0 0 False []),
   (localtxmonitor_stateBusy, entry AgencyServer [
     transition localtxmonitor_MessageTypeReplyHasTx localtxmonitor_stateAcquired (Some matchReply),
     transition localtxmonitor_MessageTypeReplyNextTx localtxmonitor_stateAcquired (Some matchReply),
     transition localtxmonitor_MessageTypeReplyGetSizes localtxmonitor_stateAcquired (Some matchReply)] 0 0 False []),
   (localtxmonitor_stateDone, entry AgencyNone [] 0 0 False [])]"

subsection \<open>Local transaction submission\<close>

abbreviation (input) localtxsubmission_MessageTypeSubmitTx :: nat where "localtxsubmission_MessageTypeSubmitTx \<equiv> 0"
abbreviation (input) localtxsubmission_MessageTypeAcceptTx :: nat where "localtxsubmission_MessageTypeAcceptTx \<equiv> 1"
abbreviation (input) localtxsubmission_MessageTypeRejectTx :: nat where "localtxsubmission_MessageTypeRejectTx \<equiv> 2"
abbreviation (input) localtxsubmission_MessageTypeDone :: nat where "localtxsubmission_MessageTypeDone \<equiv> 3"

definition localtxsubmission_stateIdle :: State where
  "localtxsubmission_stateIdle = NewState 1 ''Idle''"

definition localtxsubmission_stateBusy :: State where
  "localtxsubmission_stateBusy = NewState 2 ''Busy''"

definition localtxsubmission_stateDone :: State where
  "localtxsubmission_stateDone = NewState 3 ''Done''"

definition localtxsubmission_StateMap :: "stateContext StateMap" where
  "localtxsubmission_StateMap = [
   (localtxsubmission_stateIdle, entry AgencyClient [
     transition localtxsubmission_MessageTypeSubmitTx localtxsubmission_stateBusy None,
     transition localtxsubmission_MessageTypeDone localtxsubmission_stateDone None] 0 0 False []),
   (localtxsubmission_stateBusy, entry AgencyServer [
     transition localtxsubmission_MessageTypeAcceptTx localtxsubmission_stateIdle None,
     transition localtxsubmission_MessageTypeRejectTx localtxsubmission_stateIdle None] 0 0 False []),
   (localtxsubmission_stateDone, entry AgencyNone [] 0 0 False [])]"

subsection \<open>Message submission\<close>

abbreviation (input) messagesubmission_MessageTypeInit :: nat where "messagesubmission_MessageTypeInit \<equiv> 0"
abbreviation (input) messagesubmission_MessageTypeRequestMessageIds :: nat where "messagesubmission_MessageTypeRequestMessageIds \<equiv> 1"
abbreviation (input) messagesubmission_MessageTypeReplyMessageIds :: nat where "messagesubmission_MessageTypeReplyMessageIds \<equiv> 2"
abbreviation (input) messagesubmission_MessageTypeRequestMessages :: nat where "messagesubmission_MessageTypeRequestMessages \<equiv> 3"
abbreviation (input) messagesubmission_MessageTypeReplyMessages :: nat where "messagesubmission_MessageTypeReplyMessages \<equiv> 4"
abbreviation (input) messagesubmission_MessageTypeDone :: nat where "messagesubmission_MessageTypeDone \<equiv> 5"

definition messagesubmission_protocolStateInit :: State where
  "messagesubmission_protocolStateInit = NewState 1 ''init''"

definition messagesubmission_protocolStateIdle :: State where
  "messagesubmission_protocolStateIdle = NewState 2 ''idle''"

definition messagesubmission_protocolStateMessageIdsBlock :: State where
  "messagesubmission_protocolStateMessageIdsBlock = NewState 3 ''messageIdsBlocking''"

definition messagesubmission_protocolStateMessageIdsNonBlk :: State where
  "messagesubmission_protocolStateMessageIdsNonBlk = NewState 4 ''messageIdsNonBlocking''"

definition messagesubmission_protocolStateMessages :: State where
  "messagesubmission_protocolStateMessages = NewState 5 ''messages''"

definition messagesubmission_protocolStateDone :: State where
  "messagesubmission_protocolStateDone = NewState 6 ''done''"

definition messagesubmission_stateMapV1 :: "stateContext StateMap" where
  "messagesubmission_stateMapV1 = [
   (messagesubmission_protocolStateInit, entry AgencyClient [
     transition messagesubmission_MessageTypeInit messagesubmission_protocolStateIdle None] 0 0 False []),
   (messagesubmission_protocolStateIdle, entry AgencyServer [
     transition messagesubmission_MessageTypeRequestMessageIds messagesubmission_protocolStateMessageIdsBlock (Some matchBlocking),
     transition messagesubmission_MessageTypeRequestMessageIds messagesubmission_protocolStateMessageIdsNonBlk (Some matchNonBlocking),
     transition messagesubmission_MessageTypeRequestMessages messagesubmission_protocolStateMessages None] 0 0 False []),
   (messagesubmission_protocolStateMessageIdsBlock, entry AgencyClient [
     transition messagesubmission_MessageTypeReplyMessageIds messagesubmission_protocolStateIdle None,
     transition messagesubmission_MessageTypeDone messagesubmission_protocolStateDone None] 0 0 False []),
   (messagesubmission_protocolStateMessageIdsNonBlk, entry AgencyClient [
     transition messagesubmission_MessageTypeReplyMessageIds messagesubmission_protocolStateIdle None] 0 0 False []),
   (messagesubmission_protocolStateMessages, entry AgencyClient [
     transition messagesubmission_MessageTypeReplyMessages messagesubmission_protocolStateIdle None] 0 0 False []),
   (messagesubmission_protocolStateDone, entry AgencyNone [] 0 0 False [])]"

definition messagesubmission_stateMapV2 :: "stateContext StateMap" where
  "messagesubmission_stateMapV2 = [
   (messagesubmission_protocolStateIdle, entry AgencyServer [
     transition messagesubmission_MessageTypeRequestMessageIds messagesubmission_protocolStateMessageIdsBlock (Some matchBlocking),
     transition messagesubmission_MessageTypeRequestMessageIds messagesubmission_protocolStateMessageIdsNonBlk (Some matchNonBlocking),
     transition messagesubmission_MessageTypeRequestMessages messagesubmission_protocolStateMessages None,
     transition messagesubmission_MessageTypeDone messagesubmission_protocolStateDone None] 0 0 False []),
   (messagesubmission_protocolStateMessageIdsBlock, entry AgencyClient [
     transition messagesubmission_MessageTypeReplyMessageIds messagesubmission_protocolStateIdle None] 0 0 False []),
   (messagesubmission_protocolStateMessageIdsNonBlk, entry AgencyClient [
     transition messagesubmission_MessageTypeReplyMessageIds messagesubmission_protocolStateIdle None] 0 0 False []),
   (messagesubmission_protocolStateMessages, entry AgencyClient [
     transition messagesubmission_MessageTypeReplyMessages messagesubmission_protocolStateIdle None] 0 0 False []),
   (messagesubmission_protocolStateDone, entry AgencyNone [] 0 0 False [])]"

subsection \<open>Peer sharing\<close>

abbreviation (input) peersharing_MessageTypeShareRequest :: nat where "peersharing_MessageTypeShareRequest \<equiv> 0"
abbreviation (input) peersharing_MessageTypeSharePeers :: nat where "peersharing_MessageTypeSharePeers \<equiv> 1"
abbreviation (input) peersharing_MessageTypeDone :: nat where "peersharing_MessageTypeDone \<equiv> 2"

definition peersharing_stateIdle :: State where
  "peersharing_stateIdle = NewState 1 ''Idle''"

definition peersharing_stateBusy :: State where
  "peersharing_stateBusy = NewState 2 ''Busy''"

definition peersharing_stateDone :: State where
  "peersharing_stateDone = NewState 3 ''Done''"

definition peersharing_StateMap :: "stateContext StateMap" where
  "peersharing_StateMap = [
   (peersharing_stateIdle, entry AgencyClient [
     transition peersharing_MessageTypeShareRequest peersharing_stateBusy None,
     transition peersharing_MessageTypeDone peersharing_stateDone None] 5760 0 False []),
   (peersharing_stateBusy, entry AgencyServer [
     transition peersharing_MessageTypeSharePeers peersharing_stateIdle None] 5760 0 False []),
   (peersharing_stateDone, entry AgencyNone [] 0 0 False [])]"

subsection \<open>Peras votes\<close>

abbreviation (input) perasvotes_MessageTypeInit :: nat where "perasvotes_MessageTypeInit \<equiv> 0"
abbreviation (input) perasvotes_MessageTypeRequestObjectIDs :: nat where "perasvotes_MessageTypeRequestObjectIDs \<equiv> 1"
abbreviation (input) perasvotes_MessageTypeReplyObjectIDs :: nat where "perasvotes_MessageTypeReplyObjectIDs \<equiv> 2"
abbreviation (input) perasvotes_MessageTypeRequestObjects :: nat where "perasvotes_MessageTypeRequestObjects \<equiv> 3"
abbreviation (input) perasvotes_MessageTypeReplyObjects :: nat where "perasvotes_MessageTypeReplyObjects \<equiv> 4"
abbreviation (input) perasvotes_MessageTypeDone :: nat where "perasvotes_MessageTypeDone \<equiv> 5"

definition perasvotes_StateInit :: State where
  "perasvotes_StateInit = NewState 1 ''Init''"

definition perasvotes_StateIdle :: State where
  "perasvotes_StateIdle = NewState 2 ''Idle''"

definition perasvotes_StateObjectIDsBlocking :: State where
  "perasvotes_StateObjectIDsBlocking = NewState 3 ''ObjectIDsBlocking''"

definition perasvotes_StateObjectIDsNonBlocking :: State where
  "perasvotes_StateObjectIDsNonBlocking = NewState 4 ''ObjectIDsNonBlocking''"

definition perasvotes_StateObjects :: State where
  "perasvotes_StateObjects = NewState 5 ''Objects''"

definition perasvotes_StateDone :: State where
  "perasvotes_StateDone = NewState 6 ''Done''"

definition perasvotes_StateMap :: "stateContext StateMap" where
  "perasvotes_StateMap = [
   (perasvotes_StateInit, entry AgencyClient [
     transition perasvotes_MessageTypeInit perasvotes_StateIdle None] 0 0 False []),
   (perasvotes_StateIdle, entry AgencyClient [
     transition perasvotes_MessageTypeRequestObjectIDs perasvotes_StateObjectIDsBlocking (Some matchBlockingObjectIDsRequest),
     transition perasvotes_MessageTypeRequestObjectIDs perasvotes_StateObjectIDsNonBlocking (Some matchNonBlockingObjectIDsRequest),
     transition perasvotes_MessageTypeRequestObjects perasvotes_StateObjects (Some matchRequestObjects),
     transition perasvotes_MessageTypeDone perasvotes_StateDone None] 0 0 False []),
   (perasvotes_StateObjectIDsBlocking, entry AgencyServer [
     transition perasvotes_MessageTypeReplyObjectIDs perasvotes_StateIdle (Some matchReplyObjectIDs)] 0 0 False []),
   (perasvotes_StateObjectIDsNonBlocking, entry AgencyServer [
     transition perasvotes_MessageTypeReplyObjectIDs perasvotes_StateIdle (Some matchReplyObjectIDs)] 0 0 False []),
   (perasvotes_StateObjects, entry AgencyServer [
     transition perasvotes_MessageTypeReplyObjects perasvotes_StateIdle (Some matchReplyObjects)] 0 0 False []),
   (perasvotes_StateDone, entry AgencyNone [] 0 0 False [])]"

subsection \<open>Transaction submission\<close>

abbreviation (input) txsubmission_MessageTypeRequestTxIds :: nat where "txsubmission_MessageTypeRequestTxIds \<equiv> 0"
abbreviation (input) txsubmission_MessageTypeReplyTxIds :: nat where "txsubmission_MessageTypeReplyTxIds \<equiv> 1"
abbreviation (input) txsubmission_MessageTypeRequestTxs :: nat where "txsubmission_MessageTypeRequestTxs \<equiv> 2"
abbreviation (input) txsubmission_MessageTypeReplyTxs :: nat where "txsubmission_MessageTypeReplyTxs \<equiv> 3"
abbreviation (input) txsubmission_MessageTypeDone :: nat where "txsubmission_MessageTypeDone \<equiv> 4"
abbreviation (input) txsubmission_MessageTypeInit :: nat where "txsubmission_MessageTypeInit \<equiv> 6"

definition txsubmission_stateInit :: State where
  "txsubmission_stateInit = NewState 1 ''Init''"

definition txsubmission_stateIdle :: State where
  "txsubmission_stateIdle = NewState 2 ''Idle''"

definition txsubmission_stateTxIdsBlocking :: State where
  "txsubmission_stateTxIdsBlocking = NewState 3 ''TxIdsBlocking''"

definition txsubmission_stateTxIdsNonblocking :: State where
  "txsubmission_stateTxIdsNonblocking = NewState 4 ''TxIdsNonBlocking''"

definition txsubmission_stateTxs :: State where
  "txsubmission_stateTxs = NewState 5 ''Txs''"

definition txsubmission_stateDone :: State where
  "txsubmission_stateDone = NewState 6 ''Done''"

definition txsubmission_StateMap :: "stateContext StateMap" where
  "txsubmission_StateMap = [
   (txsubmission_stateInit, entry AgencyClient [
     transition txsubmission_MessageTypeInit txsubmission_stateIdle None] 65535 0 False []),
   (txsubmission_stateIdle, entry AgencyServer [
     transition txsubmission_MessageTypeRequestTxIds txsubmission_stateTxIdsBlocking (Some matchBlocking),
     transition txsubmission_MessageTypeRequestTxIds txsubmission_stateTxIdsNonblocking (Some matchNonBlocking),
     transition txsubmission_MessageTypeRequestTxs txsubmission_stateTxs None] 65535 0 False []),
   (txsubmission_stateTxIdsBlocking, entry AgencyClient [
     transition txsubmission_MessageTypeReplyTxIds txsubmission_stateIdle None,
     transition txsubmission_MessageTypeDone txsubmission_stateDone None] 2500000 0 False []),
   (txsubmission_stateTxIdsNonblocking, entry AgencyClient [
     transition txsubmission_MessageTypeReplyTxIds txsubmission_stateIdle None] 2500000 0 False [txsubmission_MessageTypeRequestTxIds, txsubmission_MessageTypeRequestTxs]),
   (txsubmission_stateTxs, entry AgencyClient [
     transition txsubmission_MessageTypeReplyTxs txsubmission_stateIdle None] 2500000 0 False [txsubmission_MessageTypeRequestTxIds, txsubmission_MessageTypeRequestTxs]),
   (txsubmission_stateDone, entry AgencyNone [] 65535 0 False [])]"

subsection \<open>The mini-protocols\<close>

definition miniProtocols :: "(string \<times> stateContext StateMap \<times> State \<times> stateContext) list" where
  "miniProtocols = [
   (''blockfetch_StateMap'', blockfetch_StateMap, blockfetch_StateIdle, NoContext),
   (''chainsync_StateMapNtN'', chainsync_StateMapNtN, chainsync_stateIdle, NoContext),
   (''chainsync_StateMapNtC'', chainsync_StateMapNtC, chainsync_stateIdle, NoContext),
   (''handshake_StateMapNtN'', handshake_StateMapNtN, handshake_statePropose, NoContext),
   (''handshake_StateMapNtC'', handshake_StateMapNtC, handshake_statePropose, NoContext),
   (''keepalive_StateMap'', keepalive_StateMap, keepalive_StateClient, NoContext),
   (''leiosfetch_StateMap'', leiosfetch_StateMap, leiosfetch_StateIdle, NoContext),
   (''leiosnotify_StateMap'', leiosnotify_StateMap, leiosnotify_StateIdle, NoContext),
   (''leiosvotes_StateMap'', leiosvotes_StateMap, leiosvotes_StateIdle, VotesContext 0),
   (''localmessagenotification_stateMap'', localmessagenotification_stateMap, localmessagenotification_protocolStateIdle, NoContext),
   (''localmessagesubmission_stateMap'', localmessagesubmission_stateMap, localmessagesubmission_protocolStateIdle, NoContext),
   (''localstatequery_StateMap'', localstatequery_StateMap, localstatequery_stateIdle, NoContext),
   (''localtxmonitor_StateMap'', localtxmonitor_StateMap, localtxmonitor_stateIdle, MonitorContext 0),
   (''localtxsubmission_StateMap'', localtxsubmission_StateMap, localtxsubmission_stateIdle, NoContext),
   (''messagesubmission_stateMapV1'', messagesubmission_stateMapV1, messagesubmission_protocolStateInit, NoContext),
   (''messagesubmission_stateMapV2'', messagesubmission_stateMapV2, messagesubmission_protocolStateIdle, NoContext),
   (''peersharing_StateMap'', peersharing_StateMap, peersharing_stateIdle, NoContext),
   (''perasvotes_StateMap'', perasvotes_StateMap, perasvotes_StateInit, PerasContext (newPerasContext 50)),
   (''txsubmission_StateMap'', txsubmission_StateMap, txsubmission_stateInit, NoContext)]"

lemmas map_defs = transition_def entry_def NewState_def
  blockfetch_StateIdle_def blockfetch_StateBusy_def blockfetch_StateStreaming_def blockfetch_StateDone_def
  blockfetch_StateMap_def chainsync_stateIdle_def chainsync_stateCanAwait_def chainsync_stateMustReply_def
  chainsync_stateIntersect_def chainsync_stateDone_def chainsync_idleTransitions_def chainsync_canAwaitTransitions_def
  chainsync_intersectTransitions_def chainsync_mustReplyTransitions_def chainsync_StateMapNtN_def
  chainsync_StateMapNtC_def handshake_statePropose_def handshake_stateConfirm_def handshake_stateDone_def
  handshake_confirmTransitions_def handshake_proposeTransitions_def handshake_StateMapNtN_def
  handshake_StateMapNtC_def keepalive_StateClient_def keepalive_StateServer_def keepalive_StateDone_def
  keepalive_StateMap_def leiosfetch_StateIdle_def leiosfetch_StateBlock_def leiosfetch_StateBlockTxs_def
  leiosfetch_StateVotes_def leiosfetch_StateBlockRange_def leiosfetch_StateDone_def leiosfetch_pipelinedFetchRequests_def
  leiosfetch_StateMap_def leiosnotify_StateIdle_def leiosnotify_StateBusy_def leiosnotify_StateDone_def
  leiosnotify_StateQuit_def leiosnotify_StateMap_def leiosvotes_StateIdle_def leiosvotes_StateBusy_def
  leiosvotes_StateDone_def leiosvotes_StateMap_def localmessagenotification_protocolStateIdle_def
  localmessagenotification_protocolStateBusyNonBlock_def localmessagenotification_protocolStateBusyBlock_def
  localmessagenotification_protocolStateDone_def localmessagenotification_stateMap_def localmessagesubmission_protocolStateIdle_def
  localmessagesubmission_protocolStateBusy_def localmessagesubmission_protocolStateDone_def localmessagesubmission_stateMap_def
  localstatequery_stateIdle_def localstatequery_stateAcquiring_def localstatequery_stateAcquired_def
  localstatequery_stateQuerying_def localstatequery_stateDone_def localstatequery_StateMap_def
  localtxmonitor_stateIdle_def localtxmonitor_stateAcquiring_def localtxmonitor_stateAcquired_def
  localtxmonitor_stateBusy_def localtxmonitor_stateDone_def localtxmonitor_StateMap_def localtxsubmission_stateIdle_def
  localtxsubmission_stateBusy_def localtxsubmission_stateDone_def localtxsubmission_StateMap_def
  messagesubmission_protocolStateInit_def messagesubmission_protocolStateIdle_def messagesubmission_protocolStateMessageIdsBlock_def
  messagesubmission_protocolStateMessageIdsNonBlk_def messagesubmission_protocolStateMessages_def
  messagesubmission_protocolStateDone_def messagesubmission_stateMapV1_def messagesubmission_stateMapV2_def
  peersharing_stateIdle_def peersharing_stateBusy_def peersharing_stateDone_def peersharing_StateMap_def
  perasvotes_StateInit_def perasvotes_StateIdle_def perasvotes_StateObjectIDsBlocking_def perasvotes_StateObjectIDsNonBlocking_def
  perasvotes_StateObjects_def perasvotes_StateDone_def perasvotes_StateMap_def txsubmission_stateInit_def
  txsubmission_stateIdle_def txsubmission_stateTxIdsBlocking_def txsubmission_stateTxIdsNonblocking_def
  txsubmission_stateTxs_def txsubmission_stateDone_def txsubmission_StateMap_def

lemmas match_defs = matchBlocking_def matchNonBlocking_def matchRequestNext_def matchVoteWithMorePending_def
  matchFinalVote_def matchQuery_def matchReply_def matchBlockingObjectIDsRequest_def
  matchNonBlockingObjectIDsRequest_def matchObjectIDsRequest_def matchReplyObjectIDs_def
  matchRequestObjects_def matchReplyObjects_def


lemma roleHasAgency_iff: "roleHasAgency r e \<longleftrightarrow> r = ProtocolRoleClient \<and> en_Agency e = AgencyClient \<or> r = ProtocolRoleServer \<and> en_Agency e = AgencyServer"
  by (cases r; cases "en_Agency e") (simp_all add: roleHasAgency_def agencyHolderFor_def)

lemmas safe_defs = pipeline_safe_def messageHasAgencyTransition_def roleHasAgency_iff

lemmas closed_defs = pipeline_closed_def messageHasAgencyTransition_def roleHasAgency_iff pipelinedMessageFits_def lookupEntry_def

interpretation blockfetch_StateMap: mini_protocol blockfetch_StateMap blockfetch_StateIdle
  by unfold_locales (auto simp: closed_defs map_defs, simp add: wf_map_def map_defs, auto simp: safe_defs map_defs match_defs)

interpretation chainsync_StateMapNtN: mini_protocol chainsync_StateMapNtN chainsync_stateIdle
  by unfold_locales (auto simp: closed_defs map_defs, simp add: wf_map_def map_defs, auto simp: safe_defs map_defs match_defs)

interpretation chainsync_StateMapNtC: mini_protocol chainsync_StateMapNtC chainsync_stateIdle
  by unfold_locales (auto simp: closed_defs map_defs, simp add: wf_map_def map_defs, auto simp: safe_defs map_defs match_defs)

interpretation handshake_StateMapNtN: mini_protocol handshake_StateMapNtN handshake_statePropose
  by unfold_locales (auto simp: closed_defs map_defs, simp add: wf_map_def map_defs, auto simp: safe_defs map_defs match_defs)

interpretation handshake_StateMapNtC: mini_protocol handshake_StateMapNtC handshake_statePropose
  by unfold_locales (auto simp: closed_defs map_defs, simp add: wf_map_def map_defs, auto simp: safe_defs map_defs match_defs)

interpretation keepalive_StateMap: mini_protocol keepalive_StateMap keepalive_StateClient
  by unfold_locales (auto simp: closed_defs map_defs, simp add: wf_map_def map_defs, auto simp: safe_defs map_defs match_defs)

interpretation leiosfetch_StateMap: mini_protocol leiosfetch_StateMap leiosfetch_StateIdle
  by unfold_locales (auto simp: closed_defs map_defs, simp add: wf_map_def map_defs, auto simp: safe_defs map_defs match_defs)

interpretation leiosnotify_StateMap: mini_protocol leiosnotify_StateMap leiosnotify_StateIdle
  by unfold_locales (auto simp: closed_defs map_defs, simp add: wf_map_def map_defs, auto simp: safe_defs map_defs match_defs)

interpretation leiosvotes_StateMap: mini_protocol leiosvotes_StateMap leiosvotes_StateIdle
  by unfold_locales (auto simp: closed_defs map_defs, simp add: wf_map_def map_defs, auto simp: safe_defs map_defs match_defs)

interpretation localmessagenotification_stateMap: mini_protocol localmessagenotification_stateMap localmessagenotification_protocolStateIdle
  by unfold_locales (auto simp: closed_defs map_defs, simp add: wf_map_def map_defs, auto simp: safe_defs map_defs match_defs)

interpretation localmessagesubmission_stateMap: mini_protocol localmessagesubmission_stateMap localmessagesubmission_protocolStateIdle
  by unfold_locales (auto simp: closed_defs map_defs, simp add: wf_map_def map_defs, auto simp: safe_defs map_defs match_defs)

interpretation localstatequery_StateMap: mini_protocol localstatequery_StateMap localstatequery_stateIdle
  by unfold_locales (auto simp: closed_defs map_defs, simp add: wf_map_def map_defs, auto simp: safe_defs map_defs match_defs)

interpretation localtxmonitor_StateMap: mini_protocol localtxmonitor_StateMap localtxmonitor_stateIdle
  by unfold_locales (auto simp: closed_defs map_defs, simp add: wf_map_def map_defs, auto simp: safe_defs map_defs match_defs)

interpretation localtxsubmission_StateMap: mini_protocol localtxsubmission_StateMap localtxsubmission_stateIdle
  by unfold_locales (auto simp: closed_defs map_defs, simp add: wf_map_def map_defs, auto simp: safe_defs map_defs match_defs)

interpretation messagesubmission_stateMapV1: mini_protocol messagesubmission_stateMapV1 messagesubmission_protocolStateInit
  by unfold_locales (auto simp: closed_defs map_defs, simp add: wf_map_def map_defs, auto simp: safe_defs map_defs match_defs)

interpretation messagesubmission_stateMapV2: mini_protocol messagesubmission_stateMapV2 messagesubmission_protocolStateIdle
  by unfold_locales (auto simp: closed_defs map_defs, simp add: wf_map_def map_defs, auto simp: safe_defs map_defs match_defs)

interpretation peersharing_StateMap: mini_protocol peersharing_StateMap peersharing_stateIdle
  by unfold_locales (auto simp: closed_defs map_defs, simp add: wf_map_def map_defs, auto simp: safe_defs map_defs match_defs)

interpretation perasvotes_StateMap: mini_protocol perasvotes_StateMap perasvotes_StateInit
  by unfold_locales (auto simp: closed_defs map_defs, simp add: wf_map_def map_defs, auto simp: safe_defs map_defs match_defs)

interpretation txsubmission_StateMap: mini_protocol txsubmission_StateMap txsubmission_stateInit
  by unfold_locales (auto simp: closed_defs map_defs, simp add: wf_map_def map_defs, auto simp: safe_defs map_defs match_defs)

lemmas mini_protocols =
  blockfetch_StateMap.mini_protocol_axioms
  chainsync_StateMapNtN.mini_protocol_axioms
  chainsync_StateMapNtC.mini_protocol_axioms
  handshake_StateMapNtN.mini_protocol_axioms
  handshake_StateMapNtC.mini_protocol_axioms
  keepalive_StateMap.mini_protocol_axioms
  leiosfetch_StateMap.mini_protocol_axioms
  leiosnotify_StateMap.mini_protocol_axioms
  leiosvotes_StateMap.mini_protocol_axioms
  localmessagenotification_stateMap.mini_protocol_axioms
  localmessagesubmission_stateMap.mini_protocol_axioms
  localstatequery_StateMap.mini_protocol_axioms
  localtxmonitor_StateMap.mini_protocol_axioms
  localtxsubmission_StateMap.mini_protocol_axioms
  messagesubmission_stateMapV1.mini_protocol_axioms
  messagesubmission_stateMapV2.mini_protocol_axioms
  peersharing_StateMap.mini_protocol_axioms
  perasvotes_StateMap.mini_protocol_axioms
  txsubmission_StateMap.mini_protocol_axioms

lemma mini_protocol_of: "(n, sm, s0, c0) \<in> set miniProtocols \<Longrightarrow> mini_protocol sm s0"
  by (auto simp: miniProtocols_def intro: mini_protocols)

subsection \<open>Leios votes: the size of a batch\<close>

lemma votes_agency:
  "roleHasAgency ProtocolRoleServer (lookupEntry leiosvotes_StateMap leiosvotes_StateBusy)"
  "roleHasAgency ProtocolRoleClient (lookupEntry leiosvotes_StateMap leiosvotes_StateIdle)"
  "\<not> roleHasAgency ProtocolRoleServer (lookupEntry leiosvotes_StateMap leiosvotes_StateIdle)"
  by (simp_all add: lookupEntry_def map_defs roleHasAgency_iff)

lemma votes_busy:
  "nextState leiosvotes_StateMap (VotesContext (Suc k)) leiosvotes_StateBusy v =
     (if msg_Type v = leiosvotes_MessageTypeVote
      then (Inr (if k = 0 then leiosvotes_StateIdle else leiosvotes_StateBusy), VotesContext k)
      else (Inl (MessageNotAllowed (msg_Type v) leiosvotes_StateBusy), VotesContext (Suc k)))"
  by (simp add: nextState_def lookupEntry_def map_defs match_defs)

lemma votes_request:
  "nextState leiosvotes_StateMap (VotesContext k) leiosvotes_StateIdle (m\<lparr>msg_Type := leiosvotes_MessageTypeVotesRequestNext\<rparr>) =
     (if msg_Count m \<in> {1..MaxRequestNextCount} then (Inr leiosvotes_StateBusy, VotesContext (msg_Count m))
      else (Inl (MessageNotAllowed 0 leiosvotes_StateIdle), VotesContext k))"
  by (auto simp: nextState_def lookupEntry_def map_defs match_defs)

lemma votes_run:
  "run leiosvotes_StateMap (leiosvotes_StateBusy, VotesContext (Suc k)) (map (Pair ProtocolRoleServer) vs) =
     (if list_all (\<lambda>v. msg_Type v = leiosvotes_MessageTypeVote) vs \<and> length vs \<le> Suc k
      then Some (if length vs = Suc k then leiosvotes_StateIdle else leiosvotes_StateBusy, VotesContext (Suc k - length vs))
      else None)"
proof (induction vs arbitrary: k)
  case (Cons v vs)
  show ?case
  proof (cases k)
    case 0
    then show ?thesis by (cases vs) (simp_all add: votes_agency votes_busy)
  next
    case (Suc j)
    then show ?thesis using Cons.IH[of j] by (simp add: votes_agency votes_busy)
  qed
qed simp

text \<open>A Leios votes exchange has exactly the size the client asked for: after a request for n votes
  the server's messages are accepted if and only if n is between 1 and 1000 and they are at most n
  votes, and the client regains agency exactly at the n-th.\<close>
lemma votes_batch_exact:
  "run leiosvotes_StateMap (leiosvotes_StateIdle, VotesContext k)
     ((ProtocolRoleClient, m\<lparr>msg_Type := leiosvotes_MessageTypeVotesRequestNext\<rparr>) # map (Pair ProtocolRoleServer) vs) =
   (if msg_Count m \<in> {1..MaxRequestNextCount} \<and> list_all (\<lambda>v. msg_Type v = leiosvotes_MessageTypeVote) vs \<and> length vs \<le> msg_Count m
    then Some (if length vs = msg_Count m then leiosvotes_StateIdle else leiosvotes_StateBusy, VotesContext (msg_Count m - length vs))
    else None)"
  using votes_run[of "msg_Count m - 1" vs] by (auto simp: votes_agency votes_request)

subsection \<open>Peras votes: the window of outstanding identifiers\<close>

lemma seen_new_iff: "seen_new A is \<longleftrightarrow> distinct is \<and> set is \<inter> A = {}"
  by (induction A "is" rule: seen_new.induct) auto

lemma requestable_iff:
  "requestable x A is \<longleftrightarrow> distinct is \<and> set is \<inter> (A \<union> px_requested x) = {} \<and> set is \<subseteq> set (px_outstanding x)"
  by (induction x A "is" rule: requestable.induct) auto

definition peras_inv :: "nat \<Rightarrow> State \<Rightarrow> perasContext \<Rightarrow> bool" where
  "peras_inv mx s x \<longleftrightarrow> px_maxObjectsUnacknowledged x = mx \<and> distinct (px_outstanding x) \<and> length (px_outstanding x) \<le> mx \<and>
     px_requested x \<subseteq> set (px_outstanding x) \<and> set (px_requestObjects x) \<subseteq> px_requested x \<and>
     (s \<noteq> perasvotes_StateObjects \<longrightarrow> px_requestObjects x = []) \<and>
     (s \<in> {perasvotes_StateObjectIDsBlocking, perasvotes_StateObjectIDsNonBlocking} \<longrightarrow>
        length (px_outstanding x) + px_requestCount x \<le> mx)"

lemma acked_or_left: "a \<in> R \<Longrightarrow> R \<subseteq> set xs \<Longrightarrow> a \<notin> set (take n xs) \<Longrightarrow> a \<in> set (drop n xs)"
  by (metis UnE append_take_drop_id set_append subsetD)

lemma window_shrinks: "length xs \<le> n \<Longrightarrow> length xs - k \<le> n"
  by simp

lemma peras_inv_step:
  assumes "peras_inv mx s x" "nextState perasvotes_StateMap (PerasContext x) s m = (Inr s', c')"
  shows "\<exists>x'. c' = PerasContext x' \<and> peras_inv mx s' x'"
  using assms
  by (auto simp: peras_inv_def nextState_Inr lookupEntry_def map_defs match_defs seen_new_iff requestable_iff
    split: if_splits intro: acked_or_left window_shrinks)

text \<open>C34: In every exchange of Peras votes, whichever messages the peers apply, the identifiers announced
  and not yet acknowledged are distinct and within the configured window, an identifier is asked for only
  while it is outstanding, and the announcement a pending request allows still fits the window.\<close>
theorem peras_window_invariant:
  assumes "run perasvotes_StateMap (perasvotes_StateInit, PerasContext (newPerasContext mx)) T = Some (s, c)"
  shows "\<exists>x. c = PerasContext x \<and> peras_inv mx s x"
  using assms
proof (induction T arbitrary: s c rule: rev_induct)
  case Nil
  then show ?case by (auto simp: peras_inv_def newPerasContext_def map_defs)
next
  case (snoc a T)
  obtain s1 c1 where r: "run perasvotes_StateMap (perasvotes_StateInit, PerasContext (newPerasContext mx)) T = Some (s1, c1)"
    using snoc.prems by (auto simp: run_append split: option.splits)
  obtain q m where a: "a = (q, m)" by force
  have "nextState perasvotes_StateMap c1 s1 m = (Inr s, c)"
    using snoc.prems r a by (auto simp: run_append split: if_splits prod.splits sum.splits)
  then show ?case using snoc.IH[OF r] peras_inv_step by blast
qed

definition plain_message :: "nat \<Rightarrow> message" where
  "plain_message ty = \<lparr>msg_Type = ty, msg_Blocking = False, msg_Count = 0, msg_AckCount = 0, msg_ObjectIDs = [], msg_Objects = []\<rparr>"

theorem peras_window_invariant_witness:
  "\<exists>x. PerasContext ((newPerasContext 50)\<lparr>px_outstanding := [7, 9], px_requestBlocking := True\<rparr>) = PerasContext x
     \<and> peras_inv 50 perasvotes_StateIdle x"
  by (rule peras_window_invariant[where T = "[(ProtocolRoleClient, plain_message perasvotes_MessageTypeInit),
      (ProtocolRoleClient, (plain_message perasvotes_MessageTypeRequestObjectIDs)\<lparr>msg_Blocking := True, msg_Count := 2\<rparr>),
      (ProtocolRoleServer, (plain_message perasvotes_MessageTypeReplyObjectIDs)\<lparr>msg_ObjectIDs := [7, 9]\<rparr>)]"])
    (simp add: nextState_def lookupEntry_def map_defs match_defs roleHasAgency_iff newPerasContext_def plain_message_def)

text \<open>C4: No mini-protocol of the node can be driven into a protocol violation by a peer that runs the
  same state map, when neither side queues anything behind a message that ends its pipeline (the quit of
  the Leios notifications, a blocking request of the transaction submission).  In every reachable
  session, with any number of pipelined messages in flight, the inbound admission of an endpoint denies no
  message on the wire, be it the peer's turn, the endpoint's own turn or a state without agency, provided
  that the state does not change between the start of the message and its admission; an endpoint
  that waits for its peer accepts the transition of the next message on the wire; and an endpoint that
  has agency can apply the transition of the oldest message it pipelined.\<close>
theorem mini_protocols_no_violation:
  assumes "(n, sm, s0, c0) \<in> set miniProtocols" "orderly_reachable sm s0 c0 S"
  shows "(m \<in> set (wire S (peer r)) \<and> eng_currentState p = ep_state (ends S r) \<and>
        eng_pendingPipelinedRequests p = length (ep_deferred (ends S r)) \<and> inboundSnapshot p = Some (s1, g, h) \<longrightarrow>
        snd (snd (fst (reserveInboundAdmission sm r (msg_Type m) s1 g h p))) \<noteq> inboundAdmissionDenied)
    \<and> (agencyHolderFor r (entry_of sm S r) = agencyPeer \<and> wire S (peer r) = m # ms \<longrightarrow> (\<exists>s c. transit sm S r m = (Inr s, c)))
    \<and> (roleHasAgency r (entry_of sm S r) \<and> ep_deferred (ends S r) = m # ms \<longrightarrow> (\<exists>s c. transit sm S r m = (Inr s, c)))"
proof -
  have mp: "mini_protocol sm s0" by (rule mini_protocol_of[OF assms(1)])
  then have pl: "pipelining sm" by (simp add: mini_protocol_def)
  have re: "session_reachable sm s0 c0 S" by (rule orderly_session_reachable[OF assms(2)])
  have st: "ep_state (ends S r) \<in> set (map fst sm)" by (rule mini_protocol.states_in_map[OF mp re])
  show ?thesis
    using pipelining.wire_not_denied[OF pl assms(2) _ _ _ _ st, of m p s1 g h] mini_protocol.wire_accepted[OF mp re, of r m ms]
      mini_protocol.deferred_accepted[OF mp re, of m r] by (metis list.set_intros(1))
qed

text \<open>A chain-sync session: the client requests a header and pipelines a second request.\<close>

definition example_session :: "nat \<Rightarrow> stateContext session" where
  "example_session k = \<lparr>ends = (\<lambda>r. if r = ProtocolRoleClient
       then \<lparr>ep_state = chainsync_stateCanAwait, ep_ctx = NoContext, ep_deferred = replicate k (plain_message chainsync_MessageTypeRequestNext)\<rparr>
       else \<lparr>ep_state = chainsync_stateIdle, ep_ctx = NoContext, ep_deferred = []\<rparr>),
     wire = (\<lambda>r. if r = ProtocolRoleClient then replicate (Suc k) (plain_message chainsync_MessageTypeRequestNext) else [])\<rparr>"

lemma example_session_first:
  "session_step chainsync_StateMapNtN (session_start chainsync_stateIdle NoContext) (example_session 0)"
  by (rule back_subst[where P = "session_step chainsync_StateMapNtN (session_start chainsync_stateIdle NoContext)"],
      rule session_step.send[where r = ProtocolRoleClient and m = "plain_message chainsync_MessageTypeRequestNext"
        and s = chainsync_stateCanAwait and c = NoContext])
    (auto simp: session_start_def example_session_def nextState_def lookupEntry_def map_defs roleHasAgency_iff plain_message_def fun_eq_iff)

lemma example_session_next: "session_step chainsync_StateMapNtN (example_session k) (example_session (Suc k))"
  by (rule back_subst[where P = "session_step chainsync_StateMapNtN (example_session k)"],
      rule session_step.pipeline[where r = ProtocolRoleClient and m = "plain_message chainsync_MessageTypeRequestNext"])
    (auto simp: example_session_def lookupEntry_def map_defs roleHasAgency_iff messageHasAgencyTransition_def pipelinedMessageFits_def
      plain_message_def fun_eq_iff replicate_append_same)

lemma example_session_reachable: "session_reachable chainsync_StateMapNtN chainsync_stateIdle NoContext (example_session k)"
  by (induction k) (blast intro: session_reachable.start session_reachable.step example_session_first example_session_next)+

lemma example_session_orderly: "orderly chainsync_StateMapNtN (example_session k)"
  by (auto simp: orderly_def example_session_def ends_pipeline_def map_defs roleHasAgency_iff lookupEntry_def plain_message_def
    dest!: in_set_butlastD)

lemma example_session_orderly_reachable: "orderly_reachable chainsync_StateMapNtN chainsync_stateIdle NoContext (example_session k)"
proof (induction k)
  case 0
  show ?case by (rule orderly_reachable.step[OF orderly_reachable.start example_session_first example_session_orderly])
next
  case (Suc k)
  show ?case by (rule orderly_reachable.step[OF Suc example_session_next example_session_orderly])
qed

text \<open>The server has taken the first request: it has agency, and three
  pipelined requests are on the wire.\<close>

definition example_waiting :: "stateContext session" where
  "example_waiting = (let S = example_session 3 in S\<lparr>
     ends := (ends S)(ProtocolRoleServer := \<lparr>ep_state = chainsync_stateCanAwait, ep_ctx = NoContext, ep_deferred = []\<rparr>),
     wire := (wire S)(ProtocolRoleClient := replicate 3 (plain_message chainsync_MessageTypeRequestNext))\<rparr>)"

lemma example_waiting_reachable: "orderly_reachable chainsync_StateMapNtN chainsync_stateIdle NoContext example_waiting"
proof (rule orderly_reachable.step[OF example_session_orderly_reachable[of 3]])
  show "session_step chainsync_StateMapNtN (example_session 3) example_waiting"
    by (rule back_subst[where P = "session_step chainsync_StateMapNtN (example_session 3)"],
        rule session_step.receive[where r = ProtocolRoleServer and m = "plain_message chainsync_MessageTypeRequestNext"
          and ms = "replicate 3 (plain_message chainsync_MessageTypeRequestNext)" and s = chainsync_stateCanAwait and c = NoContext])
      (auto simp: example_waiting_def example_session_def lookupEntry_def map_defs agencyHolderFor_def nextState_def
        plain_message_def peer_def fun_eq_iff Let_def numeral_eq_Suc)
  have "ep_deferred (ends example_waiting r) = ep_deferred (ends (example_session 3) r)" for r
    by (simp add: example_waiting_def example_session_def Let_def)
  then show "orderly chainsync_StateMapNtN example_waiting" using example_session_orderly[of 3] by (simp add: orderly_def)
qed

theorem mini_protocols_no_violation_witness:
  "snd (snd (fst (reserveInboundAdmission chainsync_StateMapNtN ProtocolRoleServer chainsync_MessageTypeRequestNext
     chainsync_stateCanAwait 1 False \<lparr>eng_currentState = chainsync_stateCanAwait, eng_currentStateGeneration = 1, eng_peerAgencyReserved = False,
       eng_pipelinedTypeGenerations = (\<lambda>_. None), eng_pendingPipelinedRequests = 0, eng_pendingPipelinedReplies = 0\<rparr>)))
   \<noteq> inboundAdmissionDenied"
proof -
  have "(''chainsync_StateMapNtN'', chainsync_StateMapNtN, chainsync_stateIdle, NoContext) \<in> set miniProtocols"
    by (simp add: miniProtocols_def)
  note c = mini_protocols_no_violation[OF this example_waiting_reachable, THEN conjunct1, rule_format,
    of "plain_message chainsync_MessageTypeRequestNext" ProtocolRoleServer]
  show ?thesis
    by (rule c[unfolded plain_message_def message.simps])
      (simp add: example_waiting_def example_session_def Let_def peer_def plain_message_def inboundSnapshot_def currentInboundSnapshot_def)
qed

text \<open>C33: Endpoints of a mini-protocol never leave the states its map declares, and one that has reached
  a state without agency refuses every further message.\<close>
theorem mini_protocols_well_typed:
  assumes "(n, sm, s0, c0) \<in> set miniProtocols" "session_reachable sm s0 c0 S"
  shows "ep_state (ends S r) \<in> set (map fst sm) \<and>
    (stateHasNoAgency sm (ep_state (ends S r)) \<longrightarrow> fst (transit sm S r m) = Inl (MessageNotAllowed (msg_Type m) (ep_state (ends S r))))"
  using mini_protocol.states_in_map[OF mini_protocol_of[OF assms(1)] assms(2), of r]
    mini_protocol.done_refuses[OF mini_protocol_of[OF assms(1)]] by blast

theorem mini_protocols_well_typed_witness:
  "ep_state (ends (example_session 3) ProtocolRoleServer) \<in> set (map fst chainsync_StateMapNtN)"
proof -
  have "(''chainsync_StateMapNtN'', chainsync_StateMapNtN, chainsync_stateIdle, NoContext) \<in> set miniProtocols"
    by (simp add: miniProtocols_def)
  then show ?thesis using mini_protocols_well_typed[OF _ example_session_reachable] by blast
qed

text \<open>C17: The two ends of a session stay in step, whatever the state map: when nothing is pipelined at
  most one of them has agency, and when nothing is in flight either they are in the same state with
  the same context.\<close>
theorem session_in_step:
  assumes "session_reachable sm s0 c0 S" "\<forall>q. ep_deferred (ends S q) = []"
  shows "\<not> (roleHasAgency ProtocolRoleClient (entry_of sm S ProtocolRoleClient) \<and>
      roleHasAgency ProtocolRoleServer (entry_of sm S ProtocolRoleServer)) \<and>
    ((\<forall>q. wire S q = []) \<longrightarrow> ends S ProtocolRoleClient = ends S ProtocolRoleServer)"
proof -
  obtain T where inv: "session_inv sm (s0, c0) T S" using session_inv_reachable[OF assms(1)] by blast
  have p: "peer ProtocolRoleClient = ProtocolRoleServer" by (simp add: peer_def)
  show ?thesis using session_exclusive[OF inv, of ProtocolRoleClient] session_agree[OF inv, of ProtocolRoleClient] assms(2)
    by (auto simp: p)
qed

theorem session_in_step_witness:
  "\<not> (roleHasAgency ProtocolRoleClient (entry_of chainsync_StateMapNtN (example_session 0) ProtocolRoleClient) \<and>
      roleHasAgency ProtocolRoleServer (entry_of chainsync_StateMapNtN (example_session 0) ProtocolRoleServer))"
  using session_in_step[OF example_session_reachable[of 0]] by (simp add: example_session_def)

end
