(* ===== verification/CborWalk.thy ===== *)
theory CborWalk
  imports Prelude
begin

text \<open>
  The CBOR walker that bounds peer-controlled input before it is decoded
  (\<open>protocol/internal/cborwalk/walk.go\<close>): the head of an item and the length of an item, computed with
  an explicit stack of frames.  The grammar of items is given as an inductive definition over the bytes
  alone, and the walker is shown to accept exactly its words; a second form of it, over the heads
  \<open>ReadHead\<close> returns, carries the proof and is the one the message scanner uses.  A \<open>uint64\<close> argument is a natural number: it
  is read from at most eight bytes, and the one product taken of it is guarded.
\<close>

subsection \<open>Heads\<close>

datatype walk_error =
    InvalidIndefinite | InvalidAdditional | InvalidNestingLimit | TruncatedItem | TruncatedHeader
  | UnexpectedBreak | InvalidChunk | NestingExceeded | TruncatedString | MapLengthOverflows
  | InvalidTag | InvalidMajor nat

record Head =
  hd_Major :: nat
  hd_Additional :: nat
  hd_Argument :: nat
  hd_Indefinite :: bool
  hd_IsBreak :: bool
  hd_EncodedSize :: nat

text \<open>\<open>Inr None\<close> is the result \<open>ok = false\<close>: the head is not complete yet.\<close>

definition ReadHead :: "bytes \<Rightarrow> nat \<Rightarrow> walk_error + Head option" where
  "ReadHead data offset =
     (if offset \<ge> length data then Inr None
      else
        let first = unat (data ! offset); major = first div 32; additional = first mod 32;
          head = (\<lambda>arg size. \<lparr>hd_Major = major, hd_Additional = additional, hd_Argument = arg,
            hd_Indefinite = False, hd_IsBreak = False, hd_EncodedSize = size\<rparr>);
          following = (\<lambda>n. be_nat (take n (drop (offset + 1) data)))
        in
        if additional < 24 then Inr (Some (head additional 1))
        else if additional = 24 then
          (if length data - offset < 2 then Inr None else Inr (Some (head (following 1) 2)))
        else if additional = 25 then
          (if length data - offset < 3 then Inr None else Inr (Some (head (following 2) 3)))
        else if additional = 26 then
          (if length data - offset < 5 then Inr None else Inr (Some (head (following 4) 5)))
        else if additional = 27 then
          (if length data - offset < 9 then Inr None else Inr (Some (head (following 8) 9)))
        else if additional = 31 then
          (if major = 7 then Inr (Some ((head 0 1)\<lparr>hd_IsBreak := True\<rparr>))
           else if major < 2 \<or> major > 5 then Inl InvalidIndefinite
           else Inr (Some ((head 0 1)\<lparr>hd_Indefinite := True\<rparr>)))
        else Inl InvalidAdditional)"

lemma ReadHead_size:
  assumes "ReadHead data pos = Inr (Some h)"
  shows "0 < hd_EncodedSize h" "pos + hd_EncodedSize h \<le> length data" "hd_Argument h < 2 ^ 64" "hd_Major h < 8"
proof -
  have b: "be_nat (take n (drop (Suc pos) data)) < 2 ^ 64" if "n \<le> 8" for n
  proof -
    have "be_nat (take n (drop (Suc pos) data)) < 256 ^ length (take n (drop (Suc pos) data))" by (rule be_nat_less)
    also have "\<dots> \<le> 256 ^ 8" by (rule power_increasing) (use that in auto)
    finally show ?thesis by simp
  qed
  have "unat (data ! pos) < 256" by (rule unat_byte_lt)
  then show "0 < hd_EncodedSize h" "pos + hd_EncodedSize h \<le> length data" "hd_Argument h < 2 ^ 64" "hd_Major h < 8"
    using assms b[of 1] b[of 2] b[of 4] b[of 8] by (auto simp: ReadHead_def Let_def split: if_splits)
qed

text \<open>A head is determined by its own bytes.\<close>

lemma ReadHead_drop: "ReadHead data pos = ReadHead (drop pos data) 0"
  by (cases "pos < length data") (simp_all add: ReadHead_def Let_def)

lemma ReadHead_Cons:
  "ReadHead (c # cs) 0 =
     (let major = unat c div 32; additional = unat c mod 32;
        head = (\<lambda>arg size. \<lparr>hd_Major = major, hd_Additional = additional, hd_Argument = arg,
          hd_Indefinite = False, hd_IsBreak = False, hd_EncodedSize = size\<rparr>);
        long = (\<lambda>n. if length cs < n then Inr None else Inr (Some (head (be_nat (take n cs)) (Suc n))))
      in
      if additional < 24 then Inr (Some (head additional 1))
      else if additional = 24 then long 1 else if additional = 25 then long 2
      else if additional = 26 then long 4 else if additional = 27 then long 8
      else if additional = 31 then
        (if major = 7 then Inr (Some ((head 0 1)\<lparr>hd_IsBreak := True\<rparr>))
         else if major < 2 \<or> major > 5 then Inl InvalidIndefinite
         else Inr (Some ((head 0 1)\<lparr>hd_Indefinite := True\<rparr>)))
      else Inl InvalidAdditional)"
  by (simp add: ReadHead_def Let_def)

lemma ReadHead_prefix:
  assumes "ReadHead bs 0 = Inr (Some h)"
  shows "ReadHead (take (hd_EncodedSize h) bs @ x) 0 = Inr (Some h)"
proof -
  obtain c cs where bs: "bs = c # cs" using assms by (cases bs) (auto simp: ReadHead_def)
  have long: "be_nat (take n (take n cs @ x)) = be_nat (take n cs)" if "n \<le> length cs" for n using that by simp
  consider "unat c mod 32 < 24" | "unat c mod 32 = 24" | "unat c mod 32 = 25" | "unat c mod 32 = 26"
    | "unat c mod 32 = 27" | "unat c mod 32 = 31" | "27 < unat c mod 32" "unat c mod 32 \<noteq> 31" by linarith
  then show ?thesis
    by cases (use assms in \<open>auto simp: bs ReadHead_Cons Let_def not_less min_def Suc_le_eq split: if_splits\<close>)
qed

subsection \<open>The walker\<close>

record frame =
  fr_remaining :: nat
  fr_indefinite :: bool
  fr_stringMajor :: nat

definition pushFrame :: "nat \<Rightarrow> nat \<Rightarrow> frame \<Rightarrow> nat \<Rightarrow> walk_error + (frame list \<times> nat)" where
  "pushFrame maxDepth depth f pos = (if depth > maxDepth then Inl NestingExceeded else Inr ([f], pos))"

text \<open>The body of the switch on the major type: the frame it pushes, if any, and the new position;
  \<open>depth\<close> is the number of frames on the stack.\<close>

definition walkItem :: "bytes \<Rightarrow> nat \<Rightarrow> nat \<Rightarrow> Head \<Rightarrow> nat \<Rightarrow> walk_error + (frame list \<times> nat)" where
  "walkItem data maxDepth depth head pos =
     (if hd_Major head \<in> {0, 1, 7} then Inr ([], pos)
      else if hd_Major head \<in> {2, 3} then
        (if hd_Indefinite head then
           pushFrame maxDepth depth \<lparr>fr_remaining = 0, fr_indefinite = True, fr_stringMajor = hd_Major head\<rparr> pos
         else if hd_Argument head > length data - pos then Inl TruncatedString
         else Inr ([], pos + hd_Argument head))
      else if hd_Major head = 4 then
        pushFrame maxDepth depth
          \<lparr>fr_remaining = hd_Argument head, fr_indefinite = hd_Indefinite head, fr_stringMajor = 0\<rparr> pos
      else if hd_Major head = 5 then
        (if \<not> hd_Indefinite head \<and> hd_Argument head > (2 ^ 64 - 1) div 2 then Inl MapLengthOverflows
         else pushFrame maxDepth depth
           \<lparr>fr_remaining = hd_Argument head * 2, fr_indefinite = hd_Indefinite head, fr_stringMajor = 0\<rparr> pos)
      else if hd_Major head = 6 then
        (if hd_Indefinite head then Inl InvalidTag
         else pushFrame maxDepth depth \<lparr>fr_remaining = 1, fr_indefinite = False, fr_stringMajor = 0\<rparr> pos)
      else Inl (InvalidMajor (hd_Major head)))"

lemma walkItem_size:
  assumes "walkItem data maxDepth depth head pos = Inr (fs, pos')" "pos \<le> length data"
  shows "pos \<le> pos'" "pos' \<le> length data" "length fs \<le> 1"
  using assms by (auto simp: walkItem_def pushFrame_def split: if_splits)

definition takeItem :: "frame \<Rightarrow> frame" where
  "takeItem f = (if fr_indefinite f then f else f\<lparr>fr_remaining := fr_remaining f - 1\<rparr>)"

function (sequential) walk :: "bytes \<Rightarrow> nat \<Rightarrow> frame list \<Rightarrow> nat \<Rightarrow> walk_error + nat" where
  "walk data maxDepth [] pos = Inr pos"
| "walk data maxDepth (f # rest) pos =
     (if \<not> fr_indefinite f \<and> fr_remaining f = 0 then walk data maxDepth rest pos
      else if pos \<ge> length data then Inl TruncatedItem
      else if fr_indefinite f \<and> data ! pos = 0xff then walk data maxDepth rest (pos + 1)
      else
        (case ReadHead data pos of
           Inl e \<Rightarrow> Inl e
         | Inr None \<Rightarrow> Inl TruncatedHeader
         | Inr (Some head) \<Rightarrow>
             if hd_IsBreak head then Inl UnexpectedBreak
             else if fr_stringMajor f \<noteq> 0 \<and> (hd_Major head \<noteq> fr_stringMajor f \<or> hd_Indefinite head) then Inl InvalidChunk
             else
               (case walkItem data maxDepth (length (f # rest)) head (pos + hd_EncodedSize head) of
                  Inl e \<Rightarrow> Inl e
                | Inr (pushed, pos') \<Rightarrow> walk data maxDepth (pushed @ takeItem f # rest) pos')))"
  by pat_completeness auto

termination
proof (relation "measure (\<lambda>(data, d, frames, pos). 2 * (length data - pos) + length frames)", goal_cases)
  case (4 data maxDepth f rest pos a h p pushed pos')
  then have h: "0 < hd_EncodedSize h" "pos + hd_EncodedSize h \<le> length data" using ReadHead_size by auto
  moreover have "pos + hd_EncodedSize h \<le> pos'" "length pushed \<le> 1"
    using walkItem_size[OF _ h(2)] 4 by auto
  ultimately show ?case by auto
qed auto

definition ItemLengthWithin :: "bytes \<Rightarrow> int \<Rightarrow> walk_error + nat" where
  "ItemLengthWithin data maxDepth =
     (if maxDepth < 0 then Inl InvalidNestingLimit
      else walk data (nat maxDepth) [\<lparr>fr_remaining = 1, fr_indefinite = False, fr_stringMajor = 0\<rparr>] 0)"

definition MaxNestedLevels :: int where
  "MaxNestedLevels = 16384"

definition ItemLength :: "bytes \<Rightarrow> walk_error + nat" where
  "ItemLength data = ItemLengthWithin data MaxNestedLevels"

subsection \<open>The grammar of CBOR\<close>

text \<open>The encoding of RFC 8949, without reference to the walker.  The head of an item of major type \<open>m\<close>
  carries its argument in the first byte, or in the one, two, four or eight bytes that follow, big
  endian; a head without an argument opens an item of indefinite length.\<close>

inductive cbor_head :: "nat \<Rightarrow> nat option \<Rightarrow> bytes \<Rightarrow> bool" where
  inline: "m < 8 \<Longrightarrow> a < 24 \<Longrightarrow> cbor_head m (Some a) [of_nat (32 * m + a)]"
| following: "m < 8 \<Longrightarrow> (k, length p) \<in> {(24, 1), (25, 2), (26, 4), (27, 8)} \<Longrightarrow> cbor_head m (Some (be_nat p)) (of_nat (32 * m + k) # p)"
| indefinite: "2 \<le> m \<Longrightarrow> m \<le> 5 \<Longrightarrow> cbor_head m None [of_nat (32 * m + 31)]"

text \<open>\<open>encodes d b\<close>: \<open>b\<close> is one item with at most \<open>d\<close> levels of nesting; \<open>encodes_seq\<close>: a sequence of \<open>n\<close>
  items; \<open>encodes_open\<close>: items up to a break; \<open>encodes_chunks\<close>: strings of definite length up to a
  break.  The grammar is wider than the RFC's in two places: an open map may end after a key, and a
  simple value below 32 may be written in two bytes.\<close>

inductive encodes :: "nat \<Rightarrow> bytes \<Rightarrow> bool"
  and encodes_seq :: "nat \<Rightarrow> nat \<Rightarrow> bytes \<Rightarrow> bool"
  and encodes_open :: "nat \<Rightarrow> bytes \<Rightarrow> bool"
  and encodes_chunks :: "nat \<Rightarrow> bytes \<Rightarrow> bool" where
  number: "m \<in> {0, 1} \<Longrightarrow> cbor_head m (Some a) h \<Longrightarrow> encodes d h"
| simple: "cbor_head 7 (Some a) h \<Longrightarrow> encodes d h"
| text_or_bytes: "m \<in> {2, 3} \<Longrightarrow> cbor_head m (Some (length p)) h \<Longrightarrow> encodes d (h @ p)"
| open_string: "m \<in> {2, 3} \<Longrightarrow> cbor_head m None h \<Longrightarrow> encodes_chunks m b \<Longrightarrow> encodes (Suc d) (h @ b)"
| closed_array: "cbor_head 4 (Some n) h \<Longrightarrow> encodes_seq d n b \<Longrightarrow> encodes (Suc d) (h @ b)"
| open_array: "cbor_head 4 None h \<Longrightarrow> encodes_open d b \<Longrightarrow> encodes (Suc d) (h @ b)"
| closed_map: "cbor_head 5 (Some n) h \<Longrightarrow> 2 * n < 2 ^ 64 \<Longrightarrow> encodes_seq d (2 * n) b \<Longrightarrow> encodes (Suc d) (h @ b)"
| open_map: "cbor_head 5 None h \<Longrightarrow> encodes_open d b \<Longrightarrow> encodes (Suc d) (h @ b)"
| tagged: "cbor_head 6 (Some t) h \<Longrightarrow> encodes d b \<Longrightarrow> encodes (Suc d) (h @ b)"
| seq_end: "encodes_seq d 0 []"
| seq_item: "encodes d a \<Longrightarrow> encodes_seq d n b \<Longrightarrow> encodes_seq d (Suc n) (a @ b)"
| open_end: "encodes_open d [0xff]"
| open_item: "encodes d a \<Longrightarrow> encodes_open d b \<Longrightarrow> encodes_open d (a @ b)"
| chunks_end: "encodes_chunks m [0xff]"
| chunks_item: "cbor_head m (Some (length p)) h \<Longrightarrow> encodes_chunks m b \<Longrightarrow> encodes_chunks m ((h @ p) @ b)"

subsection \<open>The grammar over the heads that are read\<close>

text \<open>The head of an item whose frame admits only chunks of the string type \<open>sm\<close> (any item when
  \<open>sm\<close> is 0).\<close>

definition good_head :: "nat \<Rightarrow> bytes \<Rightarrow> Head \<Rightarrow> bool" where
  "good_head sm hb h \<longleftrightarrow> ReadHead hb 0 = Inr (Some h) \<and> hd_EncodedSize h = length hb \<and> \<not> hd_IsBreak h \<and>
     (sm \<noteq> 0 \<longrightarrow> hd_Major h = sm \<and> \<not> hd_Indefinite h)"

text \<open>\<open>cbor_item d sm b\<close>: \<open>b\<close> is one item with at most \<open>d\<close> levels of nesting; \<open>cbor_items\<close>: a sequence
  of \<open>n\<close> items; \<open>cbor_chunks\<close>: items up to and including a break.\<close>

inductive cbor_item :: "nat \<Rightarrow> nat \<Rightarrow> bytes \<Rightarrow> bool"
  and cbor_items :: "nat \<Rightarrow> nat \<Rightarrow> nat \<Rightarrow> bytes \<Rightarrow> bool"
  and cbor_chunks :: "nat \<Rightarrow> nat \<Rightarrow> bytes \<Rightarrow> bool" where
  scalar: "good_head sm hb h \<Longrightarrow> hd_Major h \<in> {0, 1, 7} \<Longrightarrow> cbor_item d sm hb"
| string: "good_head sm hb h \<Longrightarrow> hd_Major h \<in> {2, 3} \<Longrightarrow> \<not> hd_Indefinite h \<Longrightarrow> length p = hd_Argument h \<Longrightarrow>
    cbor_item d sm (hb @ p)"
| istring: "good_head sm hb h \<Longrightarrow> hd_Major h \<in> {2, 3} \<Longrightarrow> hd_Indefinite h \<Longrightarrow> cbor_chunks d (hd_Major h) b \<Longrightarrow>
    cbor_item (Suc d) sm (hb @ b)"
| array: "good_head sm hb h \<Longrightarrow> hd_Major h = 4 \<Longrightarrow> \<not> hd_Indefinite h \<Longrightarrow> cbor_items d 0 (hd_Argument h) b \<Longrightarrow>
    cbor_item (Suc d) sm (hb @ b)"
| iarray: "good_head sm hb h \<Longrightarrow> hd_Major h = 4 \<Longrightarrow> hd_Indefinite h \<Longrightarrow> cbor_chunks d 0 b \<Longrightarrow>
    cbor_item (Suc d) sm (hb @ b)"
| map: "good_head sm hb h \<Longrightarrow> hd_Major h = 5 \<Longrightarrow> \<not> hd_Indefinite h \<Longrightarrow> hd_Argument h \<le> (2 ^ 64 - 1) div 2 \<Longrightarrow>
    cbor_items d 0 (hd_Argument h * 2) b \<Longrightarrow> cbor_item (Suc d) sm (hb @ b)"
| imap: "good_head sm hb h \<Longrightarrow> hd_Major h = 5 \<Longrightarrow> hd_Indefinite h \<Longrightarrow> cbor_chunks d 0 b \<Longrightarrow>
    cbor_item (Suc d) sm (hb @ b)"
| tag: "good_head sm hb h \<Longrightarrow> hd_Major h = 6 \<Longrightarrow> \<not> hd_Indefinite h \<Longrightarrow> cbor_items d 0 1 b \<Longrightarrow>
    cbor_item (Suc d) sm (hb @ b)"
| none: "cbor_items d sm 0 []"
| more: "cbor_item d sm a \<Longrightarrow> cbor_items d sm n b \<Longrightarrow> cbor_items d sm (Suc n) (a @ b)"
| break: "cbor_chunks d sm [0xff]"
| chunk: "cbor_item d sm a \<Longrightarrow> cbor_chunks d sm b \<Longrightarrow> cbor_chunks d sm (a @ b)"

subsection \<open>The walker accepts the grammar\<close>

declare walk.simps(2) [simp del]

lemma good_head_nonempty: "good_head sm hb h \<Longrightarrow> hb \<noteq> [] \<and> hd hb \<noteq> 0xff"
proof (cases hb)
  case (Cons c cs)
  have "unat (0xff :: byte) = 255" by simp
  then show ?thesis if "good_head sm hb h" using that Cons by (auto simp: good_head_def ReadHead_Cons)
qed (auto simp: good_head_def ReadHead_def)

lemma good_head_ReadHead:
  assumes "good_head sm hb h" "drop pos data = hb @ x"
  shows "ReadHead data pos = Inr (Some h)" "pos < length data" "data ! pos \<noteq> 0xff"
proof -
  show "ReadHead data pos = Inr (Some h)"
    using ReadHead_prefix[of hb h x] assms by (simp add: ReadHead_drop[of data pos] good_head_def)
  obtain c cs where "hb = c # cs" "c \<noteq> 0xff" using good_head_nonempty[OF assms(1)] by (cases hb) auto
  then have "drop pos data = c # cs @ x" using assms(2) by simp
  then show "pos < length data" "data ! pos \<noteq> 0xff"
    using \<open>c \<noteq> 0xff\<close> by (metis drop_eq_Nil list.distinct(1) not_less, metis nth_via_drop)
qed

lemma walk_head:
  assumes "good_head (fr_stringMajor f) hb h" "drop pos data = hb @ x" "fr_indefinite f \<or> 0 < fr_remaining f"
  shows "walk data D (f # fs) pos =
    (case walkItem data D (Suc (length fs)) h (pos + length hb) of
       Inl e \<Rightarrow> Inl e | Inr (pushed, pos') \<Rightarrow> walk data D (pushed @ takeItem f # fs) pos')"
  using assms good_head_ReadHead[OF assms(1,2)] by (auto simp: walk.simps(2) good_head_def)

lemma drop_append_length: "drop pos data = a @ x \<Longrightarrow> drop (pos + length a) data = x"
  by (metis add.commute append_eq_conv_conj drop_drop)

definition accepts_frame :: "bytes \<Rightarrow> nat \<Rightarrow> nat \<Rightarrow> frame \<Rightarrow> bytes \<Rightarrow> bool" where
  "accepts_frame data D d f a \<longleftrightarrow> (\<forall>fs pos x. drop pos data = a @ x \<longrightarrow> Suc (length fs) + d \<le> Suc D \<longrightarrow>
     walk data D (f # fs) pos = walk data D fs (pos + length a))"

lemma accepts_frameD:
  "accepts_frame data D d f a \<Longrightarrow> drop pos data = a @ x \<Longrightarrow> Suc (length fs) + d \<le> Suc D \<Longrightarrow>
     walk data D (f # fs) pos = walk data D fs (pos + length a)"
  by (simp add: accepts_frame_def)

definition accepts_item :: "bytes \<Rightarrow> nat \<Rightarrow> nat \<Rightarrow> nat \<Rightarrow> bytes \<Rightarrow> bool" where
  "accepts_item data D d sm a \<longleftrightarrow> (\<forall>f fs pos x. fr_stringMajor f = sm \<longrightarrow> fr_indefinite f \<or> 0 < fr_remaining f \<longrightarrow>
     drop pos data = a @ x \<longrightarrow> Suc (length fs) + d \<le> Suc D \<longrightarrow>
     walk data D (f # fs) pos = walk data D (takeItem f # fs) (pos + length a))"

lemma accepts_push:
  assumes g: "good_head sm hb h"
    and w: "\<And>depth pos. walkItem data D depth h pos = pushFrame D depth f' pos"
    and b: "accepts_frame data D d f' b"
  shows "accepts_item data D (Suc d) sm (hb @ b)"
  unfolding accepts_item_def
proof (intro allI impI)
  fix f :: frame and fs :: "frame list" and pos :: nat and x :: bytes
  assume f: "fr_stringMajor f = sm" "fr_indefinite f \<or> 0 < fr_remaining f"
    and dr: "drop pos data = (hb @ b) @ x" and l: "Suc (length fs) + Suc d \<le> Suc D"
  have dr': "drop pos data = hb @ b @ x" using dr by simp
  have "walk data D (f # fs) pos = walk data D (f' # takeItem f # fs) (pos + length hb)"
    using walk_head[OF _ dr' f(2)] g f(1) w l by (simp add: pushFrame_def)
  also have "\<dots> = walk data D (takeItem f # fs) (pos + length hb + length b)"
    by (rule accepts_frameD[OF b drop_append_length[OF dr']]) (use l in simp)
  finally show "walk data D (f # fs) pos = walk data D (takeItem f # fs) (pos + length (hb @ b))" by (simp add: add.assoc)
qed


lemma accepts_scalar: "good_head sm hb h \<Longrightarrow> hd_Major h \<in> {0, 1, 7} \<Longrightarrow> accepts_item data D d sm hb"
  unfolding accepts_item_def using walk_head by (auto simp: walkItem_def)

lemma accepts_string:
  assumes g: "good_head sm hb h" and m: "hd_Major h \<in> {2, 3}" "\<not> hd_Indefinite h" and p: "length p = hd_Argument h"
  shows "accepts_item data D d sm (hb @ p)"
  unfolding accepts_item_def
proof (intro allI impI)
  fix f :: frame and fs :: "frame list" and pos :: nat and x :: bytes
  assume f: "fr_stringMajor f = sm" "fr_indefinite f \<or> 0 < fr_remaining f" and dr: "drop pos data = (hb @ p) @ x"
  have dr': "drop pos data = hb @ p @ x" using dr by simp
  have "length data - (pos + length hb) = length (p @ x)"
    using arg_cong[OF drop_append_length[OF dr'], of length] by simp
  then show "walk data D (f # fs) pos = walk data D (takeItem f # fs) (pos + length (hb @ p))"
    using walk_head[OF _ dr' f(2), of h D fs] g f(1) m p by (auto simp: walkItem_def add.assoc)
qed

lemma accepts_items_Nil: "accepts_frame data D d \<lparr>fr_remaining = 0, fr_indefinite = False, fr_stringMajor = sm\<rparr> []"
  by (simp add: accepts_frame_def walk.simps(2))

lemma accepts_items_Cons:
  assumes "accepts_item data D d sm a" "accepts_frame data D d \<lparr>fr_remaining = n, fr_indefinite = False, fr_stringMajor = sm\<rparr> b"
  shows "accepts_frame data D d \<lparr>fr_remaining = Suc n, fr_indefinite = False, fr_stringMajor = sm\<rparr> (a @ b)"
  unfolding accepts_frame_def
proof (intro allI impI)
  fix fs :: "frame list" and pos :: nat and x :: bytes
  assume dr: "drop pos data = (a @ b) @ x" and l: "Suc (length fs) + d \<le> Suc D"
  have dr': "drop pos data = a @ b @ x" using dr by simp
  show "walk data D (\<lparr>fr_remaining = Suc n, fr_indefinite = False, fr_stringMajor = sm\<rparr> # fs) pos = walk data D fs (pos + length (a @ b))"
    using assms(1)[unfolded accepts_item_def, rule_format, OF _ _ dr' l, of "\<lparr>fr_remaining = Suc n, fr_indefinite = False, fr_stringMajor = sm\<rparr>"]
      accepts_frameD[OF assms(2) drop_append_length[OF dr'] l] by (simp add: takeItem_def add.assoc)
qed

lemma accepts_break: "accepts_frame data D d \<lparr>fr_remaining = k, fr_indefinite = True, fr_stringMajor = sm\<rparr> [0xff]"
proof -
  have "pos < length data" "data ! pos = 0xff" if "drop pos data = 0xff # x" for pos x
    using that by (metis drop_eq_Nil list.distinct(1) not_less, metis nth_via_drop)
  then show ?thesis by (auto simp: accepts_frame_def walk.simps(2))
qed

lemma accepts_chunks_Cons:
  assumes "accepts_item data D d sm a" "accepts_frame data D d \<lparr>fr_remaining = k, fr_indefinite = True, fr_stringMajor = sm\<rparr> b"
  shows "accepts_frame data D d \<lparr>fr_remaining = k, fr_indefinite = True, fr_stringMajor = sm\<rparr> (a @ b)"
  unfolding accepts_frame_def
proof (intro allI impI)
  fix fs :: "frame list" and pos :: nat and x :: bytes
  assume dr: "drop pos data = (a @ b) @ x" and l: "Suc (length fs) + d \<le> Suc D"
  have dr': "drop pos data = a @ b @ x" using dr by simp
  show "walk data D (\<lparr>fr_remaining = k, fr_indefinite = True, fr_stringMajor = sm\<rparr> # fs) pos = walk data D fs (pos + length (a @ b))"
    using assms(1)[unfolded accepts_item_def, rule_format, OF _ _ dr' l, of "\<lparr>fr_remaining = k, fr_indefinite = True, fr_stringMajor = sm\<rparr>"]
      accepts_frameD[OF assms(2) drop_append_length[OF dr'] l] by (simp add: takeItem_def add.assoc)
qed

lemma walk_accepts:
  "cbor_item d sm a \<Longrightarrow> accepts_item data D d sm a"
  "cbor_items d sm n a \<Longrightarrow> accepts_frame data D d \<lparr>fr_remaining = n, fr_indefinite = False, fr_stringMajor = sm\<rparr> a"
  "cbor_chunks d sm a \<Longrightarrow> \<forall>k. accepts_frame data D d \<lparr>fr_remaining = k, fr_indefinite = True, fr_stringMajor = sm\<rparr> a"
proof (induction rule: cbor_item_cbor_items_cbor_chunks.inducts)
  case scalar
  then show ?case by (rule accepts_scalar)
next
  case string
  then show ?case by (rule accepts_string)
next
  case (istring sm hb h d b)
  show ?case
  proof (rule accepts_push[OF istring(1)])
    show "accepts_frame data D d \<lparr>fr_remaining = 0, fr_indefinite = True, fr_stringMajor = hd_Major h\<rparr> b" using istring.IH by blast
  qed (use istring.hyps in \<open>auto simp: walkItem_def\<close>)
next
  case (array sm hb h d b)
  show ?case
  proof (rule accepts_push[OF array(1)])
    show "accepts_frame data D d \<lparr>fr_remaining = hd_Argument h, fr_indefinite = False, fr_stringMajor = 0\<rparr> b" using array.IH by blast
  qed (use array.hyps in \<open>auto simp: walkItem_def\<close>)
next
  case (iarray sm hb h d b)
  show ?case
  proof (rule accepts_push[OF iarray(1)])
    show "accepts_frame data D d \<lparr>fr_remaining = hd_Argument h, fr_indefinite = True, fr_stringMajor = 0\<rparr> b" using iarray.IH by blast
  qed (use iarray.hyps in \<open>auto simp: walkItem_def\<close>)
next
  case (map sm hb h d b)
  show ?case
  proof (rule accepts_push[OF map(1)])
    show "accepts_frame data D d \<lparr>fr_remaining = hd_Argument h * 2, fr_indefinite = False, fr_stringMajor = 0\<rparr> b" using map.IH by blast
  qed (use map.hyps in \<open>auto simp: walkItem_def\<close>)
next
  case (imap sm hb h d b)
  show ?case
  proof (rule accepts_push[OF imap(1)])
    show "accepts_frame data D d \<lparr>fr_remaining = hd_Argument h * 2, fr_indefinite = True, fr_stringMajor = 0\<rparr> b" using imap.IH by blast
  qed (use imap.hyps in \<open>auto simp: walkItem_def\<close>)
next
  case (tag sm hb h d b)
  show ?case
  proof (rule accepts_push[OF tag(1)])
    show "accepts_frame data D d \<lparr>fr_remaining = 1, fr_indefinite = False, fr_stringMajor = 0\<rparr> b" using tag.IH by blast
  qed (use tag.hyps in \<open>auto simp: walkItem_def\<close>)
next
  case none
  then show ?case by (rule accepts_items_Nil)
next
  case more
  then show ?case by (intro accepts_items_Cons)
next
  case break
  then show ?case by (intro allI accepts_break)
next
  case chunk
  then show ?case by (intro allI accepts_chunks_Cons) auto
qed

subsection \<open>The walker accepts only the grammar\<close>

definition frame_ok :: "nat \<Rightarrow> frame \<Rightarrow> bytes \<Rightarrow> bool" where
  "frame_ok d f b = (if fr_indefinite f then cbor_chunks d (fr_stringMajor f) b
     else cbor_items d (fr_stringMajor f) (fr_remaining f) b)"

fun stack_ok :: "nat \<Rightarrow> frame list \<Rightarrow> bytes \<Rightarrow> bool" where
  "stack_ok D [] bs = (bs = [])"
| "stack_ok D (f # fs) bs = (\<exists>b c. bs = b @ c \<and> frame_ok (D - length fs) f b \<and> stack_ok D fs c)"

lemma frame_ok_item:
  assumes "cbor_item d (fr_stringMajor f) a" "frame_ok d (takeItem f) b" "fr_indefinite f \<or> 0 < fr_remaining f"
  shows "frame_ok d f (a @ b)"
  using assms by (cases "fr_remaining f") (auto simp: frame_ok_def takeItem_def intro: chunk more split: if_splits)

lemma stack_ok_item:
  assumes "cbor_item (D - length fs) (fr_stringMajor f) a" "stack_ok D (takeItem f # fs) bs" "fr_indefinite f \<or> 0 < fr_remaining f"
  shows "stack_ok D (f # fs) (a @ bs)"
proof -
  obtain b c where bs: "bs = b @ c" "frame_ok (D - length fs) (takeItem f) b" "stack_ok D fs c" using assms(2) by auto
  have "a @ bs = (a @ b) @ c" by (simp add: bs(1))
  then show ?thesis using frame_ok_item[OF assms(1) bs(2) assms(3)] bs(3) unfolding stack_ok.simps by blast
qed

text \<open>One head of an item, with the frame it pushes.\<close>

lemma stack_ok_head:
  assumes g: "good_head (fr_stringMajor f) hb h" and f: "fr_indefinite f \<or> 0 < fr_remaining f"
    and w: "walkItem data D (Suc (length fs)) h pos = Inr (pushed, pos')" and pos: "pos \<le> length data"
    and st: "stack_ok D (pushed @ takeItem f # fs) bs"
  shows "stack_ok D (f # fs) (hb @ take (pos' - pos) (drop pos data) @ bs)"
proof -
  have one: "cbor_item (D - length fs) (fr_stringMajor f) (hb @ take (pos' - pos) (drop pos data)) \<Longrightarrow>
    stack_ok D (takeItem f # fs) bs \<Longrightarrow> ?thesis"
    using stack_ok_item[of D fs f "hb @ take (pos' - pos) (drop pos data)" bs] f by simp
  have push: ?thesis if p: "pushed = [f']" "pos' = pos" "length fs < D"
    and it: "\<And>b. frame_ok (D - Suc (length fs)) f' b \<Longrightarrow> cbor_item (Suc (D - Suc (length fs))) (fr_stringMajor f) (hb @ b)" for f'
  proof -
    obtain b c where bs: "bs = b @ c" "frame_ok (D - Suc (length fs)) f' b" "stack_ok D (takeItem f # fs) c"
      using st p(1) by auto
    have "Suc (D - Suc (length fs)) = D - length fs" using p(3) by simp
    then have "cbor_item (D - length fs) (fr_stringMajor f) (hb @ b)" using it[OF bs(2)] by simp
    then have "stack_ok D (f # fs) ((hb @ b) @ c)" by (rule stack_ok_item[OF _ bs(3) f])
    then show ?thesis using p(2) bs(1) by simp
  qed
  consider "hd_Major h \<in> {0, 1, 7}" | "hd_Major h \<in> {2, 3}" "\<not> hd_Indefinite h" | "hd_Major h \<in> {2, 3}" "hd_Indefinite h"
    | "hd_Major h = 4" | "hd_Major h = 5" | "hd_Major h = 6"
    using w by (auto simp: walkItem_def split: if_splits)
  then show ?thesis
  proof cases
    case 1
    then show ?thesis using w st one scalar[OF g 1] by (auto simp: walkItem_def)
  next
    case 2
    have "pushed = []" "pos' = pos + hd_Argument h" "hd_Argument h \<le> length data - pos"
      using w 2 by (auto simp: walkItem_def split: if_splits)
    then show ?thesis using st one string[OF g 2, of "take (hd_Argument h) (drop pos data)"] by simp
  next
    case 3
    then show ?thesis using w by (intro push) (auto simp: walkItem_def pushFrame_def frame_ok_def intro: istring[OF g] split: if_splits)
  next
    case 4
    then show ?thesis using w by (intro push) (auto simp: walkItem_def pushFrame_def frame_ok_def intro: array[OF g] iarray[OF g] split: if_splits)
  next
    case 5
    then show ?thesis using w by (intro push) (auto simp: walkItem_def pushFrame_def frame_ok_def intro: map[OF g] imap[OF g] split: if_splits)
  next
    case 6
    then show ?thesis using w by (intro push) (auto simp: walkItem_def pushFrame_def frame_ok_def intro: tag[OF g] split: if_splits)
  qed
qed

lemma slice_split:
  assumes "a \<le> b" "b \<le> c"
  shows "take (c - a) (drop a xs) = take (b - a) (drop a xs) @ take (c - b) (drop b xs)"
proof -
  have "c - a = (b - a) + (c - b)" "b = (b - a) + a" using assms by simp_all
  then show ?thesis by (metis drop_drop take_add)
qed

lemma walk_sound:
  "walk data D frames pos = Inr n \<Longrightarrow> pos \<le> length data \<Longrightarrow>
     pos \<le> n \<and> n \<le> length data \<and> stack_ok D frames (take (n - pos) (drop pos data))"
proof (induction data D frames pos rule: walk.induct)
  case (1 data D pos)
  then show ?case by simp
next
  case (2 data D f rest pos)
  consider "\<not> fr_indefinite f" "fr_remaining f = 0" | "fr_indefinite f" "pos < length data" "data ! pos = 0xff"
    | "fr_indefinite f \<or> 0 < fr_remaining f" "pos < length data" "\<not> (fr_indefinite f \<and> data ! pos = 0xff)"
    using 2(4) by (auto simp: walk.simps(2) split: if_splits)
  then show ?case
  proof cases
    case 1
    have "walk data D rest pos = Inr n" using 2(4) 1 by (simp add: walk.simps(2))
    then have "pos \<le> n \<and> n \<le> length data \<and> stack_ok D rest (take (n - pos) (drop pos data))"
      using 2(1) 1 2(5) by blast
    moreover have "frame_ok (D - length rest) f []" using 1 by (simp add: frame_ok_def none)
    ultimately show ?thesis by fastforce
  next
    case 2
    note ih = "2.IH"(2)
    have w: "walk data D rest (pos + 1) = Inr n" using "2.prems"(1) 2 by (simp add: walk.simps(2))
    then have h: "pos + 1 \<le> n" "n \<le> length data" "stack_ok D rest (take (n - (pos + 1)) (drop (pos + 1) data))"
      using ih 2 by auto
    have "take (n - pos) (drop pos data) = [0xff] @ take (n - (pos + 1)) (drop (pos + 1) data)"
      using 2 h(1) by (simp add: Cons_nth_drop_Suc[symmetric] take_Cons' Suc_diff_Suc)
    moreover have "frame_ok (D - length rest) f [0xff]" using 2 by (simp add: frame_ok_def break)
    ultimately have "stack_ok D (f # rest) (take (n - pos) (drop pos data))" using h(3) unfolding stack_ok.simps by blast
    then show ?thesis using h(1,2) by simp
  next
    case 3
    obtain head pushed pos' where hd: "ReadHead data pos = Inr (Some head)" "\<not> hd_IsBreak head"
        "fr_stringMajor f \<noteq> 0 \<longrightarrow> hd_Major head = fr_stringMajor f \<and> \<not> hd_Indefinite head"
      and wi: "walkItem data D (Suc (length rest)) head (pos + hd_EncodedSize head) = Inr (pushed, pos')"
      and w: "walk data D (pushed @ takeItem f # rest) pos' = Inr n"
      using "2.prems"(1) 3 by (auto simp: walk.simps(2) split: if_splits sum.splits option.splits)
    note sz = ReadHead_size(1,2)[OF hd(1)] and ws = walkItem_size[OF wi ReadHead_size(2)[OF hd(1)]]
    have ih: "pos' \<le> n" "n \<le> length data" "stack_ok D (pushed @ takeItem f # rest) (take (n - pos') (drop pos' data))"
      using "2.IH"(3)[of "Some head" head "(pushed, pos')" pushed pos'] 3 hd wi w ws(2) by auto
    define hb where "hb = take (hd_EncodedSize head) (drop pos data)"
    have "good_head (fr_stringMajor f) hb head"
      using ReadHead_prefix[of "drop pos data" head "[]"] hd sz ReadHead_drop[of data pos] by (simp add: good_head_def hb_def)
    from stack_ok_head[OF this 3(1) wi sz(2) ih(3)]
    have "stack_ok D (f # rest) (hb @ take (pos' - (pos + hd_EncodedSize head)) (drop (pos + hd_EncodedSize head) data) @ take (n - pos') (drop pos' data))" .
    moreover have "take (n - pos) (drop pos data) = hb @ take (pos' - (pos + hd_EncodedSize head)) (drop (pos + hd_EncodedSize head) data) @ take (n - pos') (drop pos' data)"
      using slice_split[of pos "pos + hd_EncodedSize head" n data] slice_split[of "pos + hd_EncodedSize head" pos' n data] sz ws ih(1,2)
      by (simp add: hb_def)
    ultimately show ?thesis using sz ws ih(1,2) by simp
  qed
qed

inductive_cases cbor_items_SucE: "cbor_items d sm (Suc n) b"
inductive_cases cbor_items_0E: "cbor_items d sm 0 b"

lemma cbor_items_one: "cbor_items d sm 1 b \<longleftrightarrow> cbor_item d sm b"
  using more[OF _ none, of d sm b] by (auto elim!: cbor_items_SucE cbor_items_0E)

lemma walk_exact:
  "walk data d [\<lparr>fr_remaining = 1, fr_indefinite = False, fr_stringMajor = 0\<rparr>] 0 = Inr n \<longleftrightarrow>
     n \<le> length data \<and> cbor_item d 0 (take n data)"
    (is "walk data d [?f] 0 = Inr n \<longleftrightarrow> ?ok")
proof
  show ?ok if "walk data d [?f] 0 = Inr n"
    using walk_sound[OF that] by (auto simp: frame_ok_def cbor_items_one simp del: One_nat_def)
  show "walk data d [?f] 0 = Inr n" if ?ok
    using walk_accepts(1)[of d 0 "take n data" data d, unfolded accepts_item_def, rule_format, of ?f 0 "drop n data" "[]"] that
    by (simp add: takeItem_def walk.simps(2))
qed

subsection \<open>The two grammars agree\<close>

lemma initial_byte: "m < 8 \<Longrightarrow> k < 32 \<Longrightarrow> unat (of_nat (32 * m + k) :: byte) = 32 * m + k"
  by (simp only: unsigned_of_nat take_bit_eq_mod) simp

lemma cbor_head_good:
  assumes "cbor_head m ao hb"
  shows "\<exists>h. good_head 0 hb h \<and> hd_Major h = m \<and> hd_Indefinite h = (ao = None) \<and> (\<forall>a. ao = Some a \<longrightarrow> hd_Argument h = a)"
  using assms
proof cases
  case (inline a)
  then show ?thesis using initial_byte[of m a] by (simp add: good_head_def ReadHead_Cons Let_def)
next
  case (following k p)
  then have "k < 32" by auto
  then show ?thesis using following initial_byte[of m k] by (auto simp: good_head_def ReadHead_Cons Let_def)
next
  case indefinite
  then show ?thesis using initial_byte[of m 31] by (auto simp: good_head_def ReadHead_Cons Let_def)
qed

lemma good_cbor_head:
  assumes "good_head sm hb h"
  shows "cbor_head (hd_Major h) (if hd_Indefinite h then None else Some (hd_Argument h)) hb"
proof -
  obtain c cs where hb: "hb = c # cs" using assms by (cases hb) (auto simp: good_head_def ReadHead_def)
  define m k where "m = unat c div 32" and "k = unat c mod 32"
  have m: "m < 8" using unat_byte_lt[of c] by (simp add: m_def)
  have c: "c = of_nat (32 * m + k)" by (simp add: m_def k_def)
  have rh: "ReadHead (c # cs) 0 = Inr (Some h)" "hd_EncodedSize h = Suc (length cs)" "\<not> hd_IsBreak h"
    using assms by (simp_all add: good_head_def hb)
  consider "k < 24" "cs = []" "h = \<lparr>hd_Major = m, hd_Additional = k, hd_Argument = k, hd_Indefinite = False, hd_IsBreak = False, hd_EncodedSize = 1\<rparr>"
    | n where "(k, n) \<in> {(24, 1), (25, 2), (26, 4), (27, 8)}" "length cs = n" "\<not> hd_Indefinite h" "hd_Argument h = be_nat cs" "hd_Major h = m"
    | "k = 31" "cs = []" "2 \<le> m" "m \<le> 5" "hd_Indefinite h" "hd_Major h = m"
    using rh unfolding ReadHead_Cons Let_def m_def[symmetric] k_def[symmetric]
    by (auto split: if_splits)
  then show ?thesis
  proof cases
    case 1
    then show ?thesis using cbor_head.inline[OF m, of k] by (simp add: hb c)
  next
    case (2 n)
    then show ?thesis using cbor_head.following[OF m, of k cs] by (simp add: hb c)
  next
    case 3
    then show ?thesis using cbor_head.indefinite[of m] by (simp add: hb c)
  qed
qed

lemmas encodes_intros = encodes_encodes_seq_encodes_open_encodes_chunks.intros

inductive_cases encodes_seq_SucE: "encodes_seq d (Suc n) b"
inductive_cases encodes_seq_0E: "encodes_seq d 0 b"

lemma encodes_seq_one: "encodes_seq d 1 b \<longleftrightarrow> encodes d b"
  using seq_item[OF _ seq_end, of d b] by (auto elim!: encodes_seq_SucE encodes_seq_0E)

lemma indefinite_major:
  assumes "good_head sm hb h" "hd_Indefinite h"
  shows "2 \<le> hd_Major h" "hd_Major h \<le> 5"
  using good_cbor_head[OF assms(1)] assms(2) by (auto elim: cbor_head.cases)

lemma items_encoded:
  "cbor_item d sm a \<Longrightarrow> (sm = 0 \<longrightarrow> encodes d a) \<and> (sm \<in> {2, 3} \<longrightarrow> (\<exists>h p. cbor_head sm (Some (length p)) h \<and> a = h @ p))"
  "cbor_items d sm n a \<Longrightarrow> sm = 0 \<longrightarrow> encodes_seq d n a"
  "cbor_chunks d sm a \<Longrightarrow> (sm = 0 \<longrightarrow> encodes_open d a) \<and> (sm \<in> {2, 3} \<longrightarrow> encodes_chunks sm a)"
proof (induction rule: cbor_item_cbor_items_cbor_chunks.inducts)
  case (scalar sm hb h d)
  have "\<not> hd_Indefinite h" using indefinite_major[OF scalar(1)] scalar(2) by auto
  then have "cbor_head (hd_Major h) (Some (hd_Argument h)) hb" using good_cbor_head[OF scalar(1)] by simp
  then show ?case using scalar number[of "hd_Major h" _ hb d] simple[of _ hb d] by (auto simp: good_head_def)
next
  case (string sm hb h p d)
  have "cbor_head (hd_Major h) (Some (length p)) hb" using good_cbor_head[OF string(1)] string(3,4) by simp
  then show ?case using string(1,2) text_or_bytes[of "hd_Major h" p hb d] by (auto simp: good_head_def simp del: append_eq_append_conv2) blast+
next
  case (istring sm hb h d b)
  then show ?case using good_cbor_head[OF istring(1)] open_string[of "hd_Major h" hb b d] by (auto simp: good_head_def)
next
  case (array sm hb h d b)
  then show ?case using good_cbor_head[OF array(1)] closed_array[of "hd_Argument h" hb d b] by (auto simp: good_head_def)
next
  case (iarray sm hb h d b)
  then show ?case using good_cbor_head[OF iarray(1)] open_array[of hb d b] by (auto simp: good_head_def)
next
  case (map sm hb h d b)
  then show ?case using good_cbor_head[OF map(1)] closed_map[of "hd_Argument h" hb d b] by (auto simp: good_head_def mult.commute)
next
  case (imap sm hb h d b)
  then show ?case using good_cbor_head[OF imap(1)] open_map[of hb d b] by (auto simp: good_head_def)
next
  case (tag sm hb h d b)
  then have "encodes d b" by (simp only: encodes_seq_one)
  then show ?case using tag good_cbor_head[OF tag(1)] tagged[of "hd_Argument h" hb d b] by (auto simp: good_head_def)
next
  case (chunk d sm a b)
  show ?case
  proof (intro conjI impI)
    show "encodes_open d (a @ b)" if "sm = 0" using that chunk.IH open_item by blast
    show "encodes_chunks sm (a @ b)" if "sm \<in> {2, 3}" using that chunk.IH chunks_item by blast
  qed
qed (auto intro: seq_end seq_item open_end chunks_end)

lemma encoded_items:
  "encodes d a \<Longrightarrow> cbor_item d 0 a"
  "encodes_seq d n a \<Longrightarrow> cbor_items d 0 n a"
  "encodes_open d a \<Longrightarrow> cbor_chunks d 0 a"
  "encodes_chunks m a \<Longrightarrow> m \<in> {2, 3} \<longrightarrow> (\<forall>d. cbor_chunks d m a)"
proof (induction rule: encodes_encodes_seq_encodes_open_encodes_chunks.inducts)
  case (number m a h d)
  then show ?case using cbor_head_good[OF number(2)] scalar by blast
next
  case (simple a h d)
  then show ?case using cbor_head_good[OF simple(1)] scalar by blast
next
  case (text_or_bytes m p h d)
  then show ?case using cbor_head_good[OF text_or_bytes(2)] string by (metis option.distinct(1))
next
  case (open_string m h b d)
  then show ?case using cbor_head_good[OF open_string(2)] istring by metis
next
  case (closed_array n h d b)
  then show ?case using cbor_head_good[OF closed_array(1)] array by (metis option.distinct(1))
next
  case (open_array h d b)
  then show ?case using cbor_head_good[OF open_array(1)] iarray by metis
next
  case (closed_map n h d b)
  obtain hd where "good_head 0 h hd" "hd_Major hd = 5" "\<not> hd_Indefinite hd" "hd_Argument hd = n"
    using cbor_head_good[OF closed_map(1)] by auto
  then show ?case using map[of 0 h hd d b] closed_map by (simp add: mult.commute)
next
  case (open_map h d b)
  then show ?case using cbor_head_good[OF open_map(1)] imap by metis
next
  case (tagged t h d b)
  then show ?case using cbor_head_good[OF tagged(1)] tag cbor_items_one by (metis option.distinct(1))
next
  case (chunks_item m p h b)
  show ?case
  proof (intro impI allI)
    fix d assume m: "m \<in> {2, 3}"
    obtain hd where "good_head 0 h hd" "hd_Major hd = m" "\<not> hd_Indefinite hd" "hd_Argument hd = length p"
      using cbor_head_good[OF chunks_item(1)] by auto
    then have "cbor_item d m (h @ p)" using m string[of m h hd p d] by (auto simp: good_head_def)
    then show "cbor_chunks d m ((h @ p) @ b)" using chunks_item.IH m chunk by blast
  qed
qed (auto intro: none more break chunk)

lemma cbor_item_encodes: "cbor_item d 0 a \<longleftrightarrow> encodes d a"
  using items_encoded(1)[of d 0 a] encoded_items(1) by blast

lemma walker_relaxations:
  "ItemLengthWithin [0xbf, 0x01, 0xff] 1 = Inr 3" "ItemLengthWithin [0xf8, 0x00] 0 = Inr 2"
  by code_simp+

text \<open>C30: The walker that guards every peer-controlled decode computes item lengths exactly:
  \<open>ItemLengthWithin\<close> returns n if and only if the first n bytes of its input are one item of the CBOR
  grammar of at most the given depth, whatever follows them.  The grammar is stated over the bytes, on
  its own: heads with the argument inline or in 1, 2, 4 or 8 big-endian bytes, strings, arrays, maps of
  fewer than 2^63 entries, tags, and items of indefinite length up to their break.  It is that of RFC 8949
  but for two forms the walker also accepts: a map of indefinite length that ends after a key without
  a value, and a simple value below 32 in two bytes.\<close>
theorem ItemLengthWithin_exact:
  "ItemLengthWithin data D = Inr n \<longleftrightarrow> 0 \<le> D \<and> n \<le> length data \<and> encodes (nat D) (take n data)"
  using walk_exact[of data "nat D" n] by (auto simp: ItemLengthWithin_def cbor_item_encodes)

lemma cbor_item_unique:
  assumes "cbor_item d 0 a" "cbor_item d 0 b" "a @ x = b @ y"
  shows "a = b"
proof -
  have "walk (a @ x) d [\<lparr>fr_remaining = 1, fr_indefinite = False, fr_stringMajor = 0\<rparr>] 0 = Inr (length a)"
    using assms(1) by (simp only: walk_exact) simp
  moreover have "walk (b @ y) d [\<lparr>fr_remaining = 1, fr_indefinite = False, fr_stringMajor = 0\<rparr>] 0 = Inr (length b)"
    using assms(2) by (simp only: walk_exact) simp
  ultimately have "length a = length b" using assms(3) by simp
  then show ?thesis using assms(3) by simp
qed

end
