(* ===== verification/MessageScanner.thy ===== *)
theory MessageScanner
  imports CborWalk "HOL-Library.Sublist"
begin

text \<open>
  The framing of mini-protocol messages (\<open>protocol/message_scanner.go\<close> and the read loop of
  \<open>protocol/protocol.go\<close>): an incremental scanner finds the end and the type of the CBOR array at
  the start of the read buffer while segments arrive.  The counter of processed bytes, which only
  tests read, is left out.
\<close>

subsection \<open>The scanner\<close>

record messageScanFrame =
  sf_remaining :: nat
  sf_indefinite :: bool

record messageScanner =
  sc_offset :: nat
  sc_frames :: "messageScanFrame list"
  sc_started :: bool
  sc_complete :: bool
  sc_pendingBytes :: nat
  sc_rootItems :: nat
  sc_messageType :: nat
  sc_hasMessageType :: bool

datatype scan_error =
    InputShrank | NotAnArray | TypeNotUnsigned | TypeOutOfRange | InvalidInteger | ScanUnexpectedBreak
  | ScanMapLengthOverflows | ScanInvalidTag | ScanNestingExceeded | ScanInvalidMajor nat | BadHead walk_error

record messageScanResult =
  rs_messageType :: nat
  rs_hasMessageType :: bool
  rs_started :: bool
  rs_messageLength :: nat
  rs_complete :: bool
  rs_oversized :: bool

definition newScanner :: messageScanner where
  "newScanner = \<lparr>sc_offset = 0, sc_frames = [], sc_started = False, sc_complete = False, sc_pendingBytes = 0,
     sc_rootItems = 0, sc_messageType = 0, sc_hasMessageType = False\<rparr>"

definition scan_pushFrame :: "messageScanner \<Rightarrow> messageScanFrame \<Rightarrow> scan_error + messageScanner" where
  "scan_pushFrame s f = (if int (length (sc_frames s)) \<ge> MaxNestedLevels then Inl ScanNestingExceeded
     else Inr (s\<lparr>sc_frames := f # sc_frames s\<rparr>))"

fun popFinished :: "messageScanFrame list \<Rightarrow> messageScanFrame list" where
  "popFinished [] = []"
| "popFinished (f # fs) = (if sf_indefinite f \<or> sf_remaining f > 0 then f # fs else popFinished fs)"

definition finishItem :: "messageScanner \<Rightarrow> messageScanner" where
  "finishItem s = (let fs = popFinished (sc_frames s) in
     if fs = [] then s\<lparr>sc_frames := [], sc_complete := True\<rparr> else s\<lparr>sc_frames := fs\<rparr>)"

definition exceedsLimit :: "messageScanner \<Rightarrow> int \<Rightarrow> bool" where
  "exceedsLimit s maxBytes =
     (if maxBytes \<le> 0 then False
      else if int (sc_offset s) > maxBytes then True
      else int (sc_pendingBytes s) > maxBytes - int (sc_offset s))"

definition scan_result :: "messageScanner \<Rightarrow> int \<Rightarrow> messageScanResult" where
  "scan_result s maxBytes = \<lparr>rs_messageType = sc_messageType s, rs_hasMessageType = sc_hasMessageType s,
     rs_started = sc_started s, rs_messageLength = sc_offset s, rs_complete = sc_complete s,
     rs_oversized = exceedsLimit s maxBytes\<rparr>"

text \<open>The switch on the major type of an item inside the message.\<close>

definition scanItem :: "messageScanner \<Rightarrow> Head \<Rightarrow> scan_error + messageScanner" where
  "scanItem s head =
     (if hd_Major head \<in> {0, 1} then
        (if hd_Indefinite head \<or> hd_IsBreak head then Inl InvalidInteger else Inr (finishItem s))
      else if hd_Major head \<in> {2, 3} then
        (if hd_IsBreak head then Inl ScanUnexpectedBreak
         else if hd_Indefinite head then scan_pushFrame s \<lparr>sf_remaining = 0, sf_indefinite = True\<rparr>
         else let s1 = s\<lparr>sc_pendingBytes := hd_Argument head\<rparr> in
           Inr (if sc_pendingBytes s1 = 0 then finishItem s1 else s1))
      else if hd_Major head = 4 then
        (if hd_IsBreak head then Inl ScanUnexpectedBreak
         else rbind (scan_pushFrame s \<lparr>sf_remaining = hd_Argument head, sf_indefinite = hd_Indefinite head\<rparr>)
           (\<lambda>s1. Inr (finishItem s1)))
      else if hd_Major head = 5 then
        (if hd_IsBreak head then Inl ScanUnexpectedBreak
         else if \<not> hd_Indefinite head \<and> hd_Argument head > (2 ^ 64 - 1) div 2 then Inl ScanMapLengthOverflows
         else rbind (scan_pushFrame s \<lparr>sf_remaining = hd_Argument head * 2, sf_indefinite = hd_Indefinite head\<rparr>)
           (\<lambda>s1. Inr (finishItem s1)))
      else if hd_Major head = 6 then
        (if hd_Indefinite head \<or> hd_IsBreak head then Inl ScanInvalidTag
         else scan_pushFrame s \<lparr>sf_remaining = 1, sf_indefinite = False\<rparr>)
      else if hd_Major head = 7 then
        (if hd_IsBreak head then Inl ScanUnexpectedBreak else Inr (finishItem s))
      else Inl (ScanInvalidMajor (hd_Major head)))"

text \<open>One turn of the scan loop: it goes round again, or \<open>scan\<close> returns, after the first item of the
  message (\<open>Typed\<close>), for any other reason, or with an error.\<close>

datatype scan_turn = Again messageScanner | Typed messageScanner | Return messageScanner | Fail messageScanner scan_error

definition again_unless_complete :: "messageScanner \<Rightarrow> scan_turn" where
  "again_unless_complete s = (if sc_complete s then Return s else Again s)"

definition scanPending :: "messageScanner \<Rightarrow> bytes \<Rightarrow> scan_turn" where
  "scanPending s data =
     (let available = length data - sc_offset s; consumed = min available (sc_pendingBytes s);
        s1 = s\<lparr>sc_offset := sc_offset s + consumed, sc_pendingBytes := sc_pendingBytes s - consumed\<rparr>
      in if sc_pendingBytes s1 > 0 then Return s1 else again_unless_complete (finishItem s1))"

definition scanRoot :: "messageScanner \<Rightarrow> bytes \<Rightarrow> int \<Rightarrow> scan_turn" where
  "scanRoot s data maxBytes =
     (case ReadHead data (sc_offset s) of
        Inl e \<Rightarrow> Fail s (BadHead e)
      | Inr None \<Rightarrow> Return s
      | Inr (Some head) \<Rightarrow>
          if hd_Major head \<noteq> 4 \<or> hd_IsBreak head then Fail s NotAnArray
          else
            let s1 = s\<lparr>sc_offset := sc_offset s + hd_EncodedSize head\<rparr> in
            if exceedsLimit s1 maxBytes then Return s1
            else
              let s2 = s1\<lparr>sc_started := True\<rparr> in
              if hd_Indefinite head then
                (case scan_pushFrame s2 \<lparr>sf_remaining = 0, sf_indefinite = True\<rparr> of
                   Inl e \<Rightarrow> Fail s2 e | Inr s3 \<Rightarrow> Again s3)
              else
                (case scan_pushFrame s2 \<lparr>sf_remaining = hd_Argument head, sf_indefinite = False\<rparr> of
                   Inl e \<Rightarrow> Fail s2 e | Inr s3 \<Rightarrow> again_unless_complete (finishItem s3)))"

definition decFrame :: "messageScanFrame \<Rightarrow> messageScanFrame" where
  "decFrame f = (if sf_indefinite f then f else f\<lparr>sf_remaining := sf_remaining f - 1\<rparr>)"

definition enterItem :: "messageScanner \<Rightarrow> messageScanFrame \<Rightarrow> messageScanFrame list \<Rightarrow> Head \<Rightarrow> messageScanner" where
  "enterItem s parent outer head =
     (let s1 = (if outer = [] \<and> sc_rootItems s = 0
          then s\<lparr>sc_messageType := hd_Argument head, sc_hasMessageType := True\<rparr> else s)
      in s1\<lparr>sc_frames := decFrame parent # outer, sc_rootItems := sc_rootItems s1 + (if outer = [] then 1 else 0),
        sc_offset := sc_offset s1 + hd_EncodedSize head\<rparr>)"

definition scanNext :: "messageScanner \<Rightarrow> messageScanFrame \<Rightarrow> messageScanFrame list \<Rightarrow> Head \<Rightarrow> int \<Rightarrow> scan_turn" where
  "scanNext s parent outer head maxBytes =
     (let firstRootItem = (outer = [] \<and> sc_rootItems s = 0); s2 = enterItem s parent outer head in
      if firstRootItem \<and> (hd_Major head \<noteq> 0 \<or> hd_Indefinite head \<or> hd_IsBreak head) then Fail s TypeNotUnsigned
      else if firstRootItem \<and> hd_Argument head > 2 ^ 64 - 1 then Fail s TypeOutOfRange
      else if exceedsLimit s2 maxBytes then Return s2
      else
        (case scanItem s2 head of
           Inl e \<Rightarrow> Fail s2 e
         | Inr s3 \<Rightarrow> if firstRootItem then Typed s3 else again_unless_complete s3))"

definition scan_turn :: "messageScanner \<Rightarrow> bytes \<Rightarrow> int \<Rightarrow> scan_turn" where
  "scan_turn s data maxBytes =
     (if exceedsLimit s maxBytes then Return s
      else if sc_pendingBytes s > 0 then scanPending s data
      else if \<not> sc_started s then scanRoot s data maxBytes
      else
        (case sc_frames s of
           [] \<Rightarrow> Return (s\<lparr>sc_complete := True\<rparr>)
         | parent # outer \<Rightarrow>
             if sc_offset s \<ge> length data then Return s
             else if sf_indefinite parent \<and> data ! sc_offset s = 0xff then
               again_unless_complete (finishItem (s\<lparr>sc_offset := sc_offset s + 1, sc_frames := outer\<rparr>))
             else if \<not> sf_indefinite parent \<and> sf_remaining parent = 0 then
               again_unless_complete (finishItem (s\<lparr>sc_frames := outer\<rparr>))
             else
               (case ReadHead data (sc_offset s) of
                  Inl e \<Rightarrow> Fail s (BadHead e)
                | Inr None \<Rightarrow> Return s
                | Inr (Some head) \<Rightarrow> scanNext s parent outer head maxBytes)))"

definition scan_measure :: "bytes \<Rightarrow> messageScanner \<Rightarrow> nat" where
  "scan_measure data s = 2 * (length data - sc_offset s) + length (sc_frames s)"

lemma length_popFinished: "length (popFinished fs) \<le> length fs"
  by (induction fs) auto

lemma finishItem_simps [simp]:
  "sc_offset (finishItem s) = sc_offset s" "length (sc_frames (finishItem s)) \<le> length (sc_frames s)"
  "sc_pendingBytes (finishItem s) = sc_pendingBytes s" "sc_started (finishItem s) = sc_started s"
  "sc_rootItems (finishItem s) = sc_rootItems s" "sc_messageType (finishItem s) = sc_messageType s"
  "sc_hasMessageType (finishItem s) = sc_hasMessageType s"
  using length_popFinished[of "sc_frames s"] by (auto simp: finishItem_def Let_def)

lemma finishItem_frames: "sc_frames (finishItem s) = popFinished (sc_frames s)"
  by (simp add: finishItem_def Let_def)

lemma scanItem_measure:
  assumes "scanItem s head = Inr s'"
  shows "sc_offset s' = sc_offset s" "length (sc_frames s') \<le> Suc (length (sc_frames s))"
  using assms by (auto simp: scanItem_def scan_pushFrame_def Let_def finishItem_frames
    intro: length_popFinished[THEN le_SucI] split: if_splits)

lemma again_unless_complete_Again: "again_unless_complete s = Again s' \<longleftrightarrow> s' = s \<and> \<not> sc_complete s"
  "again_unless_complete s \<noteq> Typed s'" "again_unless_complete s \<noteq> Fail s' e"
  by (auto simp: again_unless_complete_def)

lemma scanPending_measure:
  assumes "scanPending s data = Again s'" "0 < sc_pendingBytes s"
  shows "scan_measure data s' < scan_measure data s"
proof -
  let ?s1 = "s\<lparr>sc_offset := sc_offset s + sc_pendingBytes s, sc_pendingBytes := 0\<rparr>"
  have p: "sc_pendingBytes s \<le> length data - sc_offset s" and s': "s' = finishItem ?s1"
    using assms(1) by (auto simp: scanPending_def Let_def again_unless_complete_Again min_def split: if_splits)
  have "length (sc_frames s') \<le> length (sc_frames s)" using finishItem_simps(2)[of ?s1] s' by simp
  then show ?thesis using p s' assms(2) by (simp add: scan_measure_def)
qed

lemma scanRoot_Again:
  "scanRoot s data m = Again s' \<Longrightarrow> \<exists>head. ReadHead data (sc_offset s) = Inr (Some head) \<and>
     sc_offset s' = sc_offset s + hd_EncodedSize head \<and> length (sc_frames s') \<le> Suc (length (sc_frames s))"
  by (auto simp: scanRoot_def scan_pushFrame_def Let_def again_unless_complete_Again finishItem_frames
      intro: length_popFinished[THEN le_SucI] split: if_splits sum.splits option.splits)

lemma scanRoot_measure: "scanRoot s data m = Again s' \<Longrightarrow> scan_measure data s' < scan_measure data s"
  using scanRoot_Again[of s data m s'] ReadHead_size[of data "sc_offset s"] by (force simp: scan_measure_def)

lemma enterItem_simps [simp]:
  "sc_offset (enterItem s p ps h) = sc_offset s + hd_EncodedSize h" "length (sc_frames (enterItem s p ps h)) = Suc (length ps)"
  "sc_pendingBytes (enterItem s p ps h) = sc_pendingBytes s" "sc_started (enterItem s p ps h) = sc_started s"
  "sc_complete (enterItem s p ps h) = sc_complete s" "0 < sc_rootItems (enterItem s p ps h) \<longleftrightarrow> ps = [] \<or> 0 < sc_rootItems s"
  by (auto simp: enterItem_def Let_def)

lemma scanNext_measure:
  assumes "scanNext s parent outer head m = Again s' \<or> scanNext s parent outer head m = Typed s'"
    "sc_frames s = parent # outer" "ReadHead data (sc_offset s) = Inr (Some head)"
  shows "scan_measure data s' < scan_measure data s"
proof -
  have "scanItem (enterItem s parent outer head) head = Inr s'"
    using assms(1) by (auto simp: scanNext_def Let_def again_unless_complete_Again split: if_splits sum.splits)
  then show ?thesis using ReadHead_size[OF assms(3)] scanItem_measure[of "enterItem s parent outer head" head s'] assms(2)
    by (simp add: scan_measure_def)
qed

lemma scan_turn_measure:
  assumes "scan_turn s data m = Again s' \<or> scan_turn s data m = Typed s'"
  shows "scan_measure data s' < scan_measure data s"
proof (cases "sc_pendingBytes s > 0 \<or> \<not> sc_started s")
  case True
  then show ?thesis using assms scanPending_measure[of s data s'] scanRoot_measure[of s data m s']
    by (auto simp: scan_turn_def scanPending_def scanRoot_def Let_def again_unless_complete_Again split: if_splits sum.splits option.splits)
next
  case False
  then obtain parent outer where fr: "sc_frames s = parent # outer" and "sc_offset s < length data"
    using assms by (auto simp: scan_turn_def split: if_splits list.splits)
  consider "s' = finishItem (s\<lparr>sc_offset := sc_offset s + 1, sc_frames := outer\<rparr>)" | "s' = finishItem (s\<lparr>sc_frames := outer\<rparr>)"
    | head where "ReadHead data (sc_offset s) = Inr (Some head)"
        "scanNext s parent outer head m = Again s' \<or> scanNext s parent outer head m = Typed s'"
    using assms False fr by (auto simp: scan_turn_def again_unless_complete_Again split: if_splits sum.splits option.splits)
  then show ?thesis
  proof cases
    case 1
    then show ?thesis using fr finishItem_simps(2)[of "s\<lparr>sc_offset := sc_offset s + 1, sc_frames := outer\<rparr>"]
      by (simp add: scan_measure_def)
  next
    case 2
    then show ?thesis using fr finishItem_simps(2)[of "s\<lparr>sc_frames := outer\<rparr>"] by (simp add: scan_measure_def)
  next
    case 3
    then show ?thesis using scanNext_measure fr by blast
  qed
qed

text \<open>The loop of \<open>scan\<close>, and the scan to the end that the read loop obtains by calling \<open>scan\<close> again
  once the type is known.\<close>

function scanLoop :: "messageScanner \<Rightarrow> bytes \<Rightarrow> int \<Rightarrow> messageScanner \<times> scan_error option" where
  "scanLoop s data maxBytes = (case scan_turn s data maxBytes of
     Again s' \<Rightarrow> scanLoop s' data maxBytes
   | Typed s' \<Rightarrow> (s', None)
   | Return s' \<Rightarrow> (s', None)
   | Fail s' e \<Rightarrow> (s', Some e))"
  by pat_completeness auto
termination
  by (relation "measure (\<lambda>(s, data, m). scan_measure data s)") (auto intro: scan_turn_measure)

function drive :: "messageScanner \<Rightarrow> bytes \<Rightarrow> int \<Rightarrow> messageScanner \<times> scan_error option" where
  "drive s data maxBytes = (case scan_turn s data maxBytes of
     Again s' \<Rightarrow> drive s' data maxBytes
   | Typed s' \<Rightarrow> if sc_complete s' then (s', None) else drive s' data maxBytes
   | Return s' \<Rightarrow> (s', None)
   | Fail s' e \<Rightarrow> (s', Some e))"
  by pat_completeness auto
termination
  by (relation "measure (\<lambda>(s, data, m). scan_measure data s)") (auto intro: scan_turn_measure)

declare scanLoop.simps [simp del] drive.simps [simp del]

definition scan :: "messageScanner \<Rightarrow> bytes \<Rightarrow> int \<Rightarrow> messageScanner \<times> (scan_error + messageScanResult)" where
  "scan s data maxBytes =
     (if sc_complete s then (s, Inr (scan_result s maxBytes))
      else if sc_offset s > length data then (s, Inl InputShrank)
      else (case scanLoop s data maxBytes of
          (s', None) \<Rightarrow> (s', Inr (scan_result s' maxBytes))
        | (s', Some e) \<Rightarrow> (s', Inl e)))"

subsection \<open>Framing of well-formed messages\<close>

definition cont :: "bytes \<Rightarrow> int \<Rightarrow> messageScanner \<Rightarrow> messageScanner \<times> scan_error option" where
  "cont data m s = (if sc_complete s then (s, None) else drive s data m)"

lemma drive_again: "scan_turn s data m = again_unless_complete s' \<Longrightarrow> drive s data m = cont data m s'"
  by (simp add: drive.simps[of s] again_unless_complete_def cont_def)

definition after :: "messageScanner \<Rightarrow> messageScanFrame list \<Rightarrow> nat \<Rightarrow> nat \<Rightarrow> messageScanner" where
  "after s fs n k = s\<lparr>sc_frames := fs, sc_offset := sc_offset s + n, sc_rootItems := k\<rparr>"

lemma after_simps [simp]:
  "sc_frames (after s fs n k) = fs" "sc_offset (after s fs n k) = sc_offset s + n" "sc_rootItems (after s fs n k) = k"
  "sc_pendingBytes (after s fs n k) = sc_pendingBytes s" "sc_started (after s fs n k) = sc_started s"
  "sc_complete (after s fs n k) = sc_complete s" "after (after s fs n k) fs' n' k' = after s fs' (n + n') k'"
  "sc_messageType (after s fs n k) = sc_messageType s" "sc_hasMessageType (after s fs n k) = sc_hasMessageType s"
  by (simp_all add: after_def)

text \<open>A scanner inside a message, in front of the bytes \<open>a\<close>, with room for \<open>d\<close> more levels.\<close>

definition inside :: "bytes \<Rightarrow> int \<Rightarrow> nat \<Rightarrow> messageScanner \<Rightarrow> messageScanFrame \<Rightarrow> messageScanFrame list \<Rightarrow> bytes \<Rightarrow> bool" where
  "inside data m d s p ps a \<longleftrightarrow> sc_started s \<and> \<not> sc_complete s \<and> sc_pendingBytes s = 0 \<and> sc_frames s = p # ps \<and>
     (ps \<noteq> [] \<or> 0 < sc_rootItems s) \<and> (\<exists>x. drop (sc_offset s) data = a @ x) \<and>
     int (Suc (length ps) + d) \<le> MaxNestedLevels \<and> (m \<le> 0 \<or> int (sc_offset s + length a) \<le> m)"

definition scans_item :: "bytes \<Rightarrow> int \<Rightarrow> nat \<Rightarrow> bytes \<Rightarrow> bool" where
  "scans_item data m d a \<longleftrightarrow> (\<forall>s p ps. inside data m d s p ps a \<longrightarrow> sf_indefinite p \<or> 0 < sf_remaining p \<longrightarrow>
     (\<exists>k \<ge> sc_rootItems s. drive s data m = cont data m (finishItem (after s (decFrame p # ps) (length a) k))))"

definition scans_frame :: "bytes \<Rightarrow> int \<Rightarrow> nat \<Rightarrow> messageScanFrame \<Rightarrow> bytes \<Rightarrow> bool" where
  "scans_frame data m d f a \<longleftrightarrow> (\<forall>s ps. inside data m d s f ps a \<longrightarrow>
     (\<exists>k \<ge> sc_rootItems s. drive s data m = cont data m (finishItem (after s ps (length a) k))))"

lemma finishItem_finished:
  "\<not> sf_indefinite f \<Longrightarrow> sf_remaining f = 0 \<Longrightarrow> finishItem (after s (f # ps) n k) = finishItem (after s ps n k)"
  by (simp add: finishItem_def after_def Let_def)

lemma finishItem_open: "sf_indefinite f \<or> 0 < sf_remaining f \<Longrightarrow> sc_frames s = f # ps \<Longrightarrow> finishItem s = s"
  by (auto simp: finishItem_def Let_def)

lemma exceeds_after: "m \<le> 0 \<or> int (sc_offset s + n) + int (sc_pendingBytes s) \<le> m \<Longrightarrow> \<not> exceedsLimit (after s fs n k) m"
  by (auto simp: exceedsLimit_def)

lemma good_head_indefinite: "good_head sm hb h \<Longrightarrow> hd_Indefinite h \<Longrightarrow> 2 \<le> hd_Major h \<and> hd_Major h \<le> 5"
  by (cases hb) (auto simp: good_head_def ReadHead_def Let_def split: if_splits)

lemma inside_head:
  assumes i: "inside data m d s p ps (hb @ b)" and g: "good_head sm hb h" and p: "sf_indefinite p \<or> 0 < sf_remaining p"
  defines "k \<equiv> sc_rootItems s + (if ps = [] then 1 else 0)"
  shows "scan_turn s data m =
    (case scanItem (after s (decFrame p # ps) (length hb) k) h of
       Inl e \<Rightarrow> Fail (after s (decFrame p # ps) (length hb) k) e | Inr s3 \<Rightarrow> again_unless_complete s3)"
proof -
  obtain x where x: "drop (sc_offset s) data = hb @ b @ x" using i by (auto simp: inside_def)
  note r = good_head_ReadHead[OF g x]
  have sz: "hd_EncodedSize h = length hb" using g by (simp add: good_head_def)
  have st: "sc_started s" "sc_pendingBytes s = 0" "sc_frames s = p # ps" and root: "\<not> (ps = [] \<and> sc_rootItems s = 0)"
    and fit: "m \<le> 0 \<or> int (sc_offset s + (length hb + length b)) \<le> m"
    using i by (auto simp: inside_def)
  have e: "enterItem s p ps h = after s (decFrame p # ps) (length hb) k"
    unfolding enterItem_def if_not_P[OF root] by (simp add: after_def k_def sz)
  have "\<not> exceedsLimit s m" "\<not> exceedsLimit (after s (decFrame p # ps) (length hb) k) m"
    using fit st(2) by (auto simp: exceedsLimit_def)
  moreover have "\<not> (\<not> sf_indefinite p \<and> sf_remaining p = 0)" "\<not> sc_offset s \<ge> length data" using p r(2) by auto
  ultimately show ?thesis using st root r(1,3) by (auto simp: scan_turn_def scanNext_def e Let_def split: sum.split)
qed

lemma scans_itemI:
  assumes "\<And>s p ps. inside data m d s p ps a \<Longrightarrow> sf_indefinite p \<or> 0 < sf_remaining p \<Longrightarrow>
    \<exists>k \<ge> sc_rootItems s. drive s data m = cont data m (finishItem (after s (decFrame p # ps) (length a) k))"
  shows "scans_item data m d a"
  using assms by (simp add: scans_item_def)

lemma scans_scalar:
  assumes g: "good_head sm hb h" and h: "hd_Major h \<in> {0, 1, 7}"
  shows "scans_item data m d hb"
proof (rule scans_itemI)
  fix s p ps
  assume i: "inside data m d s p ps hb" and p: "sf_indefinite p \<or> 0 < sf_remaining p"
  have "\<not> hd_Indefinite h" "\<not> hd_IsBreak h" using good_head_indefinite[OF g] g h by (auto simp: good_head_def)
  then have "scan_turn s data m = again_unless_complete (finishItem (after s (decFrame p # ps) (length hb)
      (sc_rootItems s + (if ps = [] then 1 else 0))))"
    using inside_head[of data m d s p ps hb "[]" sm h] i g p h by (auto simp: scanItem_def)
  then show "\<exists>k \<ge> sc_rootItems s. drive s data m = cont data m (finishItem (after s (decFrame p # ps) (length hb) k))"
    using drive_again le_add1 by blast
qed

lemma scans_string:
  assumes g: "good_head sm hb h" and h: "hd_Major h \<in> {2, 3}" "\<not> hd_Indefinite h" and b: "length b = hd_Argument h"
  shows "scans_item data m d (hb @ b)"
proof (rule scans_itemI)
  fix s p ps
  assume i: "inside data m d s p ps (hb @ b)" and p: "sf_indefinite p \<or> 0 < sf_remaining p"
  define k where "k = sc_rootItems s + (if ps = [] then 1 else 0)"
  define s1 where "s1 = (after s (decFrame p # ps) (length hb) k)\<lparr>sc_pendingBytes := hd_Argument h\<rparr>"
  have nb: "\<not> hd_IsBreak h" using g by (simp add: good_head_def)
  have st: "sc_pendingBytes s = 0" "\<not> sc_complete s" and fit: "m \<le> 0 \<or> int (sc_offset s + (length hb + length b)) \<le> m"
    using i by (auto simp: inside_def)
  have turn: "scan_turn s data m = again_unless_complete (if hd_Argument h = 0 then finishItem s1 else s1)"
    using inside_head[OF i g p] h nb by (auto simp: scanItem_def s1_def k_def Let_def)
  have s1: "s1\<lparr>sc_offset := sc_offset s1 + hd_Argument h, sc_pendingBytes := 0\<rparr> = after s (decFrame p # ps) (length (hb @ b)) k"
    using st(1) b by (simp add: s1_def after_def)
  have "drive s data m = cont data m (finishItem (after s (decFrame p # ps) (length (hb @ b)) k))"
  proof (cases "hd_Argument h = 0")
    case True
    then have "s1 = after s (decFrame p # ps) (length (hb @ b)) k" using st(1) b by (simp add: s1_def after_def)
    then show ?thesis using drive_again[OF turn] True by simp
  next
    case False
    obtain x where x: "drop (sc_offset s) data = hb @ b @ x" using i by (auto simp: inside_def)
    have "length data - sc_offset s1 = length (b @ x)"
      using arg_cong[OF drop_append_length[OF x], of length] by (simp add: s1_def)
    then have "scanPending s1 data = again_unless_complete (finishItem (after s (decFrame p # ps) (length (hb @ b)) k))"
      using b s1 by (simp add: scanPending_def s1_def min_def Let_def)
    moreover have "\<not> exceedsLimit s1 m" using fit b by (auto simp: exceedsLimit_def s1_def)
    ultimately have "scan_turn s1 data m = again_unless_complete (finishItem (after s (decFrame p # ps) (length (hb @ b)) k))"
      using False by (simp add: scan_turn_def s1_def)
    then have "drive s1 data m = cont data m (finishItem (after s (decFrame p # ps) (length (hb @ b)) k))" by (rule drive_again)
    moreover have "cont data m s1 = drive s1 data m" using st(2) by (simp add: cont_def s1_def)
    ultimately show ?thesis using drive_again[OF turn] False by simp
  qed
  then show "\<exists>k \<ge> sc_rootItems s. drive s data m = cont data m (finishItem (after s (decFrame p # ps) (length (hb @ b)) k))"
    using k_def le_add1 by blast
qed

lemma scans_frameD:
  "scans_frame data m d f a \<Longrightarrow> inside data m d s f ps a \<Longrightarrow>
     \<exists>k \<ge> sc_rootItems s. drive s data m = cont data m (finishItem (after s ps (length a) k))"
  by (simp add: scans_frame_def)

lemma scans_push:
  assumes g: "good_head sm hb h"
    and w: "\<And>s. scanItem s h = (case scan_pushFrame s f of Inl e \<Rightarrow> Inl e | Inr s1 \<Rightarrow> Inr (if fin then finishItem s1 else s1))"
    and b: "(sf_indefinite f \<or> 0 < sf_remaining f) \<and> scans_frame data m d f b \<or> \<not> sf_indefinite f \<and> sf_remaining f = 0 \<and> fin \<and> b = []"
  shows "scans_item data m (Suc d) (hb @ b)"
proof (rule scans_itemI)
  fix s p ps
  assume i: "inside data m (Suc d) s p ps (hb @ b)" and p: "sf_indefinite p \<or> 0 < sf_remaining p"
  define k where "k = sc_rootItems s + (if ps = [] then 1 else 0)"
  define s1 where "s1 = after s (f # decFrame p # ps) (length hb) k"
  obtain x where x: "drop (sc_offset s) data = hb @ b @ x" using i by (auto simp: inside_def)
  have depth: "int (Suc (Suc (length ps)) + d) \<le> MaxNestedLevels" using i by (simp add: inside_def)
  have "scan_pushFrame (after s (decFrame p # ps) (length hb) k) f = Inr s1"
    using depth by (simp add: scan_pushFrame_def s1_def after_def)
  then have turn: "scan_turn s data m = again_unless_complete (if fin then finishItem s1 else s1)"
    using inside_head[OF i g p] w by (simp add: k_def)
  show "\<exists>k \<ge> sc_rootItems s. drive s data m = cont data m (finishItem (after s (decFrame p # ps) (length (hb @ b)) k))"
  proof (cases "sf_indefinite f \<or> 0 < sf_remaining f")
    case True
    have "inside data m d s1 f (decFrame p # ps) b"
      using i drop_append_length[OF x] depth by (auto simp: inside_def s1_def)
    then obtain k' where "sc_rootItems s1 \<le> k'" "drive s1 data m = cont data m (finishItem (after s1 (decFrame p # ps) (length b) k'))"
      using scans_frameD[of data m d f b s1] b True by auto
    moreover have "drive s data m = drive s1 data m"
      using drive_again[OF turn] finishItem_open[OF True, of s1 "decFrame p # ps"] i by (auto simp: cont_def s1_def inside_def)
    ultimately show ?thesis by (intro exI[of _ k']) (simp add: s1_def k_def)
  next
    case False
    then have "drive s data m = cont data m (finishItem (after s (decFrame p # ps) (length (hb @ b)) k))"
      using drive_again[OF turn] b finishItem_finished[of f s "decFrame p # ps" "length hb" k] by (simp add: s1_def)
    then show ?thesis using k_def le_add1 by blast
  qed
qed

definition scans_items :: "bytes \<Rightarrow> int \<Rightarrow> nat \<Rightarrow> nat \<Rightarrow> bytes \<Rightarrow> bool" where
  "scans_items data m d n a \<longleftrightarrow>
     (if n = 0 then a = [] else scans_frame data m d \<lparr>sf_remaining = n, sf_indefinite = False\<rparr> a)"

lemma inside_prefix: "inside data m d s p ps (a @ b) \<Longrightarrow> inside data m d s p ps a"
  by (auto simp: inside_def)

lemma inside_after:
  assumes "inside data m d s p ps (a @ b)" "sc_rootItems s \<le> k"
  shows "inside data m d (after s (q # ps) (length a) k) q ps b"
proof -
  obtain x where "drop (sc_offset s) data = a @ b @ x" using assms(1) by (auto simp: inside_def)
  then have "\<exists>x. drop (sc_offset s + length a) data = b @ x" using drop_append_length by blast
  then show ?thesis using assms by (auto simp: inside_def)
qed

lemma scans_items_Cons:
  assumes a: "scans_item data m d a" and b: "scans_items data m d n b"
  shows "scans_items data m d (Suc n) (a @ b)"
proof -
  let ?f = "\<lparr>sf_remaining = Suc n, sf_indefinite = False\<rparr>" and ?g = "\<lparr>sf_remaining = n, sf_indefinite = False\<rparr>"
  have "scans_frame data m d ?f (a @ b)" unfolding scans_frame_def
  proof (intro allI impI)
    fix s ps
    assume i: "inside data m d s ?f ps (a @ b)"
    obtain k where k: "sc_rootItems s \<le> k" "drive s data m = cont data m (finishItem (after s (?g # ps) (length a) k))"
      using a[unfolded scans_item_def, rule_format, OF inside_prefix[OF i]] by (auto simp: decFrame_def)
    show "\<exists>k \<ge> sc_rootItems s. drive s data m = cont data m (finishItem (after s ps (length (a @ b)) k))"
    proof (cases "n = 0")
      case True
      then show ?thesis using k b finishItem_finished[of ?g s ps "length a" k] by (auto simp: scans_items_def)
    next
      case False
      have j: "inside data m d (after s (?g # ps) (length a) k) ?g ps b" by (rule inside_after[OF i k(1)])
      obtain k' where k': "k \<le> k'"
        "drive (after s (?g # ps) (length a) k) data m = cont data m (finishItem (after (after s (?g # ps) (length a) k) ps (length b) k'))"
        using scans_frameD[OF _ j] b False by (auto simp: scans_items_def)
      have "drive s data m = drive (after s (?g # ps) (length a) k) data m"
        using k(2) finishItem_open[of ?g "after s (?g # ps) (length a) k" ps] False i by (simp add: cont_def inside_def)
      then show ?thesis using k' k(1) by (intro exI[of _ k']) simp
    qed
  qed
  then show ?thesis by (simp add: scans_items_def)
qed

lemma scans_break: "scans_frame data m d \<lparr>sf_remaining = r, sf_indefinite = True\<rparr> [0xff]"
  unfolding scans_frame_def
proof (intro allI impI)
  fix s ps
  assume i: "inside data m d s \<lparr>sf_remaining = r, sf_indefinite = True\<rparr> ps [0xff]"
  obtain x where x: "drop (sc_offset s) data = 0xff # x" using i by (auto simp: inside_def)
  then have d: "sc_offset s < length data" "data ! sc_offset s = 0xff"
    by (metis drop_eq_Nil list.distinct(1) not_less, metis nth_via_drop)
  have st: "sc_started s" "sc_pendingBytes s = 0" "sc_frames s = \<lparr>sf_remaining = r, sf_indefinite = True\<rparr> # ps"
    and fit: "m \<le> 0 \<or> int (sc_offset s + 1) \<le> m"
    using i by (auto simp: inside_def)
  have "\<not> exceedsLimit s m" using fit st by (auto simp: exceedsLimit_def)
  then have "scan_turn s data m = again_unless_complete (finishItem (s\<lparr>sc_offset := sc_offset s + 1, sc_frames := ps\<rparr>))"
    using d st by (simp add: scan_turn_def)
  also have "s\<lparr>sc_offset := sc_offset s + 1, sc_frames := ps\<rparr> = after s ps (length [0xff :: byte]) (sc_rootItems s)"
    by (cases s) (simp add: after_def)
  finally have "scan_turn s data m = again_unless_complete (finishItem (after s ps (length [0xff :: byte]) (sc_rootItems s)))" .
  then show "\<exists>k \<ge> sc_rootItems s. drive s data m = cont data m (finishItem (after s ps (length [0xff :: byte]) k))"
    using drive_again by blast
qed

lemma scans_chunk:
  assumes a: "scans_item data m d a" and b: "scans_frame data m d \<lparr>sf_remaining = r, sf_indefinite = True\<rparr> b"
  shows "scans_frame data m d \<lparr>sf_remaining = r, sf_indefinite = True\<rparr> (a @ b)"
  unfolding scans_frame_def
proof (intro allI impI)
  fix s ps
  let ?f = "\<lparr>sf_remaining = r, sf_indefinite = True\<rparr>"
  assume i: "inside data m d s ?f ps (a @ b)"
  obtain k where k: "sc_rootItems s \<le> k" "drive s data m = cont data m (finishItem (after s (?f # ps) (length a) k))"
    using a[unfolded scans_item_def, rule_format, OF inside_prefix[OF i]] by (auto simp: decFrame_def)
  have j: "inside data m d (after s (?f # ps) (length a) k) ?f ps b" by (rule inside_after[OF i k(1)])
  obtain k' where k': "k \<le> k'"
    "drive (after s (?f # ps) (length a) k) data m = cont data m (finishItem (after (after s (?f # ps) (length a) k) ps (length b) k'))"
    using scans_frameD[OF b j] by auto
  have "drive s data m = drive (after s (?f # ps) (length a) k) data m"
    using k(2) finishItem_open[of ?f "after s (?f # ps) (length a) k" ps] i by (simp add: cont_def inside_def)
  then show "\<exists>k \<ge> sc_rootItems s. drive s data m = cont data m (finishItem (after s ps (length (a @ b)) k))"
    using k' k(1) by (intro exI[of _ k']) simp
qed

lemma scans_grammar:
  "cbor_item d sm a \<Longrightarrow> scans_item data m d a"
  "cbor_items d sm n a \<Longrightarrow> scans_items data m d n a"
  "cbor_chunks d sm a \<Longrightarrow> \<forall>r. scans_frame data m d \<lparr>sf_remaining = r, sf_indefinite = True\<rparr> a"
proof (induction rule: cbor_item_cbor_items_cbor_chunks.inducts)
  case scalar
  then show ?case by (rule scans_scalar)
next
  case string
  then show ?case by (rule scans_string)
next
  case (istring sm hb h d b)
  show ?case
    by (rule scans_push[OF istring(1), where f = "\<lparr>sf_remaining = 0, sf_indefinite = True\<rparr>" and fin = False])
      (use istring in \<open>auto simp: scanItem_def good_head_def split: sum.split\<close>)
next
  case (array sm hb h d b)
  show ?case
    by (rule scans_push[OF array(1), where f = "\<lparr>sf_remaining = hd_Argument h, sf_indefinite = False\<rparr>" and fin = True])
      (use array in \<open>auto simp: scanItem_def good_head_def scans_items_def rbind_def split: sum.split if_splits\<close>)
next
  case (iarray sm hb h d b)
  show ?case
    by (rule scans_push[OF iarray(1), where f = "\<lparr>sf_remaining = hd_Argument h, sf_indefinite = True\<rparr>" and fin = True])
      (use iarray in \<open>auto simp: scanItem_def good_head_def rbind_def split: sum.split\<close>)
next
  case (map sm hb h d b)
  show ?case
    by (rule scans_push[OF map(1), where f = "\<lparr>sf_remaining = hd_Argument h * 2, sf_indefinite = False\<rparr>" and fin = True])
      (use map in \<open>auto simp: scanItem_def good_head_def scans_items_def rbind_def split: sum.split if_splits\<close>)
next
  case (imap sm hb h d b)
  show ?case
    by (rule scans_push[OF imap(1), where f = "\<lparr>sf_remaining = hd_Argument h * 2, sf_indefinite = True\<rparr>" and fin = True])
      (use imap in \<open>auto simp: scanItem_def good_head_def rbind_def split: sum.split\<close>)
next
  case (tag sm hb h d b)
  show ?case
    by (rule scans_push[OF tag(1), where f = "\<lparr>sf_remaining = 1, sf_indefinite = False\<rparr>" and fin = False])
      (use tag in \<open>auto simp: scanItem_def good_head_def scans_items_def split: sum.split\<close>)
next
  case none
  then show ?case by (simp add: scans_items_def)
next
  case more
  then show ?case by (intro scans_items_Cons)
next
  case break
  then show ?case by (intro allI scans_break)
next
  case chunk
  then show ?case by (intro allI scans_chunk) auto
qed

text \<open>A message of type \<open>t\<close>: a well-formed array whose first item is the unsigned integer \<open>t\<close>.\<close>

definition is_message :: "nat \<Rightarrow> bytes \<Rightarrow> bool" where
  "is_message t msg \<longleftrightarrow> cbor_item (nat MaxNestedLevels) 0 msg \<and>
     (\<exists>h ah. ReadHead msg 0 = Inr (Some h) \<and> hd_Major h = 4 \<and> (hd_Indefinite h \<or> 0 < hd_Argument h) \<and>
        ReadHead msg (hd_EncodedSize h) = Inr (Some ah) \<and> hd_Major ah = 0 \<and> hd_Argument ah = t)"

lemma good_head_append: "good_head sm hb h \<Longrightarrow> ReadHead (hb @ x) 0 = Inr (Some h)"
  using ReadHead_prefix[of hb h x] by (simp add: good_head_def)

lemma cbor_item_head:
  assumes "cbor_item d sm a"
  shows "\<exists>hb h b. a = hb @ b \<and> good_head sm hb h \<and> (hd_Major h = 0 \<longrightarrow> b = []) \<and>
    (hd_Major h = 4 \<longrightarrow> \<not> hd_Indefinite h \<longrightarrow> cbor_items (d - 1) 0 (hd_Argument h) b) \<and>
    (hd_Major h = 4 \<longrightarrow> hd_Indefinite h \<longrightarrow> cbor_chunks (d - 1) 0 b)"
  using assms
proof cases
  case (scalar h)
  then show ?thesis by (intro exI[of _ a] exI[of _ h] exI[of _ "[]"]) auto
next
  case (string hb h b)
  then show ?thesis by (intro exI[of _ hb] exI[of _ h] exI[of _ b]) (auto simp del: append_eq_append_conv)
next
  case (istring hb h e b)
  then show ?thesis by (intro exI[of _ hb] exI[of _ h] exI[of _ b]) (auto simp del: append_eq_append_conv)
next
  case (array hb h e b)
  then show ?thesis by (intro exI[of _ hb] exI[of _ h] exI[of _ b]) (auto simp del: append_eq_append_conv)
next
  case (iarray hb h e b)
  then show ?thesis by (intro exI[of _ hb] exI[of _ h] exI[of _ b]) (auto simp del: append_eq_append_conv)
next
  case (map hb h e b)
  then show ?thesis by (intro exI[of _ hb] exI[of _ h] exI[of _ b]) (auto simp del: append_eq_append_conv)
next
  case (imap hb h e b)
  then show ?thesis by (intro exI[of _ hb] exI[of _ h] exI[of _ b]) (auto simp del: append_eq_append_conv)
next
  case (tag hb h e b)
  then show ?thesis by (intro exI[of _ hb] exI[of _ h] exI[of _ b]) (auto simp del: append_eq_append_conv)
qed

lemma first_item_unsigned:
  assumes "cbor_item d 0 a" "ReadHead (a @ x) 0 = Inr (Some ah)" "hd_Major ah = 0"
  shows "good_head 0 a ah"
proof -
  obtain hb h b where a: "a = hb @ b" "good_head 0 hb h" "hd_Major h = 0 \<longrightarrow> b = []" using cbor_item_head[OF assms(1)] by (elim exE conjE) (rule that)
  then have "h = ah" using assms(2) good_head_append[OF a(2), of "b @ x"] by simp
  then show ?thesis using a assms(3) by simp
qed

text \<open>The bytes of a message: the head of the array, its type, the other items.\<close>

definition message_parts :: "nat \<Rightarrow> bytes \<Rightarrow> bytes \<Rightarrow> Head \<Rightarrow> bytes \<Rightarrow> Head \<Rightarrow> bytes \<Rightarrow> bool" where
  "message_parts t msg hb h a ah b \<longleftrightarrow> msg = hb @ a @ b \<and> good_head 0 hb h \<and> hd_Major h = 4 \<and>
     good_head 0 a ah \<and> hd_Major ah = 0 \<and> hd_Argument ah = t \<and>
     (if hd_Indefinite h then cbor_chunks (nat MaxNestedLevels - 1) 0 b
      else 0 < hd_Argument h \<and> cbor_items (nat MaxNestedLevels - 1) 0 (hd_Argument h - 1) b)"

lemma is_message_parts:
  assumes "is_message t msg"
  shows "\<exists>hb h a ah b. message_parts t msg hb h a ah b"
proof -
  obtain h0 ah where h0: "ReadHead msg 0 = Inr (Some h0)" "hd_Major h0 = 4" "hd_Indefinite h0 \<or> 0 < hd_Argument h0"
    "ReadHead msg (hd_EncodedSize h0) = Inr (Some ah)" "hd_Major ah = 0" "hd_Argument ah = t"
    and it: "cbor_item (nat MaxNestedLevels) 0 msg" using assms by (auto simp: is_message_def)
  obtain hb h c where m: "msg = hb @ c" "good_head 0 hb h" and d:
    "hd_Major h = 4 \<longrightarrow> \<not> hd_Indefinite h \<longrightarrow> cbor_items (nat MaxNestedLevels - 1) 0 (hd_Argument h) c"
    "hd_Major h = 4 \<longrightarrow> hd_Indefinite h \<longrightarrow> cbor_chunks (nat MaxNestedLevels - 1) 0 c"
    using cbor_item_head[OF it] by (elim exE conjE) (rule that)
  have h: "h = h0" using h0(1) good_head_append[OF m(2), of c] m(1) by simp
  have rd: "ReadHead c 0 = Inr (Some ah)"
    using h0(4) h m ReadHead_drop[of msg "hd_EncodedSize h0"] by (simp add: good_head_def)
  have "\<exists>a b. c = a @ b \<and> cbor_item (nat MaxNestedLevels - 1) 0 a \<and>
    (if hd_Indefinite h then cbor_chunks (nat MaxNestedLevels - 1) 0 b
     else 0 < hd_Argument h \<and> cbor_items (nat MaxNestedLevels - 1) 0 (hd_Argument h - 1) b)"
  proof (cases "hd_Indefinite h")
    case False
    then obtain n where n: "hd_Argument h = Suc n" using h0(3) h by (cases "hd_Argument h") auto
    then have "cbor_items (nat MaxNestedLevels - 1) 0 (Suc n) c" using d(1) False h h0(2) by simp
    then show ?thesis by (rule cbor_items_SucE) (use False n in auto)
  next
    case True
    have "cbor_chunks (nat MaxNestedLevels - 1) 0 c" using d(2) True h h0(2) by simp
    then show ?thesis
    proof cases
      case break
      then show ?thesis using rd h0(5) by (auto simp: ReadHead_Cons)
    next
      case (chunk a b)
      then show ?thesis using True by auto
    qed
  qed
  then obtain a b where ab: "c = a @ b" "cbor_item (nat MaxNestedLevels - 1) 0 a"
    "if hd_Indefinite h then cbor_chunks (nat MaxNestedLevels - 1) 0 b
     else 0 < hd_Argument h \<and> cbor_items (nat MaxNestedLevels - 1) 0 (hd_Argument h - 1) b" by blast
  have "good_head 0 a ah" using first_item_unsigned[OF ab(2)] rd ab(1) h0(5) by simp
  then have "message_parts t msg hb h a ah b" using m ab(1,3) h h0(2,5,6) unfolding message_parts_def by auto
  then show ?thesis by blast
qed

text \<open>The scan of a buffer that starts with a message ends exactly at the end of the message.\<close>

definition framed :: "nat \<Rightarrow> nat \<Rightarrow> messageScanner \<times> scan_error option \<Rightarrow> bool" where
  "framed t n r \<longleftrightarrow> snd r = None \<and> sc_complete (fst r) \<and> sc_offset (fst r) = n \<and>
     sc_pendingBytes (fst r) = 0 \<and> sc_hasMessageType (fst r) \<and> sc_messageType (fst r) = t"

lemma framed_cont:
  "framed t n (cont data m (finishItem (after s [] k j))) \<longleftrightarrow>
     n = sc_offset s + k \<and> sc_pendingBytes s = 0 \<and> sc_hasMessageType s \<and> sc_messageType s = t"
  by (auto simp: framed_def cont_def finishItem_def)

lemma scan_root_turn:
  assumes g: "good_head 0 hb h" "hd_Major h = 4" and fit: "m \<le> 0 \<or> int (length hb) \<le> m"
    and ne: "hd_Indefinite h \<or> 0 < hd_Argument h"
  shows "scan_turn newScanner (hb @ y) m = Again (newScanner\<lparr>sc_offset := length hb, sc_started := True,
    sc_frames := [\<lparr>sf_remaining = hd_Argument h, sf_indefinite = hd_Indefinite h\<rparr>]\<rparr>)"
proof -
  have sz: "hd_EncodedSize h = length hb" "\<not> hd_IsBreak h" and r: "ReadHead (hb @ y) 0 = Inr (Some h)"
    using g(1) good_head_append by (auto simp: good_head_def)
  have arg: "hd_Indefinite h \<Longrightarrow> hd_Argument h = 0"
    using g(1) by (cases hb) (auto simp: good_head_def ReadHead_def Let_def split: if_splits)
  show ?thesis using fit ne r g(2) sz arg
    by (auto simp: scan_turn_def scanRoot_def newScanner_def exceedsLimit_def scan_pushFrame_def MaxNestedLevels_def
      again_unless_complete_def finishItem_def Let_def)
qed

lemma drive_message:
  assumes parts: "message_parts t msg hb h a ah b" and fit: "m \<le> 0 \<or> int (length msg) \<le> m"
  shows "framed t (length msg) (drive newScanner (msg @ x) m)"
proof -
  have msg: "msg = hb @ a @ b" and g: "good_head 0 hb h" "hd_Major h = 4" and ga: "good_head 0 a ah" "hd_Major ah = 0" "hd_Argument ah = t"
    and tl: "hd_Indefinite h \<Longrightarrow> cbor_chunks (nat MaxNestedLevels - 1) 0 b"
      "\<not> hd_Indefinite h \<Longrightarrow> 0 < hd_Argument h \<and> cbor_items (nat MaxNestedLevels - 1) 0 (hd_Argument h - 1) b"
    using parts by (auto simp: message_parts_def)
  define f where "f = \<lparr>sf_remaining = hd_Argument h, sf_indefinite = hd_Indefinite h\<rparr>"
  define s1 where "s1 = newScanner\<lparr>sc_offset := length hb, sc_started := True, sc_frames := [f]\<rparr>"
  define s2 where "s2 = s1\<lparr>sc_messageType := t, sc_hasMessageType := True, sc_frames := [decFrame f], sc_rootItems := 1,
    sc_offset := length hb + length a\<rparr>"
  have ne: "hd_Indefinite h \<or> 0 < hd_Argument h" using tl(2) by (cases "hd_Indefinite h") auto
  have "m \<le> 0 \<or> int (length hb) \<le> m" using fit by (auto simp: msg)
  then have "scan_turn newScanner (msg @ x) m = Again s1"
    using scan_root_turn[OF g _ ne, of m "a @ b @ x"] by (simp add: msg s1_def f_def)
  then have d1: "drive newScanner (msg @ x) m = drive s1 (msg @ x) m" by (simp add: drive.simps[of newScanner])
  have dr: "drop (length hb) (msg @ x) = a @ b @ x" by (simp add: msg)
  note ra = good_head_ReadHead[OF ga(1) dr]
  have "\<not> hd_Indefinite ah" "\<not> hd_IsBreak ah" "hd_EncodedSize ah = length a"
    using good_head_indefinite[OF ga(1)] ga by (auto simp: good_head_def)
  moreover have "hd_Argument ah \<le> 2 ^ 64 - 1" using ReadHead_size(3)[OF ra(1)] by simp
  moreover have "\<not> exceedsLimit s1 m" "\<not> exceedsLimit s2 m" using fit by (auto simp: exceedsLimit_def s1_def s2_def newScanner_def msg)
  moreover have "enterItem s1 f [] ah = s2" using calculation(3) ga(3) by (simp add: enterItem_def s1_def s2_def newScanner_def)
  moreover have "sf_indefinite f \<or> 0 < sf_remaining f" using ne by (simp add: f_def)
  ultimately have "scan_turn s1 (msg @ x) m = Typed (finishItem s2)"
    using ra ga(2) unfolding scan_turn_def scanNext_def by (auto simp: s1_def newScanner_def scanItem_def Let_def)
  then have d2: "drive s1 (msg @ x) m = cont (msg @ x) m (finishItem s2)" by (simp add: drive.simps[of s1] cont_def)
  have ins: "inside (msg @ x) m (nat MaxNestedLevels - 1) s2 (decFrame f) [] b"
    using fit dr by (auto simp: inside_def s2_def s1_def newScanner_def MaxNestedLevels_def msg)
  show ?thesis
  proof (cases "sf_indefinite (decFrame f) \<or> 0 < sf_remaining (decFrame f)")
    case True
    have "scans_frame (msg @ x) m (nat MaxNestedLevels - 1) (decFrame f) b"
    proof (cases "hd_Indefinite h")
      case True
      then show ?thesis using scans_grammar(3)[OF tl(1), of "msg @ x" m] by (simp add: f_def decFrame_def)
    next
      case False
      then have "scans_items (msg @ x) m (nat MaxNestedLevels - 1) (hd_Argument h - 1) b" using scans_grammar(2) tl(2) by blast
      then show ?thesis using False \<open>sf_indefinite (decFrame f) \<or> _\<close> by (simp add: f_def decFrame_def scans_items_def)
    qed
    then obtain k where "drive s2 (msg @ x) m = cont (msg @ x) m (finishItem (after s2 [] (length b) k))"
      using scans_frameD[OF _ ins] by blast
    moreover have "finishItem s2 = s2" by (rule finishItem_open[OF True, of _ "[]"]) (simp add: s2_def)
    moreover have "cont (msg @ x) m s2 = drive s2 (msg @ x) m" by (simp add: cont_def s2_def s1_def newScanner_def)
    ultimately have "drive newScanner (msg @ x) m = cont (msg @ x) m (finishItem (after s2 [] (length b) k))"
      using d1 d2 by simp
    then show ?thesis using framed_cont by (simp add: s2_def s1_def newScanner_def msg)
  next
    case False
    then have "\<not> hd_Indefinite h" "hd_Argument h - 1 = 0" by (auto simp: f_def decFrame_def split: if_splits)
    then have "cbor_items (nat MaxNestedLevels - 1) 0 0 b" using tl(2) by simp
    then have "b = []" by (rule cbor_items_0E)
    then show ?thesis using d1 d2 False
      by (auto simp: framed_def cont_def finishItem_def s2_def s1_def newScanner_def msg)
  qed
qed

subsection \<open>Scanning while the buffer grows\<close>

lemma ReadHead_append:
  assumes "ReadHead p off \<noteq> Inr None"
  shows "ReadHead (p @ q) off = ReadHead p off"
proof -
  have "off < length p" using assms by (rule_tac ccontr) (simp add: ReadHead_def)
  then obtain c cs where c: "drop off p = c # cs" by (cases "drop off p") auto
  have ne: "ReadHead (c # cs) 0 \<noteq> Inr None" using assms ReadHead_drop[of p off] c by simp
  consider "unat c mod 32 < 24" | "unat c mod 32 = 24" | "unat c mod 32 = 25" | "unat c mod 32 = 26"
    | "unat c mod 32 = 27" | "unat c mod 32 = 31" | "27 < unat c mod 32" "unat c mod 32 \<noteq> 31" by linarith
  then have "ReadHead (c # cs @ q) 0 = ReadHead (c # cs) 0"
    by cases (use ne in \<open>auto simp: ReadHead_Cons Let_def not_less Suc_le_eq split: if_splits\<close>)
  then show ?thesis using ReadHead_drop[of p off] ReadHead_drop[of "p @ q" off] c \<open>off < length p\<close> by simp
qed

text \<open>A turn that does not wait for data is the same on a longer buffer.\<close>

definition waits :: "messageScanner \<Rightarrow> bytes \<Rightarrow> int \<Rightarrow> bool" where
  "waits s data m \<longleftrightarrow> \<not> exceedsLimit s m \<and>
     (if 0 < sc_pendingBytes s then length data - sc_offset s < sc_pendingBytes s
      else if \<not> sc_started s then ReadHead data (sc_offset s) = Inr None
      else sc_frames s \<noteq> [] \<and> (sc_offset s \<ge> length data \<or>
        \<not> (sf_indefinite (hd (sc_frames s)) \<and> data ! sc_offset s = 0xff) \<and>
        \<not> (\<not> sf_indefinite (hd (sc_frames s)) \<and> sf_remaining (hd (sc_frames s)) = 0) \<and>
        ReadHead data (sc_offset s) = Inr None))"

lemma scan_turn_append:
  assumes "\<not> waits s p m" "sc_offset s \<le> length p"
  shows "scan_turn s (p @ q) m = scan_turn s p m"
proof (cases "exceedsLimit s m \<or> 0 < sc_pendingBytes s")
  case True
  then show ?thesis using assms by (auto simp: scan_turn_def scanPending_def waits_def Let_def min_def)
next
  case False
  then show ?thesis
    using assms ReadHead_append[of p "sc_offset s" q]
    by (cases "sc_frames s") (auto simp: scan_turn_def scanRoot_def waits_def nth_append)
qed

lemma scanPending_eq:
  "scanPending s data = (if length data - sc_offset s < sc_pendingBytes s
     then Return (s\<lparr>sc_offset := sc_offset s + (length data - sc_offset s), sc_pendingBytes := sc_pendingBytes s - (length data - sc_offset s)\<rparr>)
     else again_unless_complete (finishItem (s\<lparr>sc_offset := sc_offset s + sc_pendingBytes s, sc_pendingBytes := 0\<rparr>)))"
  by (auto simp: scanPending_def Let_def min_def)

lemma drive_after_wait:
  assumes w: "waits s p m" and off: "sc_offset s \<le> length p"
  shows "\<exists>s'. scan_turn s p m = Return s' \<and> drive s' (p @ q) m = drive s (p @ q) m \<and> \<not> exceedsLimit s' m \<and>
    sc_offset s' \<le> length p \<and> sc_complete s' = sc_complete s"
proof (cases "0 < sc_pendingBytes s")
  case True
  define d where "d = length p - sc_offset s"
  define s' where "s' = s\<lparr>sc_offset := length p, sc_pendingBytes := sc_pendingBytes s - d\<rparr>"
  have d: "d < sc_pendingBytes s" "sc_offset s + d = length p" using w True off by (auto simp: waits_def d_def)
  have nex: "\<not> exceedsLimit s m" using w by (simp add: waits_def)
  then have "m \<le> 0 \<or> int (sc_offset s) + int (sc_pendingBytes s) \<le> m" by (auto simp: exceedsLimit_def split: if_splits)
  then have "\<not> exceedsLimit s' m" using d by (auto simp: exceedsLimit_def s'_def)
  with nex have ex: "exceedsLimit s' m = exceedsLimit s m" "\<not> exceedsLimit s m" by simp_all
  have t: "scan_turn s p m = Return s'"
    using w True d ex(2) off by (simp add: scan_turn_def scanPending_eq waits_def s'_def flip: d_def)
  have "scanPending s' (p @ q) = scanPending s (p @ q)"
  proof (cases "length q < sc_pendingBytes s - d")
    case True
    then have "length (p @ q) - sc_offset s = d + length q" "d + length q < sc_pendingBytes s" using d off by simp_all
    then show ?thesis using True d by (simp add: scanPending_eq s'_def)
  next
    case False
    then have "length (p @ q) - sc_offset s = d + length q" "\<not> d + length q < sc_pendingBytes s" using d off by simp_all
    moreover have "length p + (sc_pendingBytes s - d) = sc_offset s + sc_pendingBytes s" using d by simp
    ultimately show ?thesis using False d by (auto simp: scanPending_eq s'_def)
  qed
  then have "scan_turn s' (p @ q) m = scan_turn s (p @ q) m" using ex True d by (simp add: scan_turn_def s'_def)
  then have "drive s' (p @ q) m = drive s (p @ q) m" by (simp add: drive.simps[of s] drive.simps[of s'])
  then show ?thesis using t ex by (intro exI[of _ s']) (simp add: s'_def)
next
  case False
  then have "scan_turn s p m = Return s"
    using w by (cases "sc_frames s") (auto simp: scan_turn_def waits_def scanRoot_def)
  then show ?thesis using w off by (intro exI[of _ s]) (simp add: waits_def)
qed

text \<open>What a turn keeps.\<close>

lemma scanItem_keeps:
  assumes "scanItem s head = Inr s'"
  shows "sc_offset s' = sc_offset s" "sc_rootItems s' = sc_rootItems s" "sc_hasMessageType s' = sc_hasMessageType s"
    "sc_messageType s' = sc_messageType s"
  using assms by (auto simp: scanItem_def scan_pushFrame_def Let_def split: if_splits)

definition keeps :: "nat \<Rightarrow> messageScanner \<Rightarrow> messageScanner \<Rightarrow> bool" where
  "keeps n s s' \<longleftrightarrow> sc_offset s' \<le> n \<and> sc_rootItems s \<le> sc_rootItems s' \<and>
     (0 < sc_rootItems s \<longrightarrow> sc_messageType s' = sc_messageType s) \<and>
     (sc_hasMessageType s' \<longleftrightarrow> sc_hasMessageType s \<or> sc_rootItems s = 0 \<and> 0 < sc_rootItems s')"

lemma keeps_trans: "keeps n s s' \<Longrightarrow> keeps n s' s'' \<Longrightarrow> keeps n s s''"
  by (auto simp: keeps_def)

lemma again_unless_complete_state: "again_unless_complete s \<in> {Again s', Typed s', Return s'} \<longleftrightarrow> s' = s"
  by (auto simp: again_unless_complete_def)

lemma scanPending_keeps:
  "scanPending s data \<in> {Again s', Typed s', Return s'} \<Longrightarrow> sc_offset s \<le> length data \<Longrightarrow> keeps (length data) s s'"
  by (auto simp: scanPending_eq keeps_def again_unless_complete_def split: if_splits)

lemma scanRoot_keeps:
  "scanRoot s data m \<in> {Again s', Typed s', Return s'} \<Longrightarrow> sc_offset s \<le> length data \<Longrightarrow> keeps (length data) s s'"
  using ReadHead_size(2)[of data "sc_offset s"]
  by (auto simp: scanRoot_def keeps_def scan_pushFrame_def again_unless_complete_def Let_def split: if_splits option.splits sum.splits)

lemma scanNext_keeps:
  assumes "scanNext s parent outer head m \<in> {Again s', Typed s', Return s'}" "sc_offset s + hd_EncodedSize head \<le> n"
  shows "keeps n s s'"
proof -
  have "s' = enterItem s parent outer head \<or> scanItem (enterItem s parent outer head) head = Inr s'"
    using assms(1) by (auto simp: scanNext_def Let_def again_unless_complete_def split: if_splits sum.splits)
  moreover have "keeps n s (enterItem s parent outer head)"
    using assms(2) by (auto simp: keeps_def enterItem_def Let_def)
  ultimately show ?thesis using scanItem_keeps[of "enterItem s parent outer head" head s'] by (auto simp: keeps_def)
qed

lemma scan_turn_keeps:
  assumes "scan_turn s data m \<in> {Again s', Typed s', Return s'}" "sc_offset s \<le> length data"
  shows "keeps (length data) s s'"
proof (cases "exceedsLimit s m \<or> 0 < sc_pendingBytes s \<or> \<not> sc_started s \<or> sc_frames s = []")
  case True
  have refl: "keeps (length data) s s" "keeps (length data) s (s\<lparr>sc_complete := True\<rparr>)" using assms(2) by (auto simp: keeps_def)
  then show ?thesis using True assms(1) scanPending_keeps[OF _ assms(2), of s'] scanRoot_keeps[OF _ assms(2), of m s']
    by (auto simp: scan_turn_def split: if_splits)
next
  case False
  then obtain parent outer where fr: "sc_frames s = parent # outer" by (cases "sc_frames s") auto
  show ?thesis
  proof (cases "ReadHead data (sc_offset s)")
    case (Inl e)
    then show ?thesis using False fr assms by (auto simp: scan_turn_def keeps_def again_unless_complete_def split: if_splits)
  next
    case (Inr h)
    then show ?thesis using False fr assms scanNext_keeps[OF _ ReadHead_size(2), of s parent outer _ m s' data]
      by (cases h) (auto simp: scan_turn_def keeps_def again_unless_complete_def split: if_splits)
  qed
qed

lemma scan_turn_Return:
  assumes "scan_turn s p m = Return s'" "\<not> waits s p m"
  shows "sc_complete s' \<or> exceedsLimit s' m"
proof (cases "exceedsLimit s m \<or> 0 < sc_pendingBytes s \<or> \<not> sc_started s \<or> sc_frames s = []")
  case True
  then show ?thesis using assms
    by (auto simp: scan_turn_def waits_def scanPending_eq scanRoot_def again_unless_complete_def Let_def
      split: if_splits sum.splits option.splits)
next
  case False
  then obtain parent outer where "sc_frames s = parent # outer" by (cases "sc_frames s") auto
  then show ?thesis using assms False
    by (auto simp: scan_turn_def waits_def scanNext_def again_unless_complete_def Let_def
      split: if_splits sum.splits option.splits)
qed

lemma scan_turn_Again:
  assumes "scan_turn s p m = Again s'" "\<not> sc_complete s"
  shows "\<not> sc_complete s'"
  using assms by (auto simp: scan_turn_def scanPending_eq scanRoot_def scanNext_def scan_pushFrame_def again_unless_complete_def Let_def
      split: if_splits sum.splits option.splits list.splits)

lemma drive_extend:
  "drive s p m = (s', e) \<Longrightarrow> sc_offset s \<le> length p \<Longrightarrow> \<not> sc_complete s \<Longrightarrow>
     (e = None \<longrightarrow> keeps (length p) s s') \<and>
     (drive s (p @ q) m = (s', e) \<and> (e \<noteq> None \<or> sc_complete s' \<or> exceedsLimit s' m)
      \<or> e = None \<and> \<not> sc_complete s' \<and> \<not> exceedsLimit s' m \<and> drive s' (p @ q) m = drive s (p @ q) m)"
proof (induction s p m rule: drive.induct)
  case (1 s p m)
  show ?case
  proof (cases "waits s p m")
    case True
    obtain s1 where s1: "scan_turn s p m = Return s1" "drive s1 (p @ q) m = drive s (p @ q) m" "\<not> exceedsLimit s1 m" "sc_complete s1 = sc_complete s"
      using drive_after_wait[OF True "1.prems"(2), of q] by blast
    then have "s' = s1" "e = None" using "1.prems"(1) by (simp_all add: drive.simps[of s])
    then show ?thesis using s1 "1.prems"(3) scan_turn_keeps[OF _ "1.prems"(2), of m s1] by simp
  next
    case False
    note ap = scan_turn_append[OF False "1.prems"(2), of q]
    show ?thesis
    proof (cases "scan_turn s p m")
      case (Again s1)
      have k: "keeps (length p) s s1" using scan_turn_keeps[OF _ "1.prems"(2), of m s1] Again by simp
      have "drive s1 p m = (s', e)" "drive s (p @ q) m = drive s1 (p @ q) m"
        using "1.prems"(1) Again ap by (simp_all add: drive.simps[of s])
      then show ?thesis using "1.IH"(1)[OF Again] k scan_turn_Again[OF Again "1.prems"(3)] keeps_trans[OF k]
        by (auto simp: keeps_def)
    next
      case (Typed s1)
      have k: "keeps (length p) s s1" using scan_turn_keeps[OF _ "1.prems"(2), of m s1] Typed by simp
      show ?thesis
      proof (cases "sc_complete s1")
        case True
        then show ?thesis using "1.prems"(1) Typed ap k by (auto simp: drive.simps[of s])
      next
        case nc: False
        have "drive s1 p m = (s', e)" "drive s (p @ q) m = drive s1 (p @ q) m"
          using "1.prems"(1) Typed ap nc by (simp_all add: drive.simps[of s])
        then show ?thesis using "1.IH"(2)[OF Typed nc] k nc keeps_trans[OF k] by (auto simp: keeps_def)
      qed
    next
      case (Return s1)
      have "s' = s1" "e = None" "drive s (p @ q) m = (s1, None)" using "1.prems"(1) Return ap by (simp_all add: drive.simps[of s])
      then show ?thesis using scan_turn_Return[OF Return False] scan_turn_keeps[OF _ "1.prems"(2), of m s1] Return by simp
    next
      case (Fail s1 e1)
      then show ?thesis using "1.prems"(1) ap by (auto simp: drive.simps[of s])
    qed
  qed
qed

subsection \<open>The two calls of \<open>scan\<close>\<close>

lemma scan_turn_Typed:
  assumes "scan_turn s p m = Typed s'"
  shows "sc_rootItems s = 0" "0 < sc_rootItems s'"
proof -
  obtain parent outer head where fr: "sc_frames s = parent # outer" and n: "scanNext s parent outer head m = Typed s'"
    using assms by (auto simp: scan_turn_def scanPending_eq scanRoot_def again_unless_complete_def Let_def
      split: if_splits sum.splits option.splits list.splits)
  have "outer = []" "sc_rootItems s = 0" "scanItem (enterItem s parent outer head) head = Inr s'"
    using n by (auto simp: scanNext_def Let_def again_unless_complete_def split: if_splits sum.splits)
  then show "sc_rootItems s = 0" "0 < sc_rootItems s'"
    using scanItem_keeps(2)[of "enterItem s parent outer head" head s'] by (auto simp: enterItem_def)
qed

lemma scanLoop_drive_typed:
  "0 < sc_rootItems s \<Longrightarrow> sc_offset s \<le> length p \<Longrightarrow> scanLoop s p m = drive s p m"
proof (induction s p m rule: scanLoop.induct)
  case (1 s p m)
  show ?case
  proof (cases "scan_turn s p m")
    case (Again s1)
    then have "keeps (length p) s s1" using scan_turn_keeps[OF _ "1.prems"(2), of m s1] by simp
    then have "scanLoop s1 p m = drive s1 p m" using "1.IH"[OF Again] "1.prems"(1) by (simp add: keeps_def)
    then show ?thesis using Again by (simp add: scanLoop.simps[of s] drive.simps[of s])
  next
    case (Typed s1)
    then show ?thesis using scan_turn_Typed(1) "1.prems"(1) by simp
  qed (simp_all add: scanLoop.simps[of s] drive.simps[of s])
qed

lemma scanLoop_drive:
  "sc_rootItems s = 0 \<Longrightarrow> sc_offset s \<le> length p \<Longrightarrow> \<not> sc_complete s \<Longrightarrow>
     scanLoop s p m = drive s p m \<or>
     (\<exists>s1. scanLoop s p m = (s1, None) \<and> 0 < sc_rootItems s1 \<and> \<not> sc_complete s1 \<and> keeps (length p) s s1 \<and> drive s p m = drive s1 p m)"
proof (induction s p m rule: scanLoop.induct)
  case (1 s p m)
  show ?case
  proof (cases "scan_turn s p m")
    case (Again s1)
    have k: "keeps (length p) s s1" using scan_turn_keeps[OF _ "1.prems"(2), of m s1] Again by simp
    have eq: "scanLoop s p m = scanLoop s1 p m" "drive s p m = drive s1 p m"
      using Again by (simp_all add: scanLoop.simps[of s] drive.simps[of s])
    show ?thesis
    proof (cases "sc_rootItems s1 = 0")
      case True
      then show ?thesis using "1.IH"[OF Again True _ scan_turn_Again[OF Again "1.prems"(3)]] k eq keeps_trans[OF k]
        by (auto simp: keeps_def)
    next
      case False
      then show ?thesis using scanLoop_drive_typed[of s1 p m] k eq by (simp add: keeps_def)
    qed
  next
    case (Typed s1)
    have k: "keeps (length p) s s1" using scan_turn_keeps[OF _ "1.prems"(2), of m s1] Typed by simp
    show ?thesis
      using Typed k scan_turn_Typed(2)[OF Typed] by (simp add: scanLoop.simps[of s] drive.simps[of s])
  qed (simp_all add: scanLoop.simps[of s] drive.simps[of s])
qed

subsection \<open>The read loop\<close>

text \<open>What the read loop asks of its surroundings: the caps in force, the answer of the connection-wide
  reassembly allowance for a buffer of a given size (\<open>reserveReadBuffer\<close>), the outcome of
  \<open>waitForInboundAdmission\<close> for a message type, and whether \<open>MessageFromCborFunc\<close> decodes a message.
  The loop may also be stopped from outside at any wait; the model is of a loop that is not.\<close>

record readEnv =
  re_maxReadBufferSize :: nat
  re_limit :: int
  re_reserve :: "nat \<Rightarrow> bool"
  re_admit :: "nat \<Rightarrow> bool"
  re_decode :: "nat \<Rightarrow> bytes \<Rightarrow> bool"

text \<open>The read buffer, the scanner over it, and whether the message at its start has been admitted.\<close>

record reader =
  rd_buffer :: bytes
  rd_scanner :: messageScanner
  rd_checked :: bool

definition newReader :: reader where
  "newReader = \<lparr>rd_buffer = [], rd_scanner = newScanner, rd_checked = False\<rparr>"

datatype read_error =
    DecodeError scan_error | Oversized | EmptyMessage | ReadBufferExceeded | ReadBufferBudget | ZeroByteRead
  | NotAdmitted nat | MessageError nat

text \<open>The inner loop: \<open>scan\<close>, and again when the type has just become known and is admitted.\<close>

definition scanMessage :: "readEnv \<Rightarrow> reader \<Rightarrow> read_error + (reader \<times> messageScanResult)" where
  "scanMessage env rd =
     (case scan (rd_scanner rd) (rd_buffer rd) (re_limit env) of
        (s1, Inl e) \<Rightarrow> Inl (DecodeError e)
      | (s1, Inr r1) \<Rightarrow>
          if rs_hasMessageType r1 \<and> \<not> rd_checked rd then
            if \<not> re_admit env (rs_messageType r1) then Inl (NotAdmitted (rs_messageType r1))
            else
              (case scan s1 (rd_buffer rd) (re_limit env) of
                 (s2, Inl e) \<Rightarrow> Inl (DecodeError e)
               | (s2, Inr r2) \<Rightarrow> if rs_oversized r2 then Inl Oversized
                   else Inr (rd\<lparr>rd_scanner := s2, rd_checked := True\<rparr>, r2))
          else if rs_oversized r1 then Inl Oversized
          else Inr (rd\<lparr>rd_scanner := s1\<rparr>, r1))"

text \<open>\<open>consumeMessage\<close>: the rest of the buffer with a fresh scanner.\<close>

definition consumeMessage :: "nat \<Rightarrow> reader \<Rightarrow> reader" where
  "consumeMessage n rd = \<lparr>rd_buffer = drop n (rd_buffer rd), rd_scanner = newScanner, rd_checked = False\<rparr>"

text \<open>The turns of the read loop on what the buffer holds; it waits for a segment when the message is
  incomplete or the buffer is used up.  The bound on the number of turns is the size of the buffer:
  every message takes at least one byte.\<close>

fun readBuffered :: "nat \<Rightarrow> readEnv \<Rightarrow> reader \<Rightarrow> read_error + (reader \<times> (nat \<times> bytes) list)" where
  "readBuffered 0 env rd = Inr (rd, [])"
| "readBuffered (Suc n) env rd =
     (if rd_buffer rd = [] then Inr (rd, [])
      else
        (case scanMessage env rd of
           Inl e \<Rightarrow> Inl e
         | Inr (rd1, r) \<Rightarrow>
             if \<not> rs_complete r then Inr (rd1, [])
             else if rs_messageLength r = 0 \<or> \<not> rs_hasMessageType r then Inl EmptyMessage
             else
               let msgData = take (rs_messageLength r) (rd_buffer rd1) in
               if 0 < re_limit env \<and> int (length msgData) > re_limit env then Inl Oversized
               else if \<not> re_decode env (rs_messageType r) msgData then Inl (MessageError (rs_messageType r))
               else
                 (case readBuffered n env (consumeMessage (rs_messageLength r) rd1) of
                    Inl e \<Rightarrow> Inl e
                  | Inr (rd2, ms) \<Rightarrow> Inr (rd2, (rs_messageType r, msgData) # ms))))"

text \<open>\<open>appendSegment\<close>; \<open>targetCapacity\<close> depends on the capacity of the buffer, which the model leaves to
  \<^const>\<open>re_reserve\<close>.\<close>

definition appendSegment :: "readEnv \<Rightarrow> bytes \<Rightarrow> reader \<Rightarrow> read_error + reader" where
  "appendSegment env payload rd =
     (let pendingLen = length (rd_buffer rd) + length payload in
      if pendingLen > re_maxReadBufferSize env then Inl ReadBufferExceeded
      else if \<not> re_reserve env pendingLen then Inl ReadBufferBudget
      else Inr (rd\<lparr>rd_buffer := rd_buffer rd @ payload\<rparr>))"

text \<open>The segments that are already queued are appended together, before the buffer is scanned.\<close>

fun drainQueued :: "readEnv \<Rightarrow> bytes list \<Rightarrow> reader \<Rightarrow> read_error + reader" where
  "drainQueued env [] rd = Inr rd"
| "drainQueued env (payload # queued) rd = rbind (appendSegment env payload rd) (drainQueued env queued)"

text \<open>The read loop on the batches of segment payloads it takes from the muxer.\<close>

fun protocol_readLoop :: "readEnv \<Rightarrow> reader \<Rightarrow> bytes list list \<Rightarrow> read_error + (reader \<times> (nat \<times> bytes) list)" where
  "protocol_readLoop env rd [] = Inr (rd, [])"
| "protocol_readLoop env rd (batch # rest) =
     rbind (drainQueued env batch rd) (\<lambda>rd1.
     rbind (ensure (rd_buffer rd1 \<noteq> []) ZeroByteRead) (\<lambda>_.
     rbind (readBuffered (length (rd_buffer rd1)) env rd1) (\<lambda>(rd2, ms).
     rbind (protocol_readLoop env rd2 rest) (\<lambda>(rd3, ms').
     Inr (rd3, ms @ ms')))))"

subsection \<open>Reassembly\<close>

text \<open>The scanner of a reader is as good as a fresh one on every extension of the buffer.\<close>

definition reader_inv :: "int \<Rightarrow> reader \<Rightarrow> bool" where
  "reader_inv m rd \<longleftrightarrow> rd_checked rd = sc_hasMessageType (rd_scanner rd) \<and>
     (sc_hasMessageType (rd_scanner rd) \<longleftrightarrow> 0 < sc_rootItems (rd_scanner rd)) \<and> \<not> sc_complete (rd_scanner rd) \<and>
     sc_offset (rd_scanner rd) \<le> length (rd_buffer rd) \<and>
     (\<forall>x. drive (rd_scanner rd) (rd_buffer rd @ x) m = drive newScanner (rd_buffer rd @ x) m)"

lemma reader_inv_fresh: "reader_inv m \<lparr>rd_buffer = b, rd_scanner = newScanner, rd_checked = False\<rparr>"
  by (simp add: reader_inv_def newScanner_def)

lemma reader_inv_append: "reader_inv m rd \<Longrightarrow> reader_inv m (rd\<lparr>rd_buffer := rd_buffer rd @ c\<rparr>)"
  by (simp add: reader_inv_def)

lemma scanLoop_settled:
  assumes "drive s b m = (s', None)" "sc_offset s \<le> length b" "\<not> sc_complete s" "\<not> exceedsLimit s' m" "\<not> sc_complete s'" "0 < sc_rootItems s'"
  shows "scanLoop s' b m = (s', None)"
proof -
  have "keeps (length b) s s'" "drive s' b m = drive s b m" using drive_extend[OF assms(1-3), of "[]"] assms(4,5) by auto
  then show ?thesis using scanLoop_drive_typed[OF assms(6), of b m] assms(1) by (simp add: keeps_def)
qed

lemma scan_settled:
  assumes "drive s b m = (s', None)" "sc_offset s \<le> length b" "\<not> sc_complete s" "\<not> exceedsLimit s' m" "0 < sc_rootItems s'"
  shows "scan s' b m = (s', Inr (scan_result s' m))"
proof (cases "sc_complete s'")
  case False
  have "keeps (length b) s s'" using drive_extend[OF assms(1-3), of "[]"] by blast
  then show ?thesis using False scanLoop_settled[OF assms(1-4) False assms(5)] by (auto simp: scan_def keeps_def)
qed (simp add: scan_def)

lemma scanMessage_result:
  assumes inv: "reader_inv m rd" and d: "drive newScanner (rd_buffer rd) m = (s', None)" and ex: "\<not> exceedsLimit s' m"
    and m: "m = re_limit env" and ad: "sc_hasMessageType s' \<Longrightarrow> re_admit env (sc_messageType s')"
  shows "scanMessage env rd = Inr (rd\<lparr>rd_scanner := s', rd_checked := sc_hasMessageType s'\<rparr>, scan_result s' m)"
    and "sc_hasMessageType s' \<longleftrightarrow> 0 < sc_rootItems s'"
proof -
  let ?s = "rd_scanner rd" and ?b = "rd_buffer rd"
  have i: "rd_checked rd = sc_hasMessageType ?s" "sc_hasMessageType ?s \<longleftrightarrow> 0 < sc_rootItems ?s" "\<not> sc_complete ?s" "sc_offset ?s \<le> length ?b"
    using inv by (auto simp: reader_inv_def)
  have dr: "drive ?s ?b m = (s', None)" using inv d unfolding reader_inv_def by (metis append_Nil2)
  have k: "keeps (length ?b) ?s s'" using drive_extend[OF dr i(4,3), of "[]"] by blast
  show t: "sc_hasMessageType s' \<longleftrightarrow> 0 < sc_rootItems s'" using k i(2) by (auto simp: keeps_def)
  have ov: "\<not> rs_oversized (scan_result s' m)" "rs_hasMessageType (scan_result s' m) = sc_hasMessageType s'"
    "rs_messageType (scan_result s' m) = sc_messageType s'"
    using ex by (simp_all add: scan_result_def)
  show "scanMessage env rd = Inr (rd\<lparr>rd_scanner := s', rd_checked := sc_hasMessageType s'\<rparr>, scan_result s' m)"
  proof (cases "0 < sc_rootItems ?s")
    case True
    then have "scan ?s ?b m = (s', Inr (scan_result s' m))" using scanLoop_drive_typed[OF True i(4), of m] dr i(3,4) by (simp add: scan_def)
    moreover have "sc_hasMessageType s'" using k True i(2) by (simp add: keeps_def)
    ultimately show ?thesis using True i(1,2) ov by (simp add: scanMessage_def m)
  next
    case False
    then have z: "sc_rootItems ?s = 0" "\<not> rd_checked rd" using i(1,2) by auto
    from scanLoop_drive[OF z(1) i(4,3), of m] show ?thesis
    proof
      assume "scanLoop ?s ?b m = drive ?s ?b m"
      then have 1: "scan ?s ?b m = (s', Inr (scan_result s' m))" using dr i(3,4) by (simp add: scan_def)
      have 2: "0 < sc_rootItems s' \<Longrightarrow> scan s' ?b m = (s', Inr (scan_result s' m))" by (rule scan_settled[OF dr i(4,3) ex])
      show ?thesis using 1 2 z(2) ov t ad by (auto simp: scanMessage_def m)
    next
      assume "\<exists>s1. scanLoop ?s ?b m = (s1, None) \<and> 0 < sc_rootItems s1 \<and> \<not> sc_complete s1 \<and> keeps (length ?b) ?s s1 \<and> drive ?s ?b m = drive s1 ?b m"
      then obtain s1 where s1: "scanLoop ?s ?b m = (s1, None)" "0 < sc_rootItems s1" "\<not> sc_complete s1" "keeps (length ?b) ?s s1"
        "drive ?s ?b m = drive s1 ?b m" by blast
      then have 1: "scan ?s ?b m = (s1, Inr (scan_result s1 m))" using i(3,4) by (simp add: scan_def)
      have h: "sc_hasMessageType s1" "sc_offset s1 \<le> length ?b" using s1(2,4) z(1) by (auto simp: keeps_def)
      have dr1: "drive s1 ?b m = (s', None)" using s1(5) dr by simp
      have 2: "scan s1 ?b m = (s', Inr (scan_result s' m))"
        using scanLoop_drive_typed[OF s1(2) h(2), of m] s1(3) h(2) dr1 by (simp add: scan_def)
      have "keeps (length ?b) s1 s'" using drive_extend[OF dr1 h(2) s1(3), of "[]"] by blast
      then have "sc_hasMessageType s'" "sc_messageType s1 = sc_messageType s'" using h s1(2) by (auto simp: keeps_def)
      then show ?thesis using 1 2 z(2) h(1) ov ad by (simp add: scanMessage_def scan_result_def m)
    qed
  qed
qed

lemma framed_prefix: "is_message t msg \<Longrightarrow> m \<le> 0 \<or> int (length msg) \<le> m \<Longrightarrow> framed t (length msg) (drive newScanner (msg @ x) m)"
  using is_message_parts drive_message by blast

lemma drive_incomplete:
  assumes msg: "is_message t (p @ q)" "q \<noteq> []" and fit: "m \<le> 0 \<or> int (length (p @ q)) \<le> m"
  obtains s' where "drive newScanner p m = (s', None)" "\<not> sc_complete s'" "\<not> exceedsLimit s' m" "sc_offset s' \<le> length p"
    "\<forall>x. drive s' (p @ x) m = drive newScanner (p @ x) m" "sc_hasMessageType s' \<longrightarrow> sc_messageType s' = t"
proof -
  obtain s' e where d: "drive newScanner p m = (s', e)" by force
  have n: "sc_offset newScanner \<le> length p" "\<not> sc_complete newScanner" by (simp_all add: newScanner_def)
  have fr: "framed t (length (p @ q)) (drive newScanner (p @ q) m)"
    using framed_prefix[OF msg(1) fit, of "[]"] by simp
  have k: "e = None \<Longrightarrow> sc_offset s' \<le> length p" using drive_extend[OF d n, of q] by (simp add: keeps_def)
  have "\<not> (drive newScanner (p @ q) m = (s', e) \<and> (e \<noteq> None \<or> sc_complete s' \<or> exceedsLimit s' m))"
  proof
    assume a: "drive newScanner (p @ q) m = (s', e) \<and> (e \<noteq> None \<or> sc_complete s' \<or> exceedsLimit s' m)"
    then have "e = None" "sc_offset s' = length (p @ q)" using fr by (auto simp: framed_def)
    then show False using k msg(2) by simp
  qed
  then have ok: "e = None" "\<not> sc_complete s'" "\<not> exceedsLimit s' m" using drive_extend[OF d n, of q] by auto
  have "drive s' (p @ x) m = drive newScanner (p @ x) m" for x using drive_extend[OF d n, of x] ok by auto
  moreover have "sc_messageType s' = t" if "sc_hasMessageType s'"
  proof -
    have "drive s' (p @ q) m = drive newScanner (p @ q) m" by fact
    moreover obtain s'' where s'': "drive newScanner (p @ q) m = (s'', None)" "sc_messageType s'' = t"
      using fr by (auto simp: framed_def prod_eq_iff)
    ultimately have "keeps (length (p @ q)) s' s''" using drive_extend[of s' "p @ q" m s'' None "[]"] k ok by auto
    moreover have "0 < sc_rootItems s'"
      using that drive_extend[OF d n, of "[]"] ok(1) by (auto simp: keeps_def newScanner_def)
    ultimately show ?thesis using s''(2) by (simp add: keeps_def)
  qed
  ultimately show thesis using that d ok k by blast
qed

lemma message_nonempty: "is_message t msg \<Longrightarrow> 0 < length msg"
  by (auto simp: is_message_def ReadHead_def)

definition readable :: "readEnv \<Rightarrow> nat \<times> bytes \<Rightarrow> bool" where
  "readable env tm \<longleftrightarrow> is_message (fst tm) (snd tm) \<and> (re_limit env \<le> 0 \<or> int (length (snd tm)) \<le> re_limit env) \<and>
     re_admit env (fst tm) \<and> re_decode env (fst tm) (snd tm)"

text \<open>Between two segments the buffer holds at most a part of the next message.\<close>

definition small_buffer :: "reader \<Rightarrow> (nat \<times> bytes) list \<Rightarrow> bool" where
  "small_buffer rd tms \<longleftrightarrow> rd_buffer rd = [] \<or> (\<exists>t msg tl. tms = (t, msg) # tl \<and> length (rd_buffer rd) < length msg)"

lemma readBuffered_spec:
  assumes "\<forall>tm \<in> set tms. readable env tm" "reader_inv (re_limit env) rd" "rd_buffer rd @ rest = concat (map snd tms)"
    "length (rd_buffer rd) \<le> n"
  shows "\<exists>ms tms' rd'. tms = ms @ tms' \<and> readBuffered n env rd = Inr (rd', ms) \<and> reader_inv (re_limit env) rd' \<and>
    rd_buffer rd' @ rest = concat (map snd tms') \<and> small_buffer rd' tms'"
  using assms
proof (induction n arbitrary: rd tms)
  case 0
  then show ?case by (intro exI[of _ "[]"] exI[of _ tms] exI[of _ rd]) (simp add: small_buffer_def)
next
  case (Suc n)
  show ?case
  proof (cases "rd_buffer rd = []")
    case True
    then show ?thesis using Suc.prems by (intro exI[of _ "[]"] exI[of _ tms] exI[of _ rd]) (simp add: small_buffer_def)
  next
    case ne: False
    then obtain t msg tl where tms: "tms = (t, msg) # tl" using Suc.prems(3) by (cases tms) auto
    let ?m = "re_limit env"
    have im: "is_message t msg" and fit: "?m \<le> 0 \<or> int (length msg) \<le> ?m" and ad: "re_admit env t" "re_decode env t msg"
      using Suc.prems(1) tms by (auto simp: readable_def)
    have eq: "rd_buffer rd @ rest = msg @ concat (map snd tl)" using Suc.prems(3) tms by simp
    show ?thesis
    proof (cases "length msg \<le> length (rd_buffer rd)")
      case True
      define x where "x = drop (length msg) (rd_buffer rd)"
      have b: "rd_buffer rd = msg @ x" "x @ rest = concat (map snd tl)"
      proof -
        have "take (length msg) (rd_buffer rd) = msg" using arg_cong[OF eq, of "take (length msg)"] True by simp
        then show "rd_buffer rd = msg @ x" unfolding x_def by (metis append_take_drop_id)
        then show "x @ rest = concat (map snd tl)" using eq by simp
      qed
      obtain s' where s': "drive newScanner (rd_buffer rd) ?m = (s', None)" "sc_complete s'" "sc_offset s' = length msg"
        "sc_pendingBytes s' = 0" "sc_hasMessageType s'" "sc_messageType s' = t"
        using framed_prefix[OF im fit, of x] by (auto simp: b(1) framed_def prod_eq_iff)
      have ex: "\<not> exceedsLimit s' ?m" using s'(3,4) fit by (auto simp: exceedsLimit_def)
      let ?rd = "consumeMessage (length msg) (rd\<lparr>rd_scanner := s', rd_checked := sc_hasMessageType s'\<rparr>)"
      have rb: "rd_buffer ?rd = x" by (simp add: consumeMessage_def b(1))
      have len: "length (rd_buffer ?rd) \<le> n" using Suc.prems(4) message_nonempty[OF im] unfolding rb b(1) length_append by linarith
      have pre: "\<forall>tm \<in> set tl. readable env tm" "reader_inv ?m ?rd" "rd_buffer ?rd @ rest = concat (map snd tl)"
        using Suc.prems(1) b(2) reader_inv_fresh rb by (simp_all add: tms consumeMessage_def)
      from Suc.IH[OF pre len] obtain ms tms' rd' where r: "tl = ms @ tms'" "readBuffered n env ?rd = Inr (rd', ms)" "reader_inv ?m rd'"
        "rd_buffer rd' @ rest = concat (map snd tms')" "small_buffer rd' tms'"
        by (elim exE conjE) (rule that)
      have "readBuffered (Suc n) env rd = Inr (rd', (t, msg) # ms)"
        using ne scanMessage_result(1)[OF Suc.prems(2) s'(1) ex refl] s' r(2) fit ad message_nonempty[OF im]
        by (auto simp: scan_result_def b(1) Let_def)
      then show ?thesis using r tms by (intro exI[of _ "(t, msg) # ms"] exI[of _ tms'] exI[of _ rd']) simp
    next
      case False
      define q where "q = drop (length (rd_buffer rd)) msg"
      have q: "msg = rd_buffer rd @ q" "q \<noteq> []"
      proof -
        have "take (length (rd_buffer rd)) msg = rd_buffer rd" using arg_cong[OF eq, of "take (length (rd_buffer rd))"] False by simp
        then show "msg = rd_buffer rd @ q" unfolding q_def by (metis append_take_drop_id)
        show "q \<noteq> []" using False by (simp add: q_def)
      qed
      obtain s' where s': "drive newScanner (rd_buffer rd) ?m = (s', None)" "\<not> sc_complete s'" "\<not> exceedsLimit s' ?m"
        "sc_offset s' \<le> length (rd_buffer rd)" "\<forall>x. drive s' (rd_buffer rd @ x) ?m = drive newScanner (rd_buffer rd @ x) ?m"
        "sc_hasMessageType s' \<longrightarrow> sc_messageType s' = t"
        using drive_incomplete[of t "rd_buffer rd" q ?m] im fit q by auto
      have ad': "sc_hasMessageType s' \<Longrightarrow> re_admit env (sc_messageType s')" using s'(6) ad(1) by simp
      let ?rd = "rd\<lparr>rd_scanner := s', rd_checked := sc_hasMessageType s'\<rparr>"
      have "reader_inv ?m ?rd" using s'(2,4,5) scanMessage_result(2)[OF Suc.prems(2) s'(1,3) refl ad'] by (simp add: reader_inv_def)
      moreover have "readBuffered (Suc n) env rd = Inr (?rd, [])"
        using ne scanMessage_result(1)[OF Suc.prems(2) s'(1,3) refl ad'] s'(2) by (simp add: scan_result_def)
      ultimately show ?thesis using Suc.prems(3) tms False by (intro exI[of _ "[]"] exI[of _ tms] exI[of _ ?rd]) (auto simp: small_buffer_def)
    qed
  qed
qed

text \<open>The buffer has room for a batch behind an incomplete message.\<close>

definition has_room :: "readEnv \<Rightarrow> nat \<times> bytes \<Rightarrow> bytes list \<Rightarrow> bool" where
  "has_room env tm batch \<longleftrightarrow> length (snd tm) + length (concat batch) \<le> re_maxReadBufferSize env"

lemma drainQueued_spec:
  assumes "length (rd_buffer rd) + length (concat batch) \<le> re_maxReadBufferSize env"
    "\<And>n. n \<le> re_maxReadBufferSize env \<Longrightarrow> re_reserve env n"
  shows "drainQueued env batch rd = Inr (rd\<lparr>rd_buffer := rd_buffer rd @ concat batch\<rparr>)"
  using assms by (induction batch arbitrary: rd) (simp_all add: appendSegment_def Let_def)

lemma readLoop_spec:
  assumes "\<forall>tm \<in> set tms. readable env tm" "reader_inv (re_limit env) rd"
    "rd_buffer rd @ concat (map concat bs) = concat (map snd tms)" "\<forall>b \<in> set bs. concat b \<noteq> []" "small_buffer rd tms"
    "\<forall>tm \<in> set tms. \<forall>b \<in> set bs. has_room env tm b" "\<And>n. n \<le> re_maxReadBufferSize env \<Longrightarrow> re_reserve env n"
  shows "\<exists>rd'. protocol_readLoop env rd bs = Inr (rd', tms) \<and> rd_buffer rd' = []"
  using assms(1-6)
proof (induction bs arbitrary: rd tms)
  case Nil
  have "tms = []"
  proof (rule ccontr)
    assume "tms \<noteq> []"
    then obtain t msg tl where tms: "tms = (t, msg) # tl" by (cases tms) auto
    have "0 < length msg" using Nil.prems(1) tms message_nonempty by (auto simp: readable_def)
    moreover have "length msg \<le> length (rd_buffer rd)" using Nil.prems(3) tms by simp
    ultimately show False using Nil.prems(5) tms by (auto simp: small_buffer_def)
  qed
  then show ?case using Nil.prems(3) by simp
next
  case (Cons b bs)
  have b: "concat b \<noteq> []" using Cons.prems(4) by simp
  then have "tms \<noteq> []" using Cons.prems(3) by auto
  then obtain t0 msg0 tl0 where tms: "tms = (t0, msg0) # tl0" by (cases tms) auto
  let ?rd = "rd\<lparr>rd_buffer := rd_buffer rd @ concat b\<rparr>"
  have "length (rd_buffer rd) + length (concat b) \<le> re_maxReadBufferSize env"
    using Cons.prems(5,6) tms by (auto simp: small_buffer_def has_room_def)
  then have ap: "drainQueued env b rd = Inr ?rd" using assms(7) by (rule drainQueued_spec)
  have eq: "rd_buffer ?rd @ concat (map concat bs) = concat (map snd tms)" using Cons.prems(3) by simp
  from readBuffered_spec[OF Cons.prems(1) reader_inv_append[OF Cons.prems(2), of "concat b"] eq order_refl]
  obtain ms tms' rd' where r: "tms = ms @ tms'" "readBuffered (length (rd_buffer ?rd)) env ?rd = Inr (rd', ms)"
    "reader_inv (re_limit env) rd'" "rd_buffer rd' @ concat (map concat bs) = concat (map snd tms')" "small_buffer rd' tms'"
    by (elim exE conjE) (rule that)
  have "\<forall>tm \<in> set tms'. readable env tm" "\<forall>tm \<in> set tms'. \<forall>b \<in> set bs. has_room env tm b" "\<forall>b \<in> set bs. concat b \<noteq> []"
    using Cons.prems(1,4,6) r(1) by auto
  then obtain rd'' where "protocol_readLoop env rd' bs = Inr (rd'', tms')" "rd_buffer rd'' = []"
    using Cons.IH[of tms' rd'] r(3,4,5) by blast
  then show ?case using ap r(1,2) b by simp
qed

text \<open>C5: Mini-protocol messages survive any segmentation.  When the payloads of the segments that reach
  a protocol, in whatever batches the read loop takes them, concatenate to a sequence of well-formed
  messages that the protocol admits and decodes, the read loop delivers exactly those messages, in
  order and with their types, however the bytes were cut, and its buffer ends empty.  The hypotheses on
  the surroundings are that no batch is empty, that the buffer's cap leaves room for a batch behind an
  incomplete message, and that the connection-wide allowance covers that cap.\<close>
theorem messages_reassembled:
  assumes "\<forall>tm \<in> set tms. readable env tm"
    and "concat (map concat batches) = concat (map snd tms)" "\<forall>b \<in> set batches. concat b \<noteq> []"
    and "\<forall>tm \<in> set tms. \<forall>b \<in> set batches. has_room env tm b"
    and "\<And>n. n \<le> re_maxReadBufferSize env \<Longrightarrow> re_reserve env n"
  shows "\<exists>rd. protocol_readLoop env newReader batches = Inr (rd, tms) \<and> rd_buffer rd = []"
proof (rule readLoop_spec)
  show "reader_inv (re_limit env) newReader" unfolding newReader_def by (rule reader_inv_fresh)
qed (use assms in \<open>simp_all add: newReader_def small_buffer_def\<close>)

lemma example_messages: "is_message 0 [0x82, 0x00, 0x05]" "is_message 2 [0x9f, 0x02, 0xff]"
proof -
  have "walk [0x82, 0x00, 0x05] (nat MaxNestedLevels) [\<lparr>fr_remaining = 1, fr_indefinite = False, fr_stringMajor = 0\<rparr>] 0 = Inr 3"
    "walk [0x9f, 0x02, 0xff] (nat MaxNestedLevels) [\<lparr>fr_remaining = 1, fr_indefinite = False, fr_stringMajor = 0\<rparr>] 0 = Inr 3"
    by (simp_all add: walk.simps(2) ReadHead_def walkItem_def pushFrame_def takeItem_def MaxNestedLevels_def)
  then have "cbor_item (nat MaxNestedLevels) 0 [0x82, 0x00, 0x05]" "cbor_item (nat MaxNestedLevels) 0 [0x9f, 0x02, 0xff]"
    by (simp_all only: walk_exact) simp_all
  then show "is_message 0 [0x82, 0x00, 0x05]" "is_message 2 [0x9f, 0x02, 0xff]"
    by (simp_all add: is_message_def ReadHead_def)
qed

definition example_env :: readEnv where
  "example_env = \<lparr>re_maxReadBufferSize = 100, re_limit = 50, re_reserve = (\<lambda>n. n \<le> 200), re_admit = (\<lambda>t. t < 4),
     re_decode = (\<lambda>t data. data \<noteq> [])\<rparr>"

theorem messages_reassembled_witness:
  "\<exists>rd. protocol_readLoop example_env newReader [[[0x82]], [[0x00], [0x05, 0x9f]], [[0x02, 0xff]]]
     = Inr (rd, [(0, [0x82, 0x00, 0x05]), (2, [0x9f, 0x02, 0xff])]) \<and> rd_buffer rd = []"
  by (rule messages_reassembled) (simp_all add: readable_def has_room_def example_env_def example_messages)

end
