(* ===== verification/Rewards.thy ===== *)
theory Rewards
  imports Prelude Complex_Main "HOL-Library.AList" "HOL-Library.Multiset"
begin

text \<open>
  Epoch rewards (\<open>ledger/common/rewards.go\<close>, \<open>rewards_service.go\<close> and the margin checks of
  \<open>certs.go\<close>).  Lovelace amounts are naturals with the wrap-around of \<open>uint64\<close> written out; \<open>big.Rat\<close>
  is exact; pool and key hashes are 28-byte strings, compared byte by byte, here by their big-endian
  value.  A Go map that the code iterates over is an association list with distinct keys, whose order
  stands for the iteration order.
\<close>

subsection \<open>Data\<close>

type_synonym PoolKeyHash = nat
type_synonym AddrKeyHash = nat

text \<open>A reward credential is its type (0 for a key hash) and its hash.\<close>

type_synonym RewardCredential = "nat \<times> nat"

record AdaPots =
  ap_Reserves :: nat
  ap_Treasury :: nat
  ap_Rewards :: nat

record RewardParameters =
  rp_MonetaryExpansion :: nat
  rp_TreasuryGrowth :: nat
  rp_ProtocolMajor :: nat
  rp_MaxPledgeLeverage :: "rat option"
  rp_MinPoolMargin :: "rat option"
  rp_PoolInfluence :: "rat option"
  rp_ActiveSlotsCoeff :: "rat option"
  rp_ExpectedSlotsPerEpoch :: nat

record PoolRegistrationCertificate =
  pr_Pledge :: nat
  pr_Cost :: nat
  pr_Margin :: "rat option"
  pr_RewardAccount :: RewardCredential
  pr_PoolOwners :: "AddrKeyHash list"

text \<open>\<open>sn_PoolParams\<close> maps a pool to a pointer, which may be nil.\<close>

record RewardSnapshot =
  sn_TotalActiveStake :: nat
  sn_PoolStake :: "(PoolKeyHash \<times> nat) list"
  sn_DelegatorStake :: "PoolKeyHash \<rightharpoonup> (AddrKeyHash \<times> nat) list"
  sn_PoolParams :: "PoolKeyHash \<rightharpoonup> PoolRegistrationCertificate option"
  sn_StakeRegistrations :: "AddrKeyHash \<Rightarrow> bool"
  sn_PoolBlocks :: "PoolKeyHash \<rightharpoonup> nat"
  sn_TotalBlocksInEpoch :: nat

record PoolRewards =
  pw_OperatorRewardAccount :: RewardCredential
  pw_OperatorRewards :: nat
  pw_DelegatorRewards :: "(RewardCredential \<times> nat) list"
  pw_TotalRewards :: nat

record RewardCalculationResult =
  rr_TotalRewards :: nat
  rr_PoolRewards :: "(PoolKeyHash \<times> PoolRewards) list"
  rr_UpdatedPots :: AdaPots

datatype reward_error =
    CoeffNotPositive | SlotsNotPositive | LeverageOutside rat | MinMarginOutside rat
  | MarginMissing | MarginOutside rat | MarginNotWord64 rat
  | PoolParamsNotFound PoolKeyHash | NoValidPools | DistributionMismatch

subsection \<open>Numbers\<close>

text \<open>\<open>big.Int.Uint64\<close> and \<open>Int64\<close>: the low 64 bits of the magnitude, with the sign for \<open>Int64\<close>; the
  only uses are on non-negative values.\<close>

definition wrap64 :: "nat \<Rightarrow> nat" where
  "wrap64 n = n mod 2 ^ 64"

definition big_Uint64 :: "int \<Rightarrow> nat" where
  "big_Uint64 x = nat (\<bar>x\<bar> mod 2 ^ 64)"

definition big_Int64 :: "int \<Rightarrow> int" where
  "big_Int64 x = (x + 2 ^ 63) mod 2 ^ 64 - 2 ^ 63"

definition big_Quo :: "rat \<Rightarrow> int" where
  "big_Quo x = (case quotient_of x of (n, d) \<Rightarrow> n div d)"

definition ratFloorUint64 :: "rat \<Rightarrow> nat" where
  "ratFloorUint64 value =
     (if value \<le> 0 then 0
      else if big_Quo value \<ge> 2 ^ 64 then 2 ^ 64 - 1
      else big_Uint64 (big_Quo value))"

definition sortedPoolIDs :: "(PoolKeyHash \<times> 'v) list \<Rightarrow> PoolKeyHash list" where
  "sortedPoolIDs pools = sort (map fst pools)"

definition lookup0 :: "('k \<times> nat) list \<Rightarrow> 'k \<Rightarrow> nat" where
  "lookup0 m k = (case map_of m k of None \<Rightarrow> 0 | Some v \<Rightarrow> v)"

definition poolSaturationThreshold :: rat where
  "poolSaturationThreshold = 1 / 20"

subsection \<open>The pots\<close>

definition calculateEta :: "nat \<Rightarrow> RewardParameters \<Rightarrow> reward_error + rat" where
  "calculateEta totalBlocksInEpoch params =
     (case rp_ActiveSlotsCoeff params of
        None \<Rightarrow> Inl CoeffNotPositive
      | Some activeSlotsCoeff \<Rightarrow>
          if activeSlotsCoeff \<le> 0 then Inl CoeffNotPositive
          else if rp_ExpectedSlotsPerEpoch params = 0 then Inl SlotsNotPositive
          else
            let expectedBlocks = of_nat (rp_ExpectedSlotsPerEpoch params) * activeSlotsCoeff;
              eta = of_nat totalBlocksInEpoch / expectedBlocks
            in Inr (if eta > 1 then 1 else eta))"

definition CalculateAdaPots :: "AdaPots \<Rightarrow> RewardParameters \<Rightarrow> nat \<Rightarrow> nat \<Rightarrow> reward_error + AdaPots" where
  "CalculateAdaPots currentPots params epochFees totalBlocksInEpoch =
     rbind (calculateEta totalBlocksInEpoch params) (\<lambda>eta.
       let expansion0 = int (rp_MonetaryExpansion params) * int (ap_Reserves currentPots) div 1000000;
         expansion = expansion0 * fst (quotient_of eta) div snd (quotient_of eta);
         rewardPot0 = int epochFees + expansion;
         treasuryContribution = int (rp_TreasuryGrowth params) * rewardPot0 div 10000;
         rewardPot = rewardPot0 - treasuryContribution;
         reservesMinusExpansion = int (ap_Reserves currentPots) - expansion
       in Inr \<lparr>ap_Reserves = (if reservesMinusExpansion < 0 then 0 else big_Uint64 reservesMinusExpansion),
         ap_Treasury = wrap64 (ap_Treasury currentPots + big_Uint64 treasuryContribution),
         ap_Rewards = big_Uint64 rewardPot\<rparr>)"

subsection \<open>Margins and parameters\<close>

definition ProtocolVersionDijkstra :: nat where
  "ProtocolVersionDijkstra = 12"

definition ProtocolVersionDijkstraMinPoolMargin :: nat where
  "ProtocolVersionDijkstraMinPoolMargin = 13"

text \<open>A \<open>big.Rat\<close> is in lowest terms with a positive denominator.\<close>

definition ValidatePoolMargin :: "rat option \<Rightarrow> reward_error + unit" where
  "ValidatePoolMargin margin =
     (case margin of
        None \<Rightarrow> Inl MarginMissing
      | Some m \<Rightarrow> (case quotient_of m of (numerator, denominator) \<Rightarrow>
          if denominator \<le> 0 then Inl (MarginOutside m)
          else if numerator < 0 \<or> numerator > denominator then Inl (MarginOutside m)
          else if numerator \<ge> 2 ^ 64 then Inl (MarginNotWord64 m)
          else if denominator \<ge> 2 ^ 64 then Inl (MarginNotWord64 m)
          else Inr ()))"

definition marginRat :: "rat option \<Rightarrow> rat" where
  "marginRat margin =
     (case margin of
        None \<Rightarrow> 0
      | Some m \<Rightarrow> (case quotient_of m of (num, den) \<Rightarrow>
          if num \<le> 0 then 0 else if num \<ge> den then 1 else of_int num / of_int den))"

definition pledgeLeverageActive :: "RewardParameters \<Rightarrow> bool" where
  "pledgeLeverageActive params \<longleftrightarrow>
     rp_ProtocolMajor params \<ge> ProtocolVersionDijkstra \<and> rp_MaxPledgeLeverage params \<noteq> None"

definition validateDijkstraRewardParameters :: "RewardParameters \<Rightarrow> reward_error + unit" where
  "validateDijkstraRewardParameters params =
     (if rp_ProtocolMajor params < ProtocolVersionDijkstra then Inr ()
      else
        rbind (case rp_MaxPledgeLeverage params of
                 None \<Rightarrow> Inr ()
               | Some leverage \<Rightarrow> ensure (\<not> (leverage < 1 \<or> leverage > 10000)) (LeverageOutside leverage)) (\<lambda>_.
        (case rp_MinPoolMargin params of
           None \<Rightarrow> Inr ()
         | Some minMargin \<Rightarrow> ensure (\<not> (minMargin < 0 \<or> minMargin > 1)) (MinMarginOutside minMargin))))"

definition effectivePoolMargin :: "rat option \<Rightarrow> RewardParameters \<Rightarrow> rat" where
  "effectivePoolMargin margin params =
     (let result = marginRat margin in
      if rp_ProtocolMajor params < ProtocolVersionDijkstraMinPoolMargin then result
      else
        (case rp_MinPoolMargin params of
           None \<Rightarrow> result
         | Some minMargin \<Rightarrow> if minMargin = 0 then result else if result < minMargin then minMargin else result))"

definition minimumRewardRatio :: "rat \<Rightarrow> rat \<Rightarrow> rat" where
  "minimumRewardRatio a b = (if a \<le> b then a else b)"

subsection \<open>Pool shares\<close>

definition calculatePoolPerformance :: "PoolKeyHash \<Rightarrow> RewardSnapshot \<Rightarrow> rat" where
  "calculatePoolPerformance poolID snapshot =
     (let poolBlocks = (case sn_PoolBlocks snapshot poolID of None \<Rightarrow> 0 | Some n \<Rightarrow> n);
        poolStake = lookup0 (sn_PoolStake snapshot) poolID
      in if sn_TotalBlocksInEpoch snapshot = 0 then 1
      else if poolBlocks = 0 then 0
      else if poolStake = 0 then 0
      else of_nat poolBlocks / of_nat (sn_TotalBlocksInEpoch snapshot)
        * (of_nat (sn_TotalActiveStake snapshot) / of_nat poolStake))"

definition calculatePoolShare :: "nat \<Rightarrow> PoolRegistrationCertificate \<Rightarrow> RewardSnapshot \<Rightarrow> RewardParameters \<Rightarrow> PoolKeyHash \<Rightarrow> rat" where
  "calculatePoolShare poolStake poolParams snapshot params poolID =
     (if sn_TotalActiveStake snapshot = 0 then 0
      else
        let performance = calculatePoolPerformance poolID snapshot;
          totalStake = of_nat (sn_TotalActiveStake snapshot);
          stakeRatio0 = of_nat poolStake / totalStake;
          stakeRatio =
            (if pledgeLeverageActive params then
               minimumRewardRatio (minimumRewardRatio stakeRatio0 poolSaturationThreshold)
                 (of_nat (pr_Pledge poolParams) / totalStake * the (rp_MaxPledgeLeverage params))
             else stakeRatio0);
          saturation0 = stakeRatio / poolSaturationThreshold;
          saturation = (if saturation0 > 1 then 1 else saturation0);
          a0 = (case rp_PoolInfluence params of None \<Rightarrow> 1 | Some a \<Rightarrow> if a < 0 then 0 else a);
          numerator = stakeRatio * performance * (1 - marginRat (pr_Margin poolParams));
          denominator = a0 * saturation + 1
        in if denominator \<le> 0 then 0 else numerator / denominator)"

subsection \<open>Splitting the reward pot between the pools\<close>

text \<open>The first loop: for each pool the floored amount and the remainder, and the amount assigned so far.\<close>

fun apportionFloors :: "nat \<Rightarrow> (PoolKeyHash \<Rightarrow> rat) \<Rightarrow> rat \<Rightarrow> PoolKeyHash list \<Rightarrow> int
    \<Rightarrow> (PoolKeyHash \<times> int \<times> rat) list \<times> int" where
  "apportionFloors pot share totalShare [] assigned = ([], assigned)"
| "apportionFloors pot share totalShare (poolID # poolIDs) assigned =
     (let exact0 = share poolID / totalShare * of_nat pot;
        exact = (if exact0 < 0 then 0 else exact0);
        floor0 = big_Quo exact;
        remaining = int pot - assigned;
        floor = (if remaining \<le> 0 then 0 else if floor0 > remaining then remaining else floor0)
      in case apportionFloors pot share totalShare poolIDs (assigned + floor) of
           (rest, assigned') \<Rightarrow> ((poolID, floor, exact - of_int floor) # rest, assigned'))"

text \<open>The identifiers are in ascending order, so the stable sort by descending remainder breaks ties on
  the identifier.\<close>

definition apportionRewardPot :: "nat \<Rightarrow> (PoolKeyHash \<times> rat) list \<Rightarrow> rat \<Rightarrow> (PoolKeyHash \<times> nat) list" where
  "apportionRewardPot pot poolShares totalShare =
     (let poolIDs = sortedPoolIDs poolShares;
        (floors, assigned) = apportionFloors pot (\<lambda>p. case map_of poolShares p of None \<Rightarrow> 0 | Some x \<Rightarrow> x) totalShare poolIDs 0;
        amounts = map (\<lambda>(p, f, r). (p, big_Uint64 f)) floors;
        leftover = int pot - assigned
      in if leftover \<le> 0 then amounts
         else
           let byRemainder = map fst (sort_key (\<lambda>(p, f, r). - r) floors);
             n = min (big_Int64 leftover) (int (length poolIDs));
             lucky = take (nat n) byRemainder
           in map (\<lambda>(p, a). (p, if p \<in> set lucky then wrap64 (a + 1) else a)) amounts)"

subsection \<open>Inside a pool\<close>

definition sumStake :: "(AddrKeyHash \<times> nat) list \<Rightarrow> nat" where
  "sumStake m = foldl (\<lambda>acc (k, stake). wrap64 (acc + stake)) 0 m"

definition ownerStakeOf :: "(AddrKeyHash \<times> nat) list \<Rightarrow> AddrKeyHash list \<Rightarrow> nat" where
  "ownerStakeOf m owners = foldl (\<lambda>acc owner. case map_of m owner of None \<Rightarrow> acc | Some stake \<Rightarrow> wrap64 (acc + stake)) 0 owners"

definition ValidatePoolPledge :: "PoolRegistrationCertificate option \<Rightarrow> (AddrKeyHash \<times> nat) list \<Rightarrow> bool" where
  "ValidatePoolPledge poolParams ownerStake =
     (case poolParams of None \<Rightarrow> False | Some pp \<Rightarrow> ownerStakeOf ownerStake (pr_PoolOwners pp) \<ge> pr_Pledge pp)"

text \<open>The operator's part before the remainder.\<close>

definition operatorPart :: "nat \<Rightarrow> nat \<Rightarrow> rat \<Rightarrow> nat \<Rightarrow> nat \<Rightarrow> nat" where
  "operatorPart totalPoolRewards poolCost margin ownerStake totalPoolStake =
     (if totalPoolStake > 0 then
        let available = of_nat (totalPoolRewards - poolCost);
          operatorShare = (1 - margin) * (of_nat ownerStake / of_nat totalPoolStake) + margin;
          variableRewards = available * operatorShare
        in if variableRewards \<ge> available then totalPoolRewards
           else if variableRewards > 0 then wrap64 (poolCost + ratFloorUint64 variableRewards)
           else poolCost
      else totalPoolRewards)"

definition keyRewardCredential :: "AddrKeyHash \<Rightarrow> RewardCredential" where
  "keyRewardCredential hash = (0, hash)"

definition stakeholderRewards :: "(AddrKeyHash \<Rightarrow> bool) \<Rightarrow> (AddrKeyHash \<times> nat) list \<Rightarrow> nat \<Rightarrow> nat \<Rightarrow> (RewardCredential \<times> nat) list" where
  "stakeholderRewards registered delegatorStake pot totalStake =
     map (\<lambda>(stakeKey, stake). (keyRewardCredential stakeKey, wrap64 (stake * pot div totalStake)))
       (filter (\<lambda>(stakeKey, stake). registered stakeKey) delegatorStake)"

definition distributePoolRewards :: "nat \<Rightarrow> (AddrKeyHash \<times> nat) list \<Rightarrow> PoolRegistrationCertificate \<Rightarrow> RewardSnapshot \<Rightarrow> RewardParameters \<Rightarrow> PoolRewards" where
  "distributePoolRewards totalPoolRewards delegatorStake poolParams snapshot params =
     (let poolCost = pr_Cost poolParams;
        margin = effectivePoolMargin (pr_Margin poolParams) params;
        totalPoolStake = sumStake delegatorStake
      in if totalPoolRewards \<le> poolCost then
           \<lparr>pw_OperatorRewardAccount = pr_RewardAccount poolParams, pw_OperatorRewards = totalPoolRewards,
             pw_DelegatorRewards = [], pw_TotalRewards = totalPoolRewards\<rparr>
         else
           let ownerStake = ownerStakeOf delegatorStake (pr_PoolOwners poolParams);
             operator0 = operatorPart totalPoolRewards poolCost margin ownerStake totalPoolStake;
             stakeholderRewardsTotal = (if operator0 < totalPoolRewards then totalPoolRewards - operator0 else 0);
             operator1 = (if operator0 < totalPoolRewards then operator0 else totalPoolRewards);
             delegatorRewards =
               (if totalPoolStake > 0 \<and> stakeholderRewardsTotal > 0
                then stakeholderRewards (sn_StakeRegistrations snapshot) delegatorStake stakeholderRewardsTotal totalPoolStake
                else []);
             assigned = foldl (\<lambda>acc (c, r). wrap64 (acc + r)) 0 delegatorRewards;
             operator2 = (if stakeholderRewardsTotal > assigned then wrap64 (operator1 + (stakeholderRewardsTotal - assigned)) else operator1)
           in \<lparr>pw_OperatorRewardAccount = pr_RewardAccount poolParams, pw_OperatorRewards = operator2,
             pw_DelegatorRewards = delegatorRewards, pw_TotalRewards = totalPoolRewards\<rparr>)"

subsection \<open>The calculation\<close>

text \<open>The first pass: the shares in the order of the identifiers, their sum, and the pools that remain
  eligible under pledge leverage.\<close>

fun poolSharesPass :: "RewardSnapshot \<Rightarrow> RewardParameters \<Rightarrow> PoolKeyHash list
    \<Rightarrow> (PoolKeyHash \<times> rat) list \<times> rat \<times> PoolKeyHash list
    \<Rightarrow> reward_error + (PoolKeyHash \<times> rat) list \<times> rat \<times> PoolKeyHash list" where
  "poolSharesPass snapshot params [] acc = Inr acc"
| "poolSharesPass snapshot params (poolID # poolIDs) (shares, totalShare, eligible) =
     (case sn_PoolParams snapshot poolID of
        None \<Rightarrow> poolSharesPass snapshot params poolIDs (shares, totalShare, eligible)
      | Some None \<Rightarrow> Inl (PoolParamsNotFound poolID)
      | Some (Some poolParams) \<Rightarrow>
          rbind (ValidatePoolMargin (pr_Margin poolParams)) (\<lambda>_.
            let poolStake = lookup0 (sn_PoolStake snapshot) poolID;
              share = calculatePoolShare poolStake poolParams snapshot params poolID
            in poolSharesPass snapshot params poolIDs
                 (shares @ [(poolID, share)], totalShare + share,
                  if pledgeLeverageActive params \<and> poolStake > 0 \<and> pr_Pledge poolParams > 0
                  then eligible @ [poolID] else eligible)))"

fun distributeAll :: "RewardSnapshot \<Rightarrow> RewardParameters \<Rightarrow> (PoolKeyHash \<times> nat) list \<Rightarrow> PoolKeyHash list
    \<Rightarrow> reward_error + (PoolKeyHash \<times> PoolRewards) list" where
  "distributeAll snapshot params amounts [] = Inr []"
| "distributeAll snapshot params amounts (poolID # poolIDs) =
     (case sn_PoolParams snapshot poolID of
        Some (Some poolParams) \<Rightarrow>
          let delegatorStake = (case sn_DelegatorStake snapshot poolID of None \<Rightarrow> [] | Some m \<Rightarrow> m);
            poolRewards = distributePoolRewards (lookup0 amounts poolID) delegatorStake poolParams snapshot params
          in rbind (distributeAll snapshot params amounts poolIDs) (\<lambda>rest. Inr ((poolID, poolRewards) # rest))
      | _ \<Rightarrow> Inl (PoolParamsNotFound poolID))"

text \<open>When every share is zero the pot is split equally, under pledge leverage among the eligible pools.\<close>

definition equalShares :: "RewardParameters \<Rightarrow> (PoolKeyHash \<times> rat) list \<Rightarrow> PoolKeyHash list \<Rightarrow> (PoolKeyHash \<times> rat) list" where
  "equalShares params shares eligible =
     (let poolIDs = (if pledgeLeverageActive params then eligible else sortedPoolIDs shares) in
      map (\<lambda>(p, x). (p, if p \<in> set poolIDs then 1 / of_nat (length poolIDs) else 0)) shares)"

definition CalculateRewards :: "AdaPots \<Rightarrow> RewardSnapshot \<Rightarrow> RewardParameters \<Rightarrow> reward_error + RewardCalculationResult" where
  "CalculateRewards pots snapshot params =
     rbind (validateDijkstraRewardParameters params) (\<lambda>_.
     if sn_TotalActiveStake snapshot = 0 \<or> ap_Rewards pots = 0 then
       Inr \<lparr>rr_TotalRewards = 0, rr_PoolRewards = [], rr_UpdatedPots = pots\<rparr>
     else
       rbind (poolSharesPass snapshot params (sortedPoolIDs (sn_PoolStake snapshot)) ([], 0, [])) (\<lambda>(shares, totalShare, eligible).
       if shares = [] then Inl NoValidPools
       else if totalShare = 0 \<and> pledgeLeverageActive params \<and> eligible = [] then
         Inr \<lparr>rr_TotalRewards = 0, rr_PoolRewards = [], rr_UpdatedPots = pots\<rparr>
       else
         let poolShares = (if totalShare = 0 then equalShares params shares eligible else shares);
           amounts = apportionRewardPot (ap_Rewards pots) poolShares (if totalShare = 0 then 1 else totalShare)
         in rbind (distributeAll snapshot params amounts (sortedPoolIDs amounts)) (\<lambda>rewards.
            Inr \<lparr>rr_TotalRewards = ap_Rewards pots, rr_PoolRewards = rewards, rr_UpdatedPots = pots\<lparr>ap_Rewards := 0\<rparr>\<rparr>)))"

subsection \<open>The check of a distribution\<close>

definition addAllocation :: "RewardCredential \<Rightarrow> nat \<Rightarrow> (RewardCredential \<times> nat) list \<Rightarrow> (RewardCredential \<times> nat) list" where
  "addAllocation recipient reward m =
     (if reward > 0 then AList.update recipient (wrap64 (lookup0 m recipient + reward)) m else m)"

definition expectedAllocations :: "(PoolKeyHash \<times> PoolRewards) list \<Rightarrow> (RewardCredential \<times> nat) list" where
  "expectedAllocations pools =
     foldl (\<lambda>m (p, pw). foldl (\<lambda>m (c, r). addAllocation c r m)
        (addAllocation (pw_OperatorRewardAccount pw) (pw_OperatorRewards pw) m) (pw_DelegatorRewards pw)) [] pools"

text \<open>\<open>maps.Equal\<close>.\<close>

definition maps_Equal :: "('k \<times> 'v) list \<Rightarrow> ('k \<times> 'v) list \<Rightarrow> bool" where
  "maps_Equal m1 m2 \<longleftrightarrow> length m1 = length m2 \<and> list_all (\<lambda>(k, v). map_of m2 k = Some v) m1"

definition ValidateRewardDistribution :: "RewardCalculationResult \<Rightarrow> (RewardCredential \<times> nat) list \<Rightarrow> reward_error + unit" where
  "ValidateRewardDistribution expectedRewards actualRewards =
     ensure (maps_Equal (expectedAllocations (rr_PoolRewards expectedRewards)) actualRewards) DistributionMismatch"

subsection \<open>Arithmetic facts\<close>

lemma wrap64_id [simp]: "n < 2 ^ 64 \<Longrightarrow> wrap64 n = n"
  by (simp add: wrap64_def)

lemma big_Uint64_id [simp]: "0 \<le> x \<Longrightarrow> x < 2 ^ 64 \<Longrightarrow> big_Uint64 x = nat x"
  by (simp add: big_Uint64_def)

lemma big_Int64_id [simp]: "0 \<le> x \<Longrightarrow> x < 2 ^ 63 \<Longrightarrow> big_Int64 x = x"
  by (simp add: big_Int64_def)

lemma big_Quo_floor: "big_Quo x = \<lfloor>x\<rfloor>"
proof -
  obtain n d where q: "quotient_of x = (n, d)" by force
  have "big_Quo x = n div d" by (simp add: big_Quo_def q)
  then show ?thesis using quotient_of_div[OF q] by (simp add: floor_divide_of_int_eq)
qed

lemma wrap64_foldl: "foldl (\<lambda>acc (k, v). wrap64 (acc + v)) a m = (if m = [] then a else wrap64 (a + sum_list (map snd m)))"
proof (induction m arbitrary: a)
  case (Cons x m)
  then show ?case by (cases x) (auto simp: wrap64_def mod_simps add.assoc)
qed simp

lemma wrap64_sum: "sum_list (map snd m) < 2 ^ 64 \<Longrightarrow> foldl (\<lambda>acc (k, v). wrap64 (acc + v)) 0 m = sum_list (map snd m)"
  by (simp add: wrap64_foldl)

lemma quotient_scale_le:
  assumes "0 \<le> eta" "eta \<le> 1" "0 \<le> x"
  shows "0 \<le> x * fst (quotient_of eta) div snd (quotient_of eta)" "x * fst (quotient_of eta) div snd (quotient_of eta) \<le> x"
proof -
  obtain n d where q: "quotient_of eta = (n, d)" by force
  have d: "0 < d" and e: "eta = of_int n / of_int d" using q quotient_of_denom_pos quotient_of_div by auto
  have n: "0 \<le> n" "n \<le> d" using assms(1,2) d unfolding e by (simp_all add: zero_le_divide_iff divide_le_eq)
  have "x * n div d \<le> x * d div d" using n assms(3) d by (intro zdiv_mono1 mult_left_mono) auto
  then show "0 \<le> x * fst (quotient_of eta) div snd (quotient_of eta)" "x * fst (quotient_of eta) div snd (quotient_of eta) \<le> x"
    using n d assms(3) by (simp_all add: q pos_imp_zdiv_nonneg_iff)
qed

subsection \<open>The pots\<close>

lemma calculateEta_range:
  assumes "rp_ActiveSlotsCoeff params = Some f" "0 < f" "0 < rp_ExpectedSlotsPerEpoch params"
  shows "\<exists>eta. calculateEta blocks params = Inr eta \<and> 0 \<le> eta \<and> eta \<le> 1"
  using assms by (auto simp: calculateEta_def Let_def)

lemma share_of_le: "0 \<le> (x::int) \<Longrightarrow> 0 \<le> k \<Longrightarrow> k \<le> d \<Longrightarrow> 0 < d \<Longrightarrow> 0 \<le> k * x div d \<and> k * x div d \<le> x"
  using zdiv_mono1[of "k * x" "d * x" d] by (simp add: pos_imp_zdiv_nonneg_iff mult_right_mono)

text \<open>C28: \<open>CalculateAdaPots\<close> moves lovelace between the pots and creates or destroys none: with an
  expansion rate of at most one, a treasury rate of at most one and a supply below 2^64, the new pots
  hold exactly the old reserves, the old treasury and the fees of the epoch, and reserves never grow.
  What the old reward pot held is not carried over.\<close>
theorem ada_pots_conserved:
  assumes "rp_ActiveSlotsCoeff params = Some f" "0 < f" "0 < rp_ExpectedSlotsPerEpoch params"
    and "rp_MonetaryExpansion params \<le> 1000000" "rp_TreasuryGrowth params \<le> 10000"
    and "ap_Reserves pots + ap_Treasury pots + fees < 2 ^ 64"
  shows "\<exists>new. CalculateAdaPots pots params fees blocks = Inr new \<and>
    ap_Reserves new + ap_Treasury new + ap_Rewards new = ap_Reserves pots + ap_Treasury pots + fees \<and>
    ap_Reserves new \<le> ap_Reserves pots \<and> ap_Treasury pots \<le> ap_Treasury new"
proof -
  obtain eta where eta: "calculateEta blocks params = Inr eta" "0 \<le> eta" "eta \<le> 1"
    using calculateEta_range[OF assms(1-3)] by blast
  define e0 where "e0 = int (rp_MonetaryExpansion params) * int (ap_Reserves pots) div 1000000"
  define e where "e = e0 * fst (quotient_of eta) div snd (quotient_of eta)"
  define t where "t = int (rp_TreasuryGrowth params) * (int fees + e) div 10000"
  have e0: "0 \<le> e0" "e0 \<le> int (ap_Reserves pots)"
    using share_of_le[of "int (ap_Reserves pots)" "int (rp_MonetaryExpansion params)" 1000000] assms(4) by (simp_all add: e0_def)
  have e: "0 \<le> e" "e \<le> int (ap_Reserves pots)" using quotient_scale_le[OF eta(2,3) e0(1)] e0(2) by (simp_all add: e_def)
  have t: "0 \<le> t" "t \<le> int fees + e"
    using share_of_le[of "int fees + e" "int (rp_TreasuryGrowth params)" 10000] e(1) assms(5) by (simp_all add: t_def)
  let ?new = "\<lparr>ap_Reserves = nat (int (ap_Reserves pots) - e), ap_Treasury = ap_Treasury pots + nat t, ap_Rewards = nat (int fees + e - t)\<rparr>"
  have b: "int (ap_Reserves pots) - e < 2 ^ 64" "int fees + e - t < 2 ^ 64" "t < 2 ^ 64" "ap_Treasury pots + nat t < 2 ^ 64"
    using assms(6) e t by simp_all
  have "CalculateAdaPots pots params fees blocks = Inr ?new"
    using e t b by (simp add: CalculateAdaPots_def eta(1) Let_def flip: e0_def e_def t_def)
  moreover have "nat (int (ap_Reserves pots) - e) + (nat t + nat (int fees + e - t)) = ap_Reserves pots + fees"
    "nat (int (ap_Reserves pots) - e) \<le> ap_Reserves pots" using e t by linarith+
  ultimately show ?thesis by (intro exI[of _ ?new]) simp
qed

subsection \<open>Splitting the reward pot\<close>

text \<open>The exact part of a pool, and the floors when no clamp applies.\<close>

definition exact_part :: "nat \<Rightarrow> (PoolKeyHash \<Rightarrow> rat) \<Rightarrow> rat \<Rightarrow> PoolKeyHash \<Rightarrow> rat" where
  "exact_part pot share totalShare p = share p / totalShare * of_nat pot"

definition floor_entry :: "nat \<Rightarrow> (PoolKeyHash \<Rightarrow> rat) \<Rightarrow> rat \<Rightarrow> PoolKeyHash \<Rightarrow> PoolKeyHash \<times> int \<times> rat" where
  "floor_entry pot share totalShare p = (p, \<lfloor>exact_part pot share totalShare p\<rfloor>, frac (exact_part pot share totalShare p))"

lemma floors_le: "of_int (sum_list (map (\<lambda>p. \<lfloor>e p\<rfloor>) ps)) \<le> sum_list (map e ps)" for e :: "nat \<Rightarrow> rat"
  by (induction ps) (auto intro: add_mono)

lemma clamp_id: "0 \<le> f \<Longrightarrow> f \<le> r \<Longrightarrow> (if r \<le> 0 then 0 else if f > r then r else f) = f" for f r :: int
  by auto

lemma apportionFloors_Cons:
  assumes "0 \<le> e" "\<lfloor>e\<rfloor> \<le> int pot - assigned" "e = share p / totalShare * of_nat pot"
  shows "apportionFloors pot share totalShare (p # ps) assigned =
    (case apportionFloors pot share totalShare ps (assigned + \<lfloor>e\<rfloor>) of (rest, a) \<Rightarrow> ((p, \<lfloor>e\<rfloor>, frac e) # rest, a))"
proof -
  have "\<not> e < 0" "0 \<le> \<lfloor>e\<rfloor>" using assms(1) by simp_all
  then show ?thesis
    unfolding apportionFloors.simps(2) Let_def assms(3)[symmetric] big_Quo_floor frac_def
    by (simp only: if_False clamp_id[OF _ assms(2)])
qed

lemma apportionFloors_exact:
  assumes "\<forall>p \<in> set ps. 0 \<le> exact_part pot share totalShare p"
    and "of_int assigned + sum_list (map (exact_part pot share totalShare) ps) \<le> of_nat pot"
  shows "apportionFloors pot share totalShare ps assigned =
    (map (floor_entry pot share totalShare) ps, assigned + sum_list (map (\<lambda>p. \<lfloor>exact_part pot share totalShare p\<rfloor>) ps))"
  using assms
proof (induction ps arbitrary: assigned)
  case (Cons p ps)
  let ?e = "exact_part pot share totalShare"
  have nn: "0 \<le> ?e p" "0 \<le> sum_list (map ?e ps)" using Cons.prems(1) by (auto intro!: sum_list_nonneg)
  have f: "of_int \<lfloor>?e p\<rfloor> \<le> ?e p" by simp
  have "of_int (assigned + \<lfloor>?e p\<rfloor>) + sum_list (map ?e ps) \<le> of_nat pot"
    using Cons.prems(2) f unfolding list.map sum_list.Cons of_int_add by linarith
  note IH = Cons.IH[OF _ this]
  have "of_int (assigned + \<lfloor>?e p\<rfloor>) \<le> (of_int (int pot) :: rat)"
    using Cons.prems(2) nn(2) f unfolding list.map sum_list.Cons of_int_add of_int_of_nat_eq by linarith
  then have "\<lfloor>?e p\<rfloor> \<le> int pot - assigned" by linarith
  then have "apportionFloors pot share totalShare (p # ps) assigned =
    (case apportionFloors pot share totalShare ps (assigned + \<lfloor>?e p\<rfloor>) of (rest, a) \<Rightarrow> ((p, \<lfloor>?e p\<rfloor>, frac (?e p)) # rest, a))"
    by (rule apportionFloors_Cons[OF nn(1)]) (simp only: exact_part_def)
  then show ?case using IH Cons.prems(1) by (simp add: floor_entry_def del: apportionFloors.simps)
qed simp

lemma sum_list_frac: "sum_list (map (\<lambda>p. frac (e p)) ps) = sum_list (map e ps) - of_int (sum_list (map (\<lambda>p. \<lfloor>e p\<rfloor>) ps))" for e :: "nat \<Rightarrow> rat"
  by (induction ps) (simp_all add: frac_def)

lemma sum_frac_less: "ps \<noteq> [] \<Longrightarrow> sum_list (map (\<lambda>p. frac (e p)) ps) < of_nat (length ps)" for e :: "nat \<Rightarrow> rat"
proof (induction ps)
  case (Cons p ps)
  then show ?case using frac_lt_1[of "e p"] by (cases "ps = []") auto
qed simp

text \<open>Bumping a set of distinct members adds one for each.\<close>

lemma sum_bump:
  fixes a :: "nat \<Rightarrow> nat"
  assumes "distinct ps" "L \<subseteq> set ps"
  shows "sum_list (map (\<lambda>p. a p + (if p \<in> L then 1 else 0)) ps) = sum_list (map a ps) + card L"
proof -
  have "sum_list (map (\<lambda>p. a p + (if p \<in> L then 1 else 0)) ps) = (\<Sum>p\<in>set ps. a p + (if p \<in> L then 1 else 0))"
    using assms(1) by (simp add: sum_list_distinct_conv_sum_set)
  also have "\<dots> = (\<Sum>p\<in>set ps. a p) + card (set ps \<inter> L)" by (simp add: sum.distrib sum.If_cases)
  finally show ?thesis using assms by (simp add: sum_list_distinct_conv_sum_set inf_absorb2)
qed

definition share_of :: "(PoolKeyHash \<times> rat) list \<Rightarrow> PoolKeyHash \<Rightarrow> rat" where
  "share_of m p = (case map_of m p of None \<Rightarrow> 0 | Some x \<Rightarrow> x)"

lemma share_of_member: "distinct (map fst m) \<Longrightarrow> (p, x) \<in> set m \<Longrightarrow> share_of m p = x"
  by (simp add: share_of_def)

lemma sum_share_of: "distinct (map fst m) \<Longrightarrow> sum_list (map (share_of m) (sortedPoolIDs m)) = sum_list (map snd m)"
proof -
  assume d: "distinct (map fst m)"
  have "sum_list (map (share_of m) (sortedPoolIDs m)) = sum_list (map (share_of m) (map fst m))"
    using d by (simp add: sortedPoolIDs_def sum_list_distinct_conv_sum_set del: map_map)
  also have "\<dots> = sum_list (map snd m)"
    using share_of_member[OF d] by (auto simp: comp_def intro!: arg_cong[of _ _ sum_list])
  finally show ?thesis .
qed

text \<open>Among remainders in descending order whose sum exceeds k - 1, the first k are positive.\<close>

lemma largest_positive:
  fixes rs :: "rat list"
  assumes "sorted (map uminus rs)" "\<forall>r \<in> set rs. r < 1" "of_nat k < sum_list rs + 1"
  shows "\<forall>r \<in> set (take k rs). 0 < r"
  using assms
proof (induction rs arbitrary: k)
  case (Cons r rs)
  show ?case
  proof (cases k)
    case (Suc j)
    have "0 < r"
    proof (rule ccontr)
      assume "\<not> 0 < r"
      then have "\<forall>x \<in> set (r # rs). x \<le> 0" using Cons.prems(1) by fastforce
      then have "sum_list (r # rs) \<le> 0" by (intro sum_list_nonpos) auto
      then show False using Cons.prems(3) Suc by simp
    qed
    moreover have "\<forall>x \<in> set (take j rs). 0 < x" using Cons.IH[of j] Cons.prems Suc by auto
    ultimately show ?thesis using Suc by simp
  qed simp
qed simp

text \<open>Shares that add up to their total.\<close>

definition proper_shares :: "(PoolKeyHash \<times> rat) list \<Rightarrow> rat \<Rightarrow> bool" where
  "proper_shares shares totalShare \<longleftrightarrow> distinct (map fst shares) \<and> shares \<noteq> [] \<and> (\<forall>(p, x) \<in> set shares. 0 \<le> x) \<and>
     sum_list (map snd shares) = totalShare \<and> 0 < totalShare"

lemma sortedPoolIDs_facts:
  assumes "distinct (map fst m)"
  shows "set (sortedPoolIDs m) = fst ` set m" "distinct (sortedPoolIDs m)" "length (sortedPoolIDs m) = length m"
  using assms by (simp_all add: sortedPoolIDs_def)

lemma part_nonneg:
  assumes "proper_shares shares totalShare" "p \<in> set (sortedPoolIDs shares)"
  shows "0 \<le> exact_part pot (share_of shares) totalShare p"
  using assms share_of_member[of shares] sortedPoolIDs_facts(1)[of shares]
  by (auto simp: exact_part_def proper_shares_def)

lemma parts_sum:
  assumes "proper_shares shares totalShare"
  shows "sum_list (map (exact_part pot (share_of shares) totalShare) (sortedPoolIDs shares)) = of_nat pot"
proof -
  have "sum_list (map (exact_part pot (share_of shares) totalShare) ps)
    = sum_list (map (share_of shares) ps) / totalShare * of_nat pot" for ps
    by (induction ps) (simp_all add: exact_part_def add_divide_distrib distrib_right)
  then show ?thesis using assms sum_share_of[of shares] by (simp add: proper_shares_def)
qed

definition floor_sum :: "nat \<Rightarrow> (PoolKeyHash \<times> rat) list \<Rightarrow> rat \<Rightarrow> int" where
  "floor_sum pot shares totalShare = sum_list (map (\<lambda>p. \<lfloor>exact_part pot (share_of shares) totalShare p\<rfloor>) (sortedPoolIDs shares))"

lemma leftover_range:
  assumes "proper_shares shares totalShare"
  shows "0 \<le> int pot - floor_sum pot shares totalShare" "int pot - floor_sum pot shares totalShare < int (length shares)"
    "of_int (int pot - floor_sum pot shares totalShare)
       = sum_list (map (\<lambda>p. frac (exact_part pot (share_of shares) totalShare p)) (sortedPoolIDs shares))"
proof -
  let ?e = "exact_part pot (share_of shares) totalShare" and ?ids = "sortedPoolIDs shares"
  have len: "length ?ids = length shares" and ne: "?ids \<noteq> []"
    using assms sortedPoolIDs_facts(3)[of shares] by (auto simp: proper_shares_def)
  show eq: "of_int (int pot - floor_sum pot shares totalShare) = sum_list (map (\<lambda>p. frac (?e p)) ?ids)"
    unfolding sum_list_frac parts_sum[OF assms] by (simp add: floor_sum_def)
  have "of_int (int pot - floor_sum pot shares totalShare) < (of_int (int (length shares)) :: rat)"
    unfolding eq using sum_frac_less[OF ne, of ?e] len by simp
  then show "int pot - floor_sum pot shares totalShare < int (length shares)" by (simp only: of_int_less_iff)
  have "(of_int 0 :: rat) \<le> of_int (int pot - floor_sum pot shares totalShare)"
    unfolding eq by (auto intro!: sum_list_nonneg)
  then show "0 \<le> int pot - floor_sum pot shares totalShare" by (simp only: of_int_le_iff)
qed

text \<open>The pools that receive one of the lovelace left over.\<close>

definition lucky_pools :: "nat \<Rightarrow> (PoolKeyHash \<times> rat) list \<Rightarrow> rat \<Rightarrow> PoolKeyHash set" where
  "lucky_pools pot shares totalShare =
     set (take (nat (int pot - floor_sum pot shares totalShare))
       (map fst (sort_key (\<lambda>(p, f, r). - r) (map (floor_entry pot (share_of shares) totalShare) (sortedPoolIDs shares)))))"

lemma floor_bound:
  assumes "proper_shares shares totalShare" "p \<in> set (sortedPoolIDs shares)"
  shows "0 \<le> \<lfloor>exact_part pot (share_of shares) totalShare p\<rfloor>" "\<lfloor>exact_part pot (share_of shares) totalShare p\<rfloor> \<le> int pot"
proof -
  let ?e = "exact_part pot (share_of shares) totalShare"
  show "0 \<le> \<lfloor>?e p\<rfloor>" using part_nonneg[OF assms] by simp
  have "?e p \<le> sum_list (map ?e (sortedPoolIDs shares))"
    using assms part_nonneg[OF assms(1)] by (intro member_le_sum_list) auto
  then show "\<lfloor>?e p\<rfloor> \<le> int pot" unfolding parts_sum[OF assms(1)] by linarith
qed

lemma apportionRewardPot_eq:
  assumes ok: "proper_shares shares totalShare" and b: "pot < 2 ^ 64" "length shares < 2 ^ 63"
  shows "apportionRewardPot pot shares totalShare =
    map (\<lambda>p. (p, nat \<lfloor>exact_part pot (share_of shares) totalShare p\<rfloor> + (if p \<in> lucky_pools pot shares totalShare then 1 else 0)))
      (sortedPoolIDs shares)"
proof -
  let ?e = "exact_part pot (share_of shares) totalShare" and ?ids = "sortedPoolIDs shares"
  let ?L = "lucky_pools pot shares totalShare" and ?left = "int pot - floor_sum pot shares totalShare"
  have sh: "(\<lambda>p. case map_of shares p of None \<Rightarrow> 0 | Some x \<Rightarrow> x) = share_of shares" by (simp add: share_of_def fun_eq_iff)
  have fl: "apportionFloors pot (share_of shares) totalShare ?ids 0 = (map (floor_entry pot (share_of shares) totalShare) ?ids, floor_sum pot shares totalShare)"
    using apportionFloors_exact[of ?ids pot "share_of shares" totalShare 0] part_nonneg[OF ok] parts_sum[OF ok] by (simp add: floor_sum_def)
  have "int pot < 2 ^ 64" using b(1) by simp
  then have fb: "big_Uint64 \<lfloor>?e p\<rfloor> = nat \<lfloor>?e p\<rfloor>" if "p \<in> set ?ids" for p
    using floor_bound[OF ok that, of pot] by (intro big_Uint64_id) linarith+
  show ?thesis
  proof (cases "?left \<le> 0")
    case True
    then have "?L = {}" by (simp add: lucky_pools_def)
    then show ?thesis using True fb by (simp add: apportionRewardPot_def sh fl Let_def floor_entry_def comp_def)
  next
    case False
    have lt: "?left < 2 ^ 63" "?left < int (length ?ids)"
      using leftover_range(2)[OF ok, of pot] b(2) sortedPoolIDs_facts(3)[of shares] ok by (simp_all add: proper_shares_def)
    have n: "min (big_Int64 ?left) (int (length ?ids)) = ?left" using False lt by simp
    have lucky: "nat \<lfloor>?e p\<rfloor> < pot" if "p \<in> set ?ids" for p
    proof -
      have "\<lfloor>?e p\<rfloor> \<le> floor_sum pot shares totalShare"
        unfolding floor_sum_def using that floor_bound(1)[OF ok] by (intro member_le_sum_list) auto
      then show ?thesis using False floor_bound(1)[OF ok that, of pot] by linarith
    qed
    have "wrap64 (nat \<lfloor>?e p\<rfloor> + 1) = nat \<lfloor>?e p\<rfloor> + 1" if "p \<in> set ?ids" for p using lucky[OF that] b(1) by simp
    then show ?thesis using False fb
      by (simp add: apportionRewardPot_def sh fl Let_def n floor_entry_def comp_def flip: lucky_pools_def)
  qed
qed

lemma lucky_facts:
  assumes ok: "proper_shares shares totalShare"
  shows "lucky_pools pot shares totalShare \<subseteq> set (sortedPoolIDs shares)"
    "int (card (lucky_pools pot shares totalShare)) = int pot - floor_sum pot shares totalShare"
    "p \<in> lucky_pools pot shares totalShare \<Longrightarrow> 0 < frac (exact_part pot (share_of shares) totalShare p)"
proof -
  let ?e = "exact_part pot (share_of shares) totalShare" and ?ids = "sortedPoolIDs shares"
  define k where "k = nat (int pot - floor_sum pot shares totalShare)"
  define S where "S = sort_key (\<lambda>(p, f, r). - r) (map (floor_entry pot (share_of shares) totalShare) ?ids)"
  have L: "lucky_pools pot shares totalShare = set (take k (map fst S))" by (simp add: lucky_pools_def k_def S_def)
  have setS: "set S = floor_entry pot (share_of shares) totalShare ` set ?ids" by (simp add: S_def)
  have mS: "set (map fst S) = set ?ids" by (force simp: setS floor_entry_def)
  then show "lucky_pools pot shares totalShare \<subseteq> set ?ids" unfolding L by (metis set_take_subset)
  have len: "length S = length shares" "distinct ?ids" "length ?ids = length shares"
    using ok sortedPoolIDs_facts[of shares] by (simp_all add: S_def proper_shares_def)
  then have "distinct (map fst S)" using mS by (metis card_distinct distinct_card length_map)
  then show "int (card (lucky_pools pot shares totalShare)) = int pot - floor_sum pot shares totalShare"
    unfolding L using leftover_range(1,2)[OF ok, of pot] len by (simp add: distinct_card k_def)
  define rs where "rs = map (\<lambda>(p, f, r). r) S"
  have "map uminus rs = map (\<lambda>(p, f, r). - r) S" by (simp add: rs_def split_beta)
  then have srt: "sorted (map uminus rs)" by (simp add: S_def)
  have lt: "\<forall>r \<in> set rs. r < 1" by (auto simp: rs_def setS floor_entry_def frac_lt_1)
  have "sum_list rs = sum_list (map (\<lambda>p. frac (?e p)) ?ids)"
  proof -
    have "mset rs = mset (map (\<lambda>p. frac (?e p)) ?ids)"
      by (simp add: rs_def S_def floor_entry_def multiset.map_comp comp_def)
    then show ?thesis by (metis sum_mset_sum_list)
  qed
  then have "of_nat k < sum_list rs + 1" using leftover_range(1,3)[OF ok, of pot] by (simp add: k_def)
  note pos = largest_positive[OF srt lt this]
  show "0 < frac (?e p)" if luck: "p \<in> lucky_pools pot shares totalShare"
  proof -
    obtain x where x: "x \<in> set (take k S)" "p = fst x" using luck unfolding L take_map set_map by blast
    then have "snd (snd x) \<in> set (take k rs)" by (auto simp: rs_def take_map split_beta)
    moreover have "snd (snd x) = frac (?e p)" using x set_take_subset[of k S] by (auto simp: setS floor_entry_def)
    ultimately show ?thesis using pos by auto
  qed
qed

lemma int_sum_list: "int (sum_list xs) = sum_list (map int xs)"
  by (induction xs) simp_all

lemma same_shares:
  assumes "distinct (map fst m)" "distinct (map fst m')" "set m' = set m"
  shows "sortedPoolIDs m' = sortedPoolIDs m" "share_of m' = share_of m"
proof -
  show "sortedPoolIDs m' = sortedPoolIDs m" unfolding sortedPoolIDs_def
    using assms by (intro sorted_distinct_set_unique) auto
  have "map_of m' = map_of m" using assms by (metis map_of_inject_set)
  then show "share_of m' = share_of m" by (simp add: share_of_def fun_eq_iff)
qed

lemma apportion_sum:
  assumes "proper_shares shares totalShare" "pot < 2 ^ 64" "length shares < 2 ^ 63"
  shows "sum_list (map snd (apportionRewardPot pot shares totalShare)) = pot"
    "map fst (apportionRewardPot pot shares totalShare) = sortedPoolIDs shares"
proof -
  let ?e = "exact_part pot (share_of shares) totalShare" and ?ids = "sortedPoolIDs shares" and ?L = "lucky_pools pot shares totalShare"
  have d: "distinct (map fst shares)" using assms(1) by (simp add: proper_shares_def)
  note eq = apportionRewardPot_eq[OF assms(1-3)]
  have fl: "p \<in> set ?ids \<Longrightarrow> int (nat \<lfloor>?e p\<rfloor>) = \<lfloor>?e p\<rfloor>" for p using floor_bound(1)[OF assms(1), of p pot] by simp
  have "sum_list (map snd (apportionRewardPot pot shares totalShare)) = sum_list (map (\<lambda>p. nat \<lfloor>?e p\<rfloor>) ?ids) + card ?L"
    unfolding eq map_map comp_def snd_conv
    using sum_bump[of ?ids ?L "\<lambda>p. nat \<lfloor>?e p\<rfloor>"] lucky_facts(1)[OF assms(1)] sortedPoolIDs_facts(2)[OF d] by simp
  moreover have "int (sum_list (map (\<lambda>p. nat \<lfloor>?e p\<rfloor>) ?ids)) = floor_sum pot shares totalShare"
    unfolding floor_sum_def int_sum_list map_map comp_def using fl by (simp cong: map_cong)
  ultimately show "sum_list (map snd (apportionRewardPot pot shares totalShare)) = pot"
    using lucky_facts(2)[OF assms(1), of pot] by linarith
  show "map fst (apportionRewardPot pot shares totalShare) = ?ids" by (simp add: eq comp_def)
qed

text \<open>C29: \<open>apportionRewardPot\<close> splits the pot exactly and fairly: for non-negative shares with a positive
  sum the amounts add up to the pot, each is within less than one lovelace of the pool's exact part, and
  the result is the same for every iteration order of the map of shares.\<close>
theorem apportionment_exact:
  assumes "proper_shares shares totalShare" "pot < 2 ^ 64" "length shares < 2 ^ 63"
    and "distinct (map fst shares')" "set shares' = set shares"
  shows "sum_list (map snd (apportionRewardPot pot shares totalShare)) = pot \<and>
    (\<forall>(p, a) \<in> set (apportionRewardPot pot shares totalShare). \<bar>of_nat a - share_of shares p / totalShare * of_nat pot\<bar> < 1) \<and>
    map fst (apportionRewardPot pot shares totalShare) = sortedPoolIDs shares \<and>
    apportionRewardPot pot shares' totalShare = apportionRewardPot pot shares totalShare"
proof -
  let ?e = "exact_part pot (share_of shares) totalShare" and ?ids = "sortedPoolIDs shares" and ?L = "lucky_pools pot shares totalShare"
  have d: "distinct (map fst shares)" using assms(1) by (simp add: proper_shares_def)
  note eq = apportionRewardPot_eq[OF assms(1-3)]
  have fl: "p \<in> set ?ids \<Longrightarrow> int (nat \<lfloor>?e p\<rfloor>) = \<lfloor>?e p\<rfloor>" for p using floor_bound(1)[OF assms(1), of p pot] by simp
  have "\<bar>of_nat a - share_of shares p / totalShare * of_nat pot\<bar> < 1" if "(p, a) \<in> set (apportionRewardPot pot shares totalShare)" for p a
  proof -
    have p: "p \<in> set ?ids" "a = nat \<lfloor>?e p\<rfloor> + (if p \<in> ?L then 1 else 0)" using that by (auto simp: eq)
    have "of_nat (nat \<lfloor>?e p\<rfloor>) = ?e p - frac (?e p)" using arg_cong[OF fl[OF p(1)], of of_int] by (simp only: frac_def of_int_of_nat_eq) simp
    then show ?thesis
      unfolding exact_part_def[symmetric] using p(2) lucky_facts(3)[OF assms(1), of p pot] frac_lt_1[of "?e p"] frac_ge_0[of "?e p"] by auto
  qed
  moreover have "apportionRewardPot pot shares' totalShare = apportionRewardPot pot shares totalShare"
    using same_shares[OF d assms(4,5)] by (simp add: apportionRewardPot_def flip: share_of_def)
  ultimately show ?thesis using apportion_sum[OF assms(1-3)] by blast
qed

theorem apportionment_exact_witness:
  "sum_list (map snd (apportionRewardPot 100 [(1, 1 / 3), (2, 1 / 6), (7, 1 / 2)] 1)) = 100 \<and>
   apportionRewardPot 100 [(7, 1 / 2), (1, 1 / 3), (2, 1 / 6)] 1 = apportionRewardPot 100 [(1, 1 / 3), (2, 1 / 6), (7, 1 / 2)] 1"
proof -
  have "proper_shares [(1, 1 / 3), (2, 1 / 6), (7, 1 / 2)] 1" by (simp add: proper_shares_def)
  from apportionment_exact[OF this, of 100 "[(7, 1 / 2), (1, 1 / 3), (2, 1 / 6)]"] show ?thesis by auto
qed

subsection \<open>Inside a pool\<close>

lemma ratFloorUint64_le: "0 \<le> x \<Longrightarrow> x < of_nat n \<Longrightarrow> n < 2 ^ 64 \<Longrightarrow> ratFloorUint64 x < n"
proof -
  assume x: "0 \<le> x" "x < of_nat n" "n < 2 ^ 64"
  have "x < of_int (int n)" using x(2) by simp
  then have f: "\<lfloor>x\<rfloor> < int n" "0 \<le> \<lfloor>x\<rfloor>" using x(1) by (simp_all only: floor_less_iff) simp
  have n: "int n < 2 ^ 64" using x(3) by simp
  then have "big_Uint64 \<lfloor>x\<rfloor> = nat \<lfloor>x\<rfloor>" using f by (intro big_Uint64_id) linarith+
  then show ?thesis using f n x(1,2) by (auto simp: ratFloorUint64_def big_Quo_floor)
qed

lemma operatorPart_le:
  assumes "cost < tot" "tot < 2 ^ 64"
  shows "operatorPart tot cost margin owner stake \<le> tot"
proof -
  let ?v = "of_nat (tot - cost) * ((1 - margin) * (of_nat owner / of_nat stake) + margin)"
  have "ratFloorUint64 ?v < tot - cost" if "0 < ?v" "?v < of_nat (tot - cost)"
    using ratFloorUint64_le[of ?v "tot - cost"] that assms by simp
  then show ?thesis using assms by (auto simp: operatorPart_def Let_def not_le)
qed

lemma stakeholder_sum:
  assumes "sum_list (map snd m) \<le> totalStake" "0 < totalStake" "pot < 2 ^ 64"
  shows "sum_list (map snd (stakeholderRewards reg m pot totalStake)) \<le> pot"
proof -
  have "sum_list (map snd (stakeholderRewards reg m pot totalStake)) * totalStake \<le> sum_list (map snd m) * pot"
  proof (induction m)
    case (Cons x m)
    obtain k v where x: "x = (k, v)" by force
    have "wrap64 (v * pot div totalStake) * totalStake \<le> v * pot"
      by (metis div_times_less_eq_dividend le_trans mod_less_eq_dividend mult_le_mono1 wrap64_def)
    then show ?case using Cons.IH by (auto simp: stakeholderRewards_def x algebra_simps)
  qed (simp add: stakeholderRewards_def)
  also have "\<dots> \<le> totalStake * pot" using assms(1) by (rule mult_le_mono1)
  finally show ?thesis using assms(2) by (simp add: mult.commute)
qed

definition pool_paid :: "PoolRewards \<Rightarrow> nat" where
  "pool_paid pw = pw_OperatorRewards pw + sum_list (map snd (pw_DelegatorRewards pw))"

lemma distributePoolRewards_paid:
  assumes "tot < 2 ^ 64" "sum_list (map snd m) < 2 ^ 64"
  shows "pool_paid (distributePoolRewards tot m pp sn params) = tot"
proof (cases "tot \<le> pr_Cost pp")
  case True
  then show ?thesis by (simp add: distributePoolRewards_def pool_paid_def Let_def)
next
  case False
  define margin where "margin = effectivePoolMargin (pr_Margin pp) params"
  define stake where "stake = sumStake m"
  define op where "op = operatorPart tot (pr_Cost pp) margin (ownerStakeOf m (pr_PoolOwners pp)) stake"
  define dr where "dr = (if stake > 0 \<and> tot - op > 0 then stakeholderRewards (sn_StakeRegistrations sn) m (tot - op) stake else [])"
  have st: "stake = sum_list (map snd m)" using assms(2) by (simp add: stake_def sumStake_def wrap64_sum)
  have op: "op \<le> tot" using False assms(1) by (simp add: op_def operatorPart_le)
  have dr: "sum_list (map snd dr) \<le> tot - op"
    using stakeholder_sum[of m stake "tot - op"] st assms(1) by (simp add: dr_def)
  then have asg: "foldl (\<lambda>acc (c, r). wrap64 (acc + r)) 0 dr = sum_list (map snd dr)"
    using assms(1) by (intro wrap64_sum) linarith
  have "distributePoolRewards tot m pp sn params = \<lparr>pw_OperatorRewardAccount = pr_RewardAccount pp,
      pw_OperatorRewards = (if tot - op > sum_list (map snd dr) then wrap64 (op + (tot - op - sum_list (map snd dr))) else op),
      pw_DelegatorRewards = dr, pw_TotalRewards = tot\<rparr>"
    using False op asg unfolding distributePoolRewards_def Let_def margin_def[symmetric] stake_def[symmetric] op_def[symmetric]
    by (cases "op < tot"; cases "0 < stake") (simp_all add: dr_def)
  moreover have "op + (tot - op - sum_list (map snd dr)) < 2 ^ 64" using op assms(1) by linarith
  ultimately show ?thesis using op dr by (auto simp: pool_paid_def)
qed

lemma distributePoolRewards_total: "pw_TotalRewards (distributePoolRewards tot m pp sn params) = tot"
  by (simp add: distributePoolRewards_def Let_def)

subsection \<open>The shares\<close>

lemma marginRat_range: "0 \<le> marginRat m" "marginRat m \<le> 1"
proof -
  have "0 \<le> marginRat m \<and> marginRat m \<le> 1"
  proof (cases m)
    case (Some x)
    obtain n d where q: "quotient_of x = (n, d)" by force
    then have "0 < d" by (rule quotient_of_denom_pos)
    then show ?thesis by (auto simp: marginRat_def Some q divide_le_eq)
  qed (simp add: marginRat_def)
  then show "0 \<le> marginRat m" "marginRat m \<le> 1" by simp_all
qed

lemma calculatePoolPerformance_nonneg: "0 \<le> calculatePoolPerformance p sn"
  by (simp add: calculatePoolPerformance_def Let_def)

lemma leverage_nonneg:
  "validateDijkstraRewardParameters params = Inr u \<Longrightarrow> pledgeLeverageActive params \<Longrightarrow> 0 \<le> the (rp_MaxPledgeLeverage params)"
  by (auto simp: validateDijkstraRewardParameters_def pledgeLeverageActive_def split: if_splits option.splits)

lemma share_formula_nonneg:
  fixes r f g a s :: rat
  assumes "0 \<le> r" "0 \<le> f" "0 \<le> g" "0 \<le> a" "0 \<le> s"
  shows "0 \<le> (if a * s + 1 \<le> 0 then 0 else r * f * g / (a * s + 1))"
  using assms by simp

lemma calculatePoolShare_nonneg:
  assumes "validateDijkstraRewardParameters params = Inr u"
  shows "0 \<le> calculatePoolShare stake pp sn params p"
proof -
  let ?t = "of_nat (sn_TotalActiveStake sn) :: rat"
  let ?r = "if pledgeLeverageActive params then minimumRewardRatio (minimumRewardRatio (of_nat stake / ?t) poolSaturationThreshold)
      (of_nat (pr_Pledge pp) / ?t * the (rp_MaxPledgeLeverage params)) else of_nat stake / ?t"
  have "0 \<le> ?r" using leverage_nonneg[OF assms] by (auto simp: minimumRewardRatio_def poolSaturationThreshold_def)
  moreover from this have "0 \<le> (if ?r / poolSaturationThreshold > 1 then 1 else ?r / poolSaturationThreshold)"
    by (auto simp: poolSaturationThreshold_def)
  moreover have "0 \<le> (case rp_PoolInfluence params of None \<Rightarrow> 1 | Some a \<Rightarrow> if a < 0 then 0 else (a::rat))" by (auto split: option.split)
  ultimately show ?thesis unfolding calculatePoolShare_def Let_def
    using calculatePoolPerformance_nonneg[of p sn] marginRat_range(2)[of "pr_Margin pp"] share_formula_nonneg by simp
qed

definition pass_inv :: "RewardSnapshot \<Rightarrow> (PoolKeyHash \<times> rat) list \<times> rat \<times> PoolKeyHash list \<Rightarrow> bool" where
  "pass_inv sn acc \<longleftrightarrow> (case acc of (shares, totalShare, eligible) \<Rightarrow>
     distinct (map fst shares) \<and> (\<forall>(p, x) \<in> set shares. 0 \<le> x) \<and>
     sum_list (map snd shares) = totalShare \<and> distinct eligible \<and> set eligible \<subseteq> fst ` set shares)"

lemma poolSharesPass_inv:
  assumes v: "validateDijkstraRewardParameters params = Inr u"
  shows "poolSharesPass sn params ids acc = Inr acc' \<Longrightarrow> pass_inv sn acc \<Longrightarrow> distinct ids \<Longrightarrow> set ids \<inter> fst ` set (fst acc) = {} \<Longrightarrow>
    pass_inv sn acc' \<and> length (fst acc') \<le> length (fst acc) + length ids"
proof (induction ids arbitrary: acc)
  case (Cons p ids)
  obtain sh t el where acc: "acc = (sh, t, el)" by (cases acc)
  show ?case
  proof (cases "sn_PoolParams sn p")
    case None
    then show ?thesis using Cons.IH[of acc] Cons.prems by (simp add: acc)
  next
    case (Some y)
    then obtain pp where pp: "sn_PoolParams sn p = Some (Some pp)" using Cons.prems(1) by (cases y) (simp_all add: acc)
    let ?s = "calculatePoolShare (lookup0 (sn_PoolStake sn) p) pp sn params p"
    let ?acc = "(sh @ [(p, ?s)], t + ?s, if pledgeLeverageActive params \<and> 0 < lookup0 (sn_PoolStake sn) p \<and> 0 < pr_Pledge pp then el @ [p] else el)"
    have "poolSharesPass sn params ids ?acc = Inr acc'" using Cons.prems(1) pp by (simp add: acc Let_def)
    moreover have "pass_inv sn ?acc"
      using Cons.prems(2,4) calculatePoolShare_nonneg[OF v] by (auto simp: pass_inv_def acc)
    moreover have "set ids \<inter> fst ` set (fst ?acc) = {}" using Cons.prems(3,4) by (auto simp: acc)
    ultimately show ?thesis using Cons.IH[of ?acc] Cons.prems(3) by (simp add: acc)
  qed
qed simp

lemma equal_split:
  fixes es :: "nat list"
  assumes "distinct (map fst m)" "distinct es" "set es \<subseteq> fst ` set m" "es \<noteq> []"
  shows "sum_list (map snd (map (\<lambda>(p, x). (p, if p \<in> set es then 1 / of_nat (length es) else 0)) m)) = (1 :: rat)"
proof -
  define f :: "nat \<Rightarrow> rat" where "f p = (if p \<in> set es then 1 / of_nat (length es) else 0)" for p
  have "map snd (map (\<lambda>(p, x). (p, f p)) m) = map f (map fst m)" by (auto simp: split_beta)
  then have "sum_list (map snd (map (\<lambda>(p, x). (p, f p)) m)) = sum f (fst ` set m)"
    using assms(1) by (simp add: sum_list_distinct_conv_sum_set del: map_map)
  also have "\<dots> = of_nat (card (set es)) / of_nat (length es)"
    using assms(3) by (simp add: f_def sum.If_cases inf_absorb2)
  finally show ?thesis using assms(2,4) by (simp add: distinct_card f_def)
qed

lemma pass_proper:
  assumes "pass_inv sn (shares, totalShare, eligible)" "shares \<noteq> []"
    "\<not> (totalShare = 0 \<and> pledgeLeverageActive params \<and> eligible = [])"
  shows "proper_shares (if totalShare = 0 then equalShares params shares eligible else shares) (if totalShare = 0 then 1 else totalShare)"
proof (cases "totalShare = 0")
  case True
  define es where "es = (if pledgeLeverageActive params then eligible else sortedPoolIDs shares)"
  have es: "distinct es" "set es \<subseteq> fst ` set shares" "es \<noteq> []"
    using assms True sortedPoolIDs_facts[of shares] by (auto simp: es_def pass_inv_def)
  have eq: "equalShares params shares eligible = map (\<lambda>(p, x). (p, if p \<in> set es then 1 / of_nat (length es) else 0)) shares"
    unfolding equalShares_def es_def Let_def by (rule refl)
  have d: "distinct (map fst shares)" using assms(1) by (simp add: pass_inv_def)
  have keys: "map fst (equalShares params shares eligible) = map fst shares" by (simp add: eq split_beta)
  have "distinct (map fst (equalShares params shares eligible))" "equalShares params shares eligible \<noteq> []"
    using d keys assms(2) by auto
  moreover have "\<forall>(p, x) \<in> set (equalShares params shares eligible). 0 \<le> x" by (auto simp: eq)
  ultimately show ?thesis using True equal_split[OF d es, folded eq] by (simp add: proper_shares_def)
next
  case False
  have "0 \<le> totalShare" using assms(1) by (fastforce simp: pass_inv_def intro!: sum_list_nonneg)
  then show ?thesis using False assms by (auto simp: proper_shares_def pass_inv_def)
qed

subsection \<open>The calculation\<close>

definition delegator_stakes_fit :: "RewardSnapshot \<Rightarrow> bool" where
  "delegator_stakes_fit sn \<longleftrightarrow> (\<forall>p m. sn_DelegatorStake sn p = Some m \<longrightarrow> sum_list (map snd m) < 2 ^ 64)"

definition total_paid :: "(PoolKeyHash \<times> PoolRewards) list \<Rightarrow> nat" where
  "total_paid pools = sum_list (map (\<lambda>(p, pw). pool_paid pw) pools)"

lemma distributeAll_paid:
  "distributeAll sn params amounts ids = Inr rs \<Longrightarrow> delegator_stakes_fit sn \<Longrightarrow> \<forall>p \<in> set ids. lookup0 amounts p < 2 ^ 64 \<Longrightarrow>
    total_paid rs = sum_list (map (lookup0 amounts) ids)"
proof (induction ids arbitrary: rs)
  case (Cons p ids)
  then obtain pp rs' where p: "sn_PoolParams sn p = Some (Some pp)" "distributeAll sn params amounts ids = Inr rs'"
    and rs: "rs = (p, distributePoolRewards (lookup0 amounts p) (case sn_DelegatorStake sn p of None \<Rightarrow> [] | Some m \<Rightarrow> m) pp sn params) # rs'"
    by (auto simp: Let_def split: option.splits)
  have "sum_list (map snd (case sn_DelegatorStake sn p of None \<Rightarrow> [] | Some m \<Rightarrow> m)) < 2 ^ 64"
    using Cons.prems(2) by (auto simp: delegator_stakes_fit_def split: option.split)
  then show ?case using Cons.IH[OF p(2)] Cons.prems(2,3) distributePoolRewards_paid by (simp add: rs total_paid_def)
qed (simp add: total_paid_def)

lemma sum_lookup0: "distinct (map fst m) \<Longrightarrow> sum_list (map (lookup0 m) (sortedPoolIDs m)) = sum_list (map snd m)"
proof -
  assume d: "distinct (map fst m)"
  have "sum_list (map (lookup0 m) (sortedPoolIDs m)) = sum_list (map (lookup0 m) (map fst m))"
    using d by (simp add: sortedPoolIDs_def sum_list_distinct_conv_sum_set del: map_map)
  also have "\<dots> = sum_list (map snd m)"
    using d by (auto simp: comp_def lookup0_def intro!: arg_cong[of _ _ sum_list])
  finally show ?thesis .
qed

lemma lookup0_le: "lookup0 m p \<le> sum_list (map snd m)"
  by (induction m) (auto simp: lookup0_def split: option.split)

text \<open>What a successful calculation returns.\<close>

lemma CalculateRewards_cases:
  assumes c: "CalculateRewards pots sn params = Inr res"
  obtains (unpaid) "rr_PoolRewards res = []" "rr_UpdatedPots res = pots" "rr_TotalRewards res = 0"
  | (split) u shares totalShare eligible where "validateDijkstraRewardParameters params = Inr u"
      "poolSharesPass sn params (sortedPoolIDs (sn_PoolStake sn)) ([], 0, []) = Inr (shares, totalShare, eligible)" "shares \<noteq> []"
      "\<not> (totalShare = 0 \<and> pledgeLeverageActive params \<and> eligible = [])"
      "distributeAll sn params
         (apportionRewardPot (ap_Rewards pots) (if totalShare = 0 then equalShares params shares eligible else shares) (if totalShare = 0 then 1 else totalShare))
         (sortedPoolIDs (apportionRewardPot (ap_Rewards pots) (if totalShare = 0 then equalShares params shares eligible else shares) (if totalShare = 0 then 1 else totalShare)))
         = Inr (rr_PoolRewards res)"
      "rr_UpdatedPots res = pots\<lparr>ap_Rewards := 0\<rparr>" "rr_TotalRewards res = ap_Rewards pots"
proof -
  obtain u where u: "validateDijkstraRewardParameters params = Inr u" using c by (auto simp: CalculateRewards_def)
  show thesis
  proof (cases "sn_TotalActiveStake sn = 0 \<or> ap_Rewards pots = 0")
    case True
    then have "res = \<lparr>rr_TotalRewards = 0, rr_PoolRewards = [], rr_UpdatedPots = pots\<rparr>" using c u by (simp add: CalculateRewards_def)
    then show thesis using unpaid by simp
  next
    case False
    then obtain shares totalShare eligible where
      s: "poolSharesPass sn params (sortedPoolIDs (sn_PoolStake sn)) ([], 0, []) = Inr (shares, totalShare, eligible)"
      using c u by (auto simp: CalculateRewards_def)
    have ne: "shares \<noteq> []" using c u s False by (auto simp: CalculateRewards_def)
    show thesis
    proof (cases "totalShare = 0 \<and> pledgeLeverageActive params \<and> eligible = []")
      case True
      then have "res = \<lparr>rr_TotalRewards = 0, rr_PoolRewards = [], rr_UpdatedPots = pots\<rparr>"
        using c u s ne False by (simp add: CalculateRewards_def)
      then show thesis using unpaid by simp
    next
      case dist: False
      show thesis using c u s ne False dist split[OF u s ne dist] by (auto simp: CalculateRewards_def Let_def simp del: if_split split: if_splits)
    qed
  qed
qed

lemma CalculateRewards_paid:
  assumes c: "CalculateRewards pots sn params = Inr res" and w: "distinct (map fst (sn_PoolStake sn))" "length (sn_PoolStake sn) < 2 ^ 63"
    "delegator_stakes_fit sn" "ap_Rewards pots < 2 ^ 64"
  shows "total_paid (rr_PoolRewards res) + ap_Rewards (rr_UpdatedPots res) = ap_Rewards pots"
    "rr_TotalRewards res = total_paid (rr_PoolRewards res)"
    "ap_Reserves (rr_UpdatedPots res) = ap_Reserves pots" "ap_Treasury (rr_UpdatedPots res) = ap_Treasury pots"
proof -
  have "total_paid (rr_PoolRewards res) + ap_Rewards (rr_UpdatedPots res) = ap_Rewards pots \<and> rr_TotalRewards res = total_paid (rr_PoolRewards res) \<and>
    ap_Reserves (rr_UpdatedPots res) = ap_Reserves pots \<and> ap_Treasury (rr_UpdatedPots res) = ap_Treasury pots"
    using c
  proof (cases rule: CalculateRewards_cases)
    case unpaid
    then show ?thesis by (simp add: total_paid_def)
  next
    case (split u shares totalShare eligible)
    define ps where "ps = (if totalShare = 0 then equalShares params shares eligible else shares)"
    define ts where "ts = (if totalShare = 0 then 1 else totalShare)"
    define am where "am = apportionRewardPot (ap_Rewards pots) ps ts"
    have i: "pass_inv sn (shares, totalShare, eligible)" "length shares \<le> length (sn_PoolStake sn)"
      using poolSharesPass_inv[OF split(1,2)] sortedPoolIDs_facts[OF w(1)] by (simp_all add: pass_inv_def)
    have ok: "proper_shares ps ts" unfolding ps_def ts_def using pass_proper[OF i(1) split(3,4)] .
    have len: "length ps < 2 ^ 63" using i(2) w(2) by (simp add: ps_def equalShares_def Let_def)
    note am = apportion_sum[OF ok w(4) len, folded am_def]
    have d: "distinct (map fst am)" using ok sortedPoolIDs_facts(2)[of ps] by (simp add: am(2) proper_shares_def)
    have "\<forall>p \<in> set (sortedPoolIDs am). lookup0 am p < 2 ^ 64" using lookup0_le[of am] am(1) w(4) by (metis le_less_trans)
    then have "total_paid (rr_PoolRewards res) = sum_list (map (lookup0 am) (sortedPoolIDs am))"
      using distributeAll_paid[OF split(5)[folded ps_def ts_def, folded am_def] w(3)] by blast
    then show ?thesis using sum_lookup0[OF d] am(1) split(6,7) by simp
  qed
  then show "total_paid (rr_PoolRewards res) + ap_Rewards (rr_UpdatedPots res) = ap_Rewards pots"
    "rr_TotalRewards res = total_paid (rr_PoolRewards res)"
    "ap_Reserves (rr_UpdatedPots res) = ap_Reserves pots" "ap_Treasury (rr_UpdatedPots res) = ap_Treasury pots" by simp_all
qed

subsection \<open>The check of a distribution\<close>

lemma sum_update:
  "distinct (map fst m) \<Longrightarrow> sum_list (map snd (AList.update k v m)) + lookup0 m k = sum_list (map snd m) + v"
proof (induction m)
  case (Cons x m)
  obtain k' v' where x: "x = (k', v')" by force
  show ?case
  proof (cases "k' = k")
    case True
    then show ?thesis by (simp add: x lookup0_def)
  next
    case False
    then have "lookup0 (x # m) k = lookup0 m k" by (simp add: x lookup0_def)
    then show ?thesis using Cons False by (simp add: x)
  qed
qed (simp add: lookup0_def)

lemma addAllocation_sum:
  assumes "distinct (map fst m)" "sum_list (map snd m) + r < 2 ^ 64"
  shows "sum_list (map snd (addAllocation c r m)) = sum_list (map snd m) + r" "distinct (map fst (addAllocation c r m))"
proof -
  have "lookup0 m c \<le> sum_list (map snd m)" by (induction m) (auto simp: lookup0_def split: option.split)
  then have "wrap64 (lookup0 m c + r) = lookup0 m c + r" using assms(2) by simp
  then show "sum_list (map snd (addAllocation c r m)) = sum_list (map snd m) + r"
    using sum_update[OF assms(1), of c "lookup0 m c + r"] by (simp add: addAllocation_def)
  show "distinct (map fst (addAllocation c r m))" using assms(1) by (simp add: addAllocation_def distinct_update)
qed

lemma addAllocations_sum:
  "distinct (map fst m) \<Longrightarrow> sum_list (map snd m) + sum_list (map snd rs) < 2 ^ 64 \<Longrightarrow>
    sum_list (map snd (foldl (\<lambda>m (c, r). addAllocation c r m) m rs)) = sum_list (map snd m) + sum_list (map snd rs) \<and>
    distinct (map fst (foldl (\<lambda>m (c, r). addAllocation c r m) m rs))"
proof (induction rs arbitrary: m)
  case (Cons x rs)
  obtain c r where x: "x = (c, r)" by (cases x)
  have b: "sum_list (map snd m) + r < 2 ^ 64" using Cons.prems(2) by (simp add: x)
  show ?case using Cons.IH[of "addAllocation c r m"] addAllocation_sum[OF Cons.prems(1) b, of c] Cons.prems(2)
    by (simp add: x add.assoc)
qed simp

lemma pool_allocations:
  assumes "distinct (map fst m)" "sum_list (map snd m) + pool_paid pw < 2 ^ 64"
  shows "sum_list (map snd (foldl (\<lambda>m (c, r). addAllocation c r m)
      (addAllocation (pw_OperatorRewardAccount pw) (pw_OperatorRewards pw) m) (pw_DelegatorRewards pw))) = sum_list (map snd m) + pool_paid pw \<and>
    distinct (map fst (foldl (\<lambda>m (c, r). addAllocation c r m)
      (addAllocation (pw_OperatorRewardAccount pw) (pw_OperatorRewards pw) m) (pw_DelegatorRewards pw)))"
proof -
  have b: "sum_list (map snd m) + pw_OperatorRewards pw < 2 ^ 64" using assms(2) by (simp add: pool_paid_def)
  note a = addAllocation_sum[OF assms(1) b, of "pw_OperatorRewardAccount pw"]
  show ?thesis using addAllocations_sum[OF a(2), of "pw_DelegatorRewards pw"] a(1) assms(2) by (simp add: pool_paid_def add.assoc)
qed

lemma allocations_from:
  "distinct (map fst m) \<Longrightarrow> sum_list (map snd m) + total_paid pools < 2 ^ 64 \<Longrightarrow>
    sum_list (map snd (foldl (\<lambda>m (p, pw). foldl (\<lambda>m (c, r). addAllocation c r m)
        (addAllocation (pw_OperatorRewardAccount pw) (pw_OperatorRewards pw) m) (pw_DelegatorRewards pw)) m pools))
      = sum_list (map snd m) + total_paid pools \<and>
    distinct (map fst (foldl (\<lambda>m (p, pw). foldl (\<lambda>m (c, r). addAllocation c r m)
        (addAllocation (pw_OperatorRewardAccount pw) (pw_OperatorRewards pw) m) (pw_DelegatorRewards pw)) m pools))"
proof (induction pools arbitrary: m)
  case (Cons x pools)
  obtain p pw where x: "x = (p, pw)" by force
  have t: "total_paid (x # pools) = pool_paid pw + total_paid pools" by (simp add: x total_paid_def)
  have "sum_list (map snd m) + pool_paid pw < 2 ^ 64" using Cons.prems(2) t by simp
  note a = pool_allocations[OF Cons.prems(1) this]
  show ?case
    using Cons.IH[of "foldl (\<lambda>m (c, r). addAllocation c r m)
        (addAllocation (pw_OperatorRewardAccount pw) (pw_OperatorRewards pw) m) (pw_DelegatorRewards pw)"] a Cons.prems(2) t
    by (simp add: x add.assoc)
qed (simp add: total_paid_def)

lemma expectedAllocations_sum:
  assumes "total_paid pools < 2 ^ 64"
  shows "sum_list (map snd (expectedAllocations pools)) = total_paid pools" "distinct (map fst (expectedAllocations pools))"
  using allocations_from[of "[]" pools] assms by (simp_all add: expectedAllocations_def)

lemma maps_Equal_set:
  assumes "maps_Equal m1 m2" "distinct (map fst m1)" "distinct (map fst m2)"
  shows "set m1 = set m2"
proof -
  have "set m1 \<subseteq> set m2" using assms(1) by (auto simp: maps_Equal_def list_all_iff dest: map_of_SomeD)
  moreover have "card (set m1) = card (set m2)" using assms by (simp add: maps_Equal_def distinct_map distinct_card)
  ultimately show ?thesis by (simp add: card_subset_eq)
qed

lemma maps_Equal_sum:
  fixes m1 m2 :: "('k \<times> nat) list"
  assumes "maps_Equal m1 m2" "distinct (map fst m1)" "distinct (map fst m2)"
  shows "sum_list (map snd m1) = sum_list (map snd m2)"
proof -
  have "distinct m1" "distinct m2" using assms(2,3) by (simp_all add: distinct_map)
  then have "mset m1 = mset m2" using maps_Equal_set[OF assms] by (simp add: set_eq_iff_mset_eq_distinct)
  then have "mset (map snd m1) = mset (map snd m2)" by simp
  then show ?thesis by (metis sum_mset_sum_list)
qed

text \<open>C8: No lovelace is lost or invented when an epoch's rewards are distributed.  Whatever pools,
  stakes, margins and blocks the snapshot holds, a successful \<open>CalculateRewards\<close> pays operators and
  delegators, together with the reward pot it leaves, exactly the reward pot it was given, touches no other
  pot, and any distribution that \<open>ValidateRewardDistribution\<close> then accepts adds up to what was paid.  The
  hypotheses are the sizes of the Go types: distinct keys in a map, less than 2^63 pools, and stakes of a
  pool's delegators that add up below 2^64.\<close>
theorem rewards_conserved:
  assumes "CalculateRewards pots sn params = Inr res"
    and "distinct (map fst (sn_PoolStake sn))" "length (sn_PoolStake sn) < 2 ^ 63" "delegator_stakes_fit sn" "ap_Rewards pots < 2 ^ 64"
    and "ValidateRewardDistribution res actual = Inr ()" "distinct (map fst actual)"
  shows "sum_list (map snd actual) = total_paid (rr_PoolRewards res) \<and>
    total_paid (rr_PoolRewards res) + ap_Rewards (rr_UpdatedPots res) = ap_Rewards pots \<and>
    ap_Reserves (rr_UpdatedPots res) = ap_Reserves pots \<and> ap_Treasury (rr_UpdatedPots res) = ap_Treasury pots"
proof -
  note paid = CalculateRewards_paid[OF assms(1-5)]
  have "total_paid (rr_PoolRewards res) < 2 ^ 64" using paid(1) assms(5) by linarith
  note exp = expectedAllocations_sum[OF this]
  have "maps_Equal (expectedAllocations (rr_PoolRewards res)) actual"
    using assms(6) by (simp add: ValidateRewardDistribution_def)
  then have "sum_list (map snd actual) = total_paid (rr_PoolRewards res)"
    using maps_Equal_sum[OF _ exp(2) assms(7)] exp(1) by simp
  then show ?thesis using paid by simp
qed

text \<open>A snapshot with two pools; key 12 is not registered.\<close>

definition example_pots :: AdaPots where
  "example_pots = \<lparr>ap_Reserves = 1000000, ap_Treasury = 50, ap_Rewards = 1001\<rparr>"

definition example_params :: RewardParameters where
  "example_params = \<lparr>rp_MonetaryExpansion = 3000, rp_TreasuryGrowth = 2000, rp_ProtocolMajor = 9, rp_MaxPledgeLeverage = None,
     rp_MinPoolMargin = None, rp_PoolInfluence = None, rp_ActiveSlotsCoeff = Some (1 / 20), rp_ExpectedSlotsPerEpoch = 400\<rparr>"

definition example_pool :: "nat \<Rightarrow> PoolRegistrationCertificate" where
  "example_pool owner = \<lparr>pr_Pledge = 10, pr_Cost = 100, pr_Margin = Some 0, pr_RewardAccount = (0, owner), pr_PoolOwners = [owner]\<rparr>"

definition example_snapshot :: RewardSnapshot where
  "example_snapshot = \<lparr>sn_TotalActiveStake = 600, sn_PoolStake = [(2, 300), (1, 300)],
     sn_DelegatorStake = [1 \<mapsto> [(11, 100), (12, 100), (13, 100)]],
     sn_PoolParams = [1 \<mapsto> Some (example_pool 11), 2 \<mapsto> Some (example_pool 21)],
     sn_StakeRegistrations = (\<lambda>k. k \<noteq> 12), sn_PoolBlocks = Map.empty, sn_TotalBlocksInEpoch = 0\<rparr>"

lemma example_shares: "poolSharesPass example_snapshot example_params (sortedPoolIDs (sn_PoolStake example_snapshot)) ([], 0, [])
   = Inr ([(1, 1 / 4), (2, 1 / 4)], 1 / 2, [])"
  by (simp add: example_snapshot_def example_params_def sortedPoolIDs_def example_pool_def ValidatePoolMargin_def calculatePoolShare_def
    calculatePoolPerformance_def pledgeLeverageActive_def ProtocolVersionDijkstra_def marginRat_def lookup0_def poolSaturationThreshold_def Let_def)

lemma example_floors:
  "apportionFloors 1001 (\<lambda>p. case map_of [(1, 1 / 4), (2, 1 / 4)] p of None \<Rightarrow> 0 | Some x \<Rightarrow> x) (1 / 2) [1, 2] 0
     = ([(1, 500, 1 / 2), (2, 500, 1 / 2)], 1000)"
proof -
  have "\<lfloor>1001 / 2 :: rat\<rfloor> = 500" by (rule floor_unique) simp_all
  then show ?thesis by (simp add: big_Quo_floor Let_def)
qed

lemma example_split: "apportionRewardPot 1001 [(1, 1 / 4), (2, 1 / 4)] (1 / 2) = [(1, 501), (2, 500)]"
proof -
  have ids: "sortedPoolIDs [(1, 1 / 4 :: rat), (2, 1 / 4)] = [1, 2]" by (simp add: sortedPoolIDs_def)
  show ?thesis
    unfolding apportionRewardPot_def ids Let_def example_floors prod.case
    by (simp add: big_Uint64_def big_Int64_def wrap64_def)
qed

lemma example_operator: "operatorPart 501 100 0 100 300 = 233"
proof -
  have "\<lfloor>401 / 3 :: rat\<rfloor> = 133" by (rule floor_unique) simp_all
  then show ?thesis by (simp add: operatorPart_def ratFloorUint64_def big_Quo_floor big_Uint64_def wrap64_def)
qed

lemma example_stakes: "sumStake [(11, 100), (12, 100), (13, 100)] = 300" "ownerStakeOf [(11, 100), (12, 100), (13, 100)] [11] = 100"
  by (simp_all add: sumStake_def ownerStakeOf_def wrap64_def)

lemma example_holders:
  "stakeholderRewards (sn_StakeRegistrations example_snapshot) [(11, 100), (12, 100), (13, 100)] 268 300 = [((0, 11), 89), ((0, 13), 89)]"
  by (simp add: stakeholderRewards_def keyRewardCredential_def wrap64_def example_snapshot_def)

lemma example_margin: "effectivePoolMargin (Some 0) example_params = 0"
  by (simp add: effectivePoolMargin_def marginRat_def example_params_def ProtocolVersionDijkstraMinPoolMargin_def)

lemma example_pay:
  "distributePoolRewards 501 [(11, 100), (12, 100), (13, 100)] (example_pool 11) example_snapshot example_params
     = \<lparr>pw_OperatorRewardAccount = (0, 11), pw_OperatorRewards = 323, pw_DelegatorRewards = [((0, 11), 89), ((0, 13), 89)], pw_TotalRewards = 501\<rparr>"
  by (simp add: distributePoolRewards_def example_pool_def example_operator example_stakes example_holders example_margin wrap64_def)

lemma example_pay2:
  "distributePoolRewards 500 [] (example_pool 21) example_snapshot example_params
     = \<lparr>pw_OperatorRewardAccount = (0, 21), pw_OperatorRewards = 500, pw_DelegatorRewards = [], pw_TotalRewards = 500\<rparr>"
  by (simp add: distributePoolRewards_def example_pool_def operatorPart_def sumStake_def Let_def)

definition example_result :: RewardCalculationResult where
  "example_result = \<lparr>rr_TotalRewards = 1001, rr_PoolRewards =
     [(1, \<lparr>pw_OperatorRewardAccount = (0, 11), pw_OperatorRewards = 323, pw_DelegatorRewards = [((0, 11), 89), ((0, 13), 89)], pw_TotalRewards = 501\<rparr>),
      (2, \<lparr>pw_OperatorRewardAccount = (0, 21), pw_OperatorRewards = 500, pw_DelegatorRewards = [], pw_TotalRewards = 500\<rparr>)],
     rr_UpdatedPots = \<lparr>ap_Reserves = 1000000, ap_Treasury = 50, ap_Rewards = 0\<rparr>\<rparr>"

lemma example_calculation: "CalculateRewards example_pots example_snapshot example_params = Inr example_result"
proof -
  have v: "validateDijkstraRewardParameters example_params = Inr ()"
    by (simp add: validateDijkstraRewardParameters_def example_params_def ProtocolVersionDijkstra_def)
  have c: "sn_TotalActiveStake example_snapshot = 600" "ap_Rewards example_pots = 1001"
    by (simp_all add: example_snapshot_def example_pots_def)
  have p: "sn_PoolParams example_snapshot 1 = Some (Some (example_pool 11))" "sn_PoolParams example_snapshot 2 = Some (Some (example_pool 21))"
    "sn_DelegatorStake example_snapshot 1 = Some [(11, 100), (12, 100), (13, 100)]" "sn_DelegatorStake example_snapshot 2 = None"
    by (simp_all add: example_snapshot_def)
  have ids: "sortedPoolIDs [(1, 501 :: nat), (2, 500)] = [1, 2]" by (simp add: sortedPoolIDs_def)
  have d: "distributeAll example_snapshot example_params [(1, 501), (2, 500)] [1, 2] = Inr (rr_PoolRewards example_result)"
    unfolding distributeAll.simps p by (simp add: lookup0_def example_pay example_pay2 example_result_def)
  show ?thesis unfolding CalculateRewards_def v c example_shares rbind_simps prod.case Let_def
    by (simp add: example_split[simplified] ids[simplified] d[simplified]) (simp add: example_result_def example_pots_def)
qed

theorem rewards_conserved_witness:
  "sum_list (map snd [((0, 13), 89), ((0, 11), 412), ((0, 21), 500)]) = total_paid (rr_PoolRewards example_result) \<and>
   total_paid (rr_PoolRewards example_result) + ap_Rewards (rr_UpdatedPots example_result) = ap_Rewards example_pots"
proof -
  have "delegator_stakes_fit example_snapshot" by (simp add: delegator_stakes_fit_def example_snapshot_def)
  moreover have "ValidateRewardDistribution example_result [((0, 13), 89), ((0, 11), 412), ((0, 21), 500)] = Inr ()"
    by (simp add: ValidateRewardDistribution_def example_result_def expectedAllocations_def addAllocation_def lookup0_def maps_Equal_def wrap64_def)
  ultimately show ?thesis
    using rewards_conserved[OF example_calculation, of "[((0, 13), 89), ((0, 11), 412), ((0, 21), 500)]"]
    by (simp add: example_snapshot_def example_pots_def)
qed

theorem ada_pots_conserved_witness:
  "\<exists>new. CalculateAdaPots example_pots example_params 1000 15 = Inr new \<and>
    ap_Reserves new + ap_Treasury new + ap_Rewards new = ap_Reserves example_pots + ap_Treasury example_pots + 1000 \<and>
    ap_Reserves new \<le> ap_Reserves example_pots \<and> ap_Treasury example_pots \<le> ap_Treasury new"
  by (rule ada_pots_conserved[of _ "1 / 20"]) (simp_all add: example_params_def example_pots_def)

end
