(* ===== verification/BlockPipeline.thy ===== *)
theory BlockPipeline
  imports Prelude "HOL-Library.AList"
begin

text \<open>
  The ordered apply stage of the block pipeline (\<open>pipeline/apply_stage.go\<close>).  Blocks arrive in any
  order from the parallel stages and are applied in the order of their sequence numbers.  The consumer's
  chain state is a component of the stage's state, so that what \<open>ApplyFunc\<close> commits is visible; the
  consumer's callbacks are parameters, and a panic in one of them is the error the guards turn it into.
  A context is the sequence of answers its polls give, one per \<open>select\<close> on \<open>ctx.Done()\<close>.
\<close>

subsection \<open>Data\<close>

record BlockItem =
  it_sequenceNumber :: nat
  it_block :: nat
  it_decodeError :: bool
  it_validationError :: bool
  it_isValid :: bool

datatype 'e reject_reason =
    DecodeFailed | ValidationFailed | BlockNotValidated | MissingChainContextValidator
  | ChainContextValidation 'e | OrderedValidation 'e | BlockApply 'e

datatype 'e stage_error = ContextDone | PendingLimitExceeded | PipelineItemRejected "'e reject_reason"

record ('st, 'e) ApplyConfig =
  ac_applyFunc :: "('st \<Rightarrow> BlockItem \<Rightarrow> 'e + 'st) option"
  ac_chainContextValidator :: "('st \<Rightarrow> BlockItem \<Rightarrow> 'e + unit) option"
  ac_orderedValidator :: "('st \<Rightarrow> BlockItem \<Rightarrow> 'e + unit) option"
  ac_trustedDecodeOnly :: bool
  ac_headerOnly :: bool
  ac_requireValidation :: bool
  ac_maxPending :: int

record 'st ApplyStage =
  as_pending :: "(nat \<times> BlockItem) list"
  as_nextSequence :: nat
  as_chain :: 'st
  as_polls :: nat

definition NewApplyStage :: "'st \<Rightarrow> 'st ApplyStage" where
  "NewApplyStage chain = \<lparr>as_pending = [], as_nextSequence = 0, as_chain = chain, as_polls = 0\<rparr>"

definition poll :: "'st ApplyStage \<Rightarrow> 'st ApplyStage" where
  "poll s = s\<lparr>as_polls := as_polls s + 1\<rparr>"

subsection \<open>Operations\<close>

text \<open>The result of applying an item: whether \<open>SetApplied(true)\<close> was recorded, or the error.\<close>

definition applyItem :: "('st, 'e) ApplyConfig \<Rightarrow> (nat \<Rightarrow> bool) \<Rightarrow> 'st ApplyStage \<Rightarrow> BlockItem \<Rightarrow> 'st ApplyStage \<times> ('e stage_error + bool)" where
  "applyItem cf ctx s item =
     (if ctx (as_polls s) then (poll s, Inl ContextDone)
      else
        (case ac_applyFunc cf of
           None \<Rightarrow> (poll s, Inr True)
         | Some f \<Rightarrow> (case f (as_chain s) item of
              Inl e \<Rightarrow> (poll s, Inl (PipelineItemRejected (BlockApply e)))
            | Inr chain \<Rightarrow> (poll (s\<lparr>as_chain := chain\<rparr>), Inr True))))"

definition maybeApply :: "('st, 'e) ApplyConfig \<Rightarrow> (nat \<Rightarrow> bool) \<Rightarrow> 'st ApplyStage \<Rightarrow> BlockItem \<Rightarrow> 'st ApplyStage \<times> ('e stage_error + bool)" where
  "maybeApply cf ctx s item =
     (if it_decodeError item then
        (s, if ac_trustedDecodeOnly cf then Inr False else Inl (PipelineItemRejected DecodeFailed))
      else if it_validationError item then (s, Inl (PipelineItemRejected ValidationFailed))
      else if ac_requireValidation cf \<and> \<not> it_isValid item then (s, Inl (PipelineItemRejected BlockNotValidated))
      else if ac_trustedDecodeOnly cf \<or> ac_headerOnly cf then (s, Inr False)
      else
        (case ac_chainContextValidator cf of
           None \<Rightarrow> (s, Inl (PipelineItemRejected MissingChainContextValidator))
         | Some v \<Rightarrow> (case v (as_chain s) item of
              Inl e \<Rightarrow> (s, Inl (PipelineItemRejected (ChainContextValidation e)))
            | Inr _ \<Rightarrow> (case ac_orderedValidator cf of
                 None \<Rightarrow> applyItem cf ctx s item
               | Some w \<Rightarrow> (case w (as_chain s) item of
                    Inl e \<Rightarrow> (s, Inl (PipelineItemRejected (OrderedValidation e)))
                  | Inr _ \<Rightarrow> applyItem cf ctx s item)))))"

lemma applyItem_keeps [simp]:
  "as_pending (fst (applyItem cf ctx s item)) = as_pending s" "as_nextSequence (fst (applyItem cf ctx s item)) = as_nextSequence s"
  by (auto simp: applyItem_def poll_def split: option.split sum.split)

lemma maybeApply_keeps [simp]:
  "as_pending (fst (maybeApply cf ctx s item)) = as_pending s" "as_nextSequence (fst (maybeApply cf ctx s item)) = as_nextSequence s"
  by (auto simp: maybeApply_def split: option.split sum.split)

lemma length_delete_key: "map_of m k = Some v \<Longrightarrow> length (AList.delete k m) < length m"
proof (induction m)
  case (Cons x m)
  then show ?case by (cases "fst x = k") (auto simp: delete_simps split: if_splits intro: le_imp_less_Suc length_delete_le)
qed simp

text \<open>The processed items carry their applied flag; the item an error concerns is the second result.\<close>

function applyPending :: "('st, 'e) ApplyConfig \<Rightarrow> (nat \<Rightarrow> bool) \<Rightarrow> 'st ApplyStage \<Rightarrow> (BlockItem \<times> bool) list
    \<Rightarrow> 'st ApplyStage \<times> (BlockItem \<times> bool) list \<times> BlockItem option \<times> 'e stage_error option" where
  "applyPending cf ctx s processed =
     (if ctx (as_polls s) then (poll s, processed, None, Some ContextDone)
      else
        (case map_of (as_pending s) (as_nextSequence s) of
           None \<Rightarrow> (poll s, processed, None, None)
         | Some item \<Rightarrow>
             (case maybeApply cf ctx
                  ((poll s)\<lparr>as_pending := AList.delete (as_nextSequence s) (as_pending s), as_nextSequence := as_nextSequence s + 1\<rparr>) item of
                (s', Inl e) \<Rightarrow> (s', processed, Some item, Some e)
              | (s', Inr applied) \<Rightarrow> applyPending cf ctx s' (processed @ [(item, applied)]))))"
  by pat_completeness auto

termination
proof (relation "measure (\<lambda>(cf, ctx, s, processed). length (as_pending s))", goal_cases)
  case (2 cf ctx s processed item s' r applied)
  let ?s = "(poll s)\<lparr>as_pending := AList.delete (as_nextSequence s) (as_pending s), as_nextSequence := as_nextSequence s + 1\<rparr>"
  have "s' = fst (maybeApply cf ctx ?s item)" using 2(3,4) by (metis fst_conv)
  then have "as_pending s' = AList.delete (as_nextSequence s) (as_pending s)" by simp
  then show ?case using length_delete_key[OF 2(2)] by simp
qed simp

declare applyPending.simps [simp del]

definition processWithStatus :: "('st, 'e) ApplyConfig \<Rightarrow> (nat \<Rightarrow> bool) \<Rightarrow> 'st ApplyStage \<Rightarrow> BlockItem
    \<Rightarrow> 'st ApplyStage \<times> (BlockItem \<times> bool) list \<times> BlockItem option \<times> 'e stage_error option" where
  "processWithStatus cf ctx s item =
     (if ctx (as_polls s) then (poll s, [], None, Some ContextDone)
      else if it_sequenceNumber item = as_nextSequence s then
        (case maybeApply cf ctx ((poll s)\<lparr>as_nextSequence := as_nextSequence s + 1\<rparr>) item of
           (s', Inl e) \<Rightarrow> (s', [], Some item, Some e)
         | (s', Inr applied) \<Rightarrow> applyPending cf ctx s' [(item, applied)])
      else if ac_maxPending cf > 0 \<and> int (length (as_pending s)) \<ge> ac_maxPending cf then
        (poll s, [], Some item, Some PendingLimitExceeded)
      else ((poll s)\<lparr>as_pending := AList.update (it_sequenceNumber item) item (as_pending s)\<rparr>, [], None, None))"

definition Reset :: "'st ApplyStage \<Rightarrow> 'st ApplyStage" where
  "Reset s = s\<lparr>as_pending := [], as_nextSequence := 0\<rparr>"

definition PendingCount :: "'st ApplyStage \<Rightarrow> nat" where
  "PendingCount s = length (as_pending s)"

text \<open>The runner handles the items it receives until an error is fatal; a cancelled context is not, the
  loop then goes round until it notices.\<close>

definition fatal :: "'e stage_error \<Rightarrow> bool" where
  "fatal e \<longleftrightarrow> e \<noteq> ContextDone"

fun runner :: "('st, 'e) ApplyConfig \<Rightarrow> (nat \<Rightarrow> bool) \<Rightarrow> 'st ApplyStage \<Rightarrow> BlockItem list
    \<Rightarrow> 'st ApplyStage \<times> (BlockItem \<times> bool) list \<times> 'e stage_error list" where
  "runner cf ctx s [] = (s, [], [])"
| "runner cf ctx s (item # input) =
     (case processWithStatus cf ctx s item of
        (s', processed, rejected, None) \<Rightarrow>
          (case runner cf ctx s' input of (s'', later, errors) \<Rightarrow> (s'', processed @ later, errors))
      | (s', processed, rejected, Some e) \<Rightarrow>
          if fatal e then (s', processed, [e])
          else (case runner cf ctx s' input of (s'', later, errors) \<Rightarrow> (s'', processed @ later, e # errors)))"

subsection \<open>The specification\<close>

text \<open>In the full mode a block is validated against the chain and committed to it.  In the two reduced
  modes, which trust the decoder or see headers only, a block passes without touching the chain, and
  one that failed to decode passes where the decoder is trusted.\<close>

definition full_mode :: "('st, 'e) ApplyConfig \<Rightarrow> bool" where
  "full_mode cf \<longleftrightarrow> \<not> ac_trustedDecodeOnly cf \<and> \<not> ac_headerOnly cf"

definition sound_item :: "('st, 'e) ApplyConfig \<Rightarrow> BlockItem \<Rightarrow> bool" where
  "sound_item cf item \<longleftrightarrow> \<not> it_decodeError item \<and> \<not> it_validationError item \<and> (ac_requireValidation cf \<longrightarrow> it_isValid item)"

definition commit :: "('st, 'e) ApplyConfig \<Rightarrow> 'st \<Rightarrow> BlockItem \<Rightarrow> 'st option" where
  "commit cf chain item =
     (if \<not> full_mode cf then
        (if sound_item cf item \<or> ac_trustedDecodeOnly cf \<and> it_decodeError item then Some chain else None)
      else if \<not> sound_item cf item then None
      else
        (case ac_chainContextValidator cf of
           None \<Rightarrow> None
         | Some v \<Rightarrow>
             if is_ok (v chain item) \<and> (case ac_orderedValidator cf of None \<Rightarrow> True | Some w \<Rightarrow> is_ok (w chain item)) then
               (case ac_applyFunc cf of
                  None \<Rightarrow> Some chain
                | Some f \<Rightarrow> (case f chain item of Inl e \<Rightarrow> None | Inr chain' \<Rightarrow> Some chain'))
             else None))"

fun commit_all :: "('st, 'e) ApplyConfig \<Rightarrow> 'st \<Rightarrow> BlockItem list \<Rightarrow> 'st option" where
  "commit_all cf chain [] = Some chain"
| "commit_all cf chain (item # items) = (case commit cf chain item of None \<Rightarrow> None | Some chain' \<Rightarrow> commit_all cf chain' items)"

lemma commit_all_append:
  "commit_all cf c (xs @ ys) = (case commit_all cf c xs of None \<Rightarrow> None | Some c' \<Rightarrow> commit_all cf c' ys)"
  by (induction xs arbitrary: c) (auto split: option.split)

lemma poll_simps [simp]:
  "as_pending (poll s) = as_pending s" "as_nextSequence (poll s) = as_nextSequence s" "as_chain (poll s) = as_chain s"
  "as_polls (poll s) = Suc (as_polls s)"
  by (simp_all add: poll_def)

lemma applyItem_Inr: "applyItem cf ctx s item = (s', Inr a) \<Longrightarrow> a \<and> \<not> ctx (as_polls s) \<and>
    (case ac_applyFunc cf of None \<Rightarrow> as_chain s' = as_chain s | Some f \<Rightarrow> f (as_chain s) item = Inr (as_chain s'))"
  by (auto simp: applyItem_def split: if_splits option.splits sum.splits)

lemma applyItem_Inl: "applyItem cf ctx s item = (s', Inl e) \<Longrightarrow> as_chain s' = as_chain s \<and> as_polls s' = Suc (as_polls s) \<and> (ctx (as_polls s) \<or> fatal e)"
  by (auto simp: applyItem_def fatal_def split: if_splits option.splits sum.splits)

lemma maybeApply_Inr:
  assumes "maybeApply cf ctx s item = (s', Inr a)"
  shows "a = full_mode cf" "commit cf (as_chain s) item = Some (as_chain s')"
proof -
  have "a = full_mode cf \<and> commit cf (as_chain s) item = Some (as_chain s')"
  proof (cases "full_mode cf")
    case True
    obtain v where v: "ac_chainContextValidator cf = Some v" "is_ok (v (as_chain s) item)"
      "case ac_orderedValidator cf of None \<Rightarrow> True | Some w \<Rightarrow> is_ok (w (as_chain s) item)"
      and a: "applyItem cf ctx s item = (s', Inr a)" "sound_item cf item"
      using assms True by (auto simp: maybeApply_def full_mode_def sound_item_def split: if_splits option.splits sum.splits)
    show ?thesis using applyItem_Inr[OF a(1)] a(2) v True by (auto simp: commit_def split: option.splits)
  next
    case False
    then show ?thesis using assms by (auto simp: maybeApply_def commit_def full_mode_def sound_item_def split: if_splits)
  qed
  then show "a = full_mode cf" "commit cf (as_chain s) item = Some (as_chain s')" by simp_all
qed

lemma maybeApply_Inl:
  assumes "maybeApply cf ctx s item = (s', Inl e)"
  shows "as_chain s' = as_chain s \<and> as_polls s \<le> as_polls s' \<and> (fatal e \<or> ctx (as_polls s))"
  using assms applyItem_Inl[of cf ctx s item s' e]
  by (auto simp: maybeApply_def fatal_def split: if_splits option.splits sum.splits)

lemma maybeApply_commit:
  assumes "commit cf (as_chain s) item = Some c" "\<not> ctx (as_polls s)"
  shows "\<exists>s'. maybeApply cf ctx s item = (s', Inr (full_mode cf)) \<and> as_chain s' = c \<and> as_pending s' = as_pending s \<and> as_nextSequence s' = as_nextSequence s"
  using assms
  by (auto simp: commit_def maybeApply_def applyItem_def full_mode_def sound_item_def is_ok_def split: if_splits option.splits sum.splits)

subsection \<open>Only committed prefixes\<close>

definition cancellation :: "(nat \<Rightarrow> bool) \<Rightarrow> bool" where
  "cancellation ctx \<longleftrightarrow> (\<forall>m n. m \<le> n \<longrightarrow> ctx m \<longrightarrow> ctx n)"

text \<open>The processed items are the blocks 0, 1, 2, ... and the chain is what committing them in that
  order gives.\<close>

definition committed :: "('st, 'e) ApplyConfig \<Rightarrow> 'st \<Rightarrow> (BlockItem \<times> bool) list \<Rightarrow> 'st \<Rightarrow> bool" where
  "committed cf c0 P c \<longleftrightarrow> map (it_sequenceNumber \<circ> fst) P = [0..<length P] \<and> list_all (\<lambda>x. snd x = full_mode cf) P \<and> commit_all cf c0 (map fst P) = Some c"

definition pending_ok :: "BlockItem set \<Rightarrow> (nat \<times> BlockItem) list \<Rightarrow> bool" where
  "pending_ok A m \<longleftrightarrow> (\<forall>k i. map_of m k = Some i \<longrightarrow> it_sequenceNumber i = k \<and> i \<in> A)"

lemma pending_ok_mono: "pending_ok A m \<Longrightarrow> map_of m' \<subseteq>\<^sub>m map_of m \<Longrightarrow> pending_ok A m'"
  by (simp add: pending_ok_def map_le_def) (metis domI)

definition stage_inv :: "('st, 'e) ApplyConfig \<Rightarrow> (nat \<Rightarrow> bool) \<Rightarrow> 'st \<Rightarrow> BlockItem set \<Rightarrow> 'st ApplyStage \<Rightarrow> (BlockItem \<times> bool) list \<Rightarrow> bool" where
  "stage_inv cf ctx c0 A s P \<longleftrightarrow> committed cf c0 P (as_chain s) \<and> fst ` set P \<subseteq> A \<and>
     pending_ok A (as_pending s) \<and> (ctx (as_polls s) \<or> as_nextSequence s = length P)"

lemma committed_snoc:
  assumes "committed cf c0 P c" "commit cf c item = Some c'" "it_sequenceNumber item = length P"
  shows "committed cf c0 (P @ [(item, full_mode cf)]) c'"
  using assms by (simp add: committed_def commit_all_append)

lemma stage_inv_commit:
  assumes inv: "stage_inv cf ctx c0 A s P" and m: "maybeApply cf ctx s1 item = (s', Inr a)"
    and s1: "as_chain s1 = as_chain s" "as_nextSequence s1 = Suc (as_nextSequence s)" "as_polls s1 = Suc (as_polls s)"
      "map_of (as_pending s1) \<subseteq>\<^sub>m map_of (as_pending s)"
    and i: "it_sequenceNumber item = as_nextSequence s" "item \<in> A" and c: "\<not> ctx (as_polls s)"
  shows "stage_inv cf ctx c0 A s' (P @ [(item, a)])"
proof -
  note mi = maybeApply_Inr[OF m]
  have n: "as_nextSequence s = length P" using inv c by (simp add: stage_inv_def)
  have "committed cf c0 (P @ [(item, a)]) (as_chain s')"
    using committed_snoc[of cf c0 P "as_chain s" item "as_chain s'"] inv mi s1(1) i(1) n by (simp add: stage_inv_def)
  moreover have "as_pending s' = as_pending s1" "as_nextSequence s' = as_nextSequence s1"
    using maybeApply_keeps[of cf ctx s1 item] m by simp_all
  ultimately show ?thesis using inv s1 i(2) n pending_ok_mono[OF _ s1(4), of A] by (auto simp: stage_inv_def)
qed

lemma stage_inv_reject:
  assumes inv: "stage_inv cf ctx c0 A s P" and m: "maybeApply cf ctx s1 item = (s', Inl e)"
    and s1: "as_chain s1 = as_chain s" "as_polls s1 = Suc (as_polls s)" "map_of (as_pending s1) \<subseteq>\<^sub>m map_of (as_pending s)"
    and c: "cancellation ctx"
  shows "committed cf c0 P (as_chain s')" "fatal e \<or> stage_inv cf ctx c0 A s' P"
proof -
  note mi = maybeApply_Inl[OF m]
  show com: "committed cf c0 P (as_chain s')" using inv mi s1(1) by (simp add: stage_inv_def)
  have "as_pending s' = as_pending s1" using maybeApply_keeps(1)[of cf ctx s1 item] m by simp
  moreover have "ctx (as_polls s1) \<Longrightarrow> ctx (as_polls s')" using mi c by (auto simp: cancellation_def)
  ultimately show "fatal e \<or> stage_inv cf ctx c0 A s' P" using inv mi s1 com pending_ok_mono[OF _ s1(3), of A]
    by (auto simp: stage_inv_def)
qed

lemma stage_inv_poll:
  "stage_inv cf ctx c0 A s P \<Longrightarrow> cancellation ctx \<Longrightarrow> stage_inv cf ctx c0 A (poll s) P"
  by (auto simp: stage_inv_def cancellation_def dest: spec[of _ "as_polls s"])

lemma applyPending_inv:
  "stage_inv cf ctx c0 A s (P0 @ Q) \<Longrightarrow> cancellation ctx \<Longrightarrow> applyPending cf ctx s Q = (s', Q', rej, eo) \<Longrightarrow>
     committed cf c0 (P0 @ Q') (as_chain s') \<and> fst ` set (P0 @ Q') \<subseteq> A \<and> ((\<exists>e. eo = Some e \<and> fatal e) \<or> stage_inv cf ctx c0 A s' (P0 @ Q'))"
proof (induction cf ctx s Q rule: applyPending.induct)
  case (1 cf ctx s Q)
  note inv = "1.prems"(1)
  show ?case
  proof (cases "ctx (as_polls s) \<or> map_of (as_pending s) (as_nextSequence s) = None")
    case True
    then show ?thesis using "1.prems"(3) stage_inv_poll[OF inv "1.prems"(2)]
      by (auto simp: applyPending.simps[of cf ctx s Q] stage_inv_def fatal_def split: if_splits)
  next
    case False
    then obtain item where c: "\<not> ctx (as_polls s)" and i: "map_of (as_pending s) (as_nextSequence s) = Some item" by auto
    let ?s = "(poll s)\<lparr>as_pending := AList.delete (as_nextSequence s) (as_pending s), as_nextSequence := as_nextSequence s + 1\<rparr>"
    have s1: "as_chain ?s = as_chain s" "as_nextSequence ?s = Suc (as_nextSequence s)" "as_polls ?s = Suc (as_polls s)"
      "map_of (as_pending ?s) \<subseteq>\<^sub>m map_of (as_pending s)"
      by (auto simp: delete_conv' map_le_def)
    have it: "it_sequenceNumber item = as_nextSequence s" "item \<in> A" using inv i by (auto simp: stage_inv_def pending_ok_def)
    obtain s1' r where m: "maybeApply cf ctx ?s item = (s1', r)" by force
    show ?thesis
    proof (cases r)
      case (Inl e)
      have "s' = s1'" "Q' = Q" "eo = Some e" using "1.prems"(3) c i m Inl by (simp_all add: applyPending.simps[of cf ctx s Q])
      then show ?thesis using stage_inv_reject[OF inv m[unfolded Inl] s1(1,3,4) "1.prems"(2)] inv by (auto simp: stage_inv_def)
    next
      case (Inr a)
      have "applyPending cf ctx s1' (Q @ [(item, a)]) = (s', Q', rej, eo)"
        using "1.prems"(3) c i m Inr by (simp add: applyPending.simps[of cf ctx s Q])
      then show ?thesis
        using "1.IH"[OF c i m[symmetric] Inr] stage_inv_commit[OF inv m[unfolded Inr] s1 it c] "1.prems"(2) by simp
    qed
  qed
qed

lemma processWithStatus_inv:
  assumes inv: "stage_inv cf ctx c0 A s P" and h: "cancellation ctx" "item \<in> A"
    and p: "processWithStatus cf ctx s item = (s', Q, rej, eo)"
  shows "committed cf c0 (P @ Q) (as_chain s') \<and> fst ` set (P @ Q) \<subseteq> A \<and> ((\<exists>e. eo = Some e \<and> fatal e) \<or> stage_inv cf ctx c0 A s' (P @ Q))"
proof (cases "ctx (as_polls s) \<or> it_sequenceNumber item \<noteq> as_nextSequence s")
  case True
  note poll = stage_inv_poll[OF inv h(1)]
  have up: "pending_ok A (AList.update (it_sequenceNumber item) item (as_pending s))"
    using inv h(2) by (auto simp: stage_inv_def pending_ok_def update_conv' split: if_splits)
  from True p have "s' = poll s \<and> Q = [] \<or>
      s' = (poll s)\<lparr>as_pending := AList.update (it_sequenceNumber item) item (as_pending s)\<rparr> \<and> Q = []"
    by (auto simp: processWithStatus_def split: if_splits)
  then show ?thesis using poll up by (auto simp: stage_inv_def)
next
  case False
  then have c: "\<not> ctx (as_polls s)" and i: "it_sequenceNumber item = as_nextSequence s" by auto
  let ?s = "(poll s)\<lparr>as_nextSequence := as_nextSequence s + 1\<rparr>"
  have s1: "as_chain ?s = as_chain s" "as_nextSequence ?s = Suc (as_nextSequence s)" "as_polls ?s = Suc (as_polls s)"
    "map_of (as_pending ?s) \<subseteq>\<^sub>m map_of (as_pending s)" by simp_all
  obtain s1' r where m: "maybeApply cf ctx ?s item = (s1', r)" by force
  show ?thesis
  proof (cases r)
    case (Inl e)
    have "s' = s1'" "Q = []" "eo = Some e" using p c i m Inl by (simp_all add: processWithStatus_def)
    then show ?thesis using stage_inv_reject[OF inv m[unfolded Inl] s1(1,3,4) h(1)] inv by (auto simp: stage_inv_def)
  next
    case (Inr a)
    have "applyPending cf ctx s1' [(item, a)] = (s', Q, rej, eo)" using p c i m Inr by (simp add: processWithStatus_def)
    then show ?thesis
      using applyPending_inv[OF stage_inv_commit[OF inv m[unfolded Inr] s1 i h(2) c] h(1)] by simp
  qed
qed

lemma runner_inv:
  "stage_inv cf ctx c0 A s P \<Longrightarrow> cancellation ctx \<Longrightarrow> set items \<subseteq> A \<Longrightarrow> runner cf ctx s items = (s', Q, es) \<Longrightarrow>
    committed cf c0 (P @ Q) (as_chain s') \<and> fst ` set (P @ Q) \<subseteq> A"
proof (induction items arbitrary: s P Q es)
  case Nil
  then show ?case by (auto simp: stage_inv_def)
next
  case (Cons item items)
  obtain s1 Q1 rej eo where p: "processWithStatus cf ctx s item = (s1, Q1, rej, eo)" by (metis prod_cases4)
  have i: "item \<in> A" "set items \<subseteq> A" using Cons.prems(3) by auto
  note st = processWithStatus_inv[OF Cons.prems(1,2) i(1) p]
  show ?case
  proof (cases "\<exists>e. eo = Some e \<and> fatal e")
    case True
    then have "s' = s1" "Q = Q1" using p Cons.prems(4) by auto
    then show ?thesis using st by simp
  next
    case False
    then have inv: "stage_inv cf ctx c0 A s1 (P @ Q1)" using st by auto
    obtain Q2 es2 where "runner cf ctx s1 items = (s', Q2, es2)" "Q = Q1 @ Q2"
      using Cons.prems(4) p False by (auto split: option.splits prod.splits if_splits)
    then show ?thesis using Cons.IH[OF inv Cons.prems(2) i(2)] by simp
  qed
qed

lemma stage_inv_new: "stage_inv cf ctx c0 A (NewApplyStage c0) []"
  by (simp add: stage_inv_def NewApplyStage_def committed_def pending_ok_def)

lemma commit_all_reduced: "commit_all cf c items = Some c' \<Longrightarrow> \<not> full_mode cf \<Longrightarrow> c' = c"
  by (induction items) (auto simp: commit_def split: if_splits)

text \<open>C10: The apply stage commits only an ordered prefix of validated blocks.  Whatever blocks arrive, in
  whatever order, with duplicates or gaps, whichever of them fail and whenever the context is cancelled
  (once cancelled it stays so), the blocks the runner reports as processed are those with sequence
  numbers 0, 1, 2, ..., each once, and the chain state is the one obtained by validating and committing
  exactly these blocks in this order.  They are reported as applied in the full mode; in the modes that
  trust the decoder or see headers only they are reported as not applied and the chain state is
  untouched.\<close>
theorem only_ordered_prefix_committed:
  assumes "cancellation ctx" "runner cf ctx (NewApplyStage c0) items = (s, processed, errors)"
  shows "map (it_sequenceNumber \<circ> fst) processed = [0..<length processed] \<and> list_all (\<lambda>x. snd x = full_mode cf) processed \<and>
    set (map fst processed) \<subseteq> set items \<and> commit_all cf c0 (map fst processed) = Some (as_chain s) \<and>
    (\<not> full_mode cf \<longrightarrow> as_chain s = c0)"
proof -
  have "committed cf c0 processed (as_chain s)" "fst ` set processed \<subseteq> set items"
    using runner_inv[OF stage_inv_new assms(1) order_refl assms(2)] by simp_all
  then show ?thesis using commit_all_reduced[of cf c0 "map fst processed" "as_chain s"] by (auto simp: committed_def)
qed

subsection \<open>The order of arrival\<close>

text \<open>The stage after the blocks with sequence numbers in \<open>A\<close> have arrived, for the run \<open>bs\<close>.\<close>

definition arrived :: "('st, 'e) ApplyConfig \<Rightarrow> 'st \<Rightarrow> BlockItem list \<Rightarrow> nat set \<Rightarrow> 'st ApplyStage \<Rightarrow> (BlockItem \<times> bool) list \<Rightarrow> bool" where
  "arrived cf c0 bs A s P \<longleftrightarrow>
     as_nextSequence s \<le> length bs \<and> {..<as_nextSequence s} \<subseteq> A \<and> A \<subseteq> {..<length bs} \<and>
     P = map (\<lambda>b. (b, full_mode cf)) (take (as_nextSequence s) bs) \<and> commit_all cf c0 (take (as_nextSequence s) bs) = Some (as_chain s) \<and>
     map_of (as_pending s) = (\<lambda>k. if k \<in> A \<and> as_nextSequence s \<le> k then Some (bs ! k) else None) \<and> distinct (map fst (as_pending s))"

lemma commit_next:
  assumes "commit_all cf c0 bs = Some c" "commit_all cf c0 (take n bs) = Some c'" "n < length bs"
  shows "\<exists>c''. commit cf c' (bs ! n) = Some c'' \<and> commit_all cf c0 (take (Suc n) bs) = Some c''"
proof -
  have "bs = take n bs @ bs ! n # drop (Suc n) bs" using assms(3) by (simp add: id_take_nth_drop)
  then have "commit_all cf c0 (take n bs @ bs ! n # drop (Suc n) bs) = Some c" using assms(1) by simp
  then have "commit cf c' (bs ! n) \<noteq> None" using assms(2) by (auto simp: commit_all_append split: option.splits)
  then show ?thesis using assms(2,3) by (auto simp: take_Suc_conv_app_nth commit_all_append)
qed

lemma arrived_commit:
  assumes a: "arrived cf c0 bs A s P" and c: "commit_all cf c0 bs = Some c" "\<forall>k. \<not> ctx k"
    and n: "as_nextSequence s < length bs"
    and s1: "as_chain s1 = as_chain s" "as_nextSequence s1 = Suc (as_nextSequence s)"
      "map_of (as_pending s1) = (map_of (as_pending s))(as_nextSequence s := None)" "distinct (map fst (as_pending s1))"
  shows "\<exists>s'. maybeApply cf ctx s1 (bs ! as_nextSequence s) = (s', Inr (full_mode cf)) \<and>
    arrived cf c0 bs (insert (as_nextSequence s) A) s' (P @ [(bs ! as_nextSequence s, full_mode cf)])"
proof -
  let ?n = "as_nextSequence s"
  obtain c'' where c'': "commit cf (as_chain s1) (bs ! ?n) = Some c''" "commit_all cf c0 (take (Suc ?n) bs) = Some c''"
    using commit_next[OF c(1) _ n] a s1(1) by (auto simp: arrived_def)
  then obtain s' where s': "maybeApply cf ctx s1 (bs ! ?n) = (s', Inr (full_mode cf))" "as_chain s' = c''" "as_pending s' = as_pending s1"
    "as_nextSequence s' = as_nextSequence s1"
    using maybeApply_commit[of cf s1 "bs ! ?n" c'' ctx] c(2) by blast
  have "map_of (as_pending s') = (\<lambda>k. if k \<in> insert ?n A \<and> Suc ?n \<le> k then Some (bs ! k) else None)"
    using a s'(3) s1(3) by (auto simp: arrived_def fun_eq_iff)
  then have "arrived cf c0 bs (insert ?n A) s' (P @ [(bs ! ?n, full_mode cf)])"
    using a s' s1 c''(2) n by (auto simp: arrived_def take_Suc_conv_app_nth less_Suc_eq)
  then show ?thesis using s'(1) by blast
qed

lemma applyPending_drains:
  "arrived cf c0 bs A s (P0 @ Q) \<Longrightarrow> commit_all cf c0 bs = Some c \<Longrightarrow> \<forall>k. \<not> ctx k \<Longrightarrow>
    \<exists>s' Q'. applyPending cf ctx s Q = (s', Q', None, None) \<and> arrived cf c0 bs A s' (P0 @ Q') \<and> as_nextSequence s' \<notin> A"
proof (induction cf ctx s Q rule: applyPending.induct)
  case (1 cf ctx s Q)
  note a = "1.prems"(1)
  have nc: "\<not> ctx (as_polls s)" using "1.prems"(3) by simp
  show ?case
  proof (cases "as_nextSequence s \<in> A")
    case False
    then have "map_of (as_pending s) (as_nextSequence s) = None" using a by (simp add: arrived_def)
    then have "applyPending cf ctx s Q = (poll s, Q, None, None)" using nc by (simp add: applyPending.simps[of cf ctx s Q])
    moreover have "arrived cf c0 bs A (poll s) (P0 @ Q)" using a by (simp add: arrived_def)
    ultimately show ?thesis using False by (intro exI[of _ "poll s"] exI[of _ Q]) simp
  next
    case True
    let ?n = "as_nextSequence s"
    let ?s = "(poll s)\<lparr>as_pending := AList.delete ?n (as_pending s), as_nextSequence := ?n + 1\<rparr>"
    have i: "map_of (as_pending s) ?n = Some (bs ! ?n)" and n: "?n < length bs" using a True by (auto simp: arrived_def)
    have s1: "as_chain ?s = as_chain s" "as_nextSequence ?s = Suc ?n" "map_of (as_pending ?s) = (map_of (as_pending s))(?n := None)"
      "distinct (map fst (as_pending ?s))" using a by (auto simp: arrived_def delete_conv distinct_delete)
    obtain s' where s': "maybeApply cf ctx ?s (bs ! ?n) = (s', Inr (full_mode cf))" "arrived cf c0 bs (insert ?n A) s' ((P0 @ Q) @ [(bs ! ?n, full_mode cf)])"
      using arrived_commit[OF a "1.prems"(2,3) n s1] by blast
    have "applyPending cf ctx s Q = applyPending cf ctx s' (Q @ [(bs ! ?n, full_mode cf)])"
      using nc i s'(1) by (simp add: applyPending.simps[of cf ctx s Q])
    moreover have "arrived cf c0 bs A s' (P0 @ Q @ [(bs ! ?n, full_mode cf)])" using s'(2) True by (simp add: insert_absorb)
    note "1.IH"[OF nc i s'(1)[symmetric] refl this "1.prems"(2,3)]
    ultimately show ?thesis by (simp only:)
  qed
qed

lemma pending_small:
  assumes "arrived cf c0 bs A s P" "q \<in> {..<length bs}" "q \<notin> A"
  shows "length (as_pending s) < length bs"
proof -
  have "length (as_pending s) = card (dom (map_of (as_pending s)))"
    using assms(1) by (metis arrived_def distinct_card dom_map_of_conv_image_fst length_map set_map)
  also have "\<dots> \<le> card A" using assms(1) by (intro card_mono) (auto simp: arrived_def finite_subset dom_def split: if_splits)
  also have "\<dots> < card {..<length bs}" using assms by (intro psubset_card_mono) (auto simp: arrived_def)
  finally show ?thesis by simp
qed

lemma processWithStatus_arrives:
  assumes a: "arrived cf c0 bs A s P" "as_nextSequence s \<notin> A" and c: "commit_all cf c0 bs = Some c" "\<forall>k. \<not> ctx k"
    and q: "q < length bs" "q \<notin> A" "it_sequenceNumber (bs ! q) = q" and mp: "ac_maxPending cf \<le> 0 \<or> int (length bs) \<le> ac_maxPending cf"
  shows "\<exists>s' Q. processWithStatus cf ctx s (bs ! q) = (s', Q, None, None) \<and> arrived cf c0 bs (insert q A) s' (P @ Q) \<and>
    as_nextSequence s' \<notin> insert q A"
proof (cases "q = as_nextSequence s")
  case True
  let ?s = "(poll s)\<lparr>as_nextSequence := as_nextSequence s + 1\<rparr>"
  have "map_of (as_pending s) (as_nextSequence s) = None" using a by (simp add: arrived_def)
  then have s1: "as_chain ?s = as_chain s" "as_nextSequence ?s = Suc (as_nextSequence s)"
    "map_of (as_pending ?s) = (map_of (as_pending s))(as_nextSequence s := None)" "distinct (map fst (as_pending ?s))"
    using a(1) by (simp_all add: fun_upd_idem) (simp add: arrived_def)
  obtain s' where s': "maybeApply cf ctx ?s (bs ! q) = (s', Inr (full_mode cf))" "arrived cf c0 bs (insert q A) s' (P @ [(bs ! q, full_mode cf)])"
    using arrived_commit[OF a(1) c q(1)[unfolded True] s1] True by blast
  have "processWithStatus cf ctx s (bs ! q) = applyPending cf ctx s' [(bs ! q, full_mode cf)]"
    using c(2) q(3) s'(1) by (simp add: processWithStatus_def True)
  then show ?thesis using applyPending_drains[OF s'(2) c] by simp
next
  case False
  let ?s = "(poll s)\<lparr>as_pending := AList.update q (bs ! q) (as_pending s)\<rparr>"
  have gt: "as_nextSequence s < q" using a(1) q(2) False by (auto simp: arrived_def subset_iff) (meson linorder_neqE_nat)
  have "\<not> (ac_maxPending cf > 0 \<and> int (length (as_pending s)) \<ge> ac_maxPending cf)"
    using pending_small[OF a(1) _ q(2)] q(1) mp by auto
  then have "processWithStatus cf ctx s (bs ! q) = (?s, [], None, None)"
    using c(2) q(3) False by (auto simp: processWithStatus_def)
  moreover have "arrived cf c0 bs (insert q A) ?s (P @ [])"
    using a(1) q(1) gt by (auto simp: arrived_def update_conv fun_eq_iff distinct_update)
  ultimately show ?thesis using a(2) False by (intro exI[of _ ?s] exI[of _ "[]"]) simp
qed

lemma runner_arrives:
  assumes c: "commit_all cf c0 bs = Some c" "\<forall>k. \<not> ctx k"
    and nums: "map it_sequenceNumber bs = [0..<length bs]" and mp: "ac_maxPending cf \<le> 0 \<or> int (length bs) \<le> ac_maxPending cf"
  shows "arrived cf c0 bs A s P \<Longrightarrow> as_nextSequence s \<notin> A \<Longrightarrow> set items \<subseteq> set bs \<Longrightarrow> distinct (map it_sequenceNumber items) \<Longrightarrow>
    it_sequenceNumber ` set items \<inter> A = {} \<Longrightarrow>
    \<exists>s' Q. runner cf ctx s items = (s', Q, []) \<and> arrived cf c0 bs (A \<union> it_sequenceNumber ` set items) s' (P @ Q) \<and>
      as_nextSequence s' \<notin> A \<union> it_sequenceNumber ` set items"
proof (induction items arbitrary: s A P)
  case (Cons item items)
  let ?q = "it_sequenceNumber item"
  obtain j where j: "item = bs ! j" "j < length bs" using Cons.prems(3) by (auto simp: in_set_conv_nth)
  have "it_sequenceNumber (bs ! j) = j" using nums j(2) by (metis add_0 nth_map nth_upt length_map)
  then have q: "item = bs ! ?q" "?q < length bs" "?q \<notin> A" "it_sequenceNumber (bs ! ?q) = ?q" using j Cons.prems(5) by auto
  obtain s1 Q1 where p: "processWithStatus cf ctx s item = (s1, Q1, None, None)" "arrived cf c0 bs (insert ?q A) s1 (P @ Q1)"
    "as_nextSequence s1 \<notin> insert ?q A"
    using processWithStatus_arrives[OF Cons.prems(1,2) c q(2-4) mp] q(1) by auto
  have "set items \<subseteq> set bs" "distinct (map it_sequenceNumber items)" "it_sequenceNumber ` set items \<inter> insert ?q A = {}"
    using Cons.prems(3-5) by auto
  from Cons.IH[OF p(2,3) this] obtain s' Q where r: "runner cf ctx s1 items = (s', Q, [])"
    "arrived cf c0 bs (insert ?q A \<union> it_sequenceNumber ` set items) s' ((P @ Q1) @ Q)"
    "as_nextSequence s' \<notin> insert ?q A \<union> it_sequenceNumber ` set items" by blast
  then show ?case using p(1) by (intro exI[of _ s'] exI[of _ "Q1 @ Q"]) simp
qed simp

lemma arrived_new: "arrived cf c0 bs {} (NewApplyStage c0) []"
  by (simp add: arrived_def NewApplyStage_def)

lemma arrived_all: "arrived cf c0 bs {..<length bs} s P \<Longrightarrow> as_nextSequence s \<notin> {..<length bs} \<Longrightarrow>
    P = map (\<lambda>b. (b, full_mode cf)) bs \<and> commit_all cf c0 bs = Some (as_chain s) \<and> as_pending s = []"
proof -
  assume a: "arrived cf c0 bs {..<length bs} s P" "as_nextSequence s \<notin> {..<length bs}"
  then have n: "as_nextSequence s = length bs" by (auto simp: arrived_def)
  then have "map_of (as_pending s) = Map.empty" using a(1) by (auto simp: arrived_def)
  then show ?thesis using a(1) n by (simp add: arrived_def)
qed

text \<open>C22: The apply stage implements sequential application.  If the blocks of a run can be validated and
  committed one after the other and the context is never cancelled, then in whatever order the parallel
  stages deliver them, each once, the runner processes all of them, in order, without error, ends in the
  state of the sequential run, and buffers nothing, provided the pending buffer may hold that many.
  In the full mode each is reported as applied; in the modes that trust the decoder or see headers only
  each is reported as not applied, and committing a block leaves the chain state alone.\<close>
theorem apply_order_independent:
  assumes "\<forall>k. \<not> ctx k" "commit_all cf c0 blocks = Some c" "map it_sequenceNumber blocks = [0..<length blocks]"
    and "set items = set blocks" "length items = length blocks"
    and "ac_maxPending cf \<le> 0 \<or> int (length blocks) \<le> ac_maxPending cf"
  shows "\<exists>s. runner cf ctx (NewApplyStage c0) items = (s, map (\<lambda>b. (b, full_mode cf)) blocks, []) \<and> as_chain s = c \<and> as_pending s = []"
proof -
  have nums: "it_sequenceNumber ` set items = {..<length blocks}" using arg_cong[OF assms(3), of set] assms(4) by auto
  then have "distinct (map it_sequenceNumber items)" using assms(5) by (metis card_distinct card_lessThan length_map set_map)
  then have "\<exists>s Q. runner cf ctx (NewApplyStage c0) items = (s, Q, []) \<and> arrived cf c0 blocks ({} \<union> it_sequenceNumber ` set items) s ([] @ Q) \<and>
      as_nextSequence s \<notin> {} \<union> it_sequenceNumber ` set items"
    using assms(4) by (intro runner_arrives[OF assms(2,1,3,6) arrived_new]) auto
  then show ?thesis using arrived_all[of cf c0 blocks] assms(2) unfolding nums by auto
qed

subsection \<open>An example\<close>

text \<open>A ledger that lists block numbers and accepts a block only after its predecessor.\<close>

definition example_config :: "(nat list, string) ApplyConfig" where
  "example_config = \<lparr>ac_applyFunc = Some (\<lambda>chain item. Inr (it_block item # chain)),
     ac_chainContextValidator = Some (\<lambda>chain item. if it_block item = 10 + length chain then Inr () else Inl ''bad''),
     ac_orderedValidator = None, ac_trustedDecodeOnly = False, ac_headerOnly = False, ac_requireValidation = True, ac_maxPending = 3\<rparr>"

definition example_item :: "nat \<Rightarrow> BlockItem" where
  "example_item k = \<lparr>it_sequenceNumber = k, it_block = 10 + k, it_decodeError = False, it_validationError = False, it_isValid = k \<noteq> 3\<rparr>"

theorem apply_order_independent_witness:
  "\<exists>s. runner example_config (\<lambda>k. False) (NewApplyStage []) [example_item 2, example_item 0, example_item 1]
     = (s, [(example_item 0, True), (example_item 1, True), (example_item 2, True)], []) \<and> as_chain s = [12, 11, 10] \<and> as_pending s = []"
proof -
  have "commit_all example_config [] [example_item 0, example_item 1, example_item 2] = Some [12, 11, 10]"
    by (simp add: commit_def full_mode_def sound_item_def example_config_def example_item_def)
  then show ?thesis
    using apply_order_independent[of "\<lambda>k. False" example_config "[]" "[example_item 0, example_item 1, example_item 2]" "[12, 11, 10]"
      "[example_item 2, example_item 0, example_item 1]"]
    by (auto simp: full_mode_def example_config_def example_item_def upt_rec)
qed

text \<open>Block 3 is not validated; blocks 0 to 2 are committed, in order, although 4 and 3 come in between.\<close>

lemma example_run: "\<exists>s. runner example_config (\<lambda>k. 40 < k) (NewApplyStage []) (map example_item [1, 4, 0, 3, 2])
    = (s, map (\<lambda>k. (example_item k, True)) [0, 1, 2], [PipelineItemRejected BlockNotValidated])"
  by (simp add: example_config_def example_item_def processWithStatus_def NewApplyStage_def poll_def maybeApply_def applyItem_def
    applyPending.simps fatal_def)

theorem only_ordered_prefix_committed_witness:
  "\<exists>s. runner example_config (\<lambda>k. 40 < k) (NewApplyStage []) (map example_item [1, 4, 0, 3, 2])
      = (s, map (\<lambda>k. (example_item k, True)) [0, 1, 2], [PipelineItemRejected BlockNotValidated]) \<and>
    commit_all example_config [] (map example_item [0, 1, 2]) = Some (as_chain s)"
proof -
  obtain s where s: "runner example_config (\<lambda>k. 40 < k) (NewApplyStage []) (map example_item [1, 4, 0, 3, 2])
    = (s, map (\<lambda>k. (example_item k, True)) [0, 1, 2], [PipelineItemRejected BlockNotValidated])" using example_run by blast
  have "cancellation (\<lambda>k. 40 < k)" by (auto simp: cancellation_def)
  from only_ordered_prefix_committed[OF this s] s show ?thesis by (auto simp: comp_def)
qed

end
