(* ===== verification/Address.thy ===== *)
theory Address
  imports Words
begin

text \<open>
  Addresses (\<open>ledger/common/address.go\<close>): the header byte, the payment and staking payloads, the
  variable-length pointers, decoding and encoding of the ten address forms of the Shelley family, and
  the reward accounts that withdrawals name.  A Byron address is decoded and encoded by the CBOR
  codec; its two branches are the parameters \<open>byron\<close> and \<open>byronBytes\<close>.
\<close>

unbundle bit_operations_syntax

subsection \<open>Data\<close>

text \<open>\<open>AddrKeyHash\<close> and \<open>ScriptHash\<close> are 28-byte hashes.\<close>

type_synonym Hash28 = bytes

abbreviation (input) AddressHashSize :: nat where "AddressHashSize \<equiv> 28"

abbreviation (input) AddressTypeKeyKey :: u8 where "AddressTypeKeyKey \<equiv> 0"
abbreviation (input) AddressTypeScriptKey :: u8 where "AddressTypeScriptKey \<equiv> 1"
abbreviation (input) AddressTypeKeyScript :: u8 where "AddressTypeKeyScript \<equiv> 2"
abbreviation (input) AddressTypeScriptScript :: u8 where "AddressTypeScriptScript \<equiv> 3"
abbreviation (input) AddressTypeKeyPointer :: u8 where "AddressTypeKeyPointer \<equiv> 4"
abbreviation (input) AddressTypeScriptPointer :: u8 where "AddressTypeScriptPointer \<equiv> 5"
abbreviation (input) AddressTypeKeyNone :: u8 where "AddressTypeKeyNone \<equiv> 6"
abbreviation (input) AddressTypeScriptNone :: u8 where "AddressTypeScriptNone \<equiv> 7"
abbreviation (input) AddressTypeByron :: u8 where "AddressTypeByron \<equiv> 8"
abbreviation (input) AddressTypeNoneKey :: u8 where "AddressTypeNoneKey \<equiv> 14"
abbreviation (input) AddressTypeNoneScript :: u8 where "AddressTypeNoneScript \<equiv> 15"

datatype AddressPayload =
    AddressPayloadKeyHash Hash28
  | AddressPayloadScriptHash Hash28
  | AddressPayloadPointer u64 u64 u64

record ByronAddressAttributes =
  at_Payload :: bytes
  at_Network :: "u32 option"
  at_Unparsed :: "(u8 \<times> bytes) list"

record Address =
  addressType :: u8
  networkId :: u8
  paymentPayload :: "AddressPayload option"
  stakingPayload :: "AddressPayload option"
  trailingBytes :: bytes
  pointerOutOfRange :: string
  byronAddressType :: u64
  byronAddressAttr :: ByronAddressAttributes

datatype address_error =
    EmptyAddress | InvalidNetworkId u8 | InvalidAddressType u8 | PaymentKeyHashTooSmall | PaymentScriptHashTooSmall
  | StakingKeyHashTooSmall | StakingScriptHashTooSmall | UnexpectedEOF | TrailingBytes nat | ByronError
  | PaymentHashLength nat | UnexpectedPayment nat | StakingHashLength nat | UnexpectedStaking nat
  | NilAddress | NotRewardAccount u8 | InvalidRewardLength nat | CredentialMismatch | DuplicateWithdrawal
  | PointerOutOfRange string | InvalidAccountType u8

text \<open>The zero value of the struct with a type and a network.\<close>

definition emptyAttributes :: ByronAddressAttributes where
  "emptyAttributes = \<lparr>at_Payload = [], at_Network = None, at_Unparsed = []\<rparr>"

definition freshAddress :: "u8 \<Rightarrow> u8 \<Rightarrow> Address" where
  "freshAddress t n = \<lparr>addressType = t, networkId = n, paymentPayload = None, stakingPayload = None,
     trailingBytes = [], pointerOutOfRange = '''', byronAddressType = 0, byronAddressAttr = emptyAttributes\<rparr>"

subsection \<open>Pointers\<close>

text \<open>The value, the number of groups and the bytes after it; \<open>None\<close> is \<open>io.ErrUnexpectedEOF\<close>.  The
  accumulator wraps, as the shift of a \<open>uint64\<close> does.\<close>

fun readVarUint :: "u64 \<Rightarrow> nat \<Rightarrow> bytes \<Rightarrow> (u64 \<times> nat \<times> bytes) option" where
  "readVarUint ret groups [] = None"
| "readVarUint ret groups (byt # data) =
     (let ret' = push_bit 7 ret OR ucast (byt AND 0x7F); groups' = groups + 1 in
      if byt AND 0x80 = 0 then Some (ret', groups', data) else readVarUint ret' groups' data)"

definition readAddressPointerVarUint :: "bytes \<Rightarrow> (u64 \<times> nat \<times> bytes) option" where
  "readAddressPointerVarUint data = readVarUint 0 0 data"

text \<open>\<open>read\<close> of \<open>decode\<close>: one component, and the name of the first one out of range.\<close>

definition readComponent :: "string \<Rightarrow> nat \<Rightarrow> u64 \<Rightarrow> string \<Rightarrow> bytes \<Rightarrow> (u64 \<times> string \<times> bytes) option" where
  "readComponent name maxGroups maxValue outOfRange data =
     (case readAddressPointerVarUint data of
        None \<Rightarrow> None
      | Some (val, groups, rest) \<Rightarrow>
          Some (val, if outOfRange = '''' \<and> (groups > maxGroups \<or> val > maxValue) then name else outOfRange, rest))"

definition decodePointer :: "bytes \<Rightarrow> (AddressPayload \<times> string \<times> bytes) option" where
  "decodePointer data =
     (case readComponent ''slot'' 5 0xFFFFFFFF '''' data of
        None \<Rightarrow> None
      | Some (slot, out1, data1) \<Rightarrow>
     (case readComponent ''transaction index'' 3 0xFFFF out1 data1 of
        None \<Rightarrow> None
      | Some (txIndex, out2, data2) \<Rightarrow>
     (case readComponent ''certificate index'' 3 0xFFFF out2 data2 of
        None \<Rightarrow> None
      | Some (certIndex, out3, data3) \<Rightarrow>
          Some (if slot > 0xFFFFFFFF \<or> txIndex > 0xFFFF \<or> certIndex > 0xFFFF
                then AddressPayloadPointer 0 0 0 else AddressPayloadPointer slot txIndex certIndex,
                out3, data3))))"

text \<open>The groups before the last, most significant first, and \<open>writeVarUint\<close>.\<close>

function varGroups :: "u64 \<Rightarrow> bytes" where
  "varGroups val = (if val = 0 then [] else varGroups (val div 128) @ [ucast (val AND 0x7F) OR 0x80])"
  by pat_completeness auto
termination
proof (relation "measure unat")
  fix val :: u64 assume "val \<noteq> 0"
  then have "0 < unat val" by (simp add: unat_gt_0)
  then show "(val div 128, val) \<in> measure unat" by (simp add: unat_div)
qed simp

declare varGroups.simps [simp del]

definition writeVarUint :: "u64 \<Rightarrow> bytes" where
  "writeVarUint val = varGroups (val div 128) @ [ucast (val AND 0x7F)]"

definition encodePointer :: "u64 \<Rightarrow> u64 \<Rightarrow> u64 \<Rightarrow> bytes" where
  "encodePointer slot txIndex certIndex = writeVarUint slot @ writeVarUint txIndex @ writeVarUint certIndex"

subsection \<open>Decoding\<close>

definition keyPayment :: "u8 \<Rightarrow> bool" where
  "keyPayment t \<longleftrightarrow> t \<in> {AddressTypeKeyKey, AddressTypeKeyScript, AddressTypeKeyPointer, AddressTypeKeyNone}"

definition scriptPayment :: "u8 \<Rightarrow> bool" where
  "scriptPayment t \<longleftrightarrow> t \<in> {AddressTypeScriptKey, AddressTypeScriptScript, AddressTypeScriptPointer, AddressTypeScriptNone}"

definition keyStaking :: "u8 \<Rightarrow> bool" where
  "keyStaking t \<longleftrightarrow> t \<in> {AddressTypeKeyKey, AddressTypeScriptKey, AddressTypeNoneKey}"

definition scriptStaking :: "u8 \<Rightarrow> bool" where
  "scriptStaking t \<longleftrightarrow> t \<in> {AddressTypeKeyScript, AddressTypeScriptScript, AddressTypeNoneScript}"

definition pointerStaking :: "u8 \<Rightarrow> bool" where
  "pointerStaking t \<longleftrightarrow> t \<in> {AddressTypeKeyPointer, AddressTypeScriptPointer}"

definition knownType :: "u8 \<Rightarrow> bool" where
  "knownType t \<longleftrightarrow> t \<in> {AddressTypeKeyKey, AddressTypeScriptKey, AddressTypeKeyScript, AddressTypeScriptScript,
     AddressTypeKeyPointer, AddressTypeScriptPointer, AddressTypeKeyNone, AddressTypeScriptNone,
     AddressTypeNoneKey, AddressTypeNoneScript}"

text \<open>The payment switch and the staking switch, each with the bytes it leaves.\<close>

definition takePayment :: "u8 \<Rightarrow> bytes \<Rightarrow> address_error + (AddressPayload option \<times> bytes)" where
  "takePayment t payload =
     (if keyPayment t then
        if length payload < AddressHashSize then Inl PaymentKeyHashTooSmall
        else Inr (Some (AddressPayloadKeyHash (take AddressHashSize payload)), drop AddressHashSize payload)
      else if scriptPayment t then
        if length payload < AddressHashSize then Inl PaymentScriptHashTooSmall
        else Inr (Some (AddressPayloadScriptHash (take AddressHashSize payload)), drop AddressHashSize payload)
      else Inr (None, payload))"

definition takeStaking :: "u8 \<Rightarrow> bytes \<Rightarrow> address_error + (AddressPayload option \<times> string \<times> bytes)" where
  "takeStaking t payload =
     (if keyStaking t then
        if length payload < AddressHashSize then Inl StakingKeyHashTooSmall
        else Inr (Some (AddressPayloadKeyHash (take AddressHashSize payload)), '''', drop AddressHashSize payload)
      else if scriptStaking t then
        if length payload < AddressHashSize then Inl StakingScriptHashTooSmall
        else Inr (Some (AddressPayloadScriptHash (take AddressHashSize payload)), '''', drop AddressHashSize payload)
      else if pointerStaking t then
        (case decodePointer payload of
           None \<Rightarrow> Inl UnexpectedEOF
         | Some (p, outOfRange, rest) \<Rightarrow> Inr (Some p, outOfRange, rest))
      else Inr (None, '''', payload))"

text \<open>The two halves of the header byte.\<close>

definition headerType :: "u8 \<Rightarrow> u8" where
  "headerType header = drop_bit 4 (header AND 0xF0)"

definition headerNetwork :: "u8 \<Rightarrow> u8" where
  "headerNetwork header = header AND 0x0F"

definition populateFromBytes :: "(bytes \<Rightarrow> address_error + Address) \<Rightarrow> bytes \<Rightarrow> bool \<Rightarrow> address_error + Address" where
  "populateFromBytes byron data allowTrailing =
     (case data of
        [] \<Rightarrow> Inl EmptyAddress
      | header # payload \<Rightarrow>
          let t = headerType header; n = headerNetwork header in
          if t = AddressTypeByron then byron data
          else if n \<noteq> 0 \<and> n \<noteq> 1 then Inl (InvalidNetworkId n)
          else if \<not> knownType t then Inl (InvalidAddressType t)
          else rbind (takePayment t payload) (\<lambda>(payment, payload1).
               rbind (takeStaking t payload1) (\<lambda>(staking, outOfRange, payload2).
                 if payload2 \<noteq> [] \<and> \<not> allowTrailing then Inl (TrailingBytes (length payload2))
                 else Inr ((freshAddress t n)\<lparr>paymentPayload := payment, stakingPayload := staking,
                             pointerOutOfRange := outOfRange, trailingBytes := payload2\<rparr>))))"

definition NewAddressFromBytes :: "(bytes \<Rightarrow> address_error + Address) \<Rightarrow> bytes \<Rightarrow> address_error + Address" where
  "NewAddressFromBytes byron addrBytes = populateFromBytes byron addrBytes False"

definition NewAddressFromBytesLenient :: "(bytes \<Rightarrow> address_error + Address) \<Rightarrow> bytes \<Rightarrow> address_error + Address" where
  "NewAddressFromBytesLenient byron addrBytes = populateFromBytes byron addrBytes True"

subsection \<open>Encoding\<close>

definition paymentBytes :: "AddressPayload option \<Rightarrow> bytes" where
  "paymentBytes p =
     (case p of
        Some (AddressPayloadKeyHash h) \<Rightarrow> h
      | Some (AddressPayloadScriptHash h) \<Rightarrow> h
      | _ \<Rightarrow> [])"

definition stakingBytes :: "AddressPayload option \<Rightarrow> bytes" where
  "stakingBytes p =
     (case p of
        Some (AddressPayloadKeyHash h) \<Rightarrow> h
      | Some (AddressPayloadScriptHash h) \<Rightarrow> h
      | Some (AddressPayloadPointer slot txIndex certIndex) \<Rightarrow> encodePointer slot txIndex certIndex
      | None \<Rightarrow> [])"

definition headerByte :: "u8 \<Rightarrow> u8 \<Rightarrow> u8" where
  "headerByte t n = push_bit 4 t OR (n AND 0x0F)"

definition Address_Bytes :: "(Address \<Rightarrow> address_error + bytes) \<Rightarrow> Address \<Rightarrow> address_error + bytes" where
  "Address_Bytes byronBytes a =
     (if addressType a = AddressTypeByron then byronBytes a
      else Inr (headerByte (addressType a) (networkId a) # paymentBytes (paymentPayload a) @ stakingBytes (stakingPayload a)))"

definition NewAddressFromParts ::
  "(bytes \<Rightarrow> address_error + Address) \<Rightarrow> u8 \<Rightarrow> u8 \<Rightarrow> bytes \<Rightarrow> bytes \<Rightarrow> address_error + Address" where
  "NewAddressFromParts byron addrType n paymentAddr stakingAddr =
     (if n \<noteq> 0 \<and> n \<noteq> 1 then Inl (InvalidNetworkId n)
      else if addrType \<in> {AddressTypeKeyKey, AddressTypeKeyScript, AddressTypeKeyNone} \<and> length paymentAddr \<noteq> AddressHashSize \<or>
              addrType \<in> {AddressTypeScriptKey, AddressTypeScriptScript, AddressTypeScriptNone} \<and> length paymentAddr \<noteq> AddressHashSize
      then Inl (PaymentHashLength (length paymentAddr))
      else if addrType \<in> {AddressTypeNoneKey, AddressTypeNoneScript} \<and> paymentAddr \<noteq> [] then Inl (UnexpectedPayment (length paymentAddr))
      else if \<not> knownType addrType \<or> pointerStaking addrType
      then NewAddressFromBytes byron (headerByte addrType n # paymentAddr @ stakingAddr)
      else if (keyStaking addrType \<or> scriptStaking addrType) \<and> length stakingAddr \<noteq> AddressHashSize
      then Inl (StakingHashLength (length stakingAddr))
      else if addrType \<in> {AddressTypeKeyNone, AddressTypeScriptNone} \<and> stakingAddr \<noteq> [] then Inl (UnexpectedStaking (length stakingAddr))
      else Inr ((freshAddress addrType n)\<lparr>
             paymentPayload := (if keyPayment addrType then Some (AddressPayloadKeyHash paymentAddr)
                                else if scriptPayment addrType then Some (AddressPayloadScriptHash paymentAddr) else None),
             stakingPayload := (if keyStaking addrType then Some (AddressPayloadKeyHash stakingAddr)
                                else if scriptStaking addrType then Some (AddressPayloadScriptHash stakingAddr) else None)\<rparr>))"

subsection \<open>Accessors and checks\<close>

definition Address_NetworkId :: "Address \<Rightarrow> u64" where
  "Address_NetworkId a =
     (if addressType a = AddressTypeByron
      then (case at_Network (byronAddressAttr a) of None \<Rightarrow> 1 | Some _ \<Rightarrow> 0)
      else ucast (networkId a))"

definition PaymentAddress :: "Address \<Rightarrow> Address option" where
  "PaymentAddress a =
     (if keyPayment (addressType a) then Some ((freshAddress AddressTypeKeyNone (networkId a))\<lparr>paymentPayload := paymentPayload a\<rparr>)
      else if scriptPayment (addressType a) then Some ((freshAddress AddressTypeScriptNone (networkId a))\<lparr>paymentPayload := paymentPayload a\<rparr>)
      else None)"

definition StakeAddress :: "Address \<Rightarrow> Address option" where
  "StakeAddress a =
     (if keyStaking (addressType a) then Some ((freshAddress AddressTypeNoneKey (networkId a))\<lparr>stakingPayload := stakingPayload a\<rparr>)
      else if scriptStaking (addressType a) then Some ((freshAddress AddressTypeNoneScript (networkId a))\<lparr>stakingPayload := stakingPayload a\<rparr>)
      else None)"

definition CheckAddressFullyConsumed :: "Address \<Rightarrow> address_error + unit" where
  "CheckAddressFullyConsumed a = ensure (trailingBytes a = []) (TrailingBytes (length (trailingBytes a)))"

definition CheckAccountAddress :: "Address \<Rightarrow> address_error + unit" where
  "CheckAccountAddress a = rbind (CheckAddressFullyConsumed a) (\<lambda>_.
     ensure (addressType a \<in> {AddressTypeNoneKey, AddressTypeNoneScript}) (InvalidAccountType (addressType a)))"

definition CheckAddressPointerInRange :: "Address \<Rightarrow> address_error + unit" where
  "CheckAddressPointerInRange a = ensure (pointerOutOfRange a = '''') (PointerOutOfRange (pointerOutOfRange a))"

text \<open>A credential: its type, 0 for a key and 1 for a script, and its hash.\<close>

record Credential =
  CredType :: nat
  cred_Hash :: Hash28

definition StakeCredential :: "Address \<Rightarrow> Credential option" where
  "StakeCredential a =
     (case stakingPayload a of
        Some (AddressPayloadKeyHash h) \<Rightarrow> Some \<lparr>CredType = 0, cred_Hash = h\<rparr>
      | Some (AddressPayloadScriptHash h) \<Rightarrow> Some \<lparr>CredType = 1, cred_Hash = h\<rparr>
      | _ \<Rightarrow> None)"

definition RewardAccountCredential :: "(Address \<Rightarrow> address_error + bytes) \<Rightarrow> Address \<Rightarrow> address_error + Credential" where
  "RewardAccountCredential byronBytes a =
     (if addressType a \<noteq> AddressTypeNoneKey \<and> addressType a \<noteq> AddressTypeNoneScript then Inl (NotRewardAccount (addressType a))
      else if networkId a \<noteq> 0 \<and> networkId a \<noteq> 1 then Inl (InvalidNetworkId (networkId a))
      else rbind (Address_Bytes byronBytes a) (\<lambda>raw.
        if length raw \<noteq> 1 + AddressHashSize then Inl (InvalidRewardLength (length raw))
        else if trailingBytes a \<noteq> [] then Inl (TrailingBytes (length (trailingBytes a)))
        else (case StakeCredential a of
                None \<Rightarrow> Inl CredentialMismatch
              | Some c \<Rightarrow> if CredType c \<noteq> (if addressType a = AddressTypeNoneScript then 1 else 0)
                          then Inl CredentialMismatch else Inr c)))"

text \<open>The loop over the keys of the withdrawal map, with the encodings seen so far.  A key is a
  pointer, which may be nil.\<close>

fun validateWithdrawalKeys :: "(Address \<Rightarrow> address_error + bytes) \<Rightarrow> bytes list \<Rightarrow> Address option list \<Rightarrow> address_error + unit" where
  "validateWithdrawalKeys byronBytes seen [] = Inr ()"
| "validateWithdrawalKeys byronBytes seen (None # addrs) = Inl NilAddress"
| "validateWithdrawalKeys byronBytes seen (Some a # addrs) =
     rbind (RewardAccountCredential byronBytes a) (\<lambda>_.
     rbind (Address_Bytes byronBytes a) (\<lambda>raw.
       if raw \<in> set seen then Inl DuplicateWithdrawal
       else validateWithdrawalKeys byronBytes (raw # seen) addrs))"

definition ValidateWithdrawalAddresses :: "(Address \<Rightarrow> address_error + bytes) \<Rightarrow> Address option list \<Rightarrow> address_error + unit" where
  "ValidateWithdrawalAddresses byronBytes addrs = validateWithdrawalKeys byronBytes [] addrs"

subsection \<open>Pointers round trip\<close>

lemma mask7: "(0x7F :: 'a :: len word) = mask 7"
  by (simp add: mask_eq_exp_minus_1)

lemma bit_80: "bit (0x80 :: u8) n \<longleftrightarrow> n = 7" "bit (0x80 :: int) n \<longleftrightarrow> n = 7" "bit (0x80 :: nat) n \<longleftrightarrow> n = 7"
proof -
  have "(0x80 :: u8) = 2 ^ 7" "(0x80 :: int) = 2 ^ 7" "(0x80 :: nat) = 2 ^ 7" by simp_all
  then show "bit (0x80 :: u8) n \<longleftrightarrow> n = 7" "bit (0x80 :: int) n \<longleftrightarrow> n = 7" "bit (0x80 :: nat) n \<longleftrightarrow> n = 7"
    by (simp_all only: bit_exp_iff) auto
qed

lemma div_128: "(v :: u64) div 128 = drop_bit 7 v"
  by (simp add: drop_bit_eq_div)

lemma group_marked: "(ucast (v AND 0x7F :: u64) OR 0x80 :: u8) AND 0x80 \<noteq> 0"
proof -
  have "bit ((ucast (v AND 0x7F :: u64) OR 0x80 :: u8) AND 0x80) 7" by (simp add: bit_simps bit_80)
  then show ?thesis by (metis bit_0_eq bot_apply bot_bool_def)
qed

lemma last_group: "(ucast (v AND 0x7F :: u64) :: u8) AND 0x80 = 0"
  by (rule bit_word_eqI) (auto simp: bit_simps bit_80 mask7)

lemma group_value:
  "push_bit 7 (v div 128) OR ucast ((ucast (v AND 0x7F) OR 0x80 :: u8) AND 0x7F) = (v :: u64)"
  "push_bit 7 (v div 128) OR ucast ((ucast (v AND 0x7F) :: u8) AND 0x7F) = (v :: u64)"
proof -
  have n: "7 + (n - 7) = n" if "\<not> n < 7" for n :: nat using that by simp
  show "push_bit 7 (v div 128) OR ucast ((ucast (v AND 0x7F) OR 0x80 :: u8) AND 0x7F) = v"
    unfolding div_128 mask7
  proof (rule bit_word_eqI)
    fix i :: nat assume "i < LENGTH(64)"
    then show "bit (push_bit 7 (drop_bit 7 v) OR ucast ((ucast (v AND mask 7) OR 0x80 :: u8) AND mask 7)) i = bit v i"
      using n[of i] by (cases "i < 7") (auto simp: bit_simps bit_80)
  qed
  show "push_bit 7 (v div 128) OR ucast ((ucast (v AND 0x7F) :: u8) AND 0x7F) = v"
    unfolding div_128 mask7
  proof (rule bit_word_eqI)
    fix i :: nat assume "i < LENGTH(64)"
    then show "bit (push_bit 7 (drop_bit 7 v) OR ucast ((ucast (v AND mask 7) :: u8) AND mask 7)) i = bit v i"
      using n[of i] by (cases "i < 7") (auto simp: bit_simps)
  qed
qed

lemma read_groups: "readVarUint 0 g (varGroups v @ bs) = readVarUint v (g + length (varGroups v)) bs"
proof (induction v arbitrary: bs rule: varGroups.induct)
  case (1 v)
  show ?case
  proof (cases "v = 0")
    case False
    let ?x = "ucast (v AND 0x7F) OR 0x80 :: u8"
    have s: "varGroups v = varGroups (v div 128) @ [?x]" using False by (subst varGroups.simps) simp
    have "readVarUint 0 g (varGroups v @ bs) = readVarUint 0 g (varGroups (v div 128) @ ?x # bs)" by (simp add: s)
    also have "\<dots> = readVarUint (v div 128) (g + length (varGroups (v div 128))) (?x # bs)" by (rule 1[OF False])
    also have "\<dots> = readVarUint v (g + length (varGroups v)) bs"
      by (simp only: readVarUint.simps Let_def group_value group_marked if_False) (simp add: s)
    finally show ?thesis .
  qed (simp add: varGroups.simps)
qed

lemma length_groups: "unat v < 128 ^ k \<Longrightarrow> length (varGroups v) \<le> k"
proof (induction k arbitrary: v)
  case 0
  then show ?case by (simp add: varGroups.simps unat_eq_zero)
next
  case (Suc k)
  show ?case
  proof (cases "v = 0")
    case False
    have "unat v div 128 < 128 ^ k" using Suc.prems by (simp add: less_mult_imp_div_less mult.commute)
    then have "length (varGroups (v div 128)) \<le> k" by (intro Suc.IH) (simp add: unat_div)
    then show ?thesis using False by (subst varGroups.simps) simp
  qed (simp add: varGroups.simps)
qed

lemma read_written:
  "readAddressPointerVarUint (writeVarUint v @ bs) = Some (v, length (writeVarUint v), bs)"
  by (simp only: readAddressPointerVarUint_def writeVarUint_def append_assoc read_groups append_Cons append_Nil
      readVarUint.simps Let_def group_value last_group if_True) simp

lemma length_written: "unat v < 128 ^ Suc k \<Longrightarrow> length (writeVarUint v) \<le> Suc k"
proof -
  assume "unat v < 128 ^ Suc k"
  then have "unat v div 128 < 128 ^ k" by (simp add: less_mult_imp_div_less mult.commute)
  then show ?thesis unfolding writeVarUint_def using length_groups[of "v div 128" k] by (simp add: unat_div)
qed

lemma read_component:
  assumes "v \<le> m" "unat m < 128 ^ Suc k"
  shows "readComponent name (Suc k) m out (writeVarUint v @ bs) = Some (v, out, bs)"
proof -
  have "unat v < 128 ^ Suc k" using assms by (simp add: word_le_nat_alt)
  then have "length (writeVarUint v) \<le> Suc k" by (rule length_written)
  then show ?thesis using assms(1) by (auto simp: readComponent_def read_written)
qed

lemma decode_encoded:
  assumes "slot \<le> 0xFFFFFFFF" "txIndex \<le> 0xFFFF" "certIndex \<le> 0xFFFF"
  shows "decodePointer (encodePointer slot txIndex certIndex @ bs) = Some (AddressPayloadPointer slot txIndex certIndex, '''', bs)"
proof -
  have b: "unat (0xFFFFFFFF :: u64) < 128 ^ Suc 4" "unat (0xFFFF :: u64) < 128 ^ Suc 2" by simp_all
  have k: "(5 :: nat) = Suc 4" "(3 :: nat) = Suc 2" by simp_all
  note r = read_component[OF assms(1) b(1), folded k] read_component[OF assms(2) b(2), folded k]
    read_component[OF assms(3) b(2), folded k]
  show ?thesis
    unfolding decodePointer_def encodePointer_def append_assoc using assms by (auto simp: r)
qed

subsection \<open>Addresses round trip\<close>

text \<open>The addresses of the Shelley family: a known type, one of the two networks, the payloads the type
  asks for, pointers within the range of the ledger's, and nothing left over.\<close>

definition payment_ok :: "u8 \<Rightarrow> AddressPayload option \<Rightarrow> bool" where
  "payment_ok t p \<longleftrightarrow>
     (case p of
        Some (AddressPayloadKeyHash h) \<Rightarrow> keyPayment t \<and> length h = AddressHashSize
      | Some (AddressPayloadScriptHash h) \<Rightarrow> scriptPayment t \<and> length h = AddressHashSize
      | Some (AddressPayloadPointer _ _ _) \<Rightarrow> False
      | None \<Rightarrow> \<not> keyPayment t \<and> \<not> scriptPayment t)"

definition staking_ok :: "u8 \<Rightarrow> AddressPayload option \<Rightarrow> bool" where
  "staking_ok t p \<longleftrightarrow>
     (case p of
        Some (AddressPayloadKeyHash h) \<Rightarrow> keyStaking t \<and> length h = AddressHashSize
      | Some (AddressPayloadScriptHash h) \<Rightarrow> scriptStaking t \<and> length h = AddressHashSize
      | Some (AddressPayloadPointer s i c) \<Rightarrow> pointerStaking t \<and> s \<le> 0xFFFFFFFF \<and> i \<le> 0xFFFF \<and> c \<le> 0xFFFF
      | None \<Rightarrow> \<not> keyStaking t \<and> \<not> scriptStaking t \<and> \<not> pointerStaking t)"

definition shelley_address :: "Address \<Rightarrow> bool" where
  "shelley_address a \<longleftrightarrow> knownType (addressType a) \<and> networkId a \<in> {0, 1} \<and>
     payment_ok (addressType a) (paymentPayload a) \<and> staking_ok (addressType a) (stakingPayload a) \<and>
     a = (freshAddress (addressType a) (networkId a))\<lparr>paymentPayload := paymentPayload a, stakingPayload := stakingPayload a\<rparr>"

lemmas address_kinds = keyPayment_def scriptPayment_def keyStaking_def scriptStaking_def pointerStaking_def

lemma mask4: "(0x0F :: u8) = mask 4" "(0xF0 :: u8) = push_bit 4 (mask 4)"
  by (simp_all add: mask_eq_exp_minus_1)

lemma known_small: "knownType t \<Longrightarrow> t AND mask 4 = t" "knownType t \<Longrightarrow> t \<noteq> 8"
  by (auto simp: knownType_def mask_eq_exp_minus_1)

lemma header_split:
  "headerNetwork (headerByte t n) = n AND 0x0F"
  "headerType (headerByte t n) = t AND mask 4"
  unfolding headerByte_def headerNetwork_def headerType_def mask4 by (rule bit_word_eqI; auto simp: bit_simps)+

lemma header_join: "headerByte (headerType h) (headerNetwork h) = h"
  unfolding headerByte_def headerNetwork_def headerType_def mask4
  apply (rule bit_word_eqI)
  subgoal for i
    using le_add_diff_inverse[of 4 i] by (cases "i < 4") (auto simp: bit_simps)
  done

lemma network_bit: "n \<in> {0, 1} \<Longrightarrow> n AND 0x0F = (n :: u8)"
  by auto

lemma take_payment_ok: "payment_ok t p \<Longrightarrow> takePayment t (paymentBytes p @ rest) = Inr (p, rest)"
  by (auto simp: payment_ok_def takePayment_def paymentBytes_def address_kinds split: option.splits AddressPayload.splits)

lemma take_staking_ok: "staking_ok t p \<Longrightarrow> takeStaking t (stakingBytes p @ rest) = Inr (p, '''', rest)"
  by (auto simp: staking_ok_def takeStaking_def stakingBytes_def address_kinds decode_encoded split: option.splits AddressPayload.splits)

lemma take_payment_bytes: "takePayment t payload = Inr (p, rest) \<Longrightarrow> payment_ok t p \<and> payload = paymentBytes p @ rest"
  by (auto simp: payment_ok_def takePayment_def paymentBytes_def address_kinds split: if_splits)

lemma take_staking_bytes:
  "takeStaking t payload = Inr (p, out, rest) \<Longrightarrow> \<not> pointerStaking t \<Longrightarrow> staking_ok t p \<and> payload = stakingBytes p @ rest \<and> out = ''''"
  by (auto simp: staking_ok_def takeStaking_def stakingBytes_def address_kinds split: if_splits)


lemma fresh_address_fields [simp]:
  "addressType (freshAddress t n) = t" "networkId (freshAddress t n) = n"
  "trailingBytes (freshAddress t n) = []" "pointerOutOfRange (freshAddress t n) = ''''"
  by (simp_all add: freshAddress_def)

lemma shelley_populate:
  assumes "shelley_address a" and "rest = [] \<or> lenient"
  shows "populateFromBytes byron (headerByte (addressType a) (networkId a) # paymentBytes (paymentPayload a) @ stakingBytes (stakingPayload a) @ rest)
      lenient = Inr (a\<lparr>trailingBytes := rest\<rparr>)"
proof -
  let ?t = "addressType a" and ?n = "networkId a" and ?h = "headerByte (addressType a) (networkId a)"
  note ok = assms(1)[unfolded shelley_address_def]
  have h: "headerType ?h = ?t" "headerNetwork ?h = ?n"
    using ok known_small(1)[of ?t] network_bit[of ?n] by (simp_all only: header_split)
  have t: "?t \<noteq> 8" "\<not> (?n \<noteq> 0 \<and> ?n \<noteq> 1)" "knownType ?t" using ok known_small(2)[of ?t] by auto
  have "a\<lparr>trailingBytes := rest\<rparr> = (freshAddress ?t ?n)\<lparr>paymentPayload := paymentPayload a, stakingPayload := stakingPayload a,
      pointerOutOfRange := '''', trailingBytes := rest\<rparr>"
    using ok by (cases a) (simp add: freshAddress_def)
  then show ?thesis
    using t take_payment_ok[of ?t "paymentPayload a"] take_staking_ok[of ?t "stakingPayload a"] ok assms(2)
    by (auto simp: populateFromBytes_def h Let_def)
qed

lemma populated_bytes:
  assumes "populateFromBytes byron data lenient = Inr a" "headerType (hd data) \<noteq> 8"
    and "\<not> pointerStaking (headerType (hd data))"
  shows "shelley_address (a\<lparr>trailingBytes := []\<rparr>) \<and>
    Address_Bytes byronBytes a = Inr (take (length data - length (trailingBytes a)) data) \<and>
    drop (length data - length (trailingBytes a)) data = trailingBytes a \<and> (trailingBytes a = [] \<or> lenient)"
proof -
  obtain h payload where d: "data = h # payload" using assms(1) by (cases data) (auto simp: populateFromBytes_def)
  let ?t = "headerType h" and ?n = "headerNetwork h"
  from assms obtain payment payload1 staking out rest where
    p: "takePayment ?t payload = Inr (payment, payload1)" and s: "takeStaking ?t payload1 = Inr (staking, out, rest)"
    and a: "a = (freshAddress ?t ?n)\<lparr>paymentPayload := payment, stakingPayload := staking, pointerOutOfRange := out, trailingBytes := rest\<rparr>"
    and r: "rest = [] \<or> lenient" and k: "knownType ?t" "?n \<in> {0, 1}"
    by (auto simp: populateFromBytes_def d Let_def split: if_splits)
  have sp: "\<not> pointerStaking ?t" using assms(3) by (simp add: d)
  note pb = take_payment_bytes[OF p] and sb = take_staking_bytes[OF s sp]
  have data: "data = headerByte ?t ?n # paymentBytes payment @ stakingBytes staking @ rest"
    using pb sb by (simp add: d header_join)
  have t: "addressType a = ?t" "networkId a = ?n" "paymentPayload a = payment" "stakingPayload a = staking" "trailingBytes a = rest"
    unfolding a by simp_all
  have "shelley_address (a\<lparr>trailingBytes := []\<rparr>)"
    using k pb sb by (simp add: shelley_address_def a freshAddress_def)
  moreover have "Address_Bytes byronBytes a = Inr (headerByte ?t ?n # paymentBytes payment @ stakingBytes staking)"
    using known_small(2)[OF k(1)] by (simp add: Address_Bytes_def t)
  ultimately show ?thesis using r by (simp add: data t)
qed


text \<open>C15: Decoding and encoding of addresses agree.  Every address of the Shelley family is decoded from its
  own bytes, by the strict decoder from exactly these bytes and by the lenient decoder from these bytes
  with anything after them, which is kept as the trailer.  In the other direction every byte string the
  strict decoder accepts as a base, enterprise or reward address is the encoding of the address it
  yields, so two encodings never give one address.\<close>

theorem address_roundtrip:
  "(shelley_address a \<longrightarrow>
      (\<exists>data. Address_Bytes byronBytes a = Inr data \<and> NewAddressFromBytes byron data = Inr a \<and>
         (\<forall>rest. NewAddressFromBytesLenient byron (data @ rest) = Inr (a\<lparr>trailingBytes := rest\<rparr>)))) \<and>
   (NewAddressFromBytes byron data = Inr b \<and> headerType (hd data) \<noteq> AddressTypeByron \<and> \<not> pointerStaking (headerType (hd data)) \<longrightarrow>
      shelley_address b \<and> Address_Bytes byronBytes b = Inr data)"
proof (intro conjI impI)
  assume a: "shelley_address a"
  let ?data = "headerByte (addressType a) (networkId a) # paymentBytes (paymentPayload a) @ stakingBytes (stakingPayload a)"
  have "addressType a \<noteq> 8" using a known_small(2)[of "addressType a"] by (auto simp: shelley_address_def)
  then have "Address_Bytes byronBytes a = Inr ?data" by (simp add: Address_Bytes_def)
  moreover have "a\<lparr>trailingBytes := []\<rparr> = a"
    using a by (cases a) (simp add: shelley_address_def freshAddress_def)
  then have "NewAddressFromBytes byron ?data = Inr a"
    using shelley_populate[OF a, of "[]" False byron] by (simp add: NewAddressFromBytes_def)
  moreover have "NewAddressFromBytesLenient byron (?data @ rest) = Inr (a\<lparr>trailingBytes := rest\<rparr>)" for rest
    using shelley_populate[OF a, of rest True byron] by (simp add: NewAddressFromBytesLenient_def)
  ultimately show "\<exists>data. Address_Bytes byronBytes a = Inr data \<and> NewAddressFromBytes byron data = Inr a \<and>
         (\<forall>rest. NewAddressFromBytesLenient byron (data @ rest) = Inr (a\<lparr>trailingBytes := rest\<rparr>))" by blast
next
  assume d: "NewAddressFromBytes byron data = Inr b \<and> headerType (hd data) \<noteq> AddressTypeByron \<and> \<not> pointerStaking (headerType (hd data))"
  then have p: "shelley_address (b\<lparr>trailingBytes := []\<rparr>)" "trailingBytes b = []"
    "Address_Bytes byronBytes b = Inr (take (length data - length (trailingBytes b)) data)"
    using populated_bytes[of byron data False b byronBytes] by (auto simp: NewAddressFromBytes_def)
  moreover have "b\<lparr>trailingBytes := []\<rparr> = b" using p(2) by (cases b) simp
  ultimately show "shelley_address b" "Address_Bytes byronBytes b = Inr data" by simp_all
qed

text \<open>A pointer address, and an enterprise address on the test network.\<close>

definition example_pointer :: Address where
  "example_pointer = (freshAddress AddressTypeKeyPointer 1)\<lparr>paymentPayload := Some (AddressPayloadKeyHash (replicate 28 7)),
     stakingPayload := Some (AddressPayloadPointer 300 5 0)\<rparr>"

definition example_enterprise :: bytes where
  "example_enterprise = 0x60 # replicate 28 9"

theorem address_roundtrip_witness:
  "shelley_address example_pointer \<and>
   (\<exists>data. Address_Bytes (\<lambda>_. Inl ByronError) example_pointer = Inr data \<and>
      NewAddressFromBytes (\<lambda>_. Inl ByronError) data = Inr example_pointer) \<and>
   (\<exists>b. NewAddressFromBytes (\<lambda>_. Inl ByronError) example_enterprise = Inr b \<and>
      Address_Bytes (\<lambda>_. Inl ByronError) b = Inr example_enterprise)"
proof -
  have a: "shelley_address example_pointer"
    by (simp add: shelley_address_def example_pointer_def freshAddress_def knownType_def payment_ok_def staking_ok_def address_kinds)
  obtain b where b: "NewAddressFromBytes (\<lambda>_. Inl ByronError) example_enterprise = Inr b"
    by (simp add: example_enterprise_def NewAddressFromBytes_def populateFromBytes_def headerType_def headerNetwork_def
        knownType_def takePayment_def takeStaking_def address_kinds Let_def)
  have "headerType (hd example_enterprise) \<noteq> AddressTypeByron \<and> \<not> pointerStaking (headerType (hd example_enterprise))"
    by (simp add: example_enterprise_def headerType_def pointerStaking_def)
  then show ?thesis
    using a b address_roundtrip[of example_pointer "\<lambda>_. Inl ByronError" "\<lambda>_. Inl ByronError" example_enterprise b] by blast
qed

subsection \<open>Reward accounts\<close>

text \<open>A hash is an array of 28 bytes.\<close>

definition payload_sized :: "AddressPayload option \<Rightarrow> bool" where
  "payload_sized p \<longleftrightarrow> (case p of Some (AddressPayloadKeyHash h) \<Rightarrow> length h = 28 | Some (AddressPayloadScriptHash h) \<Rightarrow> length h = 28 | _ \<Rightarrow> True)"

definition address_sized :: "Address \<Rightarrow> bool" where
  "address_sized a \<longleftrightarrow> payload_sized (paymentPayload a) \<and> payload_sized (stakingPayload a)"

lemma reward_account_bytes:
  assumes "RewardAccountCredential byronBytes a = Inr c" "address_sized a"
  shows "Address_Bytes byronBytes a = Inr (headerByte (if CredType c = 1 then AddressTypeNoneScript else AddressTypeNoneKey) (networkId a) # cred_Hash c)"
  using assms
  by (auto simp: RewardAccountCredential_def StakeCredential_def Address_Bytes_def stakingBytes_def paymentBytes_def
      address_sized_def payload_sized_def split: if_splits option.splits AddressPayload.splits)

lemma validate_keys_distinct:
  assumes "validateWithdrawalKeys byronBytes seen (map Some addrs) = Inr ()"
    and "list_all address_sized addrs" "list_all (\<lambda>a. networkId a = n) addrs"
  shows "\<exists>cs. map (RewardAccountCredential byronBytes) addrs = map Inr cs \<and> distinct cs \<and>
    (\<forall>c \<in> set cs. headerByte (if CredType c = 1 then AddressTypeNoneScript else AddressTypeNoneKey) n # cred_Hash c \<notin> set seen)"
  using assms
proof (induction addrs arbitrary: seen)
  case (Cons a addrs)
  let ?raw = "\<lambda>c. headerByte (if CredType c = 1 then AddressTypeNoneScript else AddressTypeNoneKey) n # cred_Hash c"
  from Cons.prems(1) obtain c raw where c: "RewardAccountCredential byronBytes a = Inr c" and raw: "Address_Bytes byronBytes a = Inr raw" "raw \<notin> set seen"
    and rest: "validateWithdrawalKeys byronBytes (raw # seen) (map Some addrs) = Inr ()" by (auto split: if_splits)
  have r: "raw = ?raw c" using reward_account_bytes[OF c] raw(1) Cons.prems(2,3) by simp
  obtain cs where cs: "map (RewardAccountCredential byronBytes) addrs = map Inr cs" "distinct cs" "\<forall>d \<in> set cs. ?raw d \<notin> set (raw # seen)"
    using Cons.IH[OF rest] Cons.prems(2,3) by auto
  have "c \<notin> set cs" using cs(3) r by auto
  then show ?case using c cs raw(2) r by (intro exI[of _ "c # cs"]) auto
qed simp

lemma withdrawal_accounts_distinct:
  assumes "ValidateWithdrawalAddresses byronBytes (map Some addrs) = Inr ()" "list_all address_sized addrs" "list_all (\<lambda>a. networkId a = n) addrs"
  obtains cs where "map (RewardAccountCredential byronBytes) addrs = map Inr cs" "distinct cs"
  using validate_keys_distinct[OF assms(1)[unfolded ValidateWithdrawalAddresses_def] assms(2,3)] by blast

end
