(* ===== verification/Ledger.thy ===== *)
theory Ledger
  imports Address
begin

text \<open>
  The data the ledger rules work on (\<open>ledger/common/tx.go\<close>, \<open>certs.go\<close>, \<open>gov.go\<close>, \<open>state.go\<close>):
  inputs and outputs, certificates, governance actions, transactions, and the ledger state a node
  supplies.  A \<open>uint64\<close> is a natural number; the one sum of two of them that is not guarded wraps.
  \<open>LedgerState\<close> is an interface that the node implements: it is a record of its answers.  The
  optional capabilities, which the rules ask for with the \<open>...For\<close> helpers, are fields of the record
  too, \<open>None\<close> when the state does not implement them.
\<close>

subsection \<open>Inputs, outputs and certificates\<close>

type_synonym PoolKeyHash = Hash28
type_synonym VrfKeyHash = bytes
type_synonym TxId = bytes
type_synonym GovAnchor = "string \<times> bytes"

record TransactionInput =
  ti_Id :: TxId
  ti_Index :: nat

record TransactionOutput =
  to_Address :: Address
  to_Amount :: "int option"

type_synonym Utxo = "TransactionInput \<times> TransactionOutput"

record PoolMetadata =
  pm_Url :: string
  pm_Hash :: bytes

text \<open>\<open>po_RewardNetwork\<close> is what \<open>RewardAccountNetworkId\<close> reports: the network of the header byte
  of the reward account, when the certificate was decoded from one.\<close>

record StakePoolRegistration =
  po_Operator :: PoolKeyHash
  po_VrfKeyHash :: VrfKeyHash
  po_Pledge :: nat
  po_Cost :: nat
  po_RewardAccount :: Hash28
  po_RewardNetwork :: "u64 option"
  po_PoolOwners :: "Hash28 list"
  po_PoolMetadata :: "PoolMetadata option"

record Drep =
  drep_Type :: int
  drep_Credential :: bytes

text \<open>\<open>MoveInstantaneousRewards source rewards otherPot\<close>: the rewards are a map from pointers, which
  may be nil, to amounts, which may be nil; \<open>None\<close> is the nil map of a transfer between the pots.\<close>

datatype Certificate =
    StakeRegistrationCertificate Credential
  | StakeDeregistrationCertificate Credential
  | StakeDelegationCertificate "Credential option" PoolKeyHash
  | PoolRegistrationCertificate StakePoolRegistration
  | PoolRetirementCertificate PoolKeyHash nat
  | GenesisKeyDelegationCertificate bytes bytes VrfKeyHash
  | MoveInstantaneousRewardsCertificate nat "(Credential option \<times> int option) list option" nat
  | RegistrationCertificate Credential nat
  | DeregistrationCertificate Credential nat
  | VoteDelegationCertificate Credential Drep
  | StakeVoteDelegationCertificate Credential PoolKeyHash Drep
  | StakeRegistrationDelegationCertificate Credential PoolKeyHash nat
  | VoteRegistrationDelegationCertificate Credential Drep nat
  | StakeVoteRegistrationDelegationCertificate Credential PoolKeyHash Drep nat
  | AuthCommitteeHotCertificate Credential Credential
  | ResignCommitteeColdCertificate Credential "GovAnchor option"
  | RegistrationDrepCertificate Credential nat "GovAnchor option"
  | DeregistrationDrepCertificate Credential nat
  | UpdateDrepCertificate Credential "GovAnchor option"

subsection \<open>Governance actions\<close>

text \<open>The content of an action is its encoding.  \<open>OtherGovAction\<close> is a type the switch over actions
  does not know; a nil action is \<open>None\<close> where an action is optional.\<close>

datatype GovAction =
    ParameterChangeGovAction bytes
  | HardForkInitiationGovAction bytes
  | TreasuryWithdrawalGovAction bytes
  | NoConfidenceGovAction bytes
  | UpdateCommitteeGovAction bytes
  | NewConstitutionGovAction bytes
  | InfoGovAction bytes
  | OtherGovAction bytes

datatype GovActionType =
    GovActionTypeParameterChange | GovActionTypeHardForkInitiation | GovActionTypeTreasuryWithdrawal
  | GovActionTypeNoConfidence | GovActionTypeUpdateCommittee | GovActionTypeNewConstitution | GovActionTypeInfo

record GovActionId =
  ga_TransactionId :: TxId
  ga_Idx :: nat

record GovActionState =
  gs_ActionId :: GovActionId
  gs_ActionType :: GovActionType
  gs_ExpirySlot :: nat
  gs_Action :: GovAction

record DRepRegistration =
  dr_Credential :: Credential
  dr_Anchor :: "GovAnchor option"
  dr_Deposit :: "nat option"

subsection \<open>Witnesses and auxiliary data\<close>

record VkeyWitness =
  vw_Vkey :: bytes
  vw_Signature :: bytes

record BootstrapWitness =
  bw_PublicKey :: bytes
  bw_Signature :: bytes
  bw_ChainCode :: bytes
  bw_Attributes :: bytes

text \<open>\<open>NilScript\<close> is a script whose item is nil or of an unknown type.\<close>

datatype NativeScript =
    NilScript
  | NativeScriptPubkey bytes
  | NativeScriptAll "NativeScript list"
  | NativeScriptAny "NativeScript list"
  | NativeScriptNofK int "NativeScript list"
  | NativeScriptInvalidBefore nat
  | NativeScriptInvalidHereafter nat
  | NativeScriptRequireGuard Credential

record WitnessSet =
  ws_Vkey :: "VkeyWitness list"
  ws_Bootstrap :: "BootstrapWitness list"
  ws_NativeScripts :: "NativeScript list"

datatype TransactionMetadatum =
    MetaInt "int option"
  | MetaBytes bytes
  | MetaText bytes
  | MetaList "TransactionMetadatum list"
  | MetaMap "(TransactionMetadatum \<times> TransactionMetadatum) list"

record Voter =
  vo_Type :: nat
  vo_Hash :: Hash28

subsection \<open>Transactions\<close>

datatype ledger_error =
    ProviderError string
  | ErrUtxoSpentInBlock TransactionInput
  | KeyDepositNotExposed
  | InvalidKeyDeposit "int option"
  | LevelsError string
  | FuturePoolParametersStateUnavailable
  | EpochStateUnavailable

text \<open>A proposed parameter update: the protocol version it proposes, its check against the current
  version, when it has one, and whether it carries cost models.\<close>

record ProtocolParameterUpdate =
  up_ProposedVersion :: "(nat \<times> nat) option"
  up_ValidateVersion :: "(nat \<times> nat \<Rightarrow> ledger_error + unit) option"
  up_WithoutCostModels :: bool

record LedgerEffectLevel =
  lv_Id :: TxId
  lv_Withdrawals :: "(Address option \<times> int option) list"
  lv_Certificates :: "Certificate list"
  lv_Proposals :: "GovAction option list"
  lv_DirectDeposits :: "(Credential \<times> nat) list"

text \<open>What the interface \<open>Transaction\<close> reports.  \<open>tx_Levels\<close> is \<open>LedgerEffectLevels\<close> of a transaction
  that implements \<open>LeveledTransaction\<close>, \<open>tx_WireId\<close> the identity of one that has a wire identity, and
  \<open>tx_ByronWitnesses\<close> the outcome of \<open>ValidateByronVKeyWitnesses\<close> of one that verifies its own
  witnesses.  The bounds are \<open>None\<close> when they are not present.  \<open>tx_Cbor\<close> is the encoding, with
  the number of elements of its array when it decodes as one.  A map is listed in the order it is
  iterated.\<close>

record Transaction =
  tx_Hash :: TxId
  tx_IsValid :: bool
  tx_Inputs :: "TransactionInput list"
  tx_Outputs :: "TransactionOutput list"
  tx_CollateralReturn :: "TransactionOutput option"
  tx_Collateral :: "TransactionInput list"
  tx_ReferenceInputs :: "TransactionInput list"
  tx_Fee :: "int option"
  tx_LowerBound :: "nat option"
  tx_UpperBound :: "nat option"
  tx_Withdrawals :: "(Address option \<times> int option) list"
  tx_Certificates :: "Certificate list"
  tx_Proposals :: "GovAction option list"
  tx_Consumed :: "TransactionInput list"
  tx_Produced :: "Utxo list"
  tx_Levels :: "(ledger_error + LedgerEffectLevel list) option"
  tx_RequiredSigners :: "Hash28 list"
  tx_Voters :: "Voter option list"
  tx_Witnesses :: "WitnessSet option"
  tx_WireId :: "bytes option"
  tx_ByronWitnesses :: "(ledger_error + unit) option"
  tx_Updates :: "nat \<times> (Hash28 \<times> ProtocolParameterUpdate) list"
  tx_AuxDataHash :: "bytes option"
  tx_Metadata :: "(TransactionMetadatum \<times> bytes) option"
  tx_AuxiliaryData :: "bytes option"
  tx_Type :: nat
  tx_Cbor :: "ledger_error + bytes"
  tx_ArrayLength :: "nat option"

text \<open>A transaction with nothing in it, the base of the examples.\<close>

definition blank_transaction :: "TxId \<Rightarrow> Transaction" where
  "blank_transaction txid = \<lparr>tx_Hash = txid, tx_IsValid = True, tx_Inputs = [], tx_Outputs = [], tx_CollateralReturn = None,
     tx_Collateral = [], tx_ReferenceInputs = [], tx_Fee = None, tx_LowerBound = None, tx_UpperBound = None, tx_Withdrawals = [],
     tx_Certificates = [], tx_Proposals = [], tx_Consumed = [], tx_Produced = [], tx_Levels = None, tx_RequiredSigners = [],
     tx_Voters = [], tx_Witnesses = None, tx_WireId = None, tx_ByronWitnesses = None, tx_Updates = (0, []), tx_AuxDataHash = None,
     tx_Metadata = None, tx_AuxiliaryData = None, tx_Type = 0, tx_Cbor = Inr [], tx_ArrayLength = None\<rparr>"

subsection \<open>The ledger state\<close>

text \<open>The capability \<open>GenesisDelegationState\<close>.\<close>

record GenesisDelegationState =
  GenesisDelegateKeyHashes :: "nat \<Rightarrow> ledger_error + Hash28 list"
  GenesisUpdateQuorum :: "ledger_error + nat"
  GenesisDelegateForGenesisKey :: "Hash28 \<Rightarrow> nat \<Rightarrow> ledger_error + Hash28 option"

text \<open>\<open>IsVrfKeyInUse\<close> answers the owner of a key in use.  The cold credentials of a hot one are a set:
  the order of the slice is that of a map.  \<open>PendingInstantaneousRewardsFor\<close> also reports whether the
  state knows the pending rewards.\<close>

record LedgerState =
  UtxoById :: "TransactionInput \<Rightarrow> ledger_error + Utxo"
  IsStakeCredentialRegistered :: "Credential \<Rightarrow> bool"
  IsRewardAccountRegistered :: "Credential \<Rightarrow> bool"
  RewardAccountBalance :: "Credential \<Rightarrow> ledger_error + nat option"
  StakeCredentialDeposit :: "(Credential \<Rightarrow> ledger_error + nat option) option"
  PoolCurrentState :: "PoolKeyHash \<Rightarrow> ledger_error + (StakePoolRegistration option \<times> nat option)"
  IsPoolRegistered :: "PoolKeyHash \<Rightarrow> bool"
  IsVrfKeyInUse :: "VrfKeyHash \<Rightarrow> ledger_error + PoolKeyHash option"
  IsFutureVrfKeyInUse :: "(VrfKeyHash \<Rightarrow> ledger_error + PoolKeyHash option) option"
  ls_DRepRegistration :: "Credential \<Rightarrow> ledger_error + DRepRegistration option"
  ls_DRepDelegation :: "(Credential \<Rightarrow> ledger_error + Drep option) option"
  GovActionById :: "GovActionId \<Rightarrow> ledger_error + GovActionState option"
  GovActionExists :: "GovActionId \<Rightarrow> bool"
  HotCredentialColds :: "(Credential \<Rightarrow> ledger_error + Credential set) option"
  PendingInstantaneousRewards :: "nat \<Rightarrow> Credential \<Rightarrow> ledger_error + (int \<times> bool)"
  EpochForSlot :: "(nat \<Rightarrow> ledger_error + nat) option"
  ls_GenesisDelegation :: "GenesisDelegationState option"
  ProtocolParameterUpdateWindow :: "(nat \<Rightarrow> ledger_error + (nat \<times> nat)) option"
  ls_NetworkId :: u64

text \<open>The deposit recorded for a credential, when the state can report it.\<close>

definition StakeCredentialDepositOrDefault :: "'a LedgerState_scheme \<Rightarrow> Credential \<Rightarrow> nat \<Rightarrow> ledger_error + nat" where
  "StakeCredentialDepositOrDefault ls cred fallback =
     (case StakeCredentialDeposit ls of
        None \<Rightarrow> Inr fallback
      | Some depositOf \<Rightarrow> rbind (depositOf cred) (\<lambda>deposit. Inr (case deposit of None \<Rightarrow> fallback | Some d \<Rightarrow> d)))"

text \<open>A loop that returns the first error.\<close>

fun each :: "('a \<Rightarrow> 'e + unit) \<Rightarrow> 'a list \<Rightarrow> 'e + unit" where
  "each f [] = Inr ()"
| "each f (x # xs) = rbind (f x) (\<lambda>_. each f xs)"

lemma each_ok [simp]: "each f xs = Inr u \<longleftrightarrow> (\<forall>x \<in> set xs. f x = Inr ())"
  by (induction xs) auto

end
