(* ===== verification/BlockState.thy ===== *)
theory BlockState
  imports Ledger "HOL-Library.AList"
begin

text \<open>
  The block-scoped view of a ledger state (\<open>ledger/common/block_state.go\<close>): an overlay over the state
  before the block that folds the effects of the block's transactions in, and answers every query of
  \<open>LedgerState\<close> with them applied.  The specification applies the effects at once, one function
  update for each thing a certificate, a withdrawal or a deposit changes; the overlay is shown to
  refine it.  The committee is asked through capabilities of the provider, which are arguments; the
  specification there is the last certificate of the block on a cold credential.
\<close>

subsection \<open>The overlay\<close>

record blockAccount =
  ac_registered :: bool
  ac_registeredKnown :: bool
  ac_deposit :: nat
  ac_depositKnown :: bool
  ac_balance :: nat
  ac_balanceKnown :: bool
  ac_drep :: "Drep option"
  ac_drepKnown :: bool
  ac_drepSeq :: nat

record blockPool =
  bp_registration :: "StakePoolRegistration option"
  bp_registrationKnown :: bool
  bp_future :: "StakePoolRegistration option"
  bp_retirementEpoch :: "nat option"
  bp_retirementKnown :: bool

record blockDRep =
  bd_registration :: "DRepRegistration option"
  bd_deregSeq :: nat

text \<open>The counter \<open>seq\<close> counts the certificates of one block, so it stays far below the width of its
  type.  \<open>dreps\<close> and \<open>committeeColdHot\<close> are iterated over.\<close>

record BlockLedgerState =
  bl_base :: LedgerState
  bl_seq :: nat
  bl_spent :: "TransactionInput set"
  bl_created :: "TransactionInput \<rightharpoonup> Utxo"
  bl_accounts :: "Credential \<rightharpoonup> blockAccount"
  bl_pools :: "PoolKeyHash \<rightharpoonup> blockPool"
  bl_vrfKeys :: "VrfKeyHash \<rightharpoonup> PoolKeyHash"
  bl_vrfReleased :: "VrfKeyHash set"
  bl_dreps :: "(Credential \<times> blockDRep) list"
  bl_committeeColdHot :: "(Credential \<times> Credential option) list"
  bl_proposals :: "GovActionId \<rightharpoonup> GovActionState"
  bl_mirPending :: "(nat \<times> Credential) \<rightharpoonup> int"

definition NewBlockLedgerState :: "LedgerState \<Rightarrow> BlockLedgerState" where
  "NewBlockLedgerState base = \<lparr>bl_base = base, bl_seq = 0, bl_spent = {}, bl_created = Map.empty, bl_accounts = Map.empty,
     bl_pools = Map.empty, bl_vrfKeys = Map.empty, bl_vrfReleased = {}, bl_dreps = [], bl_committeeColdHot = [],
     bl_proposals = Map.empty, bl_mirPending = Map.empty\<rparr>"

subsection \<open>Queries\<close>

definition block_UtxoById :: "BlockLedgerState \<Rightarrow> TransactionInput \<Rightarrow> ledger_error + Utxo" where
  "block_UtxoById b input =
     (case bl_created b input of
        Some utxo \<Rightarrow> Inr utxo
      | None \<Rightarrow> if input \<in> bl_spent b then Inl (ErrUtxoSpentInBlock input) else UtxoById (bl_base b) input)"

definition block_IsStakeCredentialRegistered :: "BlockLedgerState \<Rightarrow> Credential \<Rightarrow> bool" where
  "block_IsStakeCredentialRegistered b cred =
     (case bl_accounts b cred of
        Some account \<Rightarrow> if ac_registeredKnown account then ac_registered account else IsStakeCredentialRegistered (bl_base b) cred
      | None \<Rightarrow> IsStakeCredentialRegistered (bl_base b) cred)"

definition block_IsRewardAccountRegistered :: "BlockLedgerState \<Rightarrow> Credential \<Rightarrow> bool" where
  "block_IsRewardAccountRegistered b cred =
     (case bl_accounts b cred of
        Some account \<Rightarrow> if ac_registeredKnown account then ac_registered account else IsRewardAccountRegistered (bl_base b) cred
      | None \<Rightarrow> IsRewardAccountRegistered (bl_base b) cred)"

definition block_RewardAccountBalance :: "BlockLedgerState \<Rightarrow> Credential \<Rightarrow> ledger_error + nat option" where
  "block_RewardAccountBalance b cred =
     (case bl_accounts b cred of
        None \<Rightarrow> RewardAccountBalance (bl_base b) cred
      | Some account \<Rightarrow>
          if ac_registeredKnown account \<and> \<not> ac_registered account then Inr None
          else if \<not> ac_balanceKnown account then RewardAccountBalance (bl_base b) cred
          else if \<not> ac_registeredKnown account then
            (case RewardAccountBalance (bl_base b) cred of
               Inr (Some _) \<Rightarrow> Inr (Some (ac_balance account))
             | r \<Rightarrow> r)
          else Inr (Some (ac_balance account)))"

definition block_PoolCurrentState :: "BlockLedgerState \<Rightarrow> PoolKeyHash \<Rightarrow> ledger_error + (StakePoolRegistration option \<times> nat option)" where
  "block_PoolCurrentState b pool =
     (case bl_pools b pool of
        None \<Rightarrow> PoolCurrentState (bl_base b) pool
      | Some state \<Rightarrow>
          if \<not> bp_registrationKnown state \<or> \<not> bp_retirementKnown state then
            rbind (PoolCurrentState (bl_base b) pool) (\<lambda>(baseReg, baseRetirement).
              Inr (if bp_registrationKnown state then bp_registration state else baseReg,
                   if bp_retirementKnown state then bp_retirementEpoch state else baseRetirement))
          else Inr (bp_registration state, bp_retirementEpoch state))"

definition block_IsPoolRegistered :: "BlockLedgerState \<Rightarrow> PoolKeyHash \<Rightarrow> bool" where
  "block_IsPoolRegistered b pool =
     ((case bl_pools b pool of Some state \<Rightarrow> bp_registrationKnown state \<and> bp_registration state \<noteq> None | None \<Rightarrow> False) \<or>
      IsPoolRegistered (bl_base b) pool)"

definition block_IsVrfKeyInUse :: "BlockLedgerState \<Rightarrow> VrfKeyHash \<Rightarrow> ledger_error + PoolKeyHash option" where
  "block_IsVrfKeyInUse b vrfKeyHash =
     (case bl_vrfKeys b vrfKeyHash of
        Some pool \<Rightarrow> Inr (Some pool)
      | None \<Rightarrow> if vrfKeyHash \<in> bl_vrfReleased b then Inr None else IsVrfKeyInUse (bl_base b) vrfKeyHash)"

text \<open>The key a pool's deferred parameters of this block reserve.\<close>

definition future_key :: "BlockLedgerState \<Rightarrow> PoolKeyHash \<Rightarrow> VrfKeyHash option" where
  "future_key b pool = Option.bind (bl_pools b pool) (\<lambda>state. map_option po_VrfKeyHash (bp_future state))"

definition isFutureVrfKeyInUse ::
  "BlockLedgerState \<Rightarrow> (VrfKeyHash \<Rightarrow> ledger_error + PoolKeyHash option) \<Rightarrow> VrfKeyHash \<Rightarrow> ledger_error + PoolKeyHash option" where
  "isFutureVrfKeyInUse b futureState vrfKeyHash =
     (case (case bl_vrfKeys b vrfKeyHash of Some pool \<Rightarrow> if future_key b pool = Some vrfKeyHash then Some pool else None | None \<Rightarrow> None) of
        Some pool \<Rightarrow> Inr (Some pool)
      | None \<Rightarrow>
          if vrfKeyHash \<in> bl_vrfReleased b then Inr None
          else rbind (futureState vrfKeyHash) (\<lambda>owner.
            case owner of
              None \<Rightarrow> Inr None
            | Some pool \<Rightarrow>
                (case future_key b pool of
                   Some key \<Rightarrow> if key \<noteq> vrfKeyHash then Inr None else Inr (Some pool)
                 | None \<Rightarrow> Inr (Some pool))))"

definition block_IsFutureVrfKeyInUse :: "BlockLedgerState \<Rightarrow> VrfKeyHash \<Rightarrow> ledger_error + PoolKeyHash option" where
  "block_IsFutureVrfKeyInUse b vrfKeyHash =
     (case IsFutureVrfKeyInUse (bl_base b) of
        None \<Rightarrow> Inl FuturePoolParametersStateUnavailable
      | Some futureState \<Rightarrow> isFutureVrfKeyInUse b futureState vrfKeyHash)"

definition block_DRepRegistration :: "BlockLedgerState \<Rightarrow> Credential \<Rightarrow> ledger_error + DRepRegistration option" where
  "block_DRepRegistration b cred =
     (case map_of (bl_dreps b) cred of
        Some drep \<Rightarrow> Inr (bd_registration drep)
      | None \<Rightarrow> ls_DRepRegistration (bl_base b) cred)"

definition block_DRepRegistrations :: "BlockLedgerState \<Rightarrow> ledger_error + DRepRegistration list \<Rightarrow> ledger_error + DRepRegistration list" where
  "block_DRepRegistrations b base =
     rbind base (\<lambda>regs. Inr (filter (\<lambda>reg. map_of (bl_dreps b) (dr_Credential reg) = None) regs @
       List.map_filter (\<lambda>(k, drep). bd_registration drep) (bl_dreps b)))"

definition block_GovActionById :: "BlockLedgerState \<Rightarrow> GovActionId \<Rightarrow> ledger_error + GovActionState option" where
  "block_GovActionById b aid =
     (case bl_proposals b aid of Some state \<Rightarrow> Inr (Some state) | None \<Rightarrow> GovActionById (bl_base b) aid)"

definition block_GovActionExists :: "BlockLedgerState \<Rightarrow> GovActionId \<Rightarrow> bool" where
  "block_GovActionExists b aid = (bl_proposals b aid \<noteq> None \<or> GovActionExists (bl_base b) aid)"

definition coldCredentialsFor :: "BlockLedgerState \<Rightarrow> Credential \<Rightarrow> Credential list" where
  "coldCredentialsFor b hot = map fst (filter (\<lambda>(cold, curHot). curHot = Some hot) (bl_committeeColdHot b))"

definition block_HotCredentialColds ::
  "BlockLedgerState \<Rightarrow> (Credential \<Rightarrow> ledger_error + Credential set) \<Rightarrow> Credential \<Rightarrow> ledger_error + Credential set" where
  "block_HotCredentialColds b base hot =
     rbind (base hot) (\<lambda>baseColds.
       Inr (set (coldCredentialsFor b hot) \<union> {cold \<in> baseColds. map_of (bl_committeeColdHot b) cold = None}))"

text \<open>A member of the committee and the queries of a provider about it (\<open>CommitteeMember\<close> of the ledger
  state and the capabilities \<open>CommitteeCredentialState\<close> and \<open>CommitteeHotCredentialMembers\<close>).  The members of a
  slice are pointers.\<close>

record CommitteeMember =
  cm_ColdKey :: Hash28
  cm_HotKey :: "Hash28 option"
  cm_ExpiryEpoch :: nat
  cm_Resigned :: bool

record committee_provider =
  cp_Member :: "Hash28 \<Rightarrow> ledger_error + CommitteeMember option"
  cp_CredentialMember :: "Credential \<Rightarrow> ledger_error + CommitteeMember option"
  cp_HotCredentialMember :: "Credential \<Rightarrow> ledger_error + CommitteeMember option"
  cp_HotCredentialMembers :: "Credential \<Rightarrow> ledger_error + CommitteeMember option list"

definition applyCommitteeAuthorization :: "BlockLedgerState \<Rightarrow> CommitteeMember \<Rightarrow> CommitteeMember" where
  "applyCommitteeAuthorization b member =
     (case find (\<lambda>(cold, hot). cred_Hash cold = cm_ColdKey member) (bl_committeeColdHot b) of
        None \<Rightarrow> member
      | Some (cold, None) \<Rightarrow> member\<lparr>cm_HotKey := None, cm_Resigned := True\<rparr>
      | Some (cold, Some hot) \<Rightarrow> member\<lparr>cm_HotKey := Some (cred_Hash hot), cm_Resigned := False\<rparr>)"

definition coldCredentialTouched :: "BlockLedgerState \<Rightarrow> Hash28 \<Rightarrow> bool" where
  "coldCredentialTouched b coldHash \<longleftrightarrow> (\<exists>(cold, hot) \<in> set (bl_committeeColdHot b). cred_Hash cold = coldHash)"

definition block_CommitteeMember :: "BlockLedgerState \<Rightarrow> committee_provider \<Rightarrow> Hash28 \<Rightarrow> ledger_error + CommitteeMember option" where
  "block_CommitteeMember b base coldKey =
     rbind (cp_Member base coldKey) (\<lambda>member. Inr (map_option (applyCommitteeAuthorization b) member))"

definition block_CommitteeCredentialMember :: "BlockLedgerState \<Rightarrow> committee_provider \<Rightarrow> Credential \<Rightarrow> ledger_error + CommitteeMember option" where
  "block_CommitteeCredentialMember b base cold =
     rbind (cp_CredentialMember base cold) (\<lambda>member. Inr (map_option (applyCommitteeAuthorization b) member))"

fun firstMember :: "(Credential \<Rightarrow> ledger_error + CommitteeMember option) \<Rightarrow> Credential list \<Rightarrow> ledger_error + CommitteeMember option" where
  "firstMember memberOf [] = Inr None"
| "firstMember memberOf (cold # colds) =
     rbind (memberOf cold) (\<lambda>member. case member of Some m \<Rightarrow> Inr (Some m) | None \<Rightarrow> firstMember memberOf colds)"

definition block_CommitteeHotCredentialMember :: "BlockLedgerState \<Rightarrow> committee_provider \<Rightarrow> Credential \<Rightarrow> ledger_error + CommitteeMember option" where
  "block_CommitteeHotCredentialMember b base hot =
     rbind (firstMember (block_CommitteeCredentialMember b base) (coldCredentialsFor b hot)) (\<lambda>found.
       case found of
         Some m \<Rightarrow> Inr (Some m)
       | None \<Rightarrow> rbind (cp_HotCredentialMember base hot) (\<lambda>member.
           Inr (case member of
                  None \<Rightarrow> None
                | Some m \<Rightarrow> if coldCredentialTouched b (cm_ColdKey m) then None else Some m)))"

definition block_CommitteeHotCredentialMembers :: "BlockLedgerState \<Rightarrow> committee_provider \<Rightarrow> Credential \<Rightarrow> ledger_error + CommitteeMember list" where
  "block_CommitteeHotCredentialMembers b base hot =
     rbind (cp_HotCredentialMembers base hot) (\<lambda>baseMembers.
       Inr (map (\<lambda>cold. \<lparr>cm_ColdKey = cred_Hash cold, cm_HotKey = Some (cred_Hash hot), cm_ExpiryEpoch = 0, cm_Resigned = False\<rparr>)
              (coldCredentialsFor b hot) @
            filter (\<lambda>m. \<not> coldCredentialTouched b (cm_ColdKey m)) (List.map_filter id baseMembers)))"

definition block_PendingInstantaneousRewards :: "BlockLedgerState \<Rightarrow> nat \<Rightarrow> Credential \<Rightarrow> ledger_error + (int \<times> bool)" where
  "block_PendingInstantaneousRewards b source cred =
     rbind (PendingInstantaneousRewards (bl_base b) source cred) (\<lambda>(total, known).
       Inr (case bl_mirPending b (source, cred) of Some delta \<Rightarrow> total + delta | None \<Rightarrow> total, known))"

definition block_StakeCredentialDeposit ::
  "BlockLedgerState \<Rightarrow> (Credential \<Rightarrow> ledger_error + nat option) \<Rightarrow> Credential \<Rightarrow> ledger_error + nat option" where
  "block_StakeCredentialDeposit b base cred =
     (case bl_accounts b cred of
        None \<Rightarrow> base cred
      | Some account \<Rightarrow>
          if \<not> ac_depositKnown account then base cred
          else if \<not> ac_registered account then Inr None
          else Inr (Some (ac_deposit account)))"

text \<open>The credential a DRep names; the two predefined DReps name none.\<close>

definition drep_key :: "Drep \<Rightarrow> Credential option" where
  "drep_key d =
     (if (drep_Type d \<noteq> 0 \<and> drep_Type d \<noteq> 1) \<or> length (drep_Credential d) \<noteq> 28 then None
      else Some \<lparr>CredType = nat (drep_Type d), cred_Hash = drep_Credential d\<rparr>)"

text \<open>The delegation of a credential and the certificate that made it, and what is left of it: one to a
  DRep that deregistered later is cleared.\<close>

definition delegationMade ::
  "BlockLedgerState \<Rightarrow> (Credential \<Rightarrow> ledger_error + Drep option) \<Rightarrow> Credential \<Rightarrow> ledger_error + (Drep option \<times> nat)" where
  "delegationMade b base cred =
     (case bl_accounts b cred of
        Some account \<Rightarrow> if ac_drepKnown account then Inr (ac_drep account, ac_drepSeq account)
                         else rbind (base cred) (\<lambda>d. Inr (d, 0))
      | None \<Rightarrow> rbind (base cred) (\<lambda>d. Inr (d, 0)))"

definition delegationKept :: "(Credential \<times> blockDRep) list \<Rightarrow> Drep option \<Rightarrow> nat \<Rightarrow> Drep option" where
  "delegationKept dreps drep madeAt =
     (case drep of
        None \<Rightarrow> None
      | Some d \<Rightarrow>
          (case drep_key d of
             None \<Rightarrow> Some d
           | Some key \<Rightarrow>
               (case map_of dreps key of
                  Some state \<Rightarrow> if bd_deregSeq state > madeAt then None else Some d
                | None \<Rightarrow> Some d)))"

definition block_DRepDelegation ::
  "BlockLedgerState \<Rightarrow> (Credential \<Rightarrow> ledger_error + Drep option) \<Rightarrow> Credential \<Rightarrow> ledger_error + Drep option" where
  "block_DRepDelegation b base cred =
     rbind (delegationMade b base cred) (\<lambda>(drep, madeAt). Inr (delegationKept (bl_dreps b) drep madeAt))"

text \<open>The overlay as a \<open>LedgerState\<close>; the queries no transaction changes are those of the base.\<close>

definition as_LedgerState :: "BlockLedgerState \<Rightarrow> LedgerState" where
  "as_LedgerState b = (bl_base b)\<lparr>
     UtxoById := block_UtxoById b,
     IsStakeCredentialRegistered := block_IsStakeCredentialRegistered b,
     IsRewardAccountRegistered := block_IsRewardAccountRegistered b,
     RewardAccountBalance := block_RewardAccountBalance b,
     StakeCredentialDeposit := map_option (block_StakeCredentialDeposit b) (StakeCredentialDeposit (bl_base b)),
     PoolCurrentState := block_PoolCurrentState b,
     IsPoolRegistered := block_IsPoolRegistered b,
     IsVrfKeyInUse := block_IsVrfKeyInUse b,
     IsFutureVrfKeyInUse := Some (block_IsFutureVrfKeyInUse b),
     ls_DRepRegistration := block_DRepRegistration b,
     ls_DRepDelegation := map_option (block_DRepDelegation b) (ls_DRepDelegation (bl_base b)),
     GovActionById := block_GovActionById b,
     GovActionExists := block_GovActionExists b,
     HotCredentialColds := map_option (block_HotCredentialColds b) (HotCredentialColds (bl_base b)),
     PendingInstantaneousRewards := block_PendingInstantaneousRewards b\<rparr>"

subsection \<open>Applying a transaction\<close>

definition emptyAccount :: blockAccount where
  "emptyAccount = \<lparr>ac_registered = False, ac_registeredKnown = False, ac_deposit = 0, ac_depositKnown = False,
     ac_balance = 0, ac_balanceKnown = False, ac_drep = None, ac_drepKnown = False, ac_drepSeq = 0\<rparr>"

text \<open>\<open>account\<close>: the record of a credential, created when there is none.\<close>

definition block_account :: "BlockLedgerState \<Rightarrow> Credential \<Rightarrow> blockAccount" where
  "block_account b cred = (case bl_accounts b cred of Some a \<Rightarrow> a | None \<Rightarrow> emptyAccount)"

definition setBalance :: "BlockLedgerState \<Rightarrow> Credential \<Rightarrow> nat \<Rightarrow> BlockLedgerState" where
  "setBalance b cred balance =
     b\<lparr>bl_accounts := (bl_accounts b)(cred \<mapsto> (block_account b cred)\<lparr>ac_balance := balance, ac_balanceKnown := True\<rparr>)\<rparr>"

definition remainingBalance :: "nat option \<Rightarrow> int option \<Rightarrow> nat" where
  "remainingBalance balance amount =
     (case (balance, amount) of
        (Some bal, Some a) \<Rightarrow> if 0 \<le> a \<and> a < 2 ^ 64 \<and> nat a \<le> bal then bal - nat a else 0
      | _ \<Rightarrow> 0)"

fun applyWithdrawals :: "(Address \<Rightarrow> address_error + bytes) \<Rightarrow> BlockLedgerState \<Rightarrow> (Address option \<times> int option) list
    \<Rightarrow> ledger_error + BlockLedgerState" where
  "applyWithdrawals bb b [] = Inr b"
| "applyWithdrawals bb b ((addr, amount) # ws) =
     (case (case addr of None \<Rightarrow> Inl NilAddress | Some a \<Rightarrow> RewardAccountCredential bb a) of
        Inl _ \<Rightarrow> applyWithdrawals bb b ws
      | Inr cred \<Rightarrow>
          rbind (block_RewardAccountBalance b cred) (\<lambda>balance.
            applyWithdrawals bb (setBalance b cred (remainingBalance balance amount)) ws))"

fun applyDirectDeposits :: "BlockLedgerState \<Rightarrow> (Credential \<times> nat) list \<Rightarrow> ledger_error + BlockLedgerState" where
  "applyDirectDeposits b [] = Inr b"
| "applyDirectDeposits b ((cred, amount) # ds) =
     rbind (block_RewardAccountBalance b cred) (\<lambda>balance.
       case balance of
         None \<Rightarrow> applyDirectDeposits b ds
       | Some bal \<Rightarrow> applyDirectDeposits (setBalance b cred ((bal + amount) mod 2 ^ 64)) ds)"

definition registerAccount :: "BlockLedgerState \<Rightarrow> Credential \<Rightarrow> nat \<Rightarrow> BlockLedgerState" where
  "registerAccount b cred deposit =
     b\<lparr>bl_accounts := (bl_accounts b)(cred \<mapsto> emptyAccount\<lparr>ac_registered := True, ac_registeredKnown := True,
         ac_deposit := deposit, ac_depositKnown := True, ac_balanceKnown := True, ac_drepKnown := True\<rparr>)\<rparr>"

definition deregisterAccount :: "BlockLedgerState \<Rightarrow> Credential \<Rightarrow> BlockLedgerState" where
  "deregisterAccount b cred =
     b\<lparr>bl_accounts := (bl_accounts b)(cred \<mapsto> emptyAccount\<lparr>ac_registeredKnown := True, ac_depositKnown := True,
         ac_balanceKnown := True, ac_drepKnown := True\<rparr>)\<rparr>"

definition delegateVote :: "BlockLedgerState \<Rightarrow> Credential \<Rightarrow> Drep \<Rightarrow> BlockLedgerState" where
  "delegateVote b cred drep =
     b\<lparr>bl_accounts := (bl_accounts b)(cred \<mapsto> (block_account b cred)\<lparr>ac_drep := Some drep, ac_drepKnown := True, ac_drepSeq := bl_seq b\<rparr>)\<rparr>"

text \<open>\<open>drep\<close>: the record of a DRep, created with no deregistration when there is none.\<close>

definition block_drep :: "BlockLedgerState \<Rightarrow> Credential \<Rightarrow> blockDRep" where
  "block_drep b cred = (case map_of (bl_dreps b) cred of Some d \<Rightarrow> d | None \<Rightarrow> \<lparr>bd_registration = None, bd_deregSeq = 0\<rparr>)"

definition setDRep :: "BlockLedgerState \<Rightarrow> Credential \<Rightarrow> DRepRegistration option \<Rightarrow> nat \<Rightarrow> BlockLedgerState" where
  "setDRep b cred reg deregSeq =
     b\<lparr>bl_dreps := AList.update cred \<lparr>bd_registration = reg, bd_deregSeq = deregSeq\<rparr> (bl_dreps b)\<rparr>"

text \<open>\<open>pool\<close>: the record of a pool, created when there is none.\<close>

definition block_pool :: "BlockLedgerState \<Rightarrow> PoolKeyHash \<Rightarrow> blockPool" where
  "block_pool b operator = (case bl_pools b operator of
     Some p \<Rightarrow> p
   | None \<Rightarrow> \<lparr>bp_registration = None, bp_registrationKnown = False, bp_future = None, bp_retirementEpoch = None, bp_retirementKnown = False\<rparr>)"

text \<open>The key that a re-registration releases: that of an earlier one in the block, unless it is the
  new key or the key of the current registration.\<close>

definition releasedKey :: "blockPool \<Rightarrow> StakePoolRegistration \<Rightarrow> StakePoolRegistration \<Rightarrow> VrfKeyHash option" where
  "releasedKey pool cert current =
     (case bp_future pool of
        None \<Rightarrow> None
      | Some f \<Rightarrow> if po_VrfKeyHash f \<noteq> po_VrfKeyHash cert \<and> po_VrfKeyHash f \<noteq> po_VrfKeyHash current then Some (po_VrfKeyHash f) else None)"

definition releaseKey :: "VrfKeyHash option \<Rightarrow> BlockLedgerState \<Rightarrow> BlockLedgerState" where
  "releaseKey k b =
     (case k of
        None \<Rightarrow> b
      | Some key \<Rightarrow> b\<lparr>bl_vrfKeys := (bl_vrfKeys b)(key := None), bl_vrfReleased := insert key (bl_vrfReleased b)\<rparr>)"

definition claimKey :: "VrfKeyHash \<Rightarrow> PoolKeyHash \<Rightarrow> BlockLedgerState \<Rightarrow> BlockLedgerState" where
  "claimKey key operator b =
     b\<lparr>bl_vrfKeys := (bl_vrfKeys b)(key \<mapsto> operator), bl_vrfReleased := bl_vrfReleased b - {key}\<rparr>"

definition applyPoolRegistration :: "BlockLedgerState \<Rightarrow> StakePoolRegistration \<Rightarrow> ledger_error + BlockLedgerState" where
  "applyPoolRegistration b cert =
     rbind (block_PoolCurrentState b (po_Operator cert)) (\<lambda>(current, _).
       let pool = block_pool b (po_Operator cert) in
       Inr (claimKey (po_VrfKeyHash cert) (po_Operator cert)
         (case current of
            None \<Rightarrow> b\<lparr>bl_pools := (bl_pools b)(po_Operator cert \<mapsto> pool\<lparr>bp_registration := Some cert, bp_registrationKnown := True,
                        bp_retirementEpoch := None, bp_retirementKnown := True\<rparr>)\<rparr>
          | Some cur \<Rightarrow> (releaseKey (releasedKey pool cert cur) b)\<lparr>bl_pools := (bl_pools b)(po_Operator cert \<mapsto> pool\<lparr>bp_future := Some cert,
                        bp_retirementEpoch := None, bp_retirementKnown := True\<rparr>)\<rparr>)))"

text \<open>\<open>Inr None\<close> is the result \<open>false\<close>: not a pool certificate.\<close>

definition applyPoolCertificate :: "BlockLedgerState \<Rightarrow> Certificate \<Rightarrow> ledger_error + BlockLedgerState option" where
  "applyPoolCertificate b cert =
     (case cert of
        PoolRegistrationCertificate c \<Rightarrow> rbind (applyPoolRegistration b c) (\<lambda>b'. Inr (Some b'))
      | PoolRetirementCertificate operator epoch \<Rightarrow>
          Inr (Some (b\<lparr>bl_pools := (bl_pools b)(operator \<mapsto> (block_pool b operator)\<lparr>bp_retirementEpoch := Some epoch, bp_retirementKnown := True\<rparr>)\<rparr>))
      | _ \<Rightarrow> Inr None)"

fun ApplyPoolCertificates :: "BlockLedgerState \<Rightarrow> Certificate list \<Rightarrow> ledger_error + BlockLedgerState" where
  "ApplyPoolCertificates b [] = Inr b"
| "ApplyPoolCertificates b (cert # certs) =
     rbind (applyPoolCertificate b cert) (\<lambda>r. ApplyPoolCertificates (case r of Some b' \<Rightarrow> b' | None \<Rightarrow> b) certs)"

text \<open>The key deposit of the protocol parameters: \<open>None\<close> when they do not expose one.\<close>

definition blockKeyDeposit :: "int option option \<Rightarrow> ledger_error + nat" where
  "blockKeyDeposit pp =
     (case pp of
        None \<Rightarrow> Inl KeyDepositNotExposed
      | Some None \<Rightarrow> Inl (InvalidKeyDeposit None)
      | Some (Some amount) \<Rightarrow> if 0 \<le> amount \<and> amount < 2 ^ 64 then Inr (nat amount) else Inl (InvalidKeyDeposit (Some amount)))"

text \<open>The rewards of a certificate that moves instantaneous rewards, added one by one.\<close>

fun addMir :: "nat \<Rightarrow> (Credential option \<times> int option) list \<Rightarrow> ((nat \<times> Credential) \<rightharpoonup> int) \<Rightarrow> ((nat \<times> Credential) \<rightharpoonup> int)" where
  "addMir source [] m = m"
| "addMir source ((Some cred, Some delta) # rs) m =
     addMir source rs (m((source, cred) \<mapsto> (case m (source, cred) of Some prior \<Rightarrow> delta + prior | None \<Rightarrow> delta)))"
| "addMir source (_ # rs) m = addMir source rs m"

definition applyOtherCertificate :: "int option option \<Rightarrow> BlockLedgerState \<Rightarrow> Certificate \<Rightarrow> ledger_error + BlockLedgerState" where
  "applyOtherCertificate pp b cert =
     (case cert of
        StakeRegistrationCertificate cred \<Rightarrow> rbind (blockKeyDeposit pp) (\<lambda>deposit. Inr (registerAccount b cred deposit))
      | RegistrationCertificate cred amount \<Rightarrow> Inr (registerAccount b cred amount)
      | StakeRegistrationDelegationCertificate cred _ amount \<Rightarrow> Inr (registerAccount b cred amount)
      | VoteRegistrationDelegationCertificate cred drep amount \<Rightarrow> Inr (delegateVote (registerAccount b cred amount) cred drep)
      | StakeVoteRegistrationDelegationCertificate cred _ drep amount \<Rightarrow> Inr (delegateVote (registerAccount b cred amount) cred drep)
      | StakeDeregistrationCertificate cred \<Rightarrow> Inr (deregisterAccount b cred)
      | DeregistrationCertificate cred _ \<Rightarrow> Inr (deregisterAccount b cred)
      | VoteDelegationCertificate cred drep \<Rightarrow> Inr (delegateVote b cred drep)
      | StakeVoteDelegationCertificate cred _ drep \<Rightarrow> Inr (delegateVote b cred drep)
      | MoveInstantaneousRewardsCertificate source rewards _ \<Rightarrow>
          Inr (b\<lparr>bl_mirPending := addMir source (case rewards of None \<Rightarrow> [] | Some rs \<Rightarrow> rs) (bl_mirPending b)\<rparr>)
      | RegistrationDrepCertificate cred amount anchor \<Rightarrow>
          Inr (setDRep b cred (Some \<lparr>dr_Credential = cred, dr_Anchor = anchor, dr_Deposit = Some amount\<rparr>) (bd_deregSeq (block_drep b cred)))
      | UpdateDrepCertificate cred anchor \<Rightarrow>
          rbind (block_DRepRegistration b cred) (\<lambda>reg.
            case reg of
              None \<Rightarrow> Inr b
            | Some r \<Rightarrow> Inr (setDRep b cred (Some (r\<lparr>dr_Anchor := anchor\<rparr>)) (bd_deregSeq (block_drep b cred))))
      | DeregistrationDrepCertificate cred _ \<Rightarrow> Inr (setDRep b cred None (bl_seq b))
      | AuthCommitteeHotCertificate cold hot \<Rightarrow> Inr (b\<lparr>bl_committeeColdHot := AList.update cold (Some hot) (bl_committeeColdHot b)\<rparr>)
      | ResignCommitteeColdCertificate cold _ \<Rightarrow> Inr (b\<lparr>bl_committeeColdHot := AList.update cold None (bl_committeeColdHot b)\<rparr>)
      | _ \<Rightarrow> Inr b)"

definition applyCertificate :: "int option option \<Rightarrow> BlockLedgerState \<Rightarrow> Certificate \<Rightarrow> ledger_error + BlockLedgerState" where
  "applyCertificate pp b cert =
     (let b1 = b\<lparr>bl_seq := bl_seq b + 1\<rparr> in
      rbind (applyPoolCertificate b1 cert) (\<lambda>applied.
        case applied of Some b2 \<Rightarrow> Inr b2 | None \<Rightarrow> applyOtherCertificate pp b1 cert))"

fun applyCertificates :: "int option option \<Rightarrow> BlockLedgerState \<Rightarrow> Certificate list \<Rightarrow> ledger_error + BlockLedgerState" where
  "applyCertificates pp b [] = Inr b"
| "applyCertificates pp b (cert # certs) = rbind (applyCertificate pp b cert) (\<lambda>b'. applyCertificates pp b' certs)"

definition blockGovActionType :: "GovAction option \<Rightarrow> GovActionType option" where
  "blockGovActionType action =
     (case action of
        None \<Rightarrow> None
      | Some (ParameterChangeGovAction _) \<Rightarrow> Some GovActionTypeParameterChange
      | Some (HardForkInitiationGovAction _) \<Rightarrow> Some GovActionTypeHardForkInitiation
      | Some (TreasuryWithdrawalGovAction _) \<Rightarrow> Some GovActionTypeTreasuryWithdrawal
      | Some (NoConfidenceGovAction _) \<Rightarrow> Some GovActionTypeNoConfidence
      | Some (UpdateCommitteeGovAction _) \<Rightarrow> Some GovActionTypeUpdateCommittee
      | Some (NewConstitutionGovAction _) \<Rightarrow> Some GovActionTypeNewConstitution
      | Some (InfoGovAction _) \<Rightarrow> Some GovActionTypeInfo
      | Some (OtherGovAction _) \<Rightarrow> None)"

abbreviation (input) MaxGovActionIdx :: nat where "MaxGovActionIdx \<equiv> 65535"

text \<open>What is recorded of a proposal, and the loop over the proposals from index \<open>idx\<close>; it breaks past
  the largest index.\<close>

definition proposalState :: "TxId \<Rightarrow> nat \<Rightarrow> GovAction option \<Rightarrow> (GovActionId \<times> GovActionState) option" where
  "proposalState levelId idx action =
     (case (blockGovActionType action, action) of
        (Some t, Some a) \<Rightarrow>
          (let aid = \<lparr>ga_TransactionId = levelId, ga_Idx = idx\<rparr> in
           Some (aid, \<lparr>gs_ActionId = aid, gs_ActionType = t, gs_ExpirySlot = 2 ^ 64 - 1, gs_Action = a\<rparr>))
      | _ \<Rightarrow> None)"

fun recordProposals :: "TxId \<Rightarrow> nat \<Rightarrow> GovAction option list \<Rightarrow> (GovActionId \<rightharpoonup> GovActionState) \<Rightarrow> (GovActionId \<rightharpoonup> GovActionState)" where
  "recordProposals levelId idx [] m = m"
| "recordProposals levelId idx (action # actions) m =
     (if idx > MaxGovActionIdx then m
      else recordProposals levelId (idx + 1) actions
        (case proposalState levelId idx action of Some (aid, state) \<Rightarrow> m(aid \<mapsto> state) | None \<Rightarrow> m))"

definition applyLevel :: "(Address \<Rightarrow> address_error + bytes) \<Rightarrow> int option option \<Rightarrow> BlockLedgerState \<Rightarrow> LedgerEffectLevel \<Rightarrow> ledger_error + BlockLedgerState" where
  "applyLevel bb pp b level =
     rbind (applyWithdrawals bb b (lv_Withdrawals level)) (\<lambda>b1.
     rbind (applyCertificates pp b1 (lv_Certificates level)) (\<lambda>b2.
     rbind (applyDirectDeposits b2 (lv_DirectDeposits level)) (\<lambda>b3.
       Inr (b3\<lparr>bl_proposals := recordProposals (lv_Id level) 0 (lv_Proposals level) (bl_proposals b3)\<rparr>))))"

fun applyLevels :: "(Address \<Rightarrow> address_error + bytes) \<Rightarrow> int option option \<Rightarrow> BlockLedgerState \<Rightarrow> LedgerEffectLevel list \<Rightarrow> ledger_error + BlockLedgerState" where
  "applyLevels bb pp b [] = Inr b"
| "applyLevels bb pp b (level # levels) = rbind (applyLevel bb pp b level) (\<lambda>b'. applyLevels bb pp b' levels)"

text \<open>The certificates of \<open>ApplyCertificateDepositLevel\<close>.\<close>

definition depositCertificate :: "Certificate \<Rightarrow> bool" where
  "depositCertificate cert =
     (case cert of
        StakeRegistrationCertificate _ \<Rightarrow> True | RegistrationCertificate _ _ \<Rightarrow> True
      | StakeRegistrationDelegationCertificate _ _ _ \<Rightarrow> True | VoteRegistrationDelegationCertificate _ _ _ \<Rightarrow> True
      | StakeVoteRegistrationDelegationCertificate _ _ _ _ \<Rightarrow> True | StakeDeregistrationCertificate _ \<Rightarrow> True
      | DeregistrationCertificate _ _ \<Rightarrow> True | RegistrationDrepCertificate _ _ _ \<Rightarrow> True
      | UpdateDrepCertificate _ _ \<Rightarrow> True | DeregistrationDrepCertificate _ _ \<Rightarrow> True | _ \<Rightarrow> False)"

definition ApplyCertificateDepositLevel ::
  "(Address \<Rightarrow> address_error + bytes) \<Rightarrow> int option option \<Rightarrow> BlockLedgerState \<Rightarrow> LedgerEffectLevel \<Rightarrow> ledger_error + BlockLedgerState" where
  "ApplyCertificateDepositLevel bb pp b level =
     rbind (applyWithdrawals bb b (lv_Withdrawals level)) (\<lambda>b1.
     rbind (applyCertificates pp b1 (filter depositCertificate (lv_Certificates level))) (\<lambda>b2.
       applyDirectDeposits b2 (lv_DirectDeposits level)))"

definition consumeInput :: "TransactionInput \<Rightarrow> BlockLedgerState \<Rightarrow> BlockLedgerState" where
  "consumeInput input b = b\<lparr>bl_created := (bl_created b)(input := None), bl_spent := insert input (bl_spent b)\<rparr>"

definition produceOutput :: "Utxo \<Rightarrow> BlockLedgerState \<Rightarrow> BlockLedgerState" where
  "produceOutput utxo b = b\<lparr>bl_spent := bl_spent b - {fst utxo}, bl_created := (bl_created b)(fst utxo \<mapsto> utxo)\<rparr>"

text \<open>The single level of a transaction that does not implement \<open>LeveledTransaction\<close>.\<close>

definition bodyLevel :: "Transaction \<Rightarrow> LedgerEffectLevel" where
  "bodyLevel tx = \<lparr>lv_Id = tx_Hash tx, lv_Withdrawals = tx_Withdrawals tx, lv_Certificates = tx_Certificates tx,
     lv_Proposals = tx_Proposals tx, lv_DirectDeposits = []\<rparr>"

definition ApplyTransaction ::
  "(Address \<Rightarrow> address_error + bytes) \<Rightarrow> int option option \<Rightarrow> BlockLedgerState \<Rightarrow> Transaction \<Rightarrow> ledger_error + BlockLedgerState" where
  "ApplyTransaction bb pp b tx =
     (let b1 = fold produceOutput (tx_Produced tx) (fold consumeInput (tx_Consumed tx) b) in
      if \<not> tx_IsValid tx then Inr b1
      else rbind (case tx_Levels tx of None \<Rightarrow> Inr [bodyLevel tx] | Some levels \<Rightarrow> levels) (applyLevels bb pp b1))"

subsection \<open>The specification: effects applied at once\<close>

text \<open>A ledger state together with the parameters that registered pools have deferred to the next
  epoch in this block.\<close>

record AppliedState = LedgerState +
  deferredParameters :: "PoolKeyHash \<rightharpoonup> StakePoolRegistration"

text \<open>The index of the VRF keys of deferred parameters is left out of the comparison.\<close>

definition applied_start :: "LedgerState \<Rightarrow> AppliedState" where
  "applied_start ls = LedgerState.extend (ls\<lparr>IsFutureVrfKeyInUse := None\<rparr>) (AppliedState.fields Map.empty)"

definition block_view :: "BlockLedgerState \<Rightarrow> AppliedState" where
  "block_view b = LedgerState.extend ((as_LedgerState b)\<lparr>IsFutureVrfKeyInUse := None\<rparr>)
     (AppliedState.fields (\<lambda>p. Option.bind (bl_pools b p) bp_future))"

definition spend :: "TransactionInput \<Rightarrow> AppliedState \<Rightarrow> AppliedState" where
  "spend i s = s\<lparr>UtxoById := (UtxoById s)(i := Inl (ErrUtxoSpentInBlock i))\<rparr>"

definition create :: "Utxo \<Rightarrow> AppliedState \<Rightarrow> AppliedState" where
  "create u s = s\<lparr>UtxoById := (UtxoById s)(fst u := Inr u)\<rparr>"

definition set_balance :: "Credential \<Rightarrow> nat \<Rightarrow> AppliedState \<Rightarrow> AppliedState" where
  "set_balance c v s = s\<lparr>RewardAccountBalance := (RewardAccountBalance s)(c := Inr (Some v))\<rparr>"

fun withdraw :: "(Address \<Rightarrow> address_error + bytes) \<Rightarrow> (Address option \<times> int option) list \<Rightarrow> AppliedState \<Rightarrow> ledger_error + AppliedState" where
  "withdraw bb [] s = Inr s"
| "withdraw bb ((None, amount) # ws) s = withdraw bb ws s"
| "withdraw bb ((Some a, amount) # ws) s =
     (case RewardAccountCredential bb a of
        Inl _ \<Rightarrow> withdraw bb ws s
      | Inr c \<Rightarrow> rbind (RewardAccountBalance s c) (\<lambda>balance.
          withdraw bb ws (case balance of None \<Rightarrow> s | Some bal \<Rightarrow> set_balance c (remainingBalance (Some bal) amount) s)))"

fun deposit_direct :: "(Credential \<times> nat) list \<Rightarrow> AppliedState \<Rightarrow> ledger_error + AppliedState" where
  "deposit_direct [] s = Inr s"
| "deposit_direct ((c, amount) # ds) s =
     rbind (RewardAccountBalance s c) (\<lambda>balance.
       deposit_direct ds (case balance of None \<Rightarrow> s | Some bal \<Rightarrow> set_balance c ((bal + amount) mod 2 ^ 64) s))"

definition register :: "Credential \<Rightarrow> nat \<Rightarrow> AppliedState \<Rightarrow> AppliedState" where
  "register c d s = s\<lparr>IsStakeCredentialRegistered := (IsStakeCredentialRegistered s)(c := True),
     IsRewardAccountRegistered := (IsRewardAccountRegistered s)(c := True),
     RewardAccountBalance := (RewardAccountBalance s)(c := Inr (Some 0)),
     StakeCredentialDeposit := map_option (\<lambda>f. f(c := Inr (Some d))) (StakeCredentialDeposit s),
     ls_DRepDelegation := map_option (\<lambda>f. f(c := Inr None)) (ls_DRepDelegation s)\<rparr>"

definition deregister :: "Credential \<Rightarrow> AppliedState \<Rightarrow> AppliedState" where
  "deregister c s = s\<lparr>IsStakeCredentialRegistered := (IsStakeCredentialRegistered s)(c := False),
     IsRewardAccountRegistered := (IsRewardAccountRegistered s)(c := False),
     RewardAccountBalance := (RewardAccountBalance s)(c := Inr None),
     StakeCredentialDeposit := map_option (\<lambda>f. f(c := Inr None)) (StakeCredentialDeposit s),
     ls_DRepDelegation := map_option (\<lambda>f. f(c := Inr None)) (ls_DRepDelegation s)\<rparr>"

definition delegate_vote :: "Credential \<Rightarrow> Drep \<Rightarrow> AppliedState \<Rightarrow> AppliedState" where
  "delegate_vote c d s = s\<lparr>ls_DRepDelegation := map_option (\<lambda>f. f(c := Inr (Some d))) (ls_DRepDelegation s)\<rparr>"

definition set_drep :: "Credential \<Rightarrow> DRepRegistration \<Rightarrow> AppliedState \<Rightarrow> AppliedState" where
  "set_drep c r s = s\<lparr>ls_DRepRegistration := (ls_DRepRegistration s)(c := Inr (Some r))\<rparr>"

text \<open>A DRep that deregisters loses every delegation to it.\<close>

definition clear_delegations :: "Credential \<Rightarrow> (Credential \<Rightarrow> ledger_error + Drep option) \<Rightarrow> Credential \<Rightarrow> ledger_error + Drep option" where
  "clear_delegations k f c =
     (case f c of
        Inr (Some d) \<Rightarrow> if drep_key d = Some k then Inr None else Inr (Some d)
      | r \<Rightarrow> r)"

definition remove_drep :: "Credential \<Rightarrow> AppliedState \<Rightarrow> AppliedState" where
  "remove_drep c s = s\<lparr>ls_DRepRegistration := (ls_DRepRegistration s)(c := Inr None),
     ls_DRepDelegation := map_option (clear_delegations c) (ls_DRepDelegation s)\<rparr>"

definition authorize :: "Credential \<Rightarrow> Credential option \<Rightarrow> AppliedState \<Rightarrow> AppliedState" where
  "authorize cold hot s = s\<lparr>HotCredentialColds := map_option (\<lambda>f h. rbind (f h) (\<lambda>colds.
     Inr (if hot = Some h then insert cold colds else colds - {cold}))) (HotCredentialColds s)\<rparr>"

definition add_pending :: "nat \<Rightarrow> Credential \<Rightarrow> int \<Rightarrow> AppliedState \<Rightarrow> AppliedState" where
  "add_pending source c delta s = s\<lparr>PendingInstantaneousRewards := (\<lambda>source' c'. rbind (PendingInstantaneousRewards s source' c')
     (\<lambda>(total, known). Inr (if source' = source \<and> c' = c then total + delta else total, known)))\<rparr>"

definition retire :: "PoolKeyHash \<Rightarrow> nat option \<Rightarrow> AppliedState \<Rightarrow> AppliedState" where
  "retire p epoch s = s\<lparr>PoolCurrentState := (PoolCurrentState s)(p := rbind (PoolCurrentState s p) (\<lambda>(reg, _). Inr (reg, epoch)))\<rparr>"

text \<open>A new pool becomes current at once; a registered pool defers its parameters, drops a pending
  retirement, and gives up the VRF key of the parameters it deferred before in this block.\<close>

definition new_pool :: "StakePoolRegistration \<Rightarrow> AppliedState \<Rightarrow> AppliedState" where
  "new_pool r s = s\<lparr>PoolCurrentState := (PoolCurrentState s)(po_Operator r := Inr (Some r, None)),
     IsPoolRegistered := (IsPoolRegistered s)(po_Operator r := True),
     IsVrfKeyInUse := (IsVrfKeyInUse s)(po_VrfKeyHash r := Inr (Some (po_Operator r)))\<rparr>"

definition defer_parameters :: "StakePoolRegistration \<Rightarrow> StakePoolRegistration \<Rightarrow> AppliedState \<Rightarrow> AppliedState" where
  "defer_parameters current r s =
     (let keys = (case deferredParameters s (po_Operator r) of
                    None \<Rightarrow> IsVrfKeyInUse s
                  | Some f \<Rightarrow> if po_VrfKeyHash f = po_VrfKeyHash current then IsVrfKeyInUse s
                              else (IsVrfKeyInUse s)(po_VrfKeyHash f := Inr None)) in
      (retire (po_Operator r) None s)\<lparr>IsVrfKeyInUse := keys(po_VrfKeyHash r := Inr (Some (po_Operator r))),
         deferredParameters := (deferredParameters s)(po_Operator r \<mapsto> r)\<rparr>)"

definition register_pool :: "StakePoolRegistration \<Rightarrow> AppliedState \<Rightarrow> ledger_error + AppliedState" where
  "register_pool r s =
     rbind (PoolCurrentState s (po_Operator r)) (\<lambda>(current, _).
       Inr (case current of None \<Rightarrow> new_pool r s | Some cur \<Rightarrow> defer_parameters cur r s))"

definition propose :: "TxId \<Rightarrow> GovAction option list \<Rightarrow> AppliedState \<Rightarrow> AppliedState" where
  "propose txid ps s =
     (let new = recordProposals txid 0 ps Map.empty in
      s\<lparr>GovActionById := (\<lambda>aid. case new aid of Some st \<Rightarrow> Inr (Some st) | None \<Rightarrow> GovActionById s aid),
        GovActionExists := (\<lambda>aid. new aid \<noteq> None \<or> GovActionExists s aid)\<rparr>)"

definition certify :: "int option option \<Rightarrow> Certificate \<Rightarrow> AppliedState \<Rightarrow> ledger_error + AppliedState" where
  "certify pp cert s =
     (case cert of
        PoolRegistrationCertificate r \<Rightarrow> register_pool r s
      | PoolRetirementCertificate p epoch \<Rightarrow> Inr (retire p (Some epoch) s)
      | StakeRegistrationCertificate c \<Rightarrow> rbind (blockKeyDeposit pp) (\<lambda>d. Inr (register c d s))
      | RegistrationCertificate c d \<Rightarrow> Inr (register c d s)
      | StakeRegistrationDelegationCertificate c _ d \<Rightarrow> Inr (register c d s)
      | VoteRegistrationDelegationCertificate c v d \<Rightarrow> Inr (delegate_vote c v (register c d s))
      | StakeVoteRegistrationDelegationCertificate c _ v d \<Rightarrow> Inr (delegate_vote c v (register c d s))
      | StakeDeregistrationCertificate c \<Rightarrow> Inr (deregister c s)
      | DeregistrationCertificate c _ \<Rightarrow> Inr (deregister c s)
      | VoteDelegationCertificate c v \<Rightarrow> Inr (delegate_vote c v s)
      | StakeVoteDelegationCertificate c _ v \<Rightarrow> Inr (delegate_vote c v s)
      | MoveInstantaneousRewardsCertificate source rewards _ \<Rightarrow>
          Inr (fold (\<lambda>r s. case r of (Some c, Some delta) \<Rightarrow> add_pending source c delta s | _ \<Rightarrow> s)
                 (case rewards of None \<Rightarrow> [] | Some rs \<Rightarrow> rs) s)
      | RegistrationDrepCertificate c d anchor \<Rightarrow> Inr (set_drep c \<lparr>dr_Credential = c, dr_Anchor = anchor, dr_Deposit = Some d\<rparr> s)
      | UpdateDrepCertificate c anchor \<Rightarrow>
          rbind (ls_DRepRegistration s c) (\<lambda>reg. Inr (case reg of None \<Rightarrow> s | Some r \<Rightarrow> set_drep c (r\<lparr>dr_Anchor := anchor\<rparr>) s))
      | DeregistrationDrepCertificate c _ \<Rightarrow> Inr (remove_drep c s)
      | AuthCommitteeHotCertificate cold hot \<Rightarrow> Inr (authorize cold (Some hot) s)
      | ResignCommitteeColdCertificate cold _ \<Rightarrow> Inr (authorize cold None s)
      | StakeDelegationCertificate _ _ \<Rightarrow> Inr s
      | GenesisKeyDelegationCertificate _ _ _ \<Rightarrow> Inr s)"

fun certify_all :: "int option option \<Rightarrow> Certificate list \<Rightarrow> AppliedState \<Rightarrow> ledger_error + AppliedState" where
  "certify_all pp [] s = Inr s"
| "certify_all pp (c # cs) s = rbind (certify pp c s) (certify_all pp cs)"

definition apply_level :: "(Address \<Rightarrow> address_error + bytes) \<Rightarrow> int option option \<Rightarrow> LedgerEffectLevel \<Rightarrow> AppliedState \<Rightarrow> ledger_error + AppliedState" where
  "apply_level bb pp l s =
     rbind (withdraw bb (lv_Withdrawals l) s) (\<lambda>s.
     rbind (certify_all pp (lv_Certificates l) s) (\<lambda>s.
     rbind (deposit_direct (lv_DirectDeposits l) s) (\<lambda>s. Inr (propose (lv_Id l) (lv_Proposals l) s))))"

fun apply_levels :: "(Address \<Rightarrow> address_error + bytes) \<Rightarrow> int option option \<Rightarrow> LedgerEffectLevel list \<Rightarrow> AppliedState \<Rightarrow> ledger_error + AppliedState" where
  "apply_levels bb pp [] s = Inr s"
| "apply_levels bb pp (l # ls) s = rbind (apply_level bb pp l s) (apply_levels bb pp ls)"

definition apply_tx :: "(Address \<Rightarrow> address_error + bytes) \<Rightarrow> int option option \<Rightarrow> Transaction \<Rightarrow> AppliedState \<Rightarrow> ledger_error + AppliedState" where
  "apply_tx bb pp tx s =
     (let s = fold create (tx_Produced tx) (fold spend (tx_Consumed tx) s) in
      if tx_IsValid tx then rbind (case tx_Levels tx of None \<Rightarrow> Inr [bodyLevel tx] | Some levels \<Rightarrow> levels) (\<lambda>levels. apply_levels bb pp levels s)
      else Inr s)"

subsection \<open>The overlay refines it\<close>

definition block_inv :: "BlockLedgerState \<Rightarrow> bool" where
  "block_inv b \<longleftrightarrow>
     (\<forall>c a. bl_accounts b c = Some a \<longrightarrow> (ac_registeredKnown a \<longrightarrow> ac_balanceKnown a) \<and> ac_drepSeq a \<le> bl_seq b) \<and>
     (\<forall>c d. map_of (bl_dreps b) c = Some d \<longrightarrow> bd_deregSeq d \<le> bl_seq b) \<and>
     (\<forall>p st. bl_pools b p = Some st \<longrightarrow> bp_registrationKnown st \<longrightarrow> bp_retirementKnown st) \<and>
     distinct (map fst (bl_committeeColdHot b))"

lemma view_fields [simp]:
  "UtxoById (block_view b) = block_UtxoById b"
  "IsStakeCredentialRegistered (block_view b) = block_IsStakeCredentialRegistered b"
  "IsRewardAccountRegistered (block_view b) = block_IsRewardAccountRegistered b"
  "RewardAccountBalance (block_view b) = block_RewardAccountBalance b"
  "StakeCredentialDeposit (block_view b) = map_option (block_StakeCredentialDeposit b) (StakeCredentialDeposit (bl_base b))"
  "PoolCurrentState (block_view b) = block_PoolCurrentState b"
  "IsPoolRegistered (block_view b) = block_IsPoolRegistered b"
  "IsVrfKeyInUse (block_view b) = block_IsVrfKeyInUse b"
  "IsFutureVrfKeyInUse (block_view b) = None"
  "ls_DRepRegistration (block_view b) = block_DRepRegistration b"
  "ls_DRepDelegation (block_view b) = map_option (block_DRepDelegation b) (ls_DRepDelegation (bl_base b))"
  "GovActionById (block_view b) = block_GovActionById b"
  "GovActionExists (block_view b) = block_GovActionExists b"
  "HotCredentialColds (block_view b) = map_option (block_HotCredentialColds b) (HotCredentialColds (bl_base b))"
  "PendingInstantaneousRewards (block_view b) = block_PendingInstantaneousRewards b"
  "EpochForSlot (block_view b) = EpochForSlot (bl_base b)"
  "ls_GenesisDelegation (block_view b) = ls_GenesisDelegation (bl_base b)"
  "ProtocolParameterUpdateWindow (block_view b) = ProtocolParameterUpdateWindow (bl_base b)"
  "ls_NetworkId (block_view b) = ls_NetworkId (bl_base b)"
  "deferredParameters (block_view b) = (\<lambda>p. Option.bind (bl_pools b p) bp_future)"
  by (simp_all add: block_view_def as_LedgerState_def LedgerState.defs AppliedState.defs)

lemmas query_defs = block_UtxoById_def block_IsStakeCredentialRegistered_def block_IsRewardAccountRegistered_def
  block_RewardAccountBalance_def block_PoolCurrentState_def block_IsPoolRegistered_def block_IsVrfKeyInUse_def
  block_DRepRegistration_def block_GovActionById_def block_GovActionExists_def block_PendingInstantaneousRewards_def
  block_StakeCredentialDeposit_def block_HotCredentialColds_def block_DRepDelegation_def delegationMade_def

text \<open>Two states are equal when they answer every query alike.\<close>

lemma applied_eqI:
  fixes s t :: AppliedState
  assumes "\<And>i. UtxoById s i = UtxoById t i"
    and "\<And>c. IsStakeCredentialRegistered s c = IsStakeCredentialRegistered t c"
    and "\<And>c. IsRewardAccountRegistered s c = IsRewardAccountRegistered t c"
    and "\<And>c. RewardAccountBalance s c = RewardAccountBalance t c"
    and "StakeCredentialDeposit s = StakeCredentialDeposit t"
    and "\<And>p. PoolCurrentState s p = PoolCurrentState t p"
    and "\<And>p. IsPoolRegistered s p = IsPoolRegistered t p"
    and "\<And>k. IsVrfKeyInUse s k = IsVrfKeyInUse t k"
    and "IsFutureVrfKeyInUse s = IsFutureVrfKeyInUse t"
    and "\<And>c. ls_DRepRegistration s c = ls_DRepRegistration t c"
    and "ls_DRepDelegation s = ls_DRepDelegation t"
    and "\<And>i. GovActionById s i = GovActionById t i"
    and "\<And>i. GovActionExists s i = GovActionExists t i"
    and "HotCredentialColds s = HotCredentialColds t"
    and "\<And>k c. PendingInstantaneousRewards s k c = PendingInstantaneousRewards t k c"
    and "EpochForSlot s = EpochForSlot t" "ls_GenesisDelegation s = ls_GenesisDelegation t"
    and "ProtocolParameterUpdateWindow s = ProtocolParameterUpdateWindow t" "ls_NetworkId s = ls_NetworkId t"
    and "\<And>p. deferredParameters s p = deferredParameters t p"
  shows "s = t"
  by (intro AppliedState.equality ext) (use assms in simp_all)

lemma applied_start_fields [simp]:
  "UtxoById (applied_start ls) = UtxoById ls"
  "IsStakeCredentialRegistered (applied_start ls) = IsStakeCredentialRegistered ls"
  "IsRewardAccountRegistered (applied_start ls) = IsRewardAccountRegistered ls"
  "RewardAccountBalance (applied_start ls) = RewardAccountBalance ls"
  "StakeCredentialDeposit (applied_start ls) = StakeCredentialDeposit ls"
  "PoolCurrentState (applied_start ls) = PoolCurrentState ls"
  "IsPoolRegistered (applied_start ls) = IsPoolRegistered ls"
  "IsVrfKeyInUse (applied_start ls) = IsVrfKeyInUse ls"
  "IsFutureVrfKeyInUse (applied_start ls) = None"
  "ls_DRepRegistration (applied_start ls) = ls_DRepRegistration ls"
  "ls_DRepDelegation (applied_start ls) = ls_DRepDelegation ls"
  "GovActionById (applied_start ls) = GovActionById ls"
  "GovActionExists (applied_start ls) = GovActionExists ls"
  "HotCredentialColds (applied_start ls) = HotCredentialColds ls"
  "PendingInstantaneousRewards (applied_start ls) = PendingInstantaneousRewards ls"
  "EpochForSlot (applied_start ls) = EpochForSlot ls"
  "ls_GenesisDelegation (applied_start ls) = ls_GenesisDelegation ls"
  "ProtocolParameterUpdateWindow (applied_start ls) = ProtocolParameterUpdateWindow ls"
  "ls_NetworkId (applied_start ls) = ls_NetworkId ls"
  "deferredParameters (applied_start ls) = Map.empty"
  by (simp_all add: applied_start_def LedgerState.defs AppliedState.defs)

lemma rbind_return [simp]: "rbind r Inr = r" "rbind r (\<lambda>(x, y). Inr (x, y)) = r"
  by (cases r; auto)+

lemma map_option_same: "(\<And>f x. g f x = f x) \<Longrightarrow> map_option g cap = cap"
  by (cases cap) (auto simp: fun_eq_iff)

lemma view_start: "block_view (NewBlockLedgerState ls) = applied_start ls"
proof (rule applied_eqI)
  show "StakeCredentialDeposit (block_view (NewBlockLedgerState ls)) = StakeCredentialDeposit (applied_start ls)"
    "ls_DRepDelegation (block_view (NewBlockLedgerState ls)) = ls_DRepDelegation (applied_start ls)"
    "HotCredentialColds (block_view (NewBlockLedgerState ls)) = HotCredentialColds (applied_start ls)"
    by (auto simp: NewBlockLedgerState_def query_defs coldCredentialsFor_def delegationKept_def rbind_def intro!: map_option_same split: sum.splits option.splits)
qed (simp_all add: NewBlockLedgerState_def query_defs)

lemma inv_start: "block_inv (NewBlockLedgerState ls)"
  by (simp add: block_inv_def NewBlockLedgerState_def)

subsubsection \<open>Accounts\<close>

lemma delegationKept_None [simp]: "delegationKept dreps None n = None"
  by (simp add: delegationKept_def)

lemma map_option_eq_iff: "map_option f x = map_option g x \<longleftrightarrow> (\<forall>y. x = Some y \<longrightarrow> f y = g y)"
  by (cases x) auto

lemmas case_congs = option.case_cong sum.case_cong prod.case_cong if_cong
lemmas view_simps = query_defs coldCredentialsFor_def option.map_comp comp_def map_option_eq_iff fun_eq_iff

lemma view_spend: "block_view (consumeInput i b) = spend i (block_view b)"
  by (rule applied_eqI) (simp_all add: consumeInput_def spend_def view_simps cong: case_congs)

lemma view_create: "block_view (produceOutput u b) = create u (block_view b)"
  by (rule applied_eqI) (simp_all add: produceOutput_def create_def view_simps cong: case_congs)

lemma view_register: "block_view (registerAccount b c d) = register c d (block_view b)"
  by (rule applied_eqI) (simp_all add: registerAccount_def register_def emptyAccount_def view_simps cong: case_congs)

lemma view_deregister: "block_view (deregisterAccount b c) = deregister c (block_view b)"
  by (rule applied_eqI) (simp_all add: deregisterAccount_def deregister_def emptyAccount_def view_simps cong: case_congs)

lemma view_seq: "block_view (b\<lparr>bl_seq := n\<rparr>) = block_view b"
  by (rule applied_eqI) (simp_all add: view_simps cong: case_congs)

lemma view_set_balance:
  assumes "block_inv b" "block_RewardAccountBalance b c = Inr balance"
  shows "block_view (setBalance b c v) = (case balance of None \<Rightarrow> block_view b | Some _ \<Rightarrow> set_balance c v (block_view b))"
    (is "?l = ?r")
proof -
  have inv: "ac_registeredKnown a \<Longrightarrow> ac_balanceKnown a" if "bl_accounts b c = Some a" for a
    using assms(1) that by (auto simp: block_inv_def)
  have bal: "RewardAccountBalance ?l x = RewardAccountBalance ?r x" for x
    using assms(2) inv by (cases "x = c"; cases balance)
      (auto simp: setBalance_def block_account_def set_balance_def emptyAccount_def block_RewardAccountBalance_def
        split: option.splits sum.splits if_splits)
  show ?thesis
    by (cases balance; rule applied_eqI; (rule bal)?)
      (auto simp: setBalance_def block_account_def set_balance_def emptyAccount_def view_simps cong: case_congs split: option.split)
qed



lemma view_delegate_vote:
  assumes "block_inv b"
  shows "block_view (delegateVote b c d) = delegate_vote c d (block_view b)"
proof -
  have "map_of (bl_dreps b) k = Some st \<Longrightarrow> \<not> bl_seq b < bd_deregSeq st" for k st
    using assms by (auto simp: block_inv_def not_less)
  then have "delegationKept (bl_dreps b) (Some d) (bl_seq b) = Some d" by (auto simp: delegationKept_def split: option.split)
  then show ?thesis
    by (intro applied_eqI) (auto simp: delegateVote_def block_account_def delegate_vote_def emptyAccount_def view_simps
        cong: case_congs split: option.split)
qed

subsubsection \<open>DReps, the committee and pending rewards\<close>

lemma kept_update:
  "map_of dreps c = Some st \<and> bd_deregSeq st = n \<or> map_of dreps c = None \<and> n = 0 \<Longrightarrow>
   delegationKept (AList.update c \<lparr>bd_registration = r, bd_deregSeq = n\<rparr> dreps) d m = delegationKept dreps d m"
  by (auto simp: delegationKept_def update_conv split: option.split)

lemma view_set_drep: "block_view (setDRep b c (Some r) (bd_deregSeq (block_drep b c))) = set_drep c r (block_view b)"
proof -
  have "delegationKept (AList.update c \<lparr>bd_registration = Some r, bd_deregSeq = bd_deregSeq (block_drep b c)\<rparr> (bl_dreps b)) d m
      = delegationKept (bl_dreps b) d m" for d m
    by (rule kept_update[of _ _ "the (map_of (bl_dreps b) c)"]) (auto simp: block_drep_def split: option.split)
  then show ?thesis
    by (intro applied_eqI) (auto simp: setDRep_def set_drep_def view_simps update_conv cong: case_congs)
qed

lemma view_remove_drep:
  assumes "block_inv b"
  shows "block_view (setDRep (b\<lparr>bl_seq := Suc (bl_seq b)\<rparr>) c None (Suc (bl_seq b))) = remove_drep c (block_view b)"
proof -
  have k: "delegationKept (AList.update c \<lparr>bd_registration = None, bd_deregSeq = Suc (bl_seq b)\<rparr> (bl_dreps b)) d m =
      (case delegationKept (bl_dreps b) d m of Some d \<Rightarrow> if drep_key d = Some c then None else Some d | None \<Rightarrow> None)"
    if "m \<le> bl_seq b" for d m
    using that by (auto simp: delegationKept_def update_conv split: option.split)
  have m: "delegationMade b f x = Inr (d, m) \<Longrightarrow> m \<le> bl_seq b" for f x d m
    using assms by (auto simp: delegationMade_def block_inv_def split: option.splits if_splits)
  have "block_DRepDelegation (setDRep (b\<lparr>bl_seq := Suc (bl_seq b)\<rparr>) c None (Suc (bl_seq b))) f x =
      clear_delegations c (block_DRepDelegation b f) x" for f x
  proof (cases "delegationMade b f x")
    case (Inl e)
    then show ?thesis by (simp add: block_DRepDelegation_def setDRep_def delegationMade_def clear_delegations_def cong: case_congs)
  next
    case (Inr r)
    obtain d m where "r = (d, m)" by (cases r)
    moreover have "delegationMade (setDRep (b\<lparr>bl_seq := Suc (bl_seq b)\<rparr>) c None (Suc (bl_seq b))) f x = delegationMade b f x"
      by (simp add: delegationMade_def setDRep_def)
    moreover have "bl_dreps (setDRep (b\<lparr>bl_seq := Suc (bl_seq b)\<rparr>) c None (Suc (bl_seq b))) =
        AList.update c \<lparr>bd_registration = None, bd_deregSeq = Suc (bl_seq b)\<rparr> (bl_dreps b)" by (simp add: setDRep_def)
    ultimately show ?thesis using Inr k[OF m[of f x d m]]
      by (auto simp: block_DRepDelegation_def clear_delegations_def split: option.split)
  qed
  then have del: "ls_DRepDelegation (block_view (setDRep (b\<lparr>bl_seq := Suc (bl_seq b)\<rparr>) c None (Suc (bl_seq b)))) =
      ls_DRepDelegation (remove_drep c (block_view b))"
    by (simp add: remove_drep_def option.map_comp comp_def map_option_eq_iff fun_eq_iff setDRep_def)
  show ?thesis
    by (intro applied_eqI del) (auto simp: setDRep_def remove_drep_def view_simps update_conv cong: case_congs)
qed

lemma view_authorize:
  assumes "block_inv b"
  shows "block_view (b\<lparr>bl_committeeColdHot := AList.update cold hot (bl_committeeColdHot b)\<rparr>) = authorize cold hot (block_view b)"
proof -
  let ?b = "b\<lparr>bl_committeeColdHot := AList.update cold hot (bl_committeeColdHot b)\<rparr>"
  have d: "distinct (map fst (bl_committeeColdHot b))" using assms by (simp add: block_inv_def)
  have d': "distinct (map fst (bl_committeeColdHot ?b))" using d by (simp add: distinct_update)
  have mem: "x \<in> set (coldCredentialsFor b h) \<longleftrightarrow> map_of (bl_committeeColdHot b) x = Some (Some h)"
    if "distinct (map fst (bl_committeeColdHot b))" for b x h
    using that by (force simp: coldCredentialsFor_def)
  define b' where "b' = ?b"
  have upd: "map_of (bl_committeeColdHot b') = (map_of (bl_committeeColdHot b))(cold \<mapsto> hot)"
    by (simp add: b'_def update_conv fun_eq_iff)
  have "block_HotCredentialColds b' f h = rbind (block_HotCredentialColds b f h)
      (\<lambda>colds. Inr (if hot = Some h then insert cold colds else colds - {cold}))" for f h
  proof (cases "f h")
    case (Inr colds)
    then show ?thesis unfolding block_HotCredentialColds_def by (auto simp: mem[OF d] mem[OF d'[folded b'_def]] upd split: if_splits)
  qed (simp add: block_HotCredentialColds_def)
  note this[unfolded b'_def]
  then show ?thesis
    by (intro applied_eqI) (auto simp: authorize_def view_simps cong: case_congs)
qed

lemma view_add_pending:
  "block_view (b\<lparr>bl_mirPending := (bl_mirPending b)((source, c) \<mapsto> (case bl_mirPending b (source, c) of Some prior \<Rightarrow> delta + prior | None \<Rightarrow> delta))\<rparr>) =
   add_pending source c delta (block_view b)"
proof -
  let ?b = "b\<lparr>bl_mirPending := (bl_mirPending b)((source, c) \<mapsto> (case bl_mirPending b (source, c) of Some prior \<Rightarrow> delta + prior | None \<Rightarrow> delta))\<rparr>"
  have "block_PendingInstantaneousRewards ?b s x = PendingInstantaneousRewards (add_pending source c delta (block_view b)) s x" for s x
    by (cases "PendingInstantaneousRewards (bl_base b) s x")
      (auto simp: block_PendingInstantaneousRewards_def add_pending_def split: option.splits)
  then show ?thesis
    by (intro applied_eqI) (simp_all add: add_pending_def view_simps cong: case_congs)
qed

lemma view_add_mir:
  "block_view (b\<lparr>bl_mirPending := addMir source rs (bl_mirPending b)\<rparr>) =
   fold (\<lambda>r s. case r of (Some c, Some delta) \<Rightarrow> add_pending source c delta s | _ \<Rightarrow> s) rs (block_view b)"
proof (induction source rs "bl_mirPending b" arbitrary: b rule: addMir.induct)
  case (2 source cred delta rs)
  let ?m = "(bl_mirPending b)((source, cred) \<mapsto> (case bl_mirPending b (source, cred) of Some prior \<Rightarrow> delta + prior | None \<Rightarrow> delta))"
  show ?case using "2.hyps"[of "b\<lparr>bl_mirPending := ?m\<rparr>"] by (simp add: view_add_pending)
qed (simp_all split: option.split)


subsubsection \<open>Pools and proposals\<close>

lemma rbind_split_pair: "(case case r of Inl e \<Rightarrow> Inl e | Inr (x, y) \<Rightarrow> Inr (f x y) of Inl e \<Rightarrow> g e | Inr z \<Rightarrow> h z) =
    (case r of Inl e \<Rightarrow> g e | Inr (x, y) \<Rightarrow> h (f x y))"
  by (auto split: sum.split)

lemma view_retire:
  assumes "block_inv b"
  shows "block_view (b\<lparr>bl_pools := (bl_pools b)(p \<mapsto> (block_pool b p)\<lparr>bp_retirementEpoch := e, bp_retirementKnown := True\<rparr>)\<rparr>) = retire p e (block_view b)"
proof -
  let ?b = "b\<lparr>bl_pools := (bl_pools b)(p \<mapsto> (block_pool b p)\<lparr>bp_retirementEpoch := e, bp_retirementKnown := True\<rparr>)\<rparr>"
  have "bp_registrationKnown st \<Longrightarrow> bp_retirementKnown st" if "bl_pools b p = Some st" for st
    using assms that by (auto simp: block_inv_def)
  then have "block_PoolCurrentState ?b x = PoolCurrentState (retire p e (block_view b)) x" for x
    by (auto simp: block_PoolCurrentState_def retire_def block_pool_def rbind_def split: option.splits sum.splits)
  then show ?thesis
    by (intro applied_eqI) (auto simp: retire_def block_pool_def view_simps cong: case_congs split: option.split)
qed

lemma view_new_pool:
  assumes "block_PoolCurrentState b (po_Operator r) = Inr (None, e)"
  shows "block_view (claimKey (po_VrfKeyHash r) (po_Operator r) (b\<lparr>bl_pools := (bl_pools b)(po_Operator r \<mapsto> (block_pool b (po_Operator r))
     \<lparr>bp_registration := Some r, bp_registrationKnown := True, bp_retirementEpoch := None, bp_retirementKnown := True\<rparr>)\<rparr>)) = new_pool r (block_view b)"
  by (intro applied_eqI) (auto simp: new_pool_def claimKey_def block_pool_def view_simps cong: case_congs split: option.split)

lemma view_claim_key: "block_view (claimKey k p b) = (block_view b)\<lparr>IsVrfKeyInUse := (IsVrfKeyInUse (block_view b))(k := Inr (Some p))\<rparr>"
  by (intro applied_eqI) (simp_all add: claimKey_def view_simps cong: case_congs)

lemma view_release_key:
  "block_view (releaseKey k b) = (case k of None \<Rightarrow> block_view b
     | Some key \<Rightarrow> (block_view b)\<lparr>IsVrfKeyInUse := (IsVrfKeyInUse (block_view b))(key := Inr None)\<rparr>)"
  by (cases k) (auto intro!: applied_eqI simp: releaseKey_def view_simps cong: case_congs)

lemma view_future:
  assumes "block_inv b"
  shows "block_view (b\<lparr>bl_pools := (bl_pools b)(p \<mapsto> (block_pool b p)\<lparr>bp_future := Some r, bp_retirementEpoch := None, bp_retirementKnown := True\<rparr>)\<rparr>) =
   (retire p None (block_view b))\<lparr>deferredParameters := (deferredParameters (block_view b))(p \<mapsto> r)\<rparr>"
proof -
  let ?b = "b\<lparr>bl_pools := (bl_pools b)(p \<mapsto> (block_pool b p)\<lparr>bp_future := Some r, bp_retirementEpoch := None, bp_retirementKnown := True\<rparr>)\<rparr>"
  have "bp_registrationKnown st \<Longrightarrow> bp_retirementKnown st" if "bl_pools b p = Some st" for st
    using assms that by (auto simp: block_inv_def)
  then have "block_PoolCurrentState ?b x = PoolCurrentState (retire p None (block_view b)) x" for x
    by (auto simp: block_PoolCurrentState_def retire_def block_pool_def rbind_def split: option.splits sum.splits)
  then show ?thesis
    by (intro applied_eqI) (auto simp: retire_def block_pool_def view_simps cong: case_congs split: option.split)
qed

lemma release_pools [simp]: "bl_pools (releaseKey k b) = bl_pools b" "block_pool (releaseKey k b) p = block_pool b p"
  by (auto simp: releaseKey_def block_pool_def split: option.split)

lemma future_deferred: "bp_future (block_pool b p) = deferredParameters (block_view b) p"
  by (auto simp: block_pool_def split: option.split)

lemma released_key:
  "releasedKey (block_pool b p) r cur = (case deferredParameters (block_view b) p of None \<Rightarrow> None
     | Some f \<Rightarrow> if po_VrfKeyHash f \<noteq> po_VrfKeyHash r \<and> po_VrfKeyHash f \<noteq> po_VrfKeyHash cur then Some (po_VrfKeyHash f) else None)"
  by (simp only: releasedKey_def future_deferred)

lemma release_inv [simp]: "block_inv (releaseKey k b) = block_inv b"
  by (auto simp: releaseKey_def block_inv_def split: option.split)

lemma view_register_pool:
  assumes "block_inv b"
  shows "map_sum id block_view (applyPoolRegistration b r) = register_pool r (block_view b)"
proof (cases "block_PoolCurrentState b (po_Operator r)")
  case (Inr cr)
  obtain cur e where cr: "cr = (cur, e)" by (cases cr)
  show ?thesis
  proof (cases cur)
    case None
    then show ?thesis using Inr cr view_new_pool[of b r e] by (simp add: applyPoolRegistration_def register_pool_def Let_def)
  next
    case (Some c)
    let ?p = "po_Operator r" and ?k = "releasedKey (block_pool b (po_Operator r)) r c"
    have "block_view (claimKey (po_VrfKeyHash r) ?p ((releaseKey ?k b)\<lparr>bl_pools := (bl_pools b)(?p \<mapsto> (block_pool b ?p)
        \<lparr>bp_future := Some r, bp_retirementEpoch := None, bp_retirementKnown := True\<rparr>)\<rparr>)) = defer_parameters c r (block_view b)"
      using view_future[of "releaseKey ?k b" ?p r] assms
      by (auto simp: view_claim_key view_release_key released_key defer_parameters_def Let_def retire_def simp del: view_fields split: option.split)
    then show ?thesis using Inr cr Some by (simp add: applyPoolRegistration_def register_pool_def Let_def)
  qed
qed (simp add: applyPoolRegistration_def register_pool_def)

lemma record_proposals: "recordProposals txid i ps m = m ++ recordProposals txid i ps Map.empty"
proof (induction ps arbitrary: i m)
  case (Cons p ps)
  have "recordProposals txid (Suc i) ps (m(aid \<mapsto> st)) = m ++ recordProposals txid (Suc i) ps [aid \<mapsto> st]" for aid st
    unfolding Cons[of "Suc i" "m(aid \<mapsto> st)"] Cons[of "Suc i" "[aid \<mapsto> st]"]
    by (auto simp: map_add_def fun_eq_iff split: option.split)
  then show ?case using Cons[of "Suc i" m] by (auto split: option.split)
qed simp

lemma view_propose:
  "block_view (b\<lparr>bl_proposals := recordProposals txid 0 ps (bl_proposals b)\<rparr>) = propose txid ps (block_view b)"
  by (subst record_proposals)
    (intro applied_eqI; auto simp: propose_def view_simps Let_def map_add_def cong: case_congs split: option.split)


subsubsection \<open>The invariant\<close>

lemma inv_seq: "block_inv b \<Longrightarrow> block_inv (b\<lparr>bl_seq := Suc (bl_seq b)\<rparr>)"
  by (auto simp: block_inv_def intro: le_SucI)

lemma inv_utxo: "block_inv (consumeInput i b) = block_inv b" "block_inv (produceOutput u b) = block_inv b"
  by (simp_all add: consumeInput_def produceOutput_def block_inv_def)

lemma inv_accounts:
  assumes "block_inv b"
  shows "block_inv (setBalance b c v)" "block_inv (registerAccount b c d)" "block_inv (deregisterAccount b c)" "block_inv (delegateVote b c v')"
proof -
  have "ac_drepSeq (block_account b c) \<le> bl_seq b" "ac_registeredKnown (block_account b c) \<longrightarrow> ac_balanceKnown (block_account b c)"
    using assms by (auto simp: block_inv_def block_account_def emptyAccount_def split: option.split)
  then show "block_inv (setBalance b c v)" "block_inv (registerAccount b c d)" "block_inv (deregisterAccount b c)" "block_inv (delegateVote b c v')"
    using assms by (simp_all add: block_inv_def setBalance_def registerAccount_def deregisterAccount_def delegateVote_def emptyAccount_def)
qed

lemma inv_dreps:
  assumes "block_inv b" "n \<le> bl_seq b"
  shows "block_inv (setDRep b c r n)"
  using assms by (auto simp: block_inv_def setDRep_def update_conv)

lemma drep_seq: "block_inv b \<Longrightarrow> bd_deregSeq (block_drep b c) \<le> bl_seq b"
  by (auto simp: block_inv_def block_drep_def split: option.split)

lemma inv_rest:
  assumes "block_inv b"
  shows "block_inv (b\<lparr>bl_committeeColdHot := AList.update cold hot (bl_committeeColdHot b)\<rparr>)"
    "block_inv (b\<lparr>bl_mirPending := m\<rparr>)" "block_inv (b\<lparr>bl_proposals := ps\<rparr>)"
    "block_inv (b\<lparr>bl_pools := (bl_pools b)(p \<mapsto> (block_pool b p)\<lparr>bp_retirementEpoch := e, bp_retirementKnown := True\<rparr>)\<rparr>)"
  using assms by (auto simp: block_inv_def distinct_update)

lemma claim_inv [simp]: "block_inv (claimKey k p b) = block_inv b"
  by (simp add: claimKey_def block_inv_def)

lemma inv_register_pool:
  assumes "block_inv b" "applyPoolRegistration b r = Inr b'"
  shows "block_inv b'"
proof -
  have up: "block_inv (c\<lparr>bl_pools := (bl_pools b)(p \<mapsto> pool)\<rparr>)" if "bl_pools c = bl_pools b" "block_inv c" "bp_retirementKnown pool" for c p pool
    using that by (simp add: block_inv_def)
  show ?thesis using assms(2) by (auto simp: applyPoolRegistration_def Let_def assms(1) intro!: up split: option.split)
qed

subsubsection \<open>Transactions\<close>

text \<open>An operation of the overlay that refines one of the specification.\<close>

definition refines :: "(ledger_error + BlockLedgerState) \<Rightarrow> (ledger_error + AppliedState) \<Rightarrow> bool" where
  "refines r r' \<longleftrightarrow> map_sum id block_view r = r' \<and> (\<forall>b. r = Inr b \<longrightarrow> block_inv b)"

lemma refines_simps [simp]: "refines (Inr b) r' \<longleftrightarrow> r' = Inr (block_view b) \<and> block_inv b" "refines (Inl e) r' \<longleftrightarrow> r' = Inl e"
  by (auto simp: refines_def)

lemma refines_bind:
  assumes "refines r r'" "\<And>b. r = Inr b \<Longrightarrow> block_inv b \<Longrightarrow> refines (k b) (k' (block_view b))"
  shows "refines (rbind r k) (rbind r' k')"
  using assms by (cases r) (auto simp: refines_def)

lemma refines_certificate:
  assumes "block_inv b"
  shows "refines (applyCertificate pp b cert) (certify pp cert (block_view b))"
proof -
  let ?b = "b\<lparr>bl_seq := Suc (bl_seq b)\<rparr>"
  note inv = inv_seq[OF assms] and simps = applyCertificate_def applyPoolCertificate_def applyOtherCertificate_def certify_def Let_def
  note views = view_seq view_register view_deregister view_delegate_vote view_set_drep view_add_mir
  have seq: "block_DRepRegistration ?b c = block_DRepRegistration b c" for c by (simp add: block_DRepRegistration_def cong: case_congs)
  show ?thesis
  proof (cases cert)
    case (PoolRegistrationCertificate r)
    have "refines (applyPoolRegistration ?b r) (register_pool r (block_view b))"
      using view_register_pool[OF inv, of r] inv_register_pool[OF inv, of r] by (simp add: refines_def view_seq)
    then show ?thesis
      using PoolRegistrationCertificate by (cases "applyPoolRegistration ?b r") (simp_all add: simps)
  next
    case (PoolRetirementCertificate p e)
    then show ?thesis using view_retire[OF inv, of p "Some e"] inv_rest(4)[OF inv, of p "Some e"] by (simp add: simps view_seq)
  next
    case (DeregistrationDrepCertificate c d)
    then show ?thesis using view_remove_drep[OF assms, of c] inv_dreps[OF inv, of "Suc (bl_seq b)" c None] by (simp add: simps)
  next
    case (UpdateDrepCertificate c anchor)
    then show ?thesis using drep_seq[OF inv, of c] inv
      by (cases "block_DRepRegistration b c") (auto simp: simps seq views intro!: inv_dreps split: option.split)
  next
    case (AuthCommitteeHotCertificate cold hot)
    then show ?thesis using view_authorize[OF inv, of cold "Some hot"] inv_rest(1)[OF inv] by (simp add: simps view_seq)
  next
    case (ResignCommitteeColdCertificate cold a)
    then show ?thesis using view_authorize[OF inv, of cold None] inv_rest(1)[OF inv] by (simp add: simps view_seq)
  next
    case (MoveInstantaneousRewardsCertificate source rs n)
    then show ?thesis using view_add_mir[where b = ?b and source = source and rs = "case rs of None \<Rightarrow> [] | Some rs \<Rightarrow> rs"] inv_rest(2)[OF inv]
      by (simp add: simps view_seq)
  next
    case (RegistrationDrepCertificate c d anchor)
    then show ?thesis using view_set_drep[of ?b c] drep_seq[OF inv, of c] inv by (auto simp: simps view_seq intro!: inv_dreps)
  next
    case (StakeRegistrationCertificate c)
    then show ?thesis using inv by (cases "blockKeyDeposit pp") (auto simp: simps views inv_accounts)
  qed (use inv in \<open>auto simp: simps views inv_accounts\<close>)
qed


lemma refines_certificates: "block_inv b \<Longrightarrow> refines (applyCertificates pp b certs) (certify_all pp certs (block_view b))"
  by (induction certs arbitrary: b) (simp_all add: refines_bind refines_certificate)

lemma refines_withdrawals: "block_inv b \<Longrightarrow> refines (applyWithdrawals bb b ws) (withdraw bb ws (block_view b))"
proof (induction ws arbitrary: b)
  case (Cons w ws)
  obtain addr amount where w: "w = (addr, amount)" by (cases w)
  have bal: "refines (applyWithdrawals bb (setBalance b c v) ws) (withdraw bb ws (case balance of None \<Rightarrow> block_view b | Some _ \<Rightarrow> set_balance c v (block_view b)))"
    if "block_RewardAccountBalance b c = Inr balance" for c v balance
    using Cons.IH[OF inv_accounts(1)[OF Cons.prems]] view_set_balance[OF Cons.prems that] by metis
  show ?case
  proof (cases "\<exists>a c. addr = Some a \<and> RewardAccountCredential bb a = Inr c")
    case True
    then obtain a c where a: "addr = Some a" "RewardAccountCredential bb a = Inr c" by blast
    show ?thesis
    proof (cases "block_RewardAccountBalance b c")
      case (Inr balance)
      then show ?thesis using bal[OF Inr, of "remainingBalance balance amount"] by (cases balance) (simp_all add: w a)
    qed (simp add: w a)
  next
    case False
    then show ?thesis using Cons.IH[OF Cons.prems] by (cases addr; cases "RewardAccountCredential bb (the addr)") (auto simp: w)
  qed
qed simp

lemma refines_deposits: "block_inv b \<Longrightarrow> refines (applyDirectDeposits b ds) (deposit_direct ds (block_view b))"
proof (induction ds arbitrary: b)
  case (Cons d ds)
  obtain c amount where d: "d = (c, amount)" by (cases d)
  show ?case
  proof (cases "block_RewardAccountBalance b c")
    case (Inr balance)
    have "refines (applyDirectDeposits (setBalance b c v) ds) (deposit_direct ds (set_balance c v (block_view b)))" if "balance \<noteq> None" for v
      using Cons.IH[OF inv_accounts(1)[OF Cons.prems], of c v] view_set_balance[OF Cons.prems Inr, of v] that by auto
    then show ?thesis using Cons.IH[OF Cons.prems] Inr by (cases balance) (simp_all add: d)
  qed (simp add: d)
qed simp

lemma refines_level: "block_inv b \<Longrightarrow> refines (applyLevel bb pp b l) (apply_level bb pp l (block_view b))"
  unfolding applyLevel_def apply_level_def
  by (intro refines_bind refines_withdrawals refines_certificates refines_deposits) (simp_all add: view_propose inv_rest)

lemma refines_levels: "block_inv b \<Longrightarrow> refines (applyLevels bb pp b ls) (apply_levels bb pp ls (block_view b))"
  by (induction ls arbitrary: b) (simp_all add: refines_bind refines_level)

lemma view_inputs: "block_view (fold consumeInput is b) = fold spend is (block_view b) \<and> block_inv (fold consumeInput is b) = block_inv b"
  by (induction "is" arbitrary: b) (simp_all add: view_spend inv_utxo)

lemma view_outputs: "block_view (fold produceOutput us b) = fold create us (block_view b) \<and> block_inv (fold produceOutput us b) = block_inv b"
  by (induction us arbitrary: b) (simp_all add: view_create inv_utxo)

lemma refines_transaction:
  assumes "block_inv b"
  shows "refines (ApplyTransaction bb pp b tx) (apply_tx bb pp tx (block_view b))"
proof -
  let ?b = "fold produceOutput (tx_Produced tx) (fold consumeInput (tx_Consumed tx) b)"
  have v: "block_view ?b = fold create (tx_Produced tx) (fold spend (tx_Consumed tx) (block_view b))" "block_inv ?b"
    using assms view_inputs[of "tx_Consumed tx" b] view_outputs[of "tx_Produced tx"] by simp_all
  have "refines (rbind ls (applyLevels bb pp ?b)) (rbind ls (\<lambda>levels. apply_levels bb pp levels (block_view ?b)))" for ls
    by (cases ls) (simp_all add: refines_levels v(2))
  then show ?thesis using v by (simp add: ApplyTransaction_def apply_tx_def Let_def)
qed

fun ApplyTransactions :: "(Address \<Rightarrow> address_error + bytes) \<Rightarrow> int option option \<Rightarrow> BlockLedgerState \<Rightarrow> Transaction list \<Rightarrow> ledger_error + BlockLedgerState" where
  "ApplyTransactions bb pp b [] = Inr b"
| "ApplyTransactions bb pp b (tx # txs) = rbind (ApplyTransaction bb pp b tx) (\<lambda>b'. ApplyTransactions bb pp b' txs)"

fun apply_txs :: "(Address \<Rightarrow> address_error + bytes) \<Rightarrow> int option option \<Rightarrow> Transaction list \<Rightarrow> AppliedState \<Rightarrow> ledger_error + AppliedState" where
  "apply_txs bb pp [] s = Inr s"
| "apply_txs bb pp (tx # txs) s = rbind (apply_tx bb pp tx s) (apply_txs bb pp txs)"

lemma refines_transactions: "block_inv b \<Longrightarrow> refines (ApplyTransactions bb pp b txs) (apply_txs bb pp txs (block_view b))"
  by (induction txs arbitrary: b) (simp_all add: refines_bind refines_transaction)

subsection \<open>The committee and the list of DReps\<close>

text \<open>The committee certificates a block applies, in order: the hot credential each authorizes for a cold
  one, or None where it resigns.\<close>

definition certificate_authorization :: "Certificate \<Rightarrow> (Credential \<times> Credential option) list" where
  "certificate_authorization cert =
     (case cert of
        AuthCommitteeHotCertificate cold hot \<Rightarrow> [(cold, Some hot)]
      | ResignCommitteeColdCertificate cold _ \<Rightarrow> [(cold, None)]
      | _ \<Rightarrow> [])"

definition level_authorizations :: "LedgerEffectLevel \<Rightarrow> (Credential \<times> Credential option) list" where
  "level_authorizations l = concat (map certificate_authorization (lv_Certificates l))"

definition tx_authorizations :: "Transaction \<Rightarrow> (Credential \<times> Credential option) list" where
  "tx_authorizations tx =
     (if \<not> tx_IsValid tx then []
      else case tx_Levels tx of
        None \<Rightarrow> level_authorizations (bodyLevel tx)
      | Some (Inr levels) \<Rightarrow> concat (map level_authorizations levels)
      | Some (Inl _) \<Rightarrow> [])"

definition block_authorizations :: "Transaction list \<Rightarrow> (Credential \<times> Credential option) list" where
  "block_authorizations txs = concat (map tx_authorizations txs)"

text \<open>The last certificate decides: for a cold credential, and for a cold key hash.\<close>

definition last_authorization :: "(Credential \<times> Credential option) list \<Rightarrow> Credential \<Rightarrow> Credential option option" where
  "last_authorization as cold = map_of (rev as) cold"

definition last_for_hash :: "(Credential \<times> Credential option) list \<Rightarrow> Hash28 \<Rightarrow> Credential option option" where
  "last_for_hash as h = map_of (map (\<lambda>(cold, hot). (cred_Hash cold, hot)) (rev as)) h"

definition amended :: "(Credential \<times> Credential option) list \<Rightarrow> CommitteeMember \<Rightarrow> CommitteeMember" where
  "amended as m =
     (case last_for_hash as (cm_ColdKey m) of
        None \<Rightarrow> m
      | Some None \<Rightarrow> m\<lparr>cm_HotKey := None, cm_Resigned := True\<rparr>
      | Some (Some hot) \<Rightarrow> m\<lparr>cm_HotKey := Some (cred_Hash hot), cm_Resigned := False\<rparr>)"

abbreviation record_authorizations :: "(Credential \<times> Credential option) list \<Rightarrow> (Credential \<times> Credential option) list \<Rightarrow> (Credential \<times> Credential option) list" where
  "record_authorizations as al \<equiv> fold (\<lambda>(cold, hot). AList.update cold hot) as al"

definition overlay_keeps :: "BlockLedgerState \<Rightarrow> (Credential \<times> Credential option) list \<Rightarrow> BlockLedgerState \<Rightarrow> bool" where
  "overlay_keeps b as b' \<longleftrightarrow> bl_committeeColdHot b' = record_authorizations as (bl_committeeColdHot b) \<and>
     (distinct (map fst (bl_dreps b)) \<longrightarrow> distinct (map fst (bl_dreps b'))) \<and> bl_base b' = bl_base b"

lemma overlay_refl: "overlay_keeps b [] b"
  by (simp add: overlay_keeps_def)

lemma overlay_trans: "overlay_keeps b as b1 \<Longrightarrow> overlay_keeps b1 as' b2 \<Longrightarrow> overlay_keeps b (as @ as') b2"
  by (simp add: overlay_keeps_def)

lemma keeps_utxo: "overlay_keeps b [] (fold produceOutput us (fold consumeInput is b))"
proof -
  have "bl_committeeColdHot (fold consumeInput is b) = bl_committeeColdHot b \<and> bl_dreps (fold consumeInput is b) = bl_dreps b \<and> bl_base (fold consumeInput is b) = bl_base b" for b
    by (induction "is" arbitrary: b) (simp_all add: consumeInput_def)
  moreover have "bl_committeeColdHot (fold produceOutput us b) = bl_committeeColdHot b \<and> bl_dreps (fold produceOutput us b) = bl_dreps b \<and> bl_base (fold produceOutput us b) = bl_base b" for b
    by (induction us arbitrary: b) (simp_all add: produceOutput_def)
  ultimately show ?thesis by (simp add: overlay_keeps_def)
qed

lemma keeps_withdrawals: "applyWithdrawals bb b ws = Inr b' \<Longrightarrow> overlay_keeps b [] b'"
proof (induction bb b ws rule: applyWithdrawals.induct)
  case (2 bb b addr amount ws)
  then show ?case by (auto simp: overlay_keeps_def setBalance_def split: sum.splits option.splits)
qed (simp add: overlay_refl)

lemma keeps_balance: "overlay_keeps (setBalance b c v) as b' \<Longrightarrow> overlay_keeps b as b'"
  by (simp add: overlay_keeps_def setBalance_def)

lemma keeps_deposits: "applyDirectDeposits b ds = Inr b' \<Longrightarrow> overlay_keeps b [] b'"
proof (induction ds arbitrary: b)
  case (Cons d ds)
  obtain c amount where d: "d = (c, amount)" by (cases d)
  obtain balance where "block_RewardAccountBalance b c = Inr balance" using Cons.prems d by auto
  then show ?case using Cons.prems Cons.IH by (cases balance) (auto simp: d intro: keeps_balance)
qed (simp add: overlay_refl)

lemma keeps_keys: "overlay_keeps b [] (claimKey k p ((releaseKey k' b)\<lparr>bl_pools := pools\<rparr>))" "overlay_keeps b [] (claimKey k p (b\<lparr>bl_pools := pools\<rparr>))"
  by (simp_all add: overlay_keeps_def claimKey_def releaseKey_def split: option.split)

lemma keeps_pool_registration:
  assumes "applyPoolRegistration b r = Inr b'"
  shows "overlay_keeps b [] b'"
proof (cases "block_PoolCurrentState b (po_Operator r)")
  case (Inr cr)
  obtain cur e where "cr = (cur, e)" by force
  then show ?thesis using assms Inr by (cases cur) (auto simp: applyPoolRegistration_def Let_def keeps_keys)
qed (use assms in \<open>simp add: applyPoolRegistration_def\<close>)

lemma keeps_seq: "overlay_keeps (b\<lparr>bl_seq := n\<rparr>) as b' \<Longrightarrow> overlay_keeps b as b'"
  by (simp add: overlay_keeps_def)

lemma keeps_certificate:
  assumes "applyCertificate pp b cert = Inr b'"
  shows "overlay_keeps b (certificate_authorization cert) b'"
proof (rule keeps_seq[where n = "Suc (bl_seq b)"])
  let ?b = "b\<lparr>bl_seq := Suc (bl_seq b)\<rparr>"
  show "overlay_keeps ?b (certificate_authorization cert) b'"
  proof (cases cert)
    case (PoolRegistrationCertificate r)
    then have "applyPoolRegistration ?b r = Inr b'"
      using assms by (cases "applyPoolRegistration ?b r") (auto simp: applyCertificate_def applyPoolCertificate_def Let_def)
    then show ?thesis using keeps_pool_registration PoolRegistrationCertificate by (simp add: certificate_authorization_def)
  next
    case (UpdateDrepCertificate c a)
    then show ?thesis using assms
      by (auto simp: applyCertificate_def applyPoolCertificate_def applyOtherCertificate_def Let_def overlay_keeps_def
          certificate_authorization_def setDRep_def distinct_update split: option.splits)
  qed (use assms in \<open>auto simp: applyCertificate_def applyPoolCertificate_def applyOtherCertificate_def Let_def overlay_keeps_def
      certificate_authorization_def registerAccount_def deregisterAccount_def delegateVote_def setDRep_def distinct_update\<close>)
qed

lemma keeps_certificates: "applyCertificates pp b certs = Inr b' \<Longrightarrow> overlay_keeps b (concat (map certificate_authorization certs)) b'"
proof (induction certs arbitrary: b)
  case (Cons c cs)
  then obtain b1 where "applyCertificate pp b c = Inr b1" "applyCertificates pp b1 cs = Inr b'" by auto
  then show ?case using overlay_trans[OF keeps_certificate Cons.IH] by simp
qed (simp add: overlay_refl)

lemma keeps_level:
  assumes "applyLevel bb pp b l = Inr b'"
  shows "overlay_keeps b (level_authorizations l) b'"
proof -
  obtain b1 b2 b3 where s: "applyWithdrawals bb b (lv_Withdrawals l) = Inr b1" "applyCertificates pp b1 (lv_Certificates l) = Inr b2"
    "applyDirectDeposits b2 (lv_DirectDeposits l) = Inr b3"
    "b' = b3\<lparr>bl_proposals := recordProposals (lv_Id l) 0 (lv_Proposals l) (bl_proposals b3)\<rparr>"
    using assms by (auto simp: applyLevel_def)
  have "overlay_keeps b ([] @ (level_authorizations l @ [])) b3"
    using overlay_trans[OF keeps_withdrawals[OF s(1)] overlay_trans[OF keeps_certificates[OF s(2)] keeps_deposits[OF s(3)]]]
    by (simp add: level_authorizations_def)
  then show ?thesis by (simp add: overlay_keeps_def s(4))
qed

lemma keeps_levels: "applyLevels bb pp b ls = Inr b' \<Longrightarrow> overlay_keeps b (concat (map level_authorizations ls)) b'"
proof (induction ls arbitrary: b)
  case (Cons l ls)
  then obtain b1 where "applyLevel bb pp b l = Inr b1" "applyLevels bb pp b1 ls = Inr b'" by auto
  then show ?case using overlay_trans[OF keeps_level Cons.IH] by simp
qed (simp add: overlay_refl)

lemma keeps_transaction:
  assumes "ApplyTransaction bb pp b tx = Inr b'"
  shows "overlay_keeps b (tx_authorizations tx) b'"
proof (cases "tx_IsValid tx")
  case True
  let ?b = "fold produceOutput (tx_Produced tx) (fold consumeInput (tx_Consumed tx) b)"
  obtain ls where ls: "(case tx_Levels tx of None \<Rightarrow> Inr [bodyLevel tx] | Some levels \<Rightarrow> levels) = Inr ls" "applyLevels bb pp ?b ls = Inr b'"
    using assms True by (auto simp: ApplyTransaction_def Let_def)
  have "tx_authorizations tx = concat (map level_authorizations ls)"
    using ls(1) True by (auto simp: tx_authorizations_def split: option.splits)
  then show ?thesis using overlay_trans[OF keeps_utxo keeps_levels[OF ls(2)]] by simp
qed (use assms in \<open>auto simp: ApplyTransaction_def tx_authorizations_def Let_def keeps_utxo\<close>)

lemma keeps_transactions: "ApplyTransactions bb pp b txs = Inr b' \<Longrightarrow> overlay_keeps b (block_authorizations txs) b'"
proof (induction txs arbitrary: b)
  case (Cons tx txs)
  then obtain b1 where "ApplyTransaction bb pp b tx = Inr b1" "ApplyTransactions bb pp b1 txs = Inr b'" by auto
  then show ?case using overlay_trans[OF keeps_transaction Cons.IH] by (simp add: block_authorizations_def)
qed (simp add: overlay_refl block_authorizations_def)

lemma map_of_record: "map_of (record_authorizations as al) = map_of al ++ map_of (rev as)"
  by (induction as arbitrary: al) (auto simp: update_conv fun_eq_iff map_add_def split: option.split)

lemma map_of_recorded: "map_of (record_authorizations as []) = last_authorization as"
  by (simp add: map_of_record last_authorization_def fun_eq_iff)

lemma recorded_colds: "fst ` set (record_authorizations as []) = fst ` set as"
proof -
  have "dom (map_of (record_authorizations as [])) = dom (map_of (rev as))" by (simp add: map_of_recorded last_authorization_def fun_eq_iff dom_def)
  then show ?thesis by (simp add: dom_map_of_conv_image_fst)
qed

lemma recorded_distinct: "distinct (map fst al) \<Longrightarrow> distinct (map fst (record_authorizations as al))"
  by (induction as arbitrary: al) (auto simp: distinct_update)

lemma touched_iff: "(\<exists>(cold, hot) \<in> set (record_authorizations as []). cred_Hash cold = h) \<longleftrightarrow> last_for_hash as h \<noteq> None"
proof -
  have "(\<exists>(cold, hot) \<in> set (record_authorizations as []). cred_Hash cold = h) \<longleftrightarrow> h \<in> cred_Hash ` fst ` set (record_authorizations as [])"
    by (force simp: image_iff)
  also have "\<dots> \<longleftrightarrow> h \<in> cred_Hash ` fst ` set as" by (simp only: recorded_colds)
  finally have "(\<exists>(cold, hot) \<in> set (record_authorizations as []). cred_Hash cold = h) \<longleftrightarrow> h \<in> cred_Hash ` fst ` set as" .
  then show ?thesis by (auto simp: last_for_hash_def map_of_eq_None_iff image_image case_prod_unfold)
qed

lemma map_of_hashes:
  assumes "inj_on cred_Hash (fst ` set al)" "cold \<in> fst ` set al"
  shows "map_of (map (\<lambda>(cold, hot). (cred_Hash cold, hot)) al) (cred_Hash cold) = map_of al cold"
  using assms
proof (induction al)
  case (Cons x al)
  obtain c h where x: "x = (c, h)" by force
  have eq: "cred_Hash c = cred_Hash cold \<longleftrightarrow> c = cold" using Cons.prems by (auto simp: x inj_on_def)
  show ?case
  proof (cases "c = cold")
    case False
    then show ?thesis using Cons eq by (auto simp: x)
  qed (simp add: x)
qed simp

lemma find_map_of: "map_option snd (find (\<lambda>(cold, hot). cred_Hash cold = h) al) = map_of (map (\<lambda>(cold, hot). (cred_Hash cold, hot)) al) h"
  by (induction al) auto

lemma find_recorded:
  assumes inj: "inj_on cred_Hash (fst ` set as)"
  shows "map_option snd (find (\<lambda>(cold, hot). cred_Hash cold = h) (record_authorizations as [])) = last_for_hash as h"
proof (cases "\<exists>cold \<in> fst ` set as. cred_Hash cold = h")
  case True
  then obtain cold where c: "cold \<in> fst ` set as" "h = cred_Hash cold" by blast
  have "map_of (map (\<lambda>(cold, hot). (cred_Hash cold, hot)) (record_authorizations as [])) h = last_authorization as cold"
    using map_of_hashes[of "record_authorizations as []" cold] inj c recorded_colds[of as] by (simp add: map_of_recorded)
  moreover have "last_for_hash as h = last_authorization as cold"
    using map_of_hashes[of "rev as" cold] inj c by (simp add: last_for_hash_def last_authorization_def)
  ultimately show ?thesis by (simp only: find_map_of)
next
  case False
  then have "last_for_hash as h = None" by (auto simp: last_for_hash_def map_of_eq_None_iff)
  moreover from this have "find (\<lambda>(cold, hot). cred_Hash cold = h) (record_authorizations as []) = None"
    using touched_iff[of as h] by (auto simp: find_None_iff)
  ultimately show ?thesis by simp
qed

lemma authorization_amended:
  assumes "bl_committeeColdHot b = record_authorizations as []" "inj_on cred_Hash (fst ` set as)"
  shows "applyCommitteeAuthorization b = amended as"
proof
  fix m
  show "applyCommitteeAuthorization b m = amended as m"
    unfolding applyCommitteeAuthorization_def amended_def find_recorded[OF assms(2), symmetric] assms(1)
    by (auto split: option.split)
qed

lemma colds_last:
  assumes "bl_committeeColdHot b = record_authorizations as []"
  shows "set (coldCredentialsFor b hot) = {cold. last_authorization as cold = Some (Some hot)}"
proof -
  have "distinct (map fst (record_authorizations as []))" by (rule recorded_distinct) simp
  then have "last_authorization as cold = Some (Some hot) \<longleftrightarrow> (cold, Some hot) \<in> set (record_authorizations as [])" for cold
    using map_of_eq_Some_iff[of "record_authorizations as []" cold "Some hot"] by (simp add: map_of_recorded)
  then show ?thesis by (force simp: coldCredentialsFor_def assms)
qed

text \<open>The answers allowed for the member behind a hot credential: that of any cold credential that
  authorizes it, or else what the provider knows through a cold credential the block did not touch.\<close>

definition hot_member_answer :: "(Credential \<times> Credential option) list \<Rightarrow> committee_provider \<Rightarrow> Credential
    \<Rightarrow> ledger_error + CommitteeMember option \<Rightarrow> bool" where
  "hot_member_answer as cp hot answer \<longleftrightarrow>
     (let colds = {cold. last_authorization as cold = Some (Some hot)} in
      (\<exists>cold \<in> colds. (\<exists>e. cp_CredentialMember cp cold = Inl e \<and> answer = Inl e) \<or>
         (\<exists>m. cp_CredentialMember cp cold = Inr (Some m) \<and> answer = Inr (Some (amended as m)))) \<or>
      (\<forall>cold \<in> colds. cp_CredentialMember cp cold = Inr None) \<and>
        answer = rbind (cp_HotCredentialMember cp hot) (\<lambda>member.
          Inr (Option.bind member (\<lambda>m. if last_for_hash as (cm_ColdKey m) = None then Some m else None))))"

lemma firstMember_cases:
  "(\<exists>c \<in> set cs. \<exists>e. f c = Inl e \<and> firstMember f cs = Inl e) \<or> (\<exists>c \<in> set cs. \<exists>m. f c = Inr (Some m) \<and> firstMember f cs = Inr (Some m)) \<or>
   (\<forall>c \<in> set cs. f c = Inr None) \<and> firstMember f cs = Inr None"
proof (induction cs)
  case (Cons c cs)
  consider e where "f c = Inl e" | m where "f c = Inr (Some m)" | "f c = Inr None" by (metis obj_sumE option.exhaust)
  then show ?case by cases (use Cons in auto)
qed simp

lemma hot_member:
  assumes "bl_committeeColdHot b = record_authorizations as []" "inj_on cred_Hash (fst ` set as)"
  shows "hot_member_answer as cp hot (block_CommitteeHotCredentialMember b cp hot)"
proof -
  let ?f = "block_CommitteeCredentialMember b cp" and ?cs = "coldCredentialsFor b hot"
  note am = authorization_amended[OF assms]
  have f: "?f c = Inl e \<longleftrightarrow> cp_CredentialMember cp c = Inl e" "?f c = Inr None \<longleftrightarrow> cp_CredentialMember cp c = Inr None"
    "?f c = Inr (Some m) \<longleftrightarrow> (\<exists>m0. cp_CredentialMember cp c = Inr (Some m0) \<and> m = amended as m0)" for c e m
    by (cases "cp_CredentialMember cp c"; force simp: block_CommitteeCredentialMember_def am)+
  have t: "coldCredentialTouched b h \<longleftrightarrow> last_for_hash as h \<noteq> None" for h
    using touched_iff[of as h] by (simp add: coldCredentialTouched_def assms(1))
  consider c e where "c \<in> set ?cs" "?f c = Inl e" "firstMember ?f ?cs = Inl e"
    | c m where "c \<in> set ?cs" "?f c = Inr (Some m)" "firstMember ?f ?cs = Inr (Some m)"
    | "\<forall>c \<in> set ?cs. ?f c = Inr None" "firstMember ?f ?cs = Inr None" using firstMember_cases[of ?cs ?f] by blast
  then show ?thesis
  proof cases
    case 1
    then show ?thesis unfolding hot_member_answer_def Let_def colds_last[OF assms(1), symmetric] block_CommitteeHotCredentialMember_def
      by (auto simp: f)
  next
    case 2
    then show ?thesis unfolding hot_member_answer_def Let_def colds_last[OF assms(1), symmetric] block_CommitteeHotCredentialMember_def
      by (auto simp: f)
  next
    case 3
    have "rbind (cp_HotCredentialMember cp hot) (\<lambda>member. Inr (case member of None \<Rightarrow> None | Some m \<Rightarrow> if coldCredentialTouched b (cm_ColdKey m) then None else Some m)) =
        rbind (cp_HotCredentialMember cp hot) (\<lambda>member. Inr (Option.bind member (\<lambda>m. if last_for_hash as (cm_ColdKey m) = None then Some m else None)))"
      by (cases "cp_HotCredentialMember cp hot") (auto simp: t split: option.split)
    then show ?thesis using 3 unfolding hot_member_answer_def Let_def colds_last[OF assms(1), symmetric] block_CommitteeHotCredentialMember_def
      by (simp add: f)
  qed
qed

lemma hot_members:
  assumes "bl_committeeColdHot b = record_authorizations as []"
  shows "map_sum id set (block_CommitteeHotCredentialMembers b cp hot) =
    map_sum id (\<lambda>members. {\<lparr>cm_ColdKey = cred_Hash cold, cm_HotKey = Some (cred_Hash hot), cm_ExpiryEpoch = 0, cm_Resigned = False\<rparr> | cold.
        last_authorization as cold = Some (Some hot)} \<union> {m. Some m \<in> set members \<and> last_for_hash as (cm_ColdKey m) = None})
      (cp_HotCredentialMembers cp hot)"
proof -
  have t: "coldCredentialTouched b h \<longleftrightarrow> last_for_hash as h \<noteq> None" for h
    using touched_iff[of as h] by (simp add: coldCredentialTouched_def assms(1))
  have "set (List.map_filter id members) = {m. Some m \<in> set members}" for members :: "CommitteeMember option list"
    by (induction members) (auto simp: List.map_filter_simps split: option.splits)
  then show ?thesis using colds_last[OF assms, of hot]
    by (cases "cp_HotCredentialMembers cp hot") (auto simp: block_CommitteeHotCredentialMembers_def t)
qed

text \<open>A list of DReps that agrees with the lookup of one.\<close>

definition lists_dreps :: "DRepRegistration list \<Rightarrow> (Credential \<Rightarrow> ledger_error + DRepRegistration option) \<Rightarrow> bool" where
  "lists_dreps regs look \<longleftrightarrow> (\<forall>r. r \<in> set regs \<longleftrightarrow> (\<exists>c. look c = Inr (Some r)))"

lemma dreps_listed:
  assumes d: "distinct (map fst (bl_dreps b))" and l: "lists_dreps regs (ls_DRepRegistration (bl_base b))"
    and c: "\<forall>c r. ls_DRepRegistration (bl_base b) c = Inr (Some r) \<longrightarrow> dr_Credential r = c"
  shows "\<exists>regs'. block_DRepRegistrations b (Inr regs) = Inr regs' \<and> lists_dreps regs' (block_DRepRegistration b)"
proof -
  let ?own = "List.map_filter (\<lambda>(k, drep). bd_registration drep) (bl_dreps b)"
  have own: "r \<in> set ?own \<longleftrightarrow> (\<exists>k st. map_of (bl_dreps b) k = Some st \<and> bd_registration st = Some r)" for r
  proof -
    have "map_of (bl_dreps b) k = Some st \<longleftrightarrow> (k, st) \<in> set (bl_dreps b)" for k st using d by simp
    then show ?thesis by (auto simp: List.map_filter_def image_iff case_prod_unfold) (metis option.sel snd_conv)+
  qed
  have "r \<in> set (filter (\<lambda>reg. map_of (bl_dreps b) (dr_Credential reg) = None) regs @ ?own) \<longleftrightarrow> (\<exists>c. block_DRepRegistration b c = Inr (Some r))" for r
  proof
    assume "r \<in> set (filter (\<lambda>reg. map_of (bl_dreps b) (dr_Credential reg) = None) regs @ ?own)"
    then consider "r \<in> set regs" "map_of (bl_dreps b) (dr_Credential r) = None" | "r \<in> set ?own" by auto
    then show "\<exists>c. block_DRepRegistration b c = Inr (Some r)"
    proof cases
      case 1
      then obtain c' where "ls_DRepRegistration (bl_base b) c' = Inr (Some r)" using l by (auto simp: lists_dreps_def)
      then have "ls_DRepRegistration (bl_base b) (dr_Credential r) = Inr (Some r)" using c by auto
      then show ?thesis using 1 by (intro exI[of _ "dr_Credential r"]) (simp add: block_DRepRegistration_def)
    next
      case 2
      then obtain k st where "map_of (bl_dreps b) k = Some st" "bd_registration st = Some r" using own by blast
      then show ?thesis by (intro exI[of _ k]) (simp add: block_DRepRegistration_def)
    qed
  next
    assume "\<exists>c. block_DRepRegistration b c = Inr (Some r)"
    then obtain k where k: "block_DRepRegistration b k = Inr (Some r)" by blast
    show "r \<in> set (filter (\<lambda>reg. map_of (bl_dreps b) (dr_Credential reg) = None) regs @ ?own)"
    proof (cases "map_of (bl_dreps b) k")
      case None
      then have "ls_DRepRegistration (bl_base b) k = Inr (Some r)" using k by (simp add: block_DRepRegistration_def)
      moreover from this have "dr_Credential r = k" using c by blast
      ultimately show ?thesis using l None by (auto simp: lists_dreps_def)
    next
      case (Some st)
      then show ?thesis using k own by (auto simp: block_DRepRegistration_def)
    qed
  qed
  then have "lists_dreps (filter (\<lambda>reg. map_of (bl_dreps b) (dr_Credential reg) = None) regs @ ?own) (block_DRepRegistration b)"
    unfolding lists_dreps_def by blast
  moreover have "block_DRepRegistrations b (Inr regs) = Inr (filter (\<lambda>reg. map_of (bl_dreps b) (dr_Credential reg) = None) regs @ ?own)"
    by (simp only: block_DRepRegistrations_def rbind_simps)
  ultimately show ?thesis by blast
qed

text \<open>C6: The block-scoped view refines the eager application of the block: folding any list of
  transactions into the overlay and asking it about outputs, stake credentials, reward accounts, deposits,
  pools, VRF keys in use, DReps and their delegations, proposals, the cold credentials behind a hot one and
  pending instantaneous rewards gives the answer that the state before the block would give had every
  spent output, produced output, withdrawal, certificate, deposit and proposal been applied to it at once
  and in order, and it fails with the same error when the provider fails on the way.  In particular a
  DRep's deregistration clears exactly the delegations made before it.  The list of DReps holds exactly
  the registrations the lookup of one reports, if the provider's list does and reports a registration
  under its own credential.  A committee member is the provider's, amended by the last certificate of the
  block on its cold key: looked up by cold key hash, by cold credential, or through a hot credential
  (where any of several members may be the answer), provided that no two cold credentials of the block's
  certificates share their hash; and the members behind a hot credential are those of the cold credentials
  whose last certificate authorizes it, with the provider's that the block did not touch.  The index of
  deferred VRF keys is the one query that changes and is left out.\<close>

theorem block_state_refines_ledger:
  "map_sum id block_view (ApplyTransactions bb pp (NewBlockLedgerState ls) txs) = apply_txs bb pp txs (applied_start ls) \<and>
   (\<forall>b. ApplyTransactions bb pp (NewBlockLedgerState ls) txs = Inr b \<longrightarrow>
      (lists_dreps regs (ls_DRepRegistration ls) \<and> (\<forall>c r. ls_DRepRegistration ls c = Inr (Some r) \<longrightarrow> dr_Credential r = c) \<longrightarrow>
         (\<exists>regs'. block_DRepRegistrations b (Inr regs) = Inr regs' \<and> lists_dreps regs' (ls_DRepRegistration (block_view b)))) \<and>
      (\<forall>hot. map_sum id set (block_CommitteeHotCredentialMembers b cp hot) =
         map_sum id (\<lambda>members. {\<lparr>cm_ColdKey = cred_Hash cold, cm_HotKey = Some (cred_Hash hot), cm_ExpiryEpoch = 0, cm_Resigned = False\<rparr> | cold.
             last_authorization (block_authorizations txs) cold = Some (Some hot)} \<union>
             {m. Some m \<in> set members \<and> last_for_hash (block_authorizations txs) (cm_ColdKey m) = None})
           (cp_HotCredentialMembers cp hot)) \<and>
      (inj_on cred_Hash (fst ` set (block_authorizations txs)) \<longrightarrow>
         (\<forall>k. block_CommitteeMember b cp k = map_sum id (map_option (amended (block_authorizations txs))) (cp_Member cp k)) \<and>
         (\<forall>c. block_CommitteeCredentialMember b cp c = map_sum id (map_option (amended (block_authorizations txs))) (cp_CredentialMember cp c)) \<and>
         (\<forall>hot. hot_member_answer (block_authorizations txs) cp hot (block_CommitteeHotCredentialMember b cp hot))))"
proof (intro conjI allI impI; (elim conjE)?)
  show "map_sum id block_view (ApplyTransactions bb pp (NewBlockLedgerState ls) txs) = apply_txs bb pp txs (applied_start ls)"
    using refines_transactions[OF inv_start[of ls], of bb pp txs] by (simp add: refines_def view_start)
next
  fix b assume "ApplyTransactions bb pp (NewBlockLedgerState ls) txs = Inr b"
  then have "overlay_keeps (NewBlockLedgerState ls) (block_authorizations txs) b" by (rule keeps_transactions)
  then have k: "bl_committeeColdHot b = record_authorizations (block_authorizations txs) []" "distinct (map fst (bl_dreps b))" "bl_base b = ls"
    by (simp_all add: overlay_keeps_def NewBlockLedgerState_def)
  show "\<exists>regs'. block_DRepRegistrations b (Inr regs) = Inr regs' \<and> lists_dreps regs' (ls_DRepRegistration (block_view b))"
    if "lists_dreps regs (ls_DRepRegistration ls)" "\<forall>c r. ls_DRepRegistration ls c = Inr (Some r) \<longrightarrow> dr_Credential r = c"
    using dreps_listed[OF k(2), of regs] that k(3) by simp
  show "map_sum id set (block_CommitteeHotCredentialMembers b cp hot) =
         map_sum id (\<lambda>members. {\<lparr>cm_ColdKey = cred_Hash cold, cm_HotKey = Some (cred_Hash hot), cm_ExpiryEpoch = 0, cm_Resigned = False\<rparr> | cold.
             last_authorization (block_authorizations txs) cold = Some (Some hot)} \<union>
             {m. Some m \<in> set members \<and> last_for_hash (block_authorizations txs) (cm_ColdKey m) = None})
           (cp_HotCredentialMembers cp hot)" for hot by (rule hot_members[OF k(1)])
  assume inj: "inj_on cred_Hash (fst ` set (block_authorizations txs))"
  show "block_CommitteeMember b cp h = map_sum id (map_option (amended (block_authorizations txs))) (cp_Member cp h)" for h
    by (cases "cp_Member cp h") (simp_all add: block_CommitteeMember_def authorization_amended[OF k(1) inj])
  show "block_CommitteeCredentialMember b cp c = map_sum id (map_option (amended (block_authorizations txs))) (cp_CredentialMember cp c)" for c
    by (cases "cp_CredentialMember cp c") (simp_all add: block_CommitteeCredentialMember_def authorization_amended[OF k(1) inj])
  show "hot_member_answer (block_authorizations txs) cp hot (block_CommitteeHotCredentialMember b cp hot)" for hot
    by (rule hot_member[OF k(1) inj])
qed

text \<open>A block that registers a DRep and authorizes a hot key for a member of the committee.\<close>

definition example_hash :: "nat \<Rightarrow> Credential" where
  "example_hash n = \<lparr>CredType = 0, cred_Hash = replicate 28 (of_nat n)\<rparr>"

definition example_base :: LedgerState where
  "example_base = \<lparr>
     UtxoById = (\<lambda>i. Inl (ErrUtxoSpentInBlock i)), IsStakeCredentialRegistered = (\<lambda>_. False), IsRewardAccountRegistered = (\<lambda>_. False),
     RewardAccountBalance = (\<lambda>_. Inr None), StakeCredentialDeposit = None, PoolCurrentState = (\<lambda>p. Inr (None, None)),
     IsPoolRegistered = (\<lambda>_. False), IsVrfKeyInUse = (\<lambda>_. Inr None), IsFutureVrfKeyInUse = None, ls_DRepRegistration = (\<lambda>_. Inr None),
     ls_DRepDelegation = None, GovActionById = (\<lambda>_. Inr None), GovActionExists = (\<lambda>_. False), HotCredentialColds = None,
     PendingInstantaneousRewards = (\<lambda>_ _. Inr (0, False)), EpochForSlot = None, ls_GenesisDelegation = None,
     ProtocolParameterUpdateWindow = None, ls_NetworkId = 1\<rparr>"

definition example_governance :: Transaction where
  "example_governance = (blank_transaction (replicate 32 7))\<lparr>tx_Certificates :=
     [RegistrationDrepCertificate (example_hash 1) 500 None, AuthCommitteeHotCertificate (example_hash 2) (example_hash 3)]\<rparr>"

definition example_committee :: committee_provider where
  "example_committee = (let seat = (\<lambda>h. Inr (Some \<lparr>cm_ColdKey = h, cm_HotKey = None, cm_ExpiryEpoch = 9, cm_Resigned = False\<rparr>)) in
     \<lparr>cp_Member = seat, cp_CredentialMember = (\<lambda>c. seat (cred_Hash c)), cp_HotCredentialMember = (\<lambda>_. Inr None),
       cp_HotCredentialMembers = (\<lambda>_. Inr [])\<rparr>)"

lemma example_governance_applied: "\<exists>b. ApplyTransactions (\<lambda>_. Inl NilAddress) None (NewBlockLedgerState example_base) [example_governance] = Inr b"
  by (simp add: ApplyTransaction_def example_governance_def blank_transaction_def bodyLevel_def applyLevel_def applyCertificate_def
    applyPoolCertificate_def applyOtherCertificate_def Let_def)

theorem block_state_refines_ledger_witness:
  "\<exists>b. ApplyTransactions (\<lambda>_. Inl NilAddress) None (NewBlockLedgerState example_base) [example_governance] = Inr b \<and>
     (\<exists>regs. block_DRepRegistrations b (Inr []) = Inr regs \<and> lists_dreps regs (ls_DRepRegistration (block_view b))) \<and>
     block_CommitteeMember b example_committee (replicate 28 2) =
       Inr (Some \<lparr>cm_ColdKey = replicate 28 2, cm_HotKey = Some (replicate 28 3), cm_ExpiryEpoch = 9, cm_Resigned = False\<rparr>)"
proof -
  obtain b where b: "ApplyTransactions (\<lambda>_. Inl NilAddress) None (NewBlockLedgerState example_base) [example_governance] = Inr b"
    using example_governance_applied by blast
  have as: "block_authorizations [example_governance] = [(example_hash 2, Some (example_hash 3))]"
    by (simp add: block_authorizations_def tx_authorizations_def level_authorizations_def certificate_authorization_def
      example_governance_def blank_transaction_def bodyLevel_def)
  note c = block_state_refines_ledger[THEN conjunct2, rule_format, OF b, of "[]" example_committee, unfolded as]
  have "lists_dreps [] (ls_DRepRegistration example_base)" "\<forall>c r. ls_DRepRegistration example_base c = Inr (Some r) \<longrightarrow> dr_Credential r = c"
    by (simp_all add: lists_dreps_def example_base_def)
  moreover have "block_CommitteeMember b example_committee (replicate 28 2) =
      map_sum id (map_option (amended [(example_hash 2, Some (example_hash 3))])) (cp_Member example_committee (replicate 28 2))"
    using c by simp
  moreover have "map_sum id (map_option (amended [(example_hash 2, Some (example_hash 3))])) (cp_Member example_committee (replicate 28 2)) =
      Inr (Some \<lparr>cm_ColdKey = replicate 28 2, cm_HotKey = Some (replicate 28 3), cm_ExpiryEpoch = 9, cm_Resigned = False\<rparr>)"
    by (simp add: example_committee_def amended_def last_for_hash_def example_hash_def Let_def)
  ultimately show ?thesis using b c by metis
qed

end
