(* ===== verification/Witnesses.thy ===== *)
theory Witnesses
  imports BlockState
begin

text \<open>
  The witnesses of a transaction (\<open>ledger/common/verify.go\<close>, \<open>witness.go\<close> and the first part of
  \<open>rules.go\<close>, native scripts of \<open>script.go\<close>): vkey and bootstrap signatures, the keys that must have
  signed, native scripts, and the genesis delegates that authorize instantaneous rewards and parameter
  updates.  The hash functions and the signature check are parameters.
\<close>

record witness_crypto =
  wc_blake224 :: "bytes \<Rightarrow> bytes"
  wc_sha3 :: "bytes \<Rightarrow> bytes"
  wc_sha256 :: "bytes \<Rightarrow> bytes"
  wc_verify :: "bytes \<Rightarrow> bytes \<Rightarrow> bytes \<Rightarrow> bool"

datatype witness_error =
    InvalidPublicKeySize nat | InvalidSignatureSize nat | SignatureVerificationFailed
  | ByronWitnessError ledger_error
  | InvalidBootstrapKeySize nat | InvalidBootstrapSignatureSize nat | InvalidBootstrapSignature
  | MissingBootstrapWitness TransactionInput Hash28 | MissingInputWitness TransactionInput Hash28
  | WithdrawalAddressError address_error
  | MalformedAuthorization string nat
  | MissingVKeyWitnesses | MissingRequiredVKeyWitnessForSigner Hash28
  | NativeScriptFailed NativeScript
  | GenesisDelegationStateUnavailable | ParameterUpdateWindowUnavailable
  | WitnessProviderError ledger_error
  | MIRInsufficientGenesisSigs nat nat
  | UpdateDelegateError Hash28 | UpdateWitnessError Hash28 | EpochOverflow | UpdateEpochError nat nat nat bool
  | UpdateVersionUnavailable | UpdateVersionError "nat \<times> nat" "nat \<times> nat"

subsection \<open>Signatures\<close>

definition VerifyVKeySignature :: "witness_crypto \<Rightarrow> bytes \<Rightarrow> bytes \<Rightarrow> bytes \<Rightarrow> witness_error + unit" where
  "VerifyVKeySignature W pubKey sig msg =
     (if length pubKey \<noteq> 32 then Inl (InvalidPublicKeySize (length pubKey))
      else if length sig \<noteq> 64 then Inl (InvalidSignatureSize (length sig))
      else if \<not> wc_verify W pubKey msg sig then Inl SignatureVerificationFailed
      else Inr ())"

definition transactionWitnessHash :: "Transaction \<Rightarrow> bytes" where
  "transactionWitnessHash tx = (case tx_WireId tx of Some i \<Rightarrow> i | None \<Rightarrow> tx_Hash tx)"

text \<open>The witnesses of a transaction; a nil witness set has none.\<close>

definition vkeyWitnesses :: "Transaction \<Rightarrow> VkeyWitness list" where
  "vkeyWitnesses tx = (case tx_Witnesses tx of Some w \<Rightarrow> ws_Vkey w | None \<Rightarrow> [])"

definition bootstrapWitnesses :: "Transaction \<Rightarrow> BootstrapWitness list" where
  "bootstrapWitnesses tx = (case tx_Witnesses tx of Some w \<Rightarrow> ws_Bootstrap w | None \<Rightarrow> [])"

definition ValidateVKeyWitnesses :: "witness_crypto \<Rightarrow> Transaction \<Rightarrow> witness_error + unit" where
  "ValidateVKeyWitnesses W tx =
     (case tx_ByronWitnesses tx of
        Some (Inl e) \<Rightarrow> Inl (ByronWitnessError e)
      | Some (Inr u) \<Rightarrow> Inr ()
      | None \<Rightarrow> each (\<lambda>vw. VerifyVKeySignature W (vw_Vkey vw) (vw_Signature vw) (transactionWitnessHash tx)) (vkeyWitnesses tx))"

definition computeByronAddressRoot :: "witness_crypto \<Rightarrow> bytes \<Rightarrow> bytes \<Rightarrow> bytes \<Rightarrow> Hash28 option" where
  "computeByronAddressRoot W pubkey chainCode attrBytes =
     (if length pubkey \<noteq> 32 then None
      else Some (wc_blake224 W (wc_sha3 W ([0x83, 0x00, 0x82, 0x00, 0x58, 0x40] @ pubkey @ chainCode @ attrBytes))))"

definition bootstrap_KeyHash :: "witness_crypto \<Rightarrow> BootstrapWitness \<Rightarrow> Hash28 option" where
  "bootstrap_KeyHash W bw = computeByronAddressRoot W (bw_PublicKey bw) (bw_ChainCode bw) (bw_Attributes bw)"

definition inputWitness :: "witness_crypto \<Rightarrow> Transaction \<Rightarrow> 'a LedgerState_scheme \<Rightarrow> TransactionInput \<Rightarrow> witness_error + unit" where
  "inputWitness W tx ls input =
     (case UtxoById ls input of
        Inl _ \<Rightarrow> Inr ()
      | Inr utxo \<Rightarrow>
          let addr = to_Address (snd utxo) in
          (case paymentPayload addr of
             Some (AddressPayloadKeyHash h) \<Rightarrow>
               if h \<in> set (map (\<lambda>vw. wc_blake224 W (vw_Vkey vw)) (vkeyWitnesses tx)) then Inr ()
               else if addressType addr = AddressTypeByron then
                 ensure (\<exists>bw \<in> set (bootstrapWitnesses tx). bootstrap_KeyHash W bw = Some h) (MissingBootstrapWitness input h)
               else Inl (MissingInputWitness input h)
           | _ \<Rightarrow> Inr ()))"

definition ValidateInputVKeyWitnesses :: "witness_crypto \<Rightarrow> Transaction \<Rightarrow> 'a LedgerState_scheme \<Rightarrow> witness_error + unit" where
  "ValidateInputVKeyWitnesses W tx ls = each (inputWitness W tx ls) (tx_Inputs tx)"

definition ValidateBootstrapWitnesses :: "witness_crypto \<Rightarrow> Transaction \<Rightarrow> witness_error + unit" where
  "ValidateBootstrapWitnesses W tx =
     each (\<lambda>bw.
       if length (bw_PublicKey bw) \<noteq> 32 then Inl (InvalidBootstrapKeySize (length (bw_PublicKey bw)))
       else if length (bw_Signature bw) \<noteq> 64 then Inl (InvalidBootstrapSignatureSize (length (bw_Signature bw)))
       else ensure (wc_verify W (bw_PublicKey bw) (transactionWitnessHash tx) (bw_Signature bw)) InvalidBootstrapSignature)
       (bootstrapWitnesses tx)"

subsection \<open>Signatures verified ahead of validation\<close>

text \<open>What the binding of a result to its transaction hashes: the message, and every key and signature
  behind its length.\<close>

definition lengthPrefixed :: "bytes \<Rightarrow> bytes" where
  "lengthPrefixed data = rev (be_bytes 8 (length data)) @ data"

definition bindingBytes :: "Transaction \<Rightarrow> bytes" where
  "bindingBytes tx = transactionWitnessHash tx @
     (case tx_Witnesses tx of
        None \<Rightarrow> []
      | Some w \<Rightarrow>
          rev (be_bytes 8 (length (ws_Vkey w))) @ concat (map (\<lambda>vw. lengthPrefixed (vw_Vkey vw) @ lengthPrefixed (vw_Signature vw)) (ws_Vkey w)) @
          rev (be_bytes 8 (length (ws_Bootstrap w))) @
          concat (map (\<lambda>bw. lengthPrefixed (bw_PublicKey bw) @ lengthPrefixed (bw_Signature bw)) (ws_Bootstrap w)))"

definition signatureBinding :: "witness_crypto \<Rightarrow> Transaction \<Rightarrow> bytes" where
  "signatureBinding W tx = wc_sha256 W (bindingBytes tx)"

record PreverifiedSignatures =
  ps_binding :: bytes
  ps_err :: "witness_error option"

definition PreverifySignatures :: "witness_crypto \<Rightarrow> Transaction \<Rightarrow> PreverifiedSignatures" where
  "PreverifySignatures W tx = \<lparr>ps_binding = signatureBinding W tx,
     ps_err = (case rbind (ValidateVKeyWitnesses W tx) (\<lambda>_. ValidateBootstrapWitnesses W tx) of Inl e \<Rightarrow> Some e | Inr _ \<Rightarrow> None)\<rparr>"

definition UtxoValidateSignatures ::
  "witness_crypto \<Rightarrow> PreverifiedSignatures option \<Rightarrow> Transaction \<Rightarrow> 'a LedgerState_scheme \<Rightarrow> witness_error + unit" where
  "UtxoValidateSignatures W signatures tx ls =
     rbind (case signatures of
              Some s \<Rightarrow>
                if tx_ByronWitnesses tx = None \<and> ps_binding s = signatureBinding W tx
                then (case ps_err s of Some e \<Rightarrow> Inl e | None \<Rightarrow> Inr ())
                else rbind (ValidateVKeyWitnesses W tx) (\<lambda>_. ValidateBootstrapWitnesses W tx)
            | None \<Rightarrow> rbind (ValidateVKeyWitnesses W tx) (\<lambda>_. ValidateBootstrapWitnesses W tx))
       (\<lambda>_. ValidateInputVKeyWitnesses W tx ls)"

subsection \<open>Required keys\<close>

text \<open>The credential that authorizes a certificate, and whether a witness is required for it.\<close>

definition certificateCredential :: "Certificate \<Rightarrow> witness_error + (Credential \<times> bool) option" where
  "certificateCredential cert =
     (let visitCredential = (\<lambda>c w. if CredType c = 0 \<or> CredType c = 1 then Inr (Some (c, w))
                                   else Inl (MalformedAuthorization ''certificate credential type'' (CredType c)))
      in case cert of
        StakeRegistrationCertificate c \<Rightarrow> visitCredential c False
      | StakeDeregistrationCertificate c \<Rightarrow> visitCredential c True
      | StakeDelegationCertificate (Some c) _ \<Rightarrow> visitCredential c True
      | StakeDelegationCertificate None _ \<Rightarrow> Inl (MalformedAuthorization ''nil stake delegation credential'' 0)
      | RegistrationCertificate c _ \<Rightarrow> visitCredential c True
      | DeregistrationCertificate c _ \<Rightarrow> visitCredential c True
      | VoteDelegationCertificate c _ \<Rightarrow> visitCredential c True
      | StakeVoteDelegationCertificate c _ _ \<Rightarrow> visitCredential c True
      | StakeRegistrationDelegationCertificate c _ _ \<Rightarrow> visitCredential c True
      | VoteRegistrationDelegationCertificate c _ _ \<Rightarrow> visitCredential c True
      | StakeVoteRegistrationDelegationCertificate c _ _ _ \<Rightarrow> visitCredential c True
      | AuthCommitteeHotCertificate cold _ \<Rightarrow> visitCredential cold True
      | ResignCommitteeColdCertificate cold _ \<Rightarrow> visitCredential cold True
      | RegistrationDrepCertificate c _ _ \<Rightarrow> visitCredential c True
      | DeregistrationDrepCertificate c _ \<Rightarrow> visitCredential c True
      | UpdateDrepCertificate c _ \<Rightarrow> visitCredential c True
      | PoolRegistrationCertificate _ \<Rightarrow> Inr None
      | PoolRetirementCertificate _ _ \<Rightarrow> Inr None
      | GenesisKeyDelegationCertificate _ _ _ \<Rightarrow> Inr None
      | MoveInstantaneousRewardsCertificate _ _ _ \<Rightarrow> Inr None)"

definition certificateKeys :: "Certificate \<Rightarrow> witness_error + Hash28 list" where
  "certificateKeys cert =
     rbind (certificateCredential cert) (\<lambda>visited.
       let own = (case visited of Some (c, True) \<Rightarrow> if CredType c = 0 then [cred_Hash c] else [] | _ \<Rightarrow> []) in
       case cert of
         PoolRegistrationCertificate r \<Rightarrow> Inr (own @ po_Operator r # po_PoolOwners r)
       | PoolRetirementCertificate p _ \<Rightarrow> Inr (own @ [p])
       | GenesisKeyDelegationCertificate g _ _ \<Rightarrow>
           if length g \<noteq> 28 then Inl (MalformedAuthorization ''genesis key hash length'' (length g)) else Inr (own @ [g])
       | _ \<Rightarrow> Inr own)"

definition voterCredential :: "Voter option \<Rightarrow> witness_error + Credential" where
  "voterCredential voter =
     (case voter of
        None \<Rightarrow> Inl (MalformedAuthorization ''nil voter'' 0)
      | Some v \<Rightarrow>
          if vo_Type v \<in> {0, 2, 4} then Inr \<lparr>CredType = 0, cred_Hash = vo_Hash v\<rparr>
          else if vo_Type v \<in> {1, 3} then Inr \<lparr>CredType = 1, cred_Hash = vo_Hash v\<rparr>
          else Inl (MalformedAuthorization ''voter type'' (vo_Type v)))"

text \<open>A loop that gathers the keys each element requires.\<close>

fun gather :: "('a \<Rightarrow> 'e + 'b list) \<Rightarrow> 'a list \<Rightarrow> 'e + 'b list" where
  "gather f [] = Inr []"
| "gather f (x # xs) = rbind (f x) (\<lambda>ys. rbind (gather f xs) (\<lambda>zs. Inr (ys @ zs)))"

definition keyOf :: "Credential \<Rightarrow> Hash28 list" where
  "keyOf c = (if CredType c = 0 then [cred_Hash c] else [])"

definition withdrawalCredential :: "(Address \<Rightarrow> address_error + bytes) \<Rightarrow> Address option \<Rightarrow> address_error + Credential" where
  "withdrawalCredential bb addr = (case addr of None \<Rightarrow> Inl NilAddress | Some a \<Rightarrow> RewardAccountCredential bb a)"

definition requiredKeys :: "(Address \<Rightarrow> address_error + bytes) \<Rightarrow> Transaction \<Rightarrow> witness_error + Hash28 list" where
  "requiredKeys bb tx =
     rbind (gather (\<lambda>(addr, _). case withdrawalCredential bb addr of
              Inl e \<Rightarrow> Inl (WithdrawalAddressError e) | Inr c \<Rightarrow> Inr (keyOf c)) (tx_Withdrawals tx)) (\<lambda>fromWithdrawals.
     rbind (gather certificateKeys (tx_Certificates tx)) (\<lambda>fromCertificates.
     rbind (gather (\<lambda>v. rbind (voterCredential v) (\<lambda>c. Inr (keyOf c))) (tx_Voters tx)) (\<lambda>fromVoters.
       Inr (tx_RequiredSigners tx @ fromWithdrawals @ fromCertificates @ fromVoters))))"

definition ValidateRequiredVKeyWitnesses ::
  "witness_crypto \<Rightarrow> (Address \<Rightarrow> address_error + bytes) \<Rightarrow> Transaction \<Rightarrow> witness_error + unit" where
  "ValidateRequiredVKeyWitnesses W bb tx =
     (case ValidateWithdrawalAddresses bb (map fst (tx_Withdrawals tx)) of
        Inl e \<Rightarrow> Inl (WithdrawalAddressError e)
      | Inr _ \<Rightarrow>
          rbind (requiredKeys bb tx) (\<lambda>required.
            if required = [] then Inr ()
            else if vkeyWitnesses tx = [] then Inl MissingVKeyWitnesses
            else each (\<lambda>req. ensure (req \<in> set (map (\<lambda>vw. wc_blake224 W (vw_Vkey vw)) (vkeyWitnesses tx)))
                          (MissingRequiredVKeyWitnessForSigner req)) required))"

subsection \<open>Native scripts\<close>

record nativeScriptEvalContext =
  cx_validityStart :: "nat option"
  cx_validityEnd :: "nat option"
  cx_keyHashes :: "Hash28 set"
  cx_guardCredentials :: "Credential set"

fun evaluate :: "nativeScriptEvalContext \<Rightarrow> NativeScript \<Rightarrow> bool" where
  "evaluate ctx NilScript = False"
| "evaluate ctx (NativeScriptPubkey h) = (length h = 28 \<and> h \<in> cx_keyHashes ctx)"
| "evaluate ctx (NativeScriptAll scripts) = list_all (evaluate ctx) scripts"
| "evaluate ctx (NativeScriptAny scripts) = list_ex (evaluate ctx) scripts"
| "evaluate ctx (NativeScriptNofK n scripts) = (int (length (filter (evaluate ctx) scripts)) \<ge> n)"
| "evaluate ctx (NativeScriptInvalidBefore slot) = (case cx_validityStart ctx of Some start \<Rightarrow> start \<ge> slot | None \<Rightarrow> False)"
| "evaluate ctx (NativeScriptInvalidHereafter slot) = (case cx_validityEnd ctx of Some end_ \<Rightarrow> end_ \<le> slot | None \<Rightarrow> False)"
| "evaluate ctx (NativeScriptRequireGuard c) = (c \<in> cx_guardCredentials ctx)"

definition witnessKeyHashes :: "witness_crypto \<Rightarrow> Transaction \<Rightarrow> Hash28 set" where
  "witnessKeyHashes W tx = set (map (\<lambda>vw. wc_blake224 W (vw_Vkey vw)) (vkeyWitnesses tx)) \<union>
     set (List.map_filter (bootstrap_KeyHash W) (bootstrapWitnesses tx))"

text \<open>The first script of the list that fails, if any.\<close>

definition FirstInvalidNativeScriptIn :: "witness_crypto \<Rightarrow> Transaction \<Rightarrow> NativeScript list \<Rightarrow> NativeScript option" where
  "FirstInvalidNativeScriptIn W tx nativeScripts =
     find (\<lambda>n. \<not> evaluate \<lparr>cx_validityStart = tx_LowerBound tx, cx_validityEnd = tx_UpperBound tx,
                   cx_keyHashes = witnessKeyHashes W tx, cx_guardCredentials = {}\<rparr> n) nativeScripts"

definition FirstInvalidNativeScript :: "witness_crypto \<Rightarrow> Transaction \<Rightarrow> NativeScript option" where
  "FirstInvalidNativeScript W tx =
     (case tx_Witnesses tx of None \<Rightarrow> None | Some w \<Rightarrow> FirstInvalidNativeScriptIn W tx (ws_NativeScripts w))"

subsection \<open>Genesis delegates\<close>

definition ValidateMIRGenesisQuorum :: "witness_crypto \<Rightarrow> Transaction \<Rightarrow> nat \<Rightarrow> 'a LedgerState_scheme \<Rightarrow> witness_error + unit" where
  "ValidateMIRGenesisQuorum W tx slot ls =
     (if \<not> list_ex (\<lambda>c. case c of MoveInstantaneousRewardsCertificate _ _ _ \<Rightarrow> True | _ \<Rightarrow> False) (tx_Certificates tx) then Inr ()
      else case ls_GenesisDelegation ls of
        None \<Rightarrow> Inl GenesisDelegationStateUnavailable
      | Some genesis \<Rightarrow>
          (case GenesisDelegateKeyHashes genesis slot of
             Inl e \<Rightarrow> Inl (WitnessProviderError e)
           | Inr delegates \<Rightarrow>
               (case GenesisUpdateQuorum genesis of
                  Inl e \<Rightarrow> Inl (WitnessProviderError e)
                | Inr quorum \<Rightarrow>
                    (let signed = length (remdups (filter (\<lambda>h. h \<in> set delegates) (map (\<lambda>vw. wc_blake224 W (vw_Vkey vw)) (vkeyWitnesses tx)))) in
                     if signed < quorum then Inl (MIRInsufficientGenesisSigs signed quorum) else Inr ()))))"

text \<open>A \<open>uint\<close> that is its largest value has no successor.\<close>

definition protocolVersionCanFollow :: "nat \<times> nat \<Rightarrow> nat \<times> nat \<Rightarrow> bool" where
  "protocolVersionCanFollow current proposed =
     (let majorIncrement = fst current < 2 ^ 64 - 1 \<and> fst proposed = fst current + 1 \<and> snd proposed = 0;
          minorIncrement = fst proposed = fst current \<and> snd current < 2 ^ 64 - 1 \<and> snd proposed = snd current + 1
      in majorIncrement \<or> minorIncrement)"

definition updateDelegate :: "GenesisDelegationState \<Rightarrow> nat \<Rightarrow> Hash28 \<Rightarrow> witness_error + Hash28" where
  "updateDelegate genesis slot genesisKey =
     (case GenesisDelegateForGenesisKey genesis genesisKey slot of
        Inl e \<Rightarrow> Inl (WitnessProviderError e)
      | Inr None \<Rightarrow> Inl (UpdateDelegateError genesisKey)
      | Inr (Some d) \<Rightarrow> Inr d)"

definition validateUpdateVersion :: "(nat \<times> nat) option \<Rightarrow> ProtocolParameterUpdate \<Rightarrow> witness_error + unit" where
  "validateUpdateVersion currentVersion update =
     rbind (case up_ProposedVersion update of
              None \<Rightarrow> Inr ()
            | Some proposed \<Rightarrow>
                (case currentVersion of
                   None \<Rightarrow> Inl UpdateVersionUnavailable
                 | Some current \<Rightarrow> ensure (protocolVersionCanFollow current proposed) (UpdateVersionError current proposed)))
       (\<lambda>_. case up_ValidateVersion update of
              None \<Rightarrow> Inr ()
            | Some check \<Rightarrow>
                if up_WithoutCostModels update then Inr ()
                else (case currentVersion of
                        None \<Rightarrow> Inl UpdateVersionUnavailable
                      | Some current \<Rightarrow> (case check current of Inl e \<Rightarrow> Inl (WitnessProviderError e) | Inr u \<Rightarrow> Inr ())))"

definition ValidateClassicProtocolParameterUpdates ::
  "witness_crypto \<Rightarrow> (nat \<times> nat) option \<Rightarrow> Transaction \<Rightarrow> nat \<Rightarrow> 'a LedgerState_scheme \<Rightarrow> witness_error + unit" where
  "ValidateClassicProtocolParameterUpdates W currentVersion tx slot ls =
     (case tx_Updates tx of (targetEpoch, updates) \<Rightarrow>
      if updates = [] then Inr ()
      else case ls_GenesisDelegation ls of
        None \<Rightarrow> Inl GenesisDelegationStateUnavailable
      | Some genesis \<Rightarrow>
      (case ProtocolParameterUpdateWindow ls of
         None \<Rightarrow> Inl ParameterUpdateWindowUnavailable
       | Some window \<Rightarrow>
           rbind (each (\<lambda>(g, _). rbind (updateDelegate genesis slot g) (\<lambda>_. Inr ())) updates) (\<lambda>_.
           rbind (each (\<lambda>(g, _). rbind (updateDelegate genesis slot g) (\<lambda>d.
                    ensure (d \<in> set (map (\<lambda>vw. wc_blake224 W (vw_Vkey vw)) (vkeyWitnesses tx))) (UpdateWitnessError g))) updates) (\<lambda>_.
           (case window slot of
              Inl e \<Rightarrow> Inl (WitnessProviderError e)
            | Inr (currentEpoch, slotOfNoReturn) \<Rightarrow>
                (let forNextEpoch = slot \<ge> slotOfNoReturn in
                 if forNextEpoch \<and> currentEpoch = 2 ^ 64 - 1 then Inl EpochOverflow
                 else let expectedEpoch = (if forNextEpoch then currentEpoch + 1 else currentEpoch) in
                   if targetEpoch \<noteq> expectedEpoch then Inl (UpdateEpochError currentEpoch expectedEpoch targetEpoch forNextEpoch)
                   else each (\<lambda>(_, u). validateUpdateVersion currentVersion u) updates))))))"

subsection \<open>Native scripts are sound\<close>

text \<open>What a script demands of the keys that signed, of the guards and of the slot.\<close>

fun script_holds :: "Hash28 set \<Rightarrow> Credential set \<Rightarrow> nat \<Rightarrow> NativeScript \<Rightarrow> bool" where
  "script_holds keys guards slot NilScript = False"
| "script_holds keys guards slot (NativeScriptPubkey h) = (h \<in> keys)"
| "script_holds keys guards slot (NativeScriptAll scripts) = (\<forall>s \<in> set scripts. script_holds keys guards slot s)"
| "script_holds keys guards slot (NativeScriptAny scripts) = (\<exists>s \<in> set scripts. script_holds keys guards slot s)"
| "script_holds keys guards slot (NativeScriptNofK n scripts) = (n \<le> int (length (filter (script_holds keys guards slot) scripts)))"
| "script_holds keys guards slot (NativeScriptInvalidBefore s) = (s \<le> slot)"
| "script_holds keys guards slot (NativeScriptInvalidHereafter s) = (slot < s)"
| "script_holds keys guards slot (NativeScriptRequireGuard c) = (c \<in> guards)"

lemma length_filter_mono: "(\<And>x. x \<in> set xs \<Longrightarrow> P x \<Longrightarrow> Q x) \<Longrightarrow> length (filter P xs) \<le> length (filter Q xs)"
  by (induction xs) (auto intro: le_SucI)

text \<open>C20: A native script is never satisfied too early: when the evaluator accepts a script under the
  key hashes of the witnesses and the validity interval of the transaction, the script's demands hold,
  for these keys and for any larger set of keys and guards, at every slot of the interval, so every slot
  at which the transaction may be included.\<close>

theorem native_script_sound:
  assumes "evaluate ctx n" "cx_keyHashes ctx \<subseteq> keys" "cx_guardCredentials ctx \<subseteq> guards"
    and "\<And>start. cx_validityStart ctx = Some start \<Longrightarrow> start \<le> slot" "\<And>stop. cx_validityEnd ctx = Some stop \<Longrightarrow> slot < stop"
  shows "script_holds keys guards slot n"
  using assms
proof (induction ctx n rule: evaluate.induct)
  case (5 ctx n scripts)
  have "length (filter (evaluate ctx) scripts) \<le> length (filter (script_holds keys guards slot) scripts)"
    by (rule length_filter_mono) (use 5 in auto)
  then show ?case using "5.prems"(1) by simp
next
  case (6 ctx s)
  then show ?case by (cases "cx_validityStart ctx") (auto intro: le_trans)
next
  case (7 ctx s)
  then show ?case by (cases "cx_validityEnd ctx") (auto intro: less_le_trans)
qed (auto simp: list_all_iff list_ex_iff)

text \<open>Two of three keys, not before slot 100.\<close>

definition example_script :: NativeScript where
  "example_script = NativeScriptAll [NativeScriptInvalidBefore 100,
     NativeScriptNofK 2 [NativeScriptPubkey (replicate 28 1), NativeScriptPubkey (replicate 28 2), NativeScriptPubkey (replicate 28 3)]]"

definition example_context :: nativeScriptEvalContext where
  "example_context = \<lparr>cx_validityStart = Some 120, cx_validityEnd = Some 200,
     cx_keyHashes = {replicate 28 1, replicate 28 3}, cx_guardCredentials = {}\<rparr>"

theorem native_script_sound_witness:
  "evaluate example_context example_script \<and> script_holds {replicate 28 1, replicate 28 3} {} 150 example_script"
proof -
  have e: "evaluate example_context example_script"
    by (simp add: example_context_def example_script_def)
  have "script_holds {replicate 28 1, replicate 28 3} {} 150 example_script"
    by (rule native_script_sound[OF e]) (simp_all add: example_context_def)
  then show ?thesis using e by simp
qed

subsection \<open>Signatures verified ahead\<close>

lemma prefixed_inj:
  assumes "lengthPrefixed a @ r = lengthPrefixed b @ s" "length a < 2 ^ 64" "length b < 2 ^ 64"
  shows "a = b \<and> r = s"
proof -
  have "be_bytes 8 (length a) = be_bytes 8 (length b)"
    using assms(1) unfolding lengthPrefixed_def append_assoc by (simp add: append_eq_append_conv)
  then have "length a = length b" by (rule be_bytes_inj[rotated 2]) (use assms(2,3) in simp_all)
  then show ?thesis using assms(1) unfolding lengthPrefixed_def append_assoc by (simp add: append_eq_append_conv)
qed

lemma counted_inj:
  assumes "rev (be_bytes 8 (length xs)) @ concat (map (\<lambda>(k, s). lengthPrefixed k @ lengthPrefixed s) xs) @ r =
           rev (be_bytes 8 (length ys)) @ concat (map (\<lambda>(k, s). lengthPrefixed k @ lengthPrefixed s) ys) @ r'"
    and "length xs < 2 ^ 64" "length ys < 2 ^ 64"
    and "\<forall>(k, s) \<in> set xs \<union> set ys. length k < 2 ^ 64 \<and> length s < 2 ^ 64"
  shows "xs = ys \<and> r = r'"
proof -
  have "be_bytes 8 (length xs) = be_bytes 8 (length ys)"
    using assms(1) by (simp add: append_eq_append_conv)
  then have "length xs = length ys" by (rule be_bytes_inj[rotated 2]) (use assms(2,3) in simp_all)
  moreover have "concat (map (\<lambda>(k, s). lengthPrefixed k @ lengthPrefixed s) xs) @ r = concat (map (\<lambda>(k, s). lengthPrefixed k @ lengthPrefixed s) ys) @ r'"
    using assms(1) by (simp add: append_eq_append_conv)
  ultimately show ?thesis using assms(4)
  proof (induction xs ys rule: list_induct2)
    case (Cons x xs y ys)
    obtain k s k' s' where xy: "x = (k, s)" "y = (k', s')" by (cases x; cases y)
    have "lengthPrefixed k @ lengthPrefixed s @ concat (map (\<lambda>(k, s). lengthPrefixed k @ lengthPrefixed s) xs) @ r =
        lengthPrefixed k' @ lengthPrefixed s' @ concat (map (\<lambda>(k, s). lengthPrefixed k @ lengthPrefixed s) ys) @ r'"
      using Cons.prems(1) by (simp add: xy)
    then have "k = k'" and "lengthPrefixed s @ concat (map (\<lambda>(k, s). lengthPrefixed k @ lengthPrefixed s) xs) @ r =
        lengthPrefixed s' @ concat (map (\<lambda>(k, s). lengthPrefixed k @ lengthPrefixed s) ys) @ r'"
      using prefixed_inj[of k _ k'] Cons.prems(2) by (auto simp: xy)
    then show ?case using prefixed_inj[of s _ s'] Cons.IH Cons.prems(2) by (auto simp: xy)
  qed simp
qed


text \<open>The sizes the wire and the machine bound, and a message of 32 bytes.\<close>

definition binding_sized :: "Transaction \<Rightarrow> bool" where
  "binding_sized tx \<longleftrightarrow> length (transactionWitnessHash tx) = 32 \<and>
     length (vkeyWitnesses tx) < 2 ^ 64 \<and> length (bootstrapWitnesses tx) < 2 ^ 64 \<and>
     (\<forall>vw \<in> set (vkeyWitnesses tx). length (vw_Vkey vw) < 2 ^ 64 \<and> length (vw_Signature vw) < 2 ^ 64) \<and>
     (\<forall>bw \<in> set (bootstrapWitnesses tx). length (bw_PublicKey bw) < 2 ^ 64 \<and> length (bw_Signature bw) < 2 ^ 64)"

definition vkey_pairs :: "Transaction \<Rightarrow> (bytes \<times> bytes) list" where
  "vkey_pairs tx = map (\<lambda>vw. (vw_Vkey vw, vw_Signature vw)) (vkeyWitnesses tx)"

definition bootstrap_pairs :: "Transaction \<Rightarrow> (bytes \<times> bytes) list" where
  "bootstrap_pairs tx = map (\<lambda>bw. (bw_PublicKey bw, bw_Signature bw)) (bootstrapWitnesses tx)"

lemma binding_pairs:
  "bindingBytes tx = transactionWitnessHash tx @ (if tx_Witnesses tx = None then [] else
     rev (be_bytes 8 (length (vkey_pairs tx))) @ concat (map (\<lambda>(k, s). lengthPrefixed k @ lengthPrefixed s) (vkey_pairs tx)) @
     rev (be_bytes 8 (length (bootstrap_pairs tx))) @ concat (map (\<lambda>(k, s). lengthPrefixed k @ lengthPrefixed s) (bootstrap_pairs tx)) @ [])"
  by (auto simp: bindingBytes_def vkey_pairs_def bootstrap_pairs_def vkeyWitnesses_def bootstrapWitnesses_def comp_def split: option.split)

lemma binding_inj:
  assumes "bindingBytes tx = bindingBytes tx'" "binding_sized tx" "binding_sized tx'"
  shows "transactionWitnessHash tx = transactionWitnessHash tx' \<and> vkey_pairs tx = vkey_pairs tx' \<and> bootstrap_pairs tx = bootstrap_pairs tx'"
proof -
  note eq = assms(1)[unfolded binding_pairs]
  have h: "transactionWitnessHash tx = transactionWitnessHash tx'"
    using eq assms(2,3) by (simp add: binding_sized_def append_eq_append_conv)
  have p: "length (vkey_pairs t) < 2 ^ 64" "length (bootstrap_pairs t) < 2 ^ 64"
    "\<forall>(k, s) \<in> set (vkey_pairs t) \<union> set (bootstrap_pairs t). length k < 2 ^ 64 \<and> length s < 2 ^ 64" if "binding_sized t" for t
    using that by (auto simp: binding_sized_def vkey_pairs_def bootstrap_pairs_def)
  have none: "vkey_pairs t = [] \<and> bootstrap_pairs t = []" if "tx_Witnesses t = None" for t
    using that by (simp add: vkey_pairs_def bootstrap_pairs_def vkeyWitnesses_def bootstrapWitnesses_def)
  have be: "be_bytes 8 n \<noteq> []" for n using length_be_bytes[of 8 n] by (metis list.size(3) zero_neq_numeral)
  show ?thesis
  proof (cases "tx_Witnesses tx = None \<or> tx_Witnesses tx' = None")
    case True
    then have "tx_Witnesses tx = None" "tx_Witnesses tx' = None"
      using eq h be by (auto split: if_splits)
    then show ?thesis using h none by simp
  next
    case False
    then have n: "tx_Witnesses tx \<noteq> None" "tx_Witnesses tx' \<noteq> None" by auto
    have "rev (be_bytes 8 (length (vkey_pairs tx))) @ concat (map (\<lambda>(k, s). lengthPrefixed k @ lengthPrefixed s) (vkey_pairs tx)) @
        rev (be_bytes 8 (length (bootstrap_pairs tx))) @ concat (map (\<lambda>(k, s). lengthPrefixed k @ lengthPrefixed s) (bootstrap_pairs tx)) @ [] =
      rev (be_bytes 8 (length (vkey_pairs tx'))) @ concat (map (\<lambda>(k, s). lengthPrefixed k @ lengthPrefixed s) (vkey_pairs tx')) @
        rev (be_bytes 8 (length (bootstrap_pairs tx'))) @ concat (map (\<lambda>(k, s). lengthPrefixed k @ lengthPrefixed s) (bootstrap_pairs tx')) @ []"
      using eq unfolding h if_not_P[OF n(1)] if_not_P[OF n(2)] by (simp only: same_append_eq)
    note v = counted_inj[OF this p(1)[OF assms(2)] p(1)[OF assms(3)]]
    have v': "vkey_pairs tx = vkey_pairs tx'" and r: "rev (be_bytes 8 (length (bootstrap_pairs tx))) @ concat (map (\<lambda>(k, s). lengthPrefixed k @ lengthPrefixed s) (bootstrap_pairs tx)) @ [] =
      rev (be_bytes 8 (length (bootstrap_pairs tx'))) @ concat (map (\<lambda>(k, s). lengthPrefixed k @ lengthPrefixed s) (bootstrap_pairs tx')) @ []"
      using v p(3)[OF assms(2)] p(3)[OF assms(3)] by blast+
    have "bootstrap_pairs tx = bootstrap_pairs tx'"
      using counted_inj[OF r p(2)[OF assms(2)] p(2)[OF assms(3)]] p(3)[OF assms(2)] p(3)[OF assms(3)] by blast
    then show ?thesis using h v' by simp
  qed
qed

lemma each_map: "each f (map g xs) = each (f \<circ> g) xs"
  by (induction xs) simp_all

lemma signatures_of_pairs:
  "tx_ByronWitnesses tx = None \<Longrightarrow> ValidateVKeyWitnesses W tx = each (\<lambda>(k, s). VerifyVKeySignature W k s (transactionWitnessHash tx)) (vkey_pairs tx)"
  "ValidateBootstrapWitnesses W tx = each (\<lambda>(k, s).
       if length k \<noteq> 32 then Inl (InvalidBootstrapKeySize (length k))
       else if length s \<noteq> 64 then Inl (InvalidBootstrapSignatureSize (length s))
       else ensure (wc_verify W k (transactionWitnessHash tx) s) InvalidBootstrapSignature) (bootstrap_pairs tx)"
  by (simp_all add: ValidateVKeyWitnesses_def ValidateBootstrapWitnesses_def vkey_pairs_def bootstrap_pairs_def each_map comp_def)

text \<open>C16: Verifying signatures ahead of validation is sound: whatever transaction without Byron witnesses
  the result was computed for, handing it to the validation of a transaction, Byron or not, changes
  nothing, as long as the hash that binds the result has no collision on the two and the fields it hashes
  have the lengths their framing can express: the framing of the hashed bytes leaves no way to move a
  byte between keys, signatures or witness lists, so an equal binding means the same message, keys and
  signatures.  A result computed for a Byron transaction is not covered: the code tests for Byron witnesses
  only on the transaction it validates.\<close>

theorem preverified_signatures_equivalent:
  assumes "signatureBinding W tx = signatureBinding W tx' \<longrightarrow> bindingBytes tx = bindingBytes tx'"
    and "binding_sized tx" "binding_sized tx'" "tx_ByronWitnesses tx = None"
  shows "UtxoValidateSignatures W (Some (PreverifySignatures W tx)) tx' ls = UtxoValidateSignatures W None tx' ls"
proof (cases "tx_ByronWitnesses tx' = None \<and> signatureBinding W tx = signatureBinding W tx'")
  case True
  then have eq: "transactionWitnessHash tx = transactionWitnessHash tx'" "vkey_pairs tx = vkey_pairs tx'" "bootstrap_pairs tx = bootstrap_pairs tx'"
    using binding_inj[OF _ assms(2,3)] assms(1) by auto
  have "ValidateVKeyWitnesses W tx = ValidateVKeyWitnesses W tx'"
    using signatures_of_pairs(1)[of tx W] signatures_of_pairs(1)[of tx' W] assms(4) True eq by simp
  moreover have "ValidateBootstrapWitnesses W tx = ValidateBootstrapWitnesses W tx'"
    unfolding signatures_of_pairs(2) by (simp only: eq)
  ultimately show ?thesis
    using True by (auto simp: UtxoValidateSignatures_def PreverifySignatures_def split: sum.splits)
qed (auto simp: UtxoValidateSignatures_def PreverifySignatures_def)


text \<open>A transaction with one signature, and a hash without collisions.\<close>

definition example_crypto :: witness_crypto where
  "example_crypto = \<lparr>wc_blake224 = take 28, wc_sha3 = take 32, wc_sha256 = (\<lambda>x. x), wc_verify = (\<lambda>k m s. True)\<rparr>"

definition example_signed :: Transaction where
  "example_signed = (blank_transaction (replicate 32 5))\<lparr>tx_Witnesses := Some \<lparr>
     ws_Vkey = [\<lparr>vw_Vkey = replicate 32 1, vw_Signature = replicate 64 2\<rparr>], ws_Bootstrap = [], ws_NativeScripts = []\<rparr>\<rparr>"

theorem preverified_signatures_equivalent_witness:
  "binding_sized example_signed \<and> tx_ByronWitnesses example_signed = None \<and>
   (\<forall>ls :: LedgerState. UtxoValidateSignatures example_crypto (Some (PreverifySignatures example_crypto example_signed)) example_signed ls =
      UtxoValidateSignatures example_crypto None example_signed ls)"
proof -
  have s: "binding_sized example_signed" "tx_ByronWitnesses example_signed = None"
    by (simp_all add: binding_sized_def example_signed_def blank_transaction_def transactionWitnessHash_def vkeyWitnesses_def bootstrapWitnesses_def)
  have "UtxoValidateSignatures example_crypto (Some (PreverifySignatures example_crypto example_signed)) example_signed ls =
      UtxoValidateSignatures example_crypto None example_signed ls" for ls :: LedgerState
    by (rule preverified_signatures_equivalent) (simp_all add: s)
  then show ?thesis using s by simp
qed

subsection \<open>Required keys\<close>

text \<open>A key hash has signed when a witness with that hash carries a valid signature of the message.\<close>

definition has_signed :: "witness_crypto \<Rightarrow> Transaction \<Rightarrow> Hash28 \<Rightarrow> bool" where
  "has_signed W tx h \<longleftrightarrow> (\<exists>vw \<in> set (vkeyWitnesses tx). wc_blake224 W (vw_Vkey vw) = h \<and>
     wc_verify W (vw_Vkey vw) (transactionWitnessHash tx) (vw_Signature vw))"

lemma gather_ok: "gather f xs = Inr ys \<Longrightarrow> x \<in> set xs \<Longrightarrow> \<exists>zs. f x = Inr zs \<and> set zs \<subseteq> set ys"
proof (induction xs arbitrary: ys)
  case (Cons a xs)
  then obtain zs ws where "f a = Inr zs" "gather f xs = Inr ws" "ys = zs @ ws" by auto
  then show ?case using Cons.IH[of ws] Cons.prems(2) by (cases "x = a") auto
qed simp

lemma vkeys_signed:
  assumes "ValidateVKeyWitnesses W tx = Inr ()" "tx_ByronWitnesses tx = None"
    and "h \<in> set (map (\<lambda>vw. wc_blake224 W (vw_Vkey vw)) (vkeyWitnesses tx))"
  shows "has_signed W tx h"
  using assms by (auto simp: ValidateVKeyWitnesses_def has_signed_def VerifyVKeySignature_def split: if_splits)

lemma required_signed:
  assumes "ValidateRequiredVKeyWitnesses W bb tx = Inr ()" "ValidateVKeyWitnesses W tx = Inr ()" "tx_ByronWitnesses tx = None"
  obtains required where "requiredKeys bb tx = Inr required" "\<forall>h \<in> set required. has_signed W tx h"
proof -
  obtain required where r: "requiredKeys bb tx = Inr required"
    "required = [] \<or> (\<forall>h \<in> set required. h \<in> set (map (\<lambda>vw. wc_blake224 W (vw_Vkey vw)) (vkeyWitnesses tx)))"
    using assms(1) by (auto simp: ValidateRequiredVKeyWitnesses_def split: sum.splits if_splits)
  then have "\<forall>h \<in> set required. has_signed W tx h" using vkeys_signed[OF assms(2,3)] by auto
  then show thesis using that r(1) by blast
qed

lemma input_signed:
  assumes "ValidateInputVKeyWitnesses W tx ls = Inr ()" "ValidateVKeyWitnesses W tx = Inr ()" "tx_ByronWitnesses tx = None"
    and "i \<in> set (tx_Inputs tx)" "UtxoById ls i = Inr u" "paymentPayload (to_Address (snd u)) = Some (AddressPayloadKeyHash h)"
    and "addressType (to_Address (snd u)) \<noteq> AddressTypeByron"
  shows "has_signed W tx h"
proof (rule vkeys_signed[OF assms(2,3)])
  have "inputWitness W tx ls i = Inr ()" using assms(1,4) by (auto simp: ValidateInputVKeyWitnesses_def)
  then show "h \<in> set (map (\<lambda>vw. wc_blake224 W (vw_Vkey vw)) (vkeyWitnesses tx))"
    using assms(5-7) by (auto simp: inputWitness_def Let_def split: if_splits)
qed

end
