(* ===== verification/ShelleyRules.thy ===== *)
theory ShelleyRules
  imports Witnesses
begin

text \<open>
  The validation rules of the Shelley era (\<open>ledger/shelley/rules.go\<close>, with \<open>CalculateMinFee\<close>,
  \<open>TxSize\<close> and \<open>VerifyTransaction\<close> of \<open>ledger/common/rules.go\<close>, \<open>pool_deposit.go\<close> and the version
  gates of \<open>protocol_version.go\<close>): one definition per rule, in the order in which a transaction is
  checked.  A \<open>uint\<close> or \<open>uint64\<close> is a natural number where it is only compared, and a word
  where its arithmetic can overflow.
\<close>

subsection \<open>Parameters and errors\<close>

record ShelleyProtocolParameters =
  sp_MinFeeA :: u64
  sp_MinFeeB :: u64
  sp_MaxTxSize :: nat
  sp_KeyDeposit :: nat
  sp_PoolDeposit :: nat
  sp_MaxEpoch :: u64
  sp_ProtocolMajor :: nat
  sp_ProtocolMinor :: nat
  sp_MinUtxoValue :: nat
  sp_MinPoolCost :: nat

datatype shelley_error =
    WitnessFailure witness_error
  | ProviderFailure ledger_error
  | ExpiredUtxo nat nat
  | InputSetEmptyUtxo
  | DuplicateInput TransactionInput string
  | NegativeBodySize int | MinFeeOverflow
  | FeeTooSmallUtxo int nat
  | BadInputsUtxo "TransactionInput list"
  | ScriptWitnessFailure string
  | WrongNetwork u64 "Address list" | WrongNetworkWithdrawal u64 "Address option list" | WithdrawalAddresses address_error
  | ValueNotConservedUtxo int int
  | OutputTooSmallUtxo "TransactionOutput list" | OutputBootAddrAttrsTooBig "TransactionOutput list"
  | MaxTxSizeUtxo nat nat
  | InvalidMetadataText | MetadataTextTooLong nat | MetadataBytesTooLong nat | NilMetadataInt
  | MissingTransactionMetadata bytes | MissingAuxiliaryDataHash bytes | ConflictingMetadataHash bytes bytes
  | DelegateToUnregisteredPool PoolKeyHash | DelegateUnregisteredStakeCredential Credential
  | MIRTransferNotCurrentlyAllowed nat nat | MIRNegativesNotCurrentlyAllowed Credential int
  | PendingInstantaneousRewardsUnavailable Credential nat int | MIRProducesNegativeUpdate Credential nat int int
  | WithdrawalFromUnregisteredRewardAccount Address | IncorrectWithdrawalAmount Address "int option" nat
  | PoolMetadataURLTooLong nat nat | WrongNetworkPool PoolKeyHash u64 u64 | PoolMetadataHashTooBig PoolKeyHash nat
  | StakePoolCostTooLow PoolKeyHash nat nat | VrfKeyHashAlreadyRegistered PoolKeyHash VrfKeyHash PoolKeyHash
  | StakePoolNotRegisteredOnKey PoolKeyHash | StakePoolRetirementWrongEpoch PoolKeyHash nat nat nat

text \<open>What the rules take from outside: the hash functions and signatures, Blake2b-256, the encoding
  of Byron addresses, the length of a byte string that the CBOR decoder reads, the rule on script
  witnesses, and whether a transaction needs a Plutus script of version 1 to 3.\<close>

record shelley_env =
  se_crypto :: witness_crypto
  se_blake256 :: "bytes \<Rightarrow> bytes"
  se_byronBytes :: "Address \<Rightarrow> address_error + bytes"
  se_decodedLength :: "bytes \<Rightarrow> nat option"
  se_scriptWitnesses :: "Transaction \<Rightarrow> LedgerState \<Rightarrow> shelley_error + unit"
  se_needsOldPlutus :: "Transaction \<Rightarrow> LedgerState \<Rightarrow> shelley_error + bool"

definition provider :: "ledger_error + 'a \<Rightarrow> shelley_error + 'a" where
  "provider r = (case r of Inl e \<Rightarrow> Inl (ProviderFailure e) | Inr x \<Rightarrow> Inr x)"

definition witness :: "witness_error + 'a \<Rightarrow> shelley_error + 'a" where
  "witness r = (case r of Inl e \<Rightarrow> Inl (WitnessFailure e) | Inr x \<Rightarrow> Inr x)"

lemma provider_simps [simp]: "provider r = Inr x \<longleftrightarrow> r = Inr x" "witness s = Inr y \<longleftrightarrow> s = Inr y"
  by (auto simp: provider_def witness_def split: sum.splits)

subsection \<open>Metadata\<close>

text \<open>\<open>utf8.ValidString\<close>: the lead byte gives the number of continuation bytes and the range of the
  first of them, which rules out overlong forms, surrogates and values above \<open>0x10FFFF\<close>.\<close>

definition utf8Continuation :: "byte \<Rightarrow> bool" where
  "utf8Continuation b \<longleftrightarrow> 0x80 \<le> b \<and> b \<le> 0xBF"

definition utf8Second :: "byte \<Rightarrow> byte \<Rightarrow> bool" where
  "utf8Second lead b \<longleftrightarrow>
     (if lead = 0xE0 then 0xA0 \<le> b \<and> b \<le> 0xBF
      else if lead = 0xED then 0x80 \<le> b \<and> b \<le> 0x9F
      else if lead = 0xF0 then 0x90 \<le> b \<and> b \<le> 0xBF
      else if lead = 0xF4 then 0x80 \<le> b \<and> b \<le> 0x8F
      else utf8Continuation b)"

fun utf8Valid :: "bytes \<Rightarrow> bool" where
  "utf8Valid [] = True"
| "utf8Valid (a # rest) =
     (if a < 0x80 then utf8Valid rest
      else if 0xC2 \<le> a \<and> a \<le> 0xDF then
        (case rest of b # rest' \<Rightarrow> utf8Continuation b \<and> utf8Valid rest' | _ \<Rightarrow> False)
      else if 0xE0 \<le> a \<and> a \<le> 0xEF then
        (case rest of b # c # rest' \<Rightarrow> utf8Second a b \<and> utf8Continuation c \<and> utf8Valid rest' | _ \<Rightarrow> False)
      else if 0xF0 \<le> a \<and> a \<le> 0xF4 then
        (case rest of b # c # d # rest' \<Rightarrow> utf8Second a b \<and> utf8Continuation c \<and> utf8Continuation d \<and> utf8Valid rest' | _ \<Rightarrow> False)
      else False)"

fun validateMetadatumContent :: "TransactionMetadatum \<Rightarrow> shelley_error + unit" where
  "validateMetadatumContent (MetaText v) =
     (if \<not> utf8Valid v then Inl InvalidMetadataText
      else if length v > 64 then Inl (MetadataTextTooLong (length v)) else Inr ())"
| "validateMetadatumContent (MetaBytes v) = (if length v > 64 then Inl (MetadataBytesTooLong (length v)) else Inr ())"
| "validateMetadatumContent (MetaInt v) = (if v = None then Inl NilMetadataInt else Inr ())"
| "validateMetadatumContent (MetaList items) = foldl (\<lambda>r item. rbind r (\<lambda>_. validateMetadatumContent item)) (Inr ()) items"
| "validateMetadatumContent (MetaMap pairs) =
     foldl (\<lambda>r (k, v). rbind r (\<lambda>_. rbind (validateMetadatumContent k) (\<lambda>_. validateMetadatumContent v))) (Inr ()) pairs"

text \<open>A single byte that encodes null, true or false stands for no auxiliary data.\<close>

definition rawAuxiliaryData :: "Transaction \<Rightarrow> bytes" where
  "rawAuxiliaryData tx =
     (let raw = (case tx_AuxiliaryData tx of None \<Rightarrow> [] | Some ac \<Rightarrow> if ac \<in> {[0xF6], [0xF5], [0xF4]} then [] else ac) in
      if raw = [] then (case tx_Metadata tx of None \<Rightarrow> [] | Some (_, cbor) \<Rightarrow> cbor) else raw)"

definition UtxoValidateMetadata :: "shelley_env \<Rightarrow> Transaction \<Rightarrow> shelley_error + unit" where
  "UtxoValidateMetadata env tx =
     (let raw = rawAuxiliaryData tx in
      case tx_AuxDataHash tx of
        None \<Rightarrow> if raw = [] then Inr () else Inl (MissingAuxiliaryDataHash (se_blake256 env raw))
      | Some h \<Rightarrow>
          if raw = [] then Inl (MissingTransactionMetadata h)
          else if h \<noteq> se_blake256 env raw then Inl (ConflictingMetadataHash h (se_blake256 env raw))
          else (case tx_Metadata tx of None \<Rightarrow> Inr () | Some (m, _) \<Rightarrow> validateMetadatumContent m))"

subsection \<open>Inputs and fees\<close>

definition UtxoValidateTimeToLive :: "Transaction \<Rightarrow> nat \<Rightarrow> shelley_error + unit" where
  "UtxoValidateTimeToLive tx slot =
     (case tx_UpperBound tx of None \<Rightarrow> Inr () | Some ttl \<Rightarrow> ensure (ttl \<ge> slot) (ExpiredUtxo ttl slot))"

definition UtxoValidateInputSetEmptyUtxo :: "Transaction \<Rightarrow> shelley_error + unit" where
  "UtxoValidateInputSetEmptyUtxo tx = ensure (tx_Inputs tx \<noteq> []) InputSetEmptyUtxo"

fun duplicateInput :: "TransactionInput set \<Rightarrow> TransactionInput list \<Rightarrow> TransactionInput option" where
  "duplicateInput seen [] = None"
| "duplicateInput seen (input # inputs) = (if input \<in> seen then Some input else duplicateInput (insert input seen) inputs)"

definition firstDuplicateInput :: "TransactionInput list \<Rightarrow> TransactionInput option" where
  "firstDuplicateInput inputs = (if length inputs < 2 then None else duplicateInput {} inputs)"

definition UtxoValidateNoDuplicateInputs :: "Transaction \<Rightarrow> shelley_error + unit" where
  "UtxoValidateNoDuplicateInputs tx =
     (case firstDuplicateInput (tx_Inputs tx) of
        Some i \<Rightarrow> Inl (DuplicateInput i ''regular'')
      | None \<Rightarrow> (case firstDuplicateInput (tx_Collateral tx) of
          Some i \<Rightarrow> Inl (DuplicateInput i ''collateral'')
        | None \<Rightarrow> (case firstDuplicateInput (tx_ReferenceInputs tx) of
            Some i \<Rightarrow> Inl (DuplicateInput i ''reference'')
          | None \<Rightarrow> Inr ())))"

definition TxSize :: "Transaction \<Rightarrow> shelley_error + nat" where
  "TxSize tx = rbind (provider (tx_Cbor tx)) (\<lambda>cborData.
     Inr (if tx_Type tx \<ge> 4 \<and> tx_ArrayLength tx = Some 4 then length cborData - 1 else length cborData))"

definition CalculateMinFee :: "int \<Rightarrow> u64 \<Rightarrow> u64 \<Rightarrow> shelley_error + u64" where
  "CalculateMinFee bodySize minFeeA minFeeB =
     (if bodySize < 0 then Inl (NegativeBodySize bodySize)
      else case mul64 minFeeA (word_of_int bodySize) of (hi, lo) \<Rightarrow>
        if hi \<noteq> 0 then Inl MinFeeOverflow
        else (case add64 lo minFeeB of (s, carry) \<Rightarrow> if carry \<noteq> 0 then Inl MinFeeOverflow else Inr s))"

definition MinFeeTx :: "ShelleyProtocolParameters \<Rightarrow> Transaction \<Rightarrow> shelley_error + u64" where
  "MinFeeTx pp tx = rbind (TxSize tx) (\<lambda>txSize. CalculateMinFee (int txSize) (sp_MinFeeA pp) (sp_MinFeeB pp))"

definition UtxoValidateFeeTooSmallUtxo :: "ShelleyProtocolParameters \<Rightarrow> Transaction \<Rightarrow> shelley_error + unit" where
  "UtxoValidateFeeTooSmallUtxo pp tx =
     rbind (MinFeeTx pp tx) (\<lambda>minFee.
       let fee = (case tx_Fee tx of Some f \<Rightarrow> f | None \<Rightarrow> 0) in
       ensure (fee \<ge> int (unat minFee)) (FeeTooSmallUtxo fee (unat minFee)))"

definition UtxoValidateBadInputsUtxo :: "Transaction \<Rightarrow> LedgerState \<Rightarrow> shelley_error + unit" where
  "UtxoValidateBadInputsUtxo tx ls =
     (let badInputs = filter (\<lambda>i. \<not> is_ok (UtxoById ls i)) (tx_Inputs tx) in
      ensure (badInputs = []) (BadInputsUtxo badInputs))"

definition UtxoValidateNativeScripts :: "shelley_env \<Rightarrow> Transaction \<Rightarrow> shelley_error + unit" where
  "UtxoValidateNativeScripts env tx =
     (case FirstInvalidNativeScript (se_crypto env) tx of Some s \<Rightarrow> Inl (WitnessFailure (NativeScriptFailed s)) | None \<Rightarrow> Inr ())"

subsection \<open>Networks and outputs\<close>

definition TransactionOutputsAndCollateralReturn :: "Transaction \<Rightarrow> TransactionOutput list" where
  "TransactionOutputsAndCollateralReturn tx =
     tx_Outputs tx @ (case tx_CollateralReturn tx of None \<Rightarrow> [] | Some r \<Rightarrow> [r])"

definition UtxoValidateWrongNetwork :: "Transaction \<Rightarrow> LedgerState \<Rightarrow> shelley_error + unit" where
  "UtxoValidateWrongNetwork tx ls =
     (let badAddrs = filter (\<lambda>a. Address_NetworkId a \<noteq> ls_NetworkId ls) (map to_Address (TransactionOutputsAndCollateralReturn tx)) in
      ensure (badAddrs = []) (WrongNetwork (ls_NetworkId ls) badAddrs))"

text \<open>Asking a nil address for its network panics; the rule is not reached with one, because the rule
  on required witnesses has rejected it.\<close>

definition UtxoValidateWrongNetworkWithdrawal :: "shelley_env \<Rightarrow> Transaction \<Rightarrow> LedgerState \<Rightarrow> shelley_error + unit" where
  "UtxoValidateWrongNetworkWithdrawal env tx ls =
     (let badAddrs = filter (\<lambda>a. case a of None \<Rightarrow> True | Some x \<Rightarrow> Address_NetworkId x \<noteq> ls_NetworkId ls) (map fst (tx_Withdrawals tx)) in
      if badAddrs = [] then
        (case ValidateWithdrawalAddresses (se_byronBytes env) (map fst (tx_Withdrawals tx)) of
           Inl e \<Rightarrow> Inl (WithdrawalAddresses e) | Inr u \<Rightarrow> Inr ())
      else Inl (WrongNetworkWithdrawal (ls_NetworkId ls) badAddrs))"

definition MinCoinTxOut :: "ShelleyProtocolParameters \<Rightarrow> nat" where
  "MinCoinTxOut pp = sp_MinUtxoValue pp"

definition UtxoValidateOutputTooSmallUtxo :: "ShelleyProtocolParameters \<Rightarrow> Transaction \<Rightarrow> shelley_error + unit" where
  "UtxoValidateOutputTooSmallUtxo pp tx =
     (let badOutputs = filter (\<lambda>t. (case to_Amount t of Some a \<Rightarrow> a | None \<Rightarrow> 0) < int (MinCoinTxOut pp)) (tx_Outputs tx) in
      ensure (badOutputs = []) (OutputTooSmallUtxo badOutputs))"

definition ExtraSize :: "shelley_env \<Rightarrow> ByronAddressAttributes \<Rightarrow> nat" where
  "ExtraSize env a =
     (if at_Payload a = [] then 0
      else case se_decodedLength env (at_Payload a) of Some n \<Rightarrow> n | None \<Rightarrow> length (at_Payload a)) +
     sum_list (map (\<lambda>(k, v). length v) (at_Unparsed a))"

definition UtxoValidateOutputBootAddrAttrsTooBig :: "shelley_env \<Rightarrow> Transaction \<Rightarrow> shelley_error + unit" where
  "UtxoValidateOutputBootAddrAttrsTooBig env tx =
     (let badOutputs = filter (\<lambda>t. addressType (to_Address t) = AddressTypeByron \<and> ExtraSize env (byronAddressAttr (to_Address t)) > 64)
            (TransactionOutputsAndCollateralReturn tx) in
      ensure (badOutputs = []) (OutputBootAddrAttrsTooBig badOutputs))"

definition UtxoValidateMaxTxSizeUtxo :: "ShelleyProtocolParameters \<Rightarrow> Transaction \<Rightarrow> shelley_error + unit" where
  "UtxoValidateMaxTxSizeUtxo pp tx =
     rbind (TxSize tx) (\<lambda>txSize. ensure (txSize \<le> sp_MaxTxSize pp) (MaxTxSizeUtxo txSize (sp_MaxTxSize pp)))"

subsection \<open>Conservation of value\<close>

definition amountOf :: "TransactionOutput \<Rightarrow> int" where
  "amountOf t = (case to_Amount t of Some a \<Rightarrow> a | None \<Rightarrow> 0)"

definition inputsValue :: "LedgerState \<Rightarrow> TransactionInput list \<Rightarrow> int" where
  "inputsValue ls inputs = sum_list (map (\<lambda>i. case UtxoById ls i of Inl _ \<Rightarrow> 0 | Inr u \<Rightarrow> amountOf (snd u)) inputs)"

definition withdrawalsValue :: "(Address option \<times> int option) list \<Rightarrow> int" where
  "withdrawalsValue ws = sum_list (map (\<lambda>(_, a). case a of Some x \<Rightarrow> x | None \<Rightarrow> 0) ws)"

text \<open>The refunds of the certificates: \<open>registered\<close> and \<open>deposits\<close> are what earlier certificates of the
  transaction left.\<close>

fun refunds :: "ShelleyProtocolParameters \<Rightarrow> LedgerState \<Rightarrow> (Credential \<rightharpoonup> bool) \<Rightarrow> (Credential \<rightharpoonup> nat) \<Rightarrow> Certificate list \<Rightarrow> ledger_error + int" where
  "refunds pp ls registered deposits [] = Inr 0"
| "refunds pp ls registered deposits (StakeDeregistrationCertificate c # certs) =
     (case registered c of
        Some True \<Rightarrow> rbind (refunds pp ls (registered(c \<mapsto> False)) deposits certs)
                     (\<lambda>r. Inr (int (case deposits c of Some d \<Rightarrow> d | None \<Rightarrow> 0) + r))
      | Some False \<Rightarrow> refunds pp ls registered deposits certs
      | None \<Rightarrow>
          if IsStakeCredentialRegistered ls c then
            rbind (StakeCredentialDepositOrDefault ls c (sp_KeyDeposit pp)) (\<lambda>deposit.
              rbind (refunds pp ls (registered(c \<mapsto> False)) (deposits(c \<mapsto> deposit)) certs) (\<lambda>r. Inr (int deposit + r)))
          else refunds pp ls registered deposits certs)"
| "refunds pp ls registered deposits (StakeRegistrationCertificate c # certs) =
     refunds pp ls (registered(c \<mapsto> True)) (deposits(c \<mapsto> sp_KeyDeposit pp)) certs"
| "refunds pp ls registered deposits (_ # certs) = refunds pp ls registered deposits certs"

definition PoolRegistrationDepositDue :: "LedgerState \<Rightarrow> nat \<Rightarrow> PoolKeyHash \<Rightarrow> ledger_error + bool" where
  "PoolRegistrationDepositDue ls slot operator =
     rbind (PoolCurrentState ls operator) (\<lambda>(reg, retirementEpoch).
       if reg = None then Inr True
       else case retirementEpoch of
         None \<Rightarrow> Inr False
       | Some retirement \<Rightarrow>
           (case EpochForSlot ls of
              None \<Rightarrow> Inl EpochStateUnavailable
            | Some epochFor \<Rightarrow> rbind (epochFor slot) (\<lambda>currentEpoch. Inr (currentEpoch \<ge> retirement))))"

fun depositsDue :: "ShelleyProtocolParameters \<Rightarrow> LedgerState \<Rightarrow> nat \<Rightarrow> PoolKeyHash set \<Rightarrow> Certificate list \<Rightarrow> ledger_error + int" where
  "depositsDue pp ls slot seen [] = Inr 0"
| "depositsDue pp ls slot seen (PoolRegistrationCertificate r # certs) =
     (if po_Operator r \<in> seen then depositsDue pp ls slot seen certs
      else rbind (PoolRegistrationDepositDue ls slot (po_Operator r)) (\<lambda>due.
        rbind (depositsDue pp ls slot (insert (po_Operator r) seen) certs) (\<lambda>d. Inr ((if due then int (sp_PoolDeposit pp) else 0) + d))))"
| "depositsDue pp ls slot seen (StakeRegistrationCertificate c # certs) =
     rbind (depositsDue pp ls slot seen certs) (\<lambda>d. Inr (int (sp_KeyDeposit pp) + d))"
| "depositsDue pp ls slot seen (_ # certs) = depositsDue pp ls slot seen certs"

definition UtxoValidateValueNotConservedUtxo :: "ShelleyProtocolParameters \<Rightarrow> Transaction \<Rightarrow> nat \<Rightarrow> LedgerState \<Rightarrow> shelley_error + unit" where
  "UtxoValidateValueNotConservedUtxo pp tx slot ls =
     rbind (provider (refunds pp ls Map.empty Map.empty (tx_Certificates tx))) (\<lambda>refunded.
       let consumedValue = inputsValue ls (tx_Inputs tx) + withdrawalsValue (tx_Withdrawals tx) + refunded in
       rbind (provider (depositsDue pp ls slot {} (tx_Certificates tx))) (\<lambda>deposits.
         let producedValue = sum_list (map amountOf (tx_Outputs tx)) + (case tx_Fee tx of Some f \<Rightarrow> f | None \<Rightarrow> 0) + deposits in
         ensure (consumedValue = producedValue) (ValueNotConservedUtxo consumedValue producedValue)))"

subsection \<open>Delegation and instantaneous rewards\<close>

definition MirTransferAllowed :: "nat \<Rightarrow> bool" where "MirTransferAllowed major \<longleftrightarrow> major > 4"
definition PoolAccountNetworkIdValidated :: "nat \<Rightarrow> bool" where "PoolAccountNetworkIdValidated major \<longleftrightarrow> major > 4"
definition DuplicateVrfKeysDisallowed :: "nat \<Rightarrow> bool" where "DuplicateVrfKeysDisallowed major \<longleftrightarrow> major > 10"
definition PoolMetadataHashRestricted :: "nat \<Rightarrow> bool" where "PoolMetadataHashRestricted major \<longleftrightarrow> major > 4"

definition zeroCredential :: Credential where
  "zeroCredential = \<lparr>CredType = 0, cred_Hash = replicate 28 0\<rparr>"

type_synonym pendingTotals = "(nat \<times> Credential) \<rightharpoonup> (int \<times> bool)"

fun mirRewards :: "bool \<Rightarrow> LedgerState \<Rightarrow> nat \<Rightarrow> pendingTotals \<Rightarrow> (Credential option \<times> int option) list \<Rightarrow> shelley_error + pendingTotals" where
  "mirRewards allowed ls source pending [] = Inr pending"
| "mirRewards allowed ls source pending ((cred, None) # rs) = mirRewards allowed ls source pending rs"
| "mirRewards allowed ls source pending ((cred, Some delta) # rs) =
     (let tmpCred = (case cred of Some c \<Rightarrow> c | None \<Rightarrow> zeroCredential) in
      if \<not> allowed then
        (if delta < 0 then Inl (MIRNegativesNotCurrentlyAllowed tmpCred delta) else mirRewards allowed ls source pending rs)
      else rbind (case pending (source, tmpCred) of
                    Some t \<Rightarrow> Inr t
                  | None \<Rightarrow> provider (PendingInstantaneousRewards ls source tmpCred)) (\<lambda>(amount, known).
        let nextAmount = amount + delta in
        if nextAmount < 0 then
          (if \<not> known then Inl (PendingInstantaneousRewardsUnavailable tmpCred source delta)
           else Inl (MIRProducesNegativeUpdate tmpCred source amount delta))
        else mirRewards allowed ls source (pending((source, tmpCred) \<mapsto> (nextAmount, known))) rs))"

fun mirCertificates :: "bool \<Rightarrow> LedgerState \<Rightarrow> pendingTotals \<Rightarrow> Certificate list \<Rightarrow> shelley_error + unit" where
  "mirCertificates allowed ls pending [] = Inr ()"
| "mirCertificates allowed ls pending (MoveInstantaneousRewardsCertificate source rewards otherPot # certs) =
     (case rewards of
        None \<Rightarrow> if \<not> allowed then Inl (MIRTransferNotCurrentlyAllowed source otherPot) else mirCertificates allowed ls pending certs
      | Some rs \<Rightarrow> rbind (mirRewards allowed ls source pending rs) (\<lambda>pending'. mirCertificates allowed ls pending' certs))"
| "mirCertificates allowed ls pending (_ # certs) = mirCertificates allowed ls pending certs"

definition validateMirCertificates :: "ShelleyProtocolParameters \<Rightarrow> Transaction \<Rightarrow> LedgerState \<Rightarrow> shelley_error + unit" where
  "validateMirCertificates pp tx ls = mirCertificates (MirTransferAllowed (sp_ProtocolMajor pp)) ls Map.empty (tx_Certificates tx)"

fun delegationCertificates :: "LedgerState \<Rightarrow> (Credential \<rightharpoonup> bool) \<Rightarrow> PoolKeyHash set \<Rightarrow> Certificate list \<Rightarrow> shelley_error + unit" where
  "delegationCertificates ls stakeState poolRegs [] = Inr ()"
| "delegationCertificates ls stakeState poolRegs (StakeRegistrationCertificate c # certs) =
     delegationCertificates ls (stakeState(c \<mapsto> True)) poolRegs certs"
| "delegationCertificates ls stakeState poolRegs (StakeDeregistrationCertificate c # certs) =
     delegationCertificates ls (stakeState(c \<mapsto> False)) poolRegs certs"
| "delegationCertificates ls stakeState poolRegs (PoolRegistrationCertificate r # certs) =
     delegationCertificates ls stakeState (insert (po_Operator r) poolRegs) certs"
| "delegationCertificates ls stakeState poolRegs (StakeDelegationCertificate cred p # certs) =
     (if \<not> (IsPoolRegistered ls p \<or> p \<in> poolRegs) then Inl (DelegateToUnregisteredPool p)
      else (case cred of
              None \<Rightarrow> delegationCertificates ls stakeState poolRegs certs
            | Some c \<Rightarrow>
                if \<not> (case stakeState c of Some r \<Rightarrow> r | None \<Rightarrow> IsStakeCredentialRegistered ls c)
                then Inl (DelegateUnregisteredStakeCredential c)
                else delegationCertificates ls stakeState poolRegs certs))"
| "delegationCertificates ls stakeState poolRegs (_ # certs) = delegationCertificates ls stakeState poolRegs certs"

definition UtxoValidateDelegation :: "ShelleyProtocolParameters \<Rightarrow> Transaction \<Rightarrow> LedgerState \<Rightarrow> shelley_error + unit" where
  "UtxoValidateDelegation pp tx ls =
     rbind (validateMirCertificates pp tx ls) (\<lambda>_. delegationCertificates ls Map.empty {} (tx_Certificates tx))"

subsection \<open>Withdrawals\<close>

text \<open>No withdrawals is an absent map.  A Shelley transaction does not choose whether its amounts must
  be exact, so the protocol version does: they must be below version 12.\<close>

definition validateWithdrawal :: "shelley_env \<Rightarrow> LedgerState \<Rightarrow> bool \<Rightarrow> Address option \<times> int option \<Rightarrow> shelley_error + unit" where
  "validateWithdrawal env ls requireExactAmount w =
     (case w of (None, _) \<Rightarrow> Inl (WithdrawalAddresses NilAddress)
      | (Some addr, amount) \<Rightarrow>
          (case RewardAccountCredential (se_byronBytes env) addr of
             Inl e \<Rightarrow> Inl (WithdrawalAddresses e)
           | Inr cred \<Rightarrow>
               rbind (provider (RewardAccountBalance ls cred)) (\<lambda>balance.
                 case balance of
                   None \<Rightarrow> Inl (WithdrawalFromUnregisteredRewardAccount addr)
                 | Some bal \<Rightarrow>
                     let amountValid = (case amount of
                           None \<Rightarrow> False
                         | Some a \<Rightarrow> 0 \<le> a \<and> a < 2 ^ 64 \<and> (if requireExactAmount then nat a = bal else nat a \<le> bal)) in
                     ensure amountValid (IncorrectWithdrawalAmount addr amount bal))))"

definition UtxoValidateWithdrawals :: "shelley_env \<Rightarrow> ShelleyProtocolParameters \<Rightarrow> Transaction \<Rightarrow> LedgerState \<Rightarrow> shelley_error + unit" where
  "UtxoValidateWithdrawals env pp tx ls =
     (if tx_Withdrawals tx = [] then Inr ()
      else case ValidateWithdrawalAddresses (se_byronBytes env) (map fst (tx_Withdrawals tx)) of
        Inl e \<Rightarrow> Inl (WithdrawalAddresses e)
      | Inr u \<Rightarrow>
          rbind (if sp_ProtocolMajor pp \<ge> 12 then se_needsOldPlutus env tx ls else Inr True) (\<lambda>requireExactAmount.
            each (validateWithdrawal env ls requireExactAmount) (tx_Withdrawals tx)))"

subsection \<open>Pool certificates\<close>

record poolCertificateState =
  pc_base :: LedgerState
  pc_current :: "PoolKeyHash \<rightharpoonup> StakePoolRegistration"
  pc_future :: "PoolKeyHash \<rightharpoonup> StakePoolRegistration"
  pc_vrfOwners :: "VrfKeyHash \<rightharpoonup> PoolKeyHash"

definition newPoolCertificateState :: "LedgerState \<Rightarrow> poolCertificateState" where
  "newPoolCertificateState ls = \<lparr>pc_base = ls, pc_current = Map.empty, pc_future = Map.empty, pc_vrfOwners = Map.empty\<rparr>"

definition currentRegistration :: "poolCertificateState \<Rightarrow> PoolKeyHash \<Rightarrow> shelley_error + StakePoolRegistration option" where
  "currentRegistration s pool =
     (case pc_current s pool of
        Some c \<Rightarrow> Inr (Some c)
      | None \<Rightarrow> provider (rbind (PoolCurrentState (pc_base s) pool) (\<lambda>(current, _). Inr current)))"

definition applyRegistration :: "poolCertificateState \<Rightarrow> StakePoolRegistration \<Rightarrow> shelley_error + poolCertificateState" where
  "applyRegistration s cert =
     rbind (currentRegistration s (po_Operator cert)) (\<lambda>current.
       let s' = (case current of
                   None \<Rightarrow> s\<lparr>pc_current := (pc_current s)(po_Operator cert \<mapsto> cert)\<rparr>
                 | Some cur \<Rightarrow>
                     let s1 = (case pc_future s (po_Operator cert) of
                                 Some previous \<Rightarrow>
                                   if po_VrfKeyHash previous \<noteq> po_VrfKeyHash cur \<and> pc_vrfOwners s (po_VrfKeyHash previous) = Some (po_Operator cert)
                                   then s\<lparr>pc_vrfOwners := (pc_vrfOwners s)(po_VrfKeyHash previous := None)\<rparr> else s
                               | None \<Rightarrow> s)
                     in s1\<lparr>pc_future := (pc_future s1)(po_Operator cert \<mapsto> cert)\<rparr>)
       in Inr (s'\<lparr>pc_vrfOwners := (pc_vrfOwners s')(po_VrfKeyHash cert \<mapsto> po_Operator cert)\<rparr>))"

text \<open>The key may be held by this pool only as the key of its current registration.\<close>

definition ownKey :: "poolCertificateState \<Rightarrow> StakePoolRegistration \<Rightarrow> PoolKeyHash \<Rightarrow> shelley_error + unit" where
  "ownKey s cert owner =
     rbind (currentRegistration s (po_Operator cert)) (\<lambda>current.
       ensure (owner = po_Operator cert \<and> (case current of Some cur \<Rightarrow> po_VrfKeyHash cur = po_VrfKeyHash cert | None \<Rightarrow> False))
         (VrfKeyHashAlreadyRegistered (po_Operator cert) (po_VrfKeyHash cert) owner))"

definition validateVrfKey :: "poolCertificateState \<Rightarrow> StakePoolRegistration \<Rightarrow> shelley_error + unit" where
  "validateVrfKey s cert =
     (case IsFutureVrfKeyInUse (pc_base s) of
        None \<Rightarrow> Inl (ProviderFailure FuturePoolParametersStateUnavailable)
      | Some futureInUse \<Rightarrow>
          rbind (case pc_vrfOwners s (po_VrfKeyHash cert) of Some owner \<Rightarrow> ownKey s cert owner | None \<Rightarrow> Inr ()) (\<lambda>_.
          rbind (provider (IsVrfKeyInUse (pc_base s) (po_VrfKeyHash cert))) (\<lambda>inUse.
          rbind (case inUse of
                   None \<Rightarrow> Inr ()
                 | Some owner \<Rightarrow> if owner = po_Operator cert then ownKey s cert owner
                                 else Inl (VrfKeyHashAlreadyRegistered (po_Operator cert) (po_VrfKeyHash cert) owner)) (\<lambda>_.
          rbind (provider (futureInUse (po_VrfKeyHash cert))) (\<lambda>future.
            case future of
              None \<Rightarrow> Inr ()
            | Some owner \<Rightarrow>
                (case pc_future s owner of
                   Some replacement \<Rightarrow> if po_VrfKeyHash replacement \<noteq> po_VrfKeyHash cert then Inr () else ownKey s cert owner
                 | None \<Rightarrow> ownKey s cert owner))))))"

definition ValidatePoolMetadataForProtocolVersion :: "PoolMetadata option \<Rightarrow> nat \<Rightarrow> shelley_error + unit" where
  "ValidatePoolMetadataForProtocolVersion metadata protocolMajor =
     (let maxURLLength = (if protocolMajor < 9 then 64 else 128) in
      case metadata of None \<Rightarrow> Inr () | Some m \<Rightarrow> ensure (length (pm_Url m) \<le> maxURLLength) (PoolMetadataURLTooLong maxURLLength (length (pm_Url m))))"

definition validatePoolRegistration :: "ShelleyProtocolParameters \<Rightarrow> poolCertificateState \<Rightarrow> StakePoolRegistration \<Rightarrow> shelley_error + unit" where
  "validatePoolRegistration pp s cert =
     (let major = sp_ProtocolMajor pp; networkId = ls_NetworkId (pc_base s) in
      rbind (ValidatePoolMetadataForProtocolVersion (po_PoolMetadata cert) major) (\<lambda>_.
      rbind (case po_RewardNetwork cert of
               Some supplied \<Rightarrow> if PoolAccountNetworkIdValidated major \<and> supplied \<noteq> networkId
                                then Inl (WrongNetworkPool (po_Operator cert) supplied networkId) else Inr ()
             | None \<Rightarrow> Inr ()) (\<lambda>_.
      rbind (case po_PoolMetadata cert of
               Some m \<Rightarrow> if PoolMetadataHashRestricted major \<and> length (pm_Hash m) > 32
                         then Inl (PoolMetadataHashTooBig (po_Operator cert) (length (pm_Hash m))) else Inr ()
             | None \<Rightarrow> Inr ()) (\<lambda>_.
      if po_Cost cert < sp_MinPoolCost pp then Inl (StakePoolCostTooLow (po_Operator cert) (po_Cost cert) (sp_MinPoolCost pp))
      else if DuplicateVrfKeysDisallowed major then validateVrfKey s cert else Inr ()))))"

text \<open>The sum of the current epoch and the bound saturates.\<close>

definition retirementLimit :: "nat \<Rightarrow> u64 \<Rightarrow> nat" where
  "retirementLimit currentEpoch maxEpoch =
     (let limitEpoch = (currentEpoch + unat maxEpoch) mod 2 ^ 64 in if limitEpoch < currentEpoch then 2 ^ 64 - 1 else limitEpoch)"

definition validatePoolRetirement ::
  "ShelleyProtocolParameters \<Rightarrow> nat \<Rightarrow> LedgerState \<Rightarrow> PoolKeyHash set \<Rightarrow> PoolKeyHash \<Rightarrow> nat \<Rightarrow> shelley_error + unit" where
  "validatePoolRetirement pp slot ls poolRegs p epoch =
     (if \<not> IsPoolRegistered ls p \<and> p \<notin> poolRegs then Inl (StakePoolNotRegisteredOnKey p)
      else case EpochForSlot ls of
        None \<Rightarrow> if epoch = 0 then Inl (StakePoolRetirementWrongEpoch p epoch 0 0) else Inl (ProviderFailure EpochStateUnavailable)
      | Some epochFor \<Rightarrow>
          rbind (provider (epochFor slot)) (\<lambda>currentEpoch.
            let limitEpoch = retirementLimit currentEpoch (sp_MaxEpoch pp) in
            if epoch \<le> currentEpoch \<or> epoch > limitEpoch then Inl (StakePoolRetirementWrongEpoch p epoch currentEpoch limitEpoch)
            else Inr ()))"

fun poolCertificates ::
  "ShelleyProtocolParameters \<Rightarrow> nat \<Rightarrow> LedgerState \<Rightarrow> PoolKeyHash set \<Rightarrow> poolCertificateState \<Rightarrow> Certificate list \<Rightarrow> shelley_error + unit" where
  "poolCertificates pp slot ls poolRegs s [] = Inr ()"
| "poolCertificates pp slot ls poolRegs s (PoolRegistrationCertificate r # certs) =
     rbind (validatePoolRegistration pp s r) (\<lambda>_.
     rbind (if DuplicateVrfKeysDisallowed (sp_ProtocolMajor pp) then applyRegistration s r else Inr s) (\<lambda>s'.
       poolCertificates pp slot ls (insert (po_Operator r) poolRegs) s' certs))"
| "poolCertificates pp slot ls poolRegs s (PoolRetirementCertificate p epoch # certs) =
     rbind (validatePoolRetirement pp slot ls poolRegs p epoch) (\<lambda>_. poolCertificates pp slot ls poolRegs s certs)"
| "poolCertificates pp slot ls poolRegs s (_ # certs) = poolCertificates pp slot ls poolRegs s certs"

definition UtxoValidatePoolCertificates :: "ShelleyProtocolParameters \<Rightarrow> Transaction \<Rightarrow> nat \<Rightarrow> LedgerState \<Rightarrow> shelley_error + unit" where
  "UtxoValidatePoolCertificates pp tx slot ls =
     (if \<not> tx_IsValid tx then Inr ()
      else poolCertificates pp slot ls {} (newPoolCertificateState ls) (tx_Certificates tx))"

subsection \<open>The rules in order\<close>

type_synonym UtxoValidationRule = "Transaction \<Rightarrow> nat \<Rightarrow> LedgerState \<Rightarrow> ShelleyProtocolParameters \<Rightarrow> shelley_error + unit"

definition UtxoValidationRules :: "shelley_env \<Rightarrow> PreverifiedSignatures option \<Rightarrow> UtxoValidationRule list" where
  "UtxoValidationRules env signatures =
     [\<lambda>tx slot ls pp. UtxoValidateMetadata env tx,
      \<lambda>tx slot ls pp. witness (ValidateRequiredVKeyWitnesses (se_crypto env) (se_byronBytes env) tx),
      \<lambda>tx slot ls pp. witness (UtxoValidateSignatures (se_crypto env) signatures tx ls),
      \<lambda>tx slot ls pp. witness (ValidateClassicProtocolParameterUpdates (se_crypto env) (Some (sp_ProtocolMajor pp, sp_ProtocolMinor pp)) tx slot ls),
      \<lambda>tx slot ls pp. UtxoValidateTimeToLive tx slot,
      \<lambda>tx slot ls pp. UtxoValidateInputSetEmptyUtxo tx,
      \<lambda>tx slot ls pp. UtxoValidateNoDuplicateInputs tx,
      \<lambda>tx slot ls pp. UtxoValidateFeeTooSmallUtxo pp tx,
      \<lambda>tx slot ls pp. UtxoValidateBadInputsUtxo tx ls,
      \<lambda>tx slot ls pp. UtxoValidateNativeScripts env tx,
      \<lambda>tx slot ls pp. se_scriptWitnesses env tx ls,
      \<lambda>tx slot ls pp. UtxoValidateWrongNetwork tx ls,
      \<lambda>tx slot ls pp. UtxoValidateWrongNetworkWithdrawal env tx ls,
      \<lambda>tx slot ls pp. UtxoValidateValueNotConservedUtxo pp tx slot ls,
      \<lambda>tx slot ls pp. UtxoValidateOutputTooSmallUtxo pp tx,
      \<lambda>tx slot ls pp. UtxoValidateOutputBootAddrAttrsTooBig env tx,
      \<lambda>tx slot ls pp. UtxoValidateMaxTxSizeUtxo pp tx,
      \<lambda>tx slot ls pp. UtxoValidateDelegation pp tx ls,
      \<lambda>tx slot ls pp. witness (ValidateMIRGenesisQuorum (se_crypto env) tx slot ls),
      \<lambda>tx slot ls pp. UtxoValidateWithdrawals env pp tx ls,
      \<lambda>tx slot ls pp. UtxoValidatePoolCertificates pp tx slot ls]"

text \<open>The first rule that fails, with its index.\<close>

fun runRules :: "nat \<Rightarrow> UtxoValidationRule list \<Rightarrow> Transaction \<Rightarrow> nat \<Rightarrow> LedgerState \<Rightarrow> ShelleyProtocolParameters \<Rightarrow> (nat \<times> shelley_error) + unit" where
  "runRules i [] tx slot ls pp = Inr ()"
| "runRules i (rule # rules) tx slot ls pp =
     (case rule tx slot ls pp of Inl e \<Rightarrow> Inl (i, e) | Inr u \<Rightarrow> runRules (i + 1) rules tx slot ls pp)"

definition VerifyTransactionWithSignatures ::
  "shelley_env \<Rightarrow> PreverifiedSignatures option \<Rightarrow> Transaction \<Rightarrow> nat \<Rightarrow> LedgerState \<Rightarrow> ShelleyProtocolParameters \<Rightarrow> (nat \<times> shelley_error) + unit" where
  "VerifyTransactionWithSignatures env signatures tx slot ls pp = runRules 0 (UtxoValidationRules env signatures) tx slot ls pp"

definition VerifyTransaction ::
  "shelley_env \<Rightarrow> Transaction \<Rightarrow> nat \<Rightarrow> LedgerState \<Rightarrow> ShelleyProtocolParameters \<Rightarrow> (nat \<times> shelley_error) + unit" where
  "VerifyTransaction env tx slot ls pp = VerifyTransactionWithSignatures env None tx slot ls pp"

subsection \<open>The minimum fee is exact\<close>

lemma unat_size: "0 \<le> n \<Longrightarrow> n < 2 ^ 63 \<Longrightarrow> unat (word_of_int n :: u64) = nat n"
  by (simp add: unat_eq_nat_uint uint_word_of_int)

text \<open>C19: The minimum fee is computed without wrapping: for every size that a Go \<open>int\<close> can hold and all
  64-bit fee parameters, \<open>CalculateMinFee\<close> returns the integer \<open>minFeeA * size + minFeeB\<close> when it fits
  in 64 bits, reports the overflow when it does not, and rejects a negative size.\<close>

theorem min_fee_exact:
  assumes "n < 2 ^ 63"
  shows "CalculateMinFee n a b =
    (if n < 0 then Inl (NegativeBodySize n)
     else if unat a * nat n + unat b < 2 ^ 64 then Inr (word_of_nat (unat a * nat n + unat b))
     else Inl MinFeeOverflow)"
proof (cases "n < 0")
  case False
  obtain hi lo where m: "mul64 a (word_of_int n) = (hi, lo)" by fastforce
  have v: "unat hi * 2 ^ 64 + unat lo = unat a * nat n"
    using mul64_value[OF m] unat_size assms False by simp
  show ?thesis
  proof (cases "hi = 0")
    case True
    obtain s c where s: "add64 lo b = (s, c)" by fastforce
    have "c = 0 \<longleftrightarrow> unat a * nat n + unat b < 2 ^ 64" using add64_carry[of lo b] s v True by simp
    moreover have "word_of_nat (unat a * nat n + unat b) = s" if "c = 0"
    proof -
      have "unat a * nat n + unat b = unat s" using add64_no_carry[of lo b s] s v True that by simp
      then show ?thesis by (simp only:) simp
    qed
    ultimately show ?thesis using False m s True by (auto simp: CalculateMinFee_def)
  next
    case nonzero: False
    then have "1 \<le> unat hi" by (metis less_one not_le unat_eq_zero)
    then have "2 ^ 64 \<le> unat hi * 2 ^ 64" by simp
    then have "2 ^ 64 \<le> unat a * nat n + unat b" using v by linarith
    then show ?thesis using False m nonzero by (simp add: CalculateMinFee_def)
  qed
qed (simp add: CalculateMinFee_def)

theorem min_fee_exact_witness:
  "CalculateMinFee 300 44 155381 = Inr 168581 \<and> CalculateMinFee 2 0xFFFFFFFFFFFFFFFF 0 = Inl MinFeeOverflow"
  using min_fee_exact[of 300 44 155381] min_fee_exact[of 2 "0xFFFFFFFFFFFFFFFF" 0] by simp


subsection \<open>Accepted transactions are authorized\<close>

lemma runRules_ok: "runRules i rules tx slot ls pp = Inr () \<longleftrightarrow> (\<forall>rule \<in> set rules. rule tx slot ls pp = Inr ())"
  by (induction rules arbitrary: i) (auto split: sum.split)

text \<open>What the rules have established of an accepted transaction.\<close>

lemma accepted_rules:
  assumes "VerifyTransactionWithSignatures env signatures tx slot ls pp = Inr ()"
  shows "UtxoValidateMetadata env tx = Inr ()"
    "ValidateRequiredVKeyWitnesses (se_crypto env) (se_byronBytes env) tx = Inr ()"
    "UtxoValidateSignatures (se_crypto env) signatures tx ls = Inr ()"
    "UtxoValidateTimeToLive tx slot = Inr ()" "UtxoValidateInputSetEmptyUtxo tx = Inr ()"
    "UtxoValidateNoDuplicateInputs tx = Inr ()" "UtxoValidateFeeTooSmallUtxo pp tx = Inr ()"
    "UtxoValidateBadInputsUtxo tx ls = Inr ()" "UtxoValidateNativeScripts env tx = Inr ()"
    "UtxoValidateWrongNetworkWithdrawal env tx ls = Inr ()" "UtxoValidateValueNotConservedUtxo pp tx slot ls = Inr ()"
    "UtxoValidateWithdrawals env pp tx ls = Inr ()" "UtxoValidateDelegation pp tx ls = Inr ()"
    "UtxoValidatePoolCertificates pp tx slot ls = Inr ()"
proof -
  have "\<forall>rule \<in> set (UtxoValidationRules env signatures). rule tx slot ls pp = Inr ()"
    using assms by (simp only: VerifyTransactionWithSignatures_def runRules_ok)
  note this[unfolded UtxoValidationRules_def, simplified]
  then show "UtxoValidateMetadata env tx = Inr ()"
    "ValidateRequiredVKeyWitnesses (se_crypto env) (se_byronBytes env) tx = Inr ()"
    "UtxoValidateSignatures (se_crypto env) signatures tx ls = Inr ()"
    "UtxoValidateTimeToLive tx slot = Inr ()" "UtxoValidateInputSetEmptyUtxo tx = Inr ()"
    "UtxoValidateNoDuplicateInputs tx = Inr ()" "UtxoValidateFeeTooSmallUtxo pp tx = Inr ()"
    "UtxoValidateBadInputsUtxo tx ls = Inr ()" "UtxoValidateNativeScripts env tx = Inr ()"
    "UtxoValidateWrongNetworkWithdrawal env tx ls = Inr ()" "UtxoValidateValueNotConservedUtxo pp tx slot ls = Inr ()"
    "UtxoValidateWithdrawals env pp tx ls = Inr ()" "UtxoValidateDelegation pp tx ls = Inr ()"
    "UtxoValidatePoolCertificates pp tx slot ls = Inr ()" by simp_all
qed

lemma inputs_known:
  assumes "UtxoValidateBadInputsUtxo tx ls = Inr ()" "i \<in> set (tx_Inputs tx)"
  obtains u where "UtxoById ls i = Inr u"
  using assms by (cases "UtxoById ls i") (auto simp: UtxoValidateBadInputsUtxo_def Let_def filter_empty_conv is_ok_def)

text \<open>Who has to sign, read off the data.  A key credential is signed for by its key; a script credential
  is left to its script; no other kind of credential exists.\<close>

definition credential_authorized :: "shelley_env \<Rightarrow> Transaction \<Rightarrow> Credential \<Rightarrow> bool" where
  "credential_authorized env tx c \<longleftrightarrow> CredType c = 0 \<and> has_signed (se_crypto env) tx (cred_Hash c) \<or> CredType c = 1"

definition withdrawal_authorized :: "shelley_env \<Rightarrow> Transaction \<Rightarrow> Address option \<Rightarrow> bool" where
  "withdrawal_authorized env tx addr \<longleftrightarrow>
     (\<exists>a. addr = Some a \<and>
        (addressType a = AddressTypeNoneKey \<and>
           (\<exists>h. stakingPayload a = Some (AddressPayloadKeyHash h) \<and> has_signed (se_crypto env) tx h)
         \<or> addressType a = AddressTypeNoneScript \<and> (\<exists>h. stakingPayload a = Some (AddressPayloadScriptHash h))))"

text \<open>The registration of a credential without an explicit deposit needs no signature, and a move of
  instantaneous rewards is authorized by the quorum of genesis keys, not by a key of its own.\<close>

fun certificate_authorized :: "shelley_env \<Rightarrow> Transaction \<Rightarrow> Certificate \<Rightarrow> bool" where
  "certificate_authorized env tx (StakeRegistrationCertificate c) \<longleftrightarrow> CredType c \<le> 1"
| "certificate_authorized env tx (StakeDeregistrationCertificate c) \<longleftrightarrow> credential_authorized env tx c"
| "certificate_authorized env tx (StakeDelegationCertificate co pool) \<longleftrightarrow> (\<exists>c. co = Some c \<and> credential_authorized env tx c)"
| "certificate_authorized env tx (PoolRegistrationCertificate r) \<longleftrightarrow>
     has_signed (se_crypto env) tx (po_Operator r) \<and> (\<forall>owner \<in> set (po_PoolOwners r). has_signed (se_crypto env) tx owner)"
| "certificate_authorized env tx (PoolRetirementCertificate pool epoch) \<longleftrightarrow> has_signed (se_crypto env) tx pool"
| "certificate_authorized env tx (GenesisKeyDelegationCertificate genesis delegate vrf) \<longleftrightarrow>
     length genesis = 28 \<and> has_signed (se_crypto env) tx genesis"
| "certificate_authorized env tx (MoveInstantaneousRewardsCertificate source rewards other) \<longleftrightarrow> True"
| "certificate_authorized env tx (RegistrationCertificate c amount) \<longleftrightarrow> credential_authorized env tx c"
| "certificate_authorized env tx (DeregistrationCertificate c amount) \<longleftrightarrow> credential_authorized env tx c"
| "certificate_authorized env tx (VoteDelegationCertificate c drep) \<longleftrightarrow> credential_authorized env tx c"
| "certificate_authorized env tx (StakeVoteDelegationCertificate c pool drep) \<longleftrightarrow> credential_authorized env tx c"
| "certificate_authorized env tx (StakeRegistrationDelegationCertificate c pool amount) \<longleftrightarrow> credential_authorized env tx c"
| "certificate_authorized env tx (VoteRegistrationDelegationCertificate c drep amount) \<longleftrightarrow> credential_authorized env tx c"
| "certificate_authorized env tx (StakeVoteRegistrationDelegationCertificate c pool drep amount) \<longleftrightarrow> credential_authorized env tx c"
| "certificate_authorized env tx (AuthCommitteeHotCertificate cold hot) \<longleftrightarrow> credential_authorized env tx cold"
| "certificate_authorized env tx (ResignCommitteeColdCertificate cold anchor) \<longleftrightarrow> credential_authorized env tx cold"
| "certificate_authorized env tx (RegistrationDrepCertificate c amount anchor) \<longleftrightarrow> credential_authorized env tx c"
| "certificate_authorized env tx (DeregistrationDrepCertificate c amount) \<longleftrightarrow> credential_authorized env tx c"
| "certificate_authorized env tx (UpdateDrepCertificate c anchor) \<longleftrightarrow> credential_authorized env tx c"

lemma certificate_authorizedI:
  assumes "certificateKeys cert = Inr keys" "\<forall>k \<in> set keys. has_signed (se_crypto env) tx k"
  shows "certificate_authorized env tx cert"
  using assms by (cases cert) (auto simp: certificateKeys_def certificateCredential_def credential_authorized_def split: if_splits option.splits)

lemma withdrawal_authorizedI:
  assumes "withdrawalCredential bb addr = Inr c" "\<forall>k \<in> set (keyOf c). has_signed (se_crypto env) tx k"
  shows "withdrawal_authorized env tx addr"
  using assms
  by (auto simp: withdrawalCredential_def RewardAccountCredential_def StakeCredential_def withdrawal_authorized_def keyOf_def
    split: if_splits option.splits AddressPayload.splits sum.splits)

definition input_authorized :: "shelley_env \<Rightarrow> Transaction \<Rightarrow> LedgerState \<Rightarrow> TransactionInput \<Rightarrow> bool" where
  "input_authorized env tx ls i \<longleftrightarrow>
     (case UtxoById ls i of
        Inl _ \<Rightarrow> False
      | Inr u \<Rightarrow> (case paymentPayload (to_Address (snd u)) of
          Some (AddressPayloadKeyHash h) \<Rightarrow> addressType (to_Address (snd u)) = AddressTypeByron \<or> has_signed (se_crypto env) tx h
        | _ \<Rightarrow> True))"

lemma required_authorized:
  assumes "requiredKeys (se_byronBytes env) tx = Inr required" "\<forall>h \<in> set required. has_signed (se_crypto env) tx h"
  shows "list_all (\<lambda>(addr, _). withdrawal_authorized env tx addr) (tx_Withdrawals tx)"
    "list_all (certificate_authorized env tx) (tx_Certificates tx)"
    "list_all (has_signed (se_crypto env) tx) (tx_RequiredSigners tx)"
proof -
  obtain ws cs vs where g: "gather (\<lambda>(addr, _). case withdrawalCredential (se_byronBytes env) addr of
        Inl e \<Rightarrow> Inl (WithdrawalAddressError e) | Inr c \<Rightarrow> Inr (keyOf c)) (tx_Withdrawals tx) = Inr ws"
    "gather certificateKeys (tx_Certificates tx) = Inr cs" "required = tx_RequiredSigners tx @ ws @ cs @ vs"
    using assms(1) by (auto simp: requiredKeys_def)
  have "withdrawal_authorized env tx addr" if "(addr, v) \<in> set (tx_Withdrawals tx)" for addr v
    using gather_ok[OF g(1) that] assms(2) g(3) by (auto split: sum.splits intro!: withdrawal_authorizedI)
  then show "list_all (\<lambda>(addr, _). withdrawal_authorized env tx addr) (tx_Withdrawals tx)" by (auto simp: list_all_iff)
  have "certificate_authorized env tx cert" if "cert \<in> set (tx_Certificates tx)" for cert
    using gather_ok[OF g(2) that] assms(2) g(3) by (auto intro!: certificate_authorizedI)
  then show "list_all (certificate_authorized env tx) (tx_Certificates tx)" by (simp add: list_all_iff)
  show "list_all (has_signed (se_crypto env) tx) (tx_RequiredSigners tx)" using assms(2) g(3) by (simp add: list_all_iff)
qed

text \<open>C9: A transaction is accepted only with the signatures of everyone whose funds or certificates it
  touches.  When every Shelley rule passes on a transaction without Byron witnesses, each input is an
  unspent output and, if a key locks it, that key has signed the transaction.  So has the key of every
  reward account withdrawn from that is not locked by a script, the key credential of every
  certificate on a stake credential, delegate or committee member (the registration without an explicit
  deposit apart), the operator and every owner of a registered pool, the operator of a retired pool, the
  genesis key of a genesis delegation, and every required signer.  Byron inputs are left to the check
  of bootstrap witnesses.\<close>

theorem accepted_transaction_authorized:
  assumes "VerifyTransaction env tx slot ls pp = Inr ()" "tx_ByronWitnesses tx = None"
  shows "list_all (input_authorized env tx ls) (tx_Inputs tx) \<and>
    list_all (\<lambda>(addr, _). withdrawal_authorized env tx addr) (tx_Withdrawals tx) \<and>
    list_all (certificate_authorized env tx) (tx_Certificates tx) \<and>
    list_all (has_signed (se_crypto env) tx) (tx_RequiredSigners tx)"
proof -
  note ok = accepted_rules[OF assms(1)[unfolded VerifyTransaction_def]]
  have sig: "ValidateVKeyWitnesses (se_crypto env) tx = Inr ()" "ValidateInputVKeyWitnesses (se_crypto env) tx ls = Inr ()"
    using ok(3) by (auto simp: UtxoValidateSignatures_def)
  obtain required where "requiredKeys (se_byronBytes env) tx = Inr required" "\<forall>h \<in> set required. has_signed (se_crypto env) tx h"
    using required_signed[OF ok(2) sig(1) assms(2)] .
  note r = required_authorized[OF this]
  have "input_authorized env tx ls i" if i: "i \<in> set (tx_Inputs tx)" for i
  proof -
    obtain u where u: "UtxoById ls i = Inr u" using inputs_known[OF ok(8) i] .
    show ?thesis
      using u input_signed[OF sig(2,1) assms(2) i u]
      by (auto simp: input_authorized_def split: option.split AddressPayload.split)
  qed
  then show ?thesis using r by (simp add: list_all_iff)
qed

text \<open>One key spends an output, withdraws the rewards of its account and registers another credential.\<close>

definition example_shelley_env :: shelley_env where
  "example_shelley_env = \<lparr>se_crypto = example_crypto, se_blake256 = take 32, se_byronBytes = (\<lambda>_. Inl NilAddress),
     se_decodedLength = (\<lambda>_. None), se_scriptWitnesses = (\<lambda>_ _. Inr ()), se_needsOldPlutus = (\<lambda>_ _. Inr False)\<rparr>"

definition example_pparams :: ShelleyProtocolParameters where
  "example_pparams = \<lparr>sp_MinFeeA = 44, sp_MinFeeB = 155, sp_MaxTxSize = 16384, sp_KeyDeposit = 2000, sp_PoolDeposit = 500000,
     sp_MaxEpoch = 18, sp_ProtocolMajor = 2, sp_ProtocolMinor = 0, sp_MinUtxoValue = 1000, sp_MinPoolCost = 340\<rparr>"

definition example_owner :: Credential where
  "example_owner = \<lparr>CredType = 0, cred_Hash = replicate 28 1\<rparr>"

definition example_newcomer :: Credential where
  "example_newcomer = \<lparr>CredType = 0, cred_Hash = replicate 28 2\<rparr>"

definition example_payment :: Address where
  "example_payment = (freshAddress AddressTypeKeyNone 1)\<lparr>paymentPayload := Some (AddressPayloadKeyHash (replicate 28 1))\<rparr>"

definition example_account :: Address where
  "example_account = (freshAddress AddressTypeNoneKey 1)\<lparr>stakingPayload := Some (AddressPayloadKeyHash (replicate 28 1))\<rparr>"

definition example_input :: TransactionInput where
  "example_input = \<lparr>ti_Id = replicate 32 9, ti_Index = 0\<rparr>"

definition example_payment_tx :: Transaction where
  "example_payment_tx = (let out = \<lparr>to_Address = example_payment, to_Amount = Some 90000\<rparr> in
     (blank_transaction (replicate 32 5))\<lparr>tx_Inputs := [example_input], tx_Consumed := [example_input],
       tx_Outputs := [out], tx_Produced := [(\<lparr>ti_Id = replicate 32 5, ti_Index = 0\<rparr>, out)], tx_Fee := Some 11000,
       tx_UpperBound := Some 100, tx_Withdrawals := [(Some example_account, Some 3000)],
       tx_Certificates := [StakeRegistrationCertificate example_newcomer], tx_Cbor := Inr (replicate 200 0), tx_Type := 1,
       tx_Witnesses := Some \<lparr>ws_Vkey = [\<lparr>vw_Vkey = replicate 32 1, vw_Signature = replicate 64 2\<rparr>],
         ws_Bootstrap = [], ws_NativeScripts = []\<rparr>\<rparr>)"

definition example_ledger :: LedgerState where
  "example_ledger = \<lparr>
     UtxoById = (\<lambda>i. if i = example_input then Inr (i, \<lparr>to_Address = example_payment, to_Amount = Some 100000\<rparr>) else Inl (ErrUtxoSpentInBlock i)),
     IsStakeCredentialRegistered = (\<lambda>c. c = example_owner), IsRewardAccountRegistered = (\<lambda>c. c = example_owner),
     RewardAccountBalance = (\<lambda>c. Inr (if c = example_owner then Some 3000 else None)),
     StakeCredentialDeposit = Some (\<lambda>c. Inr (if c = example_owner then Some 2000 else None)),
     PoolCurrentState = (\<lambda>p. Inr (None, None)), IsPoolRegistered = (\<lambda>_. False), IsVrfKeyInUse = (\<lambda>_. Inr None),
     IsFutureVrfKeyInUse = Some (\<lambda>_. Inr None), ls_DRepRegistration = (\<lambda>_. Inr None), ls_DRepDelegation = None, GovActionById = (\<lambda>_. Inr None),
     GovActionExists = (\<lambda>_. False), HotCredentialColds = None, PendingInstantaneousRewards = (\<lambda>_ _. Inr (0, False)),
     EpochForSlot = None, ls_GenesisDelegation = None, ProtocolParameterUpdateWindow = None, ls_NetworkId = 1\<rparr>"

lemma example_tx_fields [simp]:
  "tx_Inputs example_payment_tx = [example_input]" "tx_Fee example_payment_tx = Some 11000" "tx_IsValid example_payment_tx" "tx_ByronWitnesses example_payment_tx = None"
  "tx_Outputs example_payment_tx = [\<lparr>to_Address = example_payment, to_Amount = Some 90000\<rparr>]"
  "tx_Withdrawals example_payment_tx = [(Some example_account, Some 3000)]" "tx_Updates example_payment_tx = (0, [])"
  "tx_Certificates example_payment_tx = [StakeRegistrationCertificate example_newcomer]"
  by (simp_all add: example_payment_tx_def blank_transaction_def Let_def)

lemma example_size: "TxSize example_payment_tx = Inr 200"
  by (simp add: TxSize_def example_payment_tx_def blank_transaction_def Let_def)

lemma example_withdrawal:
  "ValidateWithdrawalAddresses (se_byronBytes example_shelley_env) [Some example_account] = Inr ()"
  "RewardAccountCredential (se_byronBytes example_shelley_env) example_account = Inr example_owner"
  by code_simp+

text \<open>The rules that compute on bytes and addresses, then those that compute on amounts.\<close>

lemma example_rules_bytes:
  "UtxoValidateMetadata example_shelley_env example_payment_tx = Inr ()"
  "ValidateRequiredVKeyWitnesses (se_crypto example_shelley_env) (se_byronBytes example_shelley_env) example_payment_tx = Inr ()"
  "UtxoValidateSignatures (se_crypto example_shelley_env) None example_payment_tx example_ledger = Inr ()"
  "UtxoValidateTimeToLive example_payment_tx 50 = Inr ()"
  "UtxoValidateInputSetEmptyUtxo example_payment_tx = Inr ()" "UtxoValidateNoDuplicateInputs example_payment_tx = Inr ()"
  "UtxoValidateBadInputsUtxo example_payment_tx example_ledger = Inr ()" "UtxoValidateNativeScripts example_shelley_env example_payment_tx = Inr ()"
  "se_scriptWitnesses example_shelley_env example_payment_tx example_ledger = Inr ()" "UtxoValidateWrongNetwork example_payment_tx example_ledger = Inr ()"
  "UtxoValidateWrongNetworkWithdrawal example_shelley_env example_payment_tx example_ledger = Inr ()" "UtxoValidateOutputBootAddrAttrsTooBig example_shelley_env example_payment_tx = Inr ()"
  "ValidateMIRGenesisQuorum (se_crypto example_shelley_env) example_payment_tx 50 example_ledger = Inr ()"
  by code_simp+

lemma example_rules_amounts:
  "ValidateClassicProtocolParameterUpdates (se_crypto example_shelley_env) v example_payment_tx 50 example_ledger = Inr ()"
  "UtxoValidateFeeTooSmallUtxo example_pparams example_payment_tx = Inr ()"
  "UtxoValidateValueNotConservedUtxo example_pparams example_payment_tx 50 example_ledger = Inr ()"
  "UtxoValidateOutputTooSmallUtxo example_pparams example_payment_tx = Inr ()"
  "UtxoValidateMaxTxSizeUtxo example_pparams example_payment_tx = Inr ()"
  "UtxoValidateDelegation example_pparams example_payment_tx example_ledger = Inr ()"
  "UtxoValidateWithdrawals example_shelley_env example_pparams example_payment_tx example_ledger = Inr ()"
  "UtxoValidatePoolCertificates example_pparams example_payment_tx 50 example_ledger = Inr ()"
  by (simp_all add: ValidateClassicProtocolParameterUpdates_def UtxoValidateFeeTooSmallUtxo_def MinFeeTx_def CalculateMinFee_def
      mul64_def add64_def UtxoValidateValueNotConservedUtxo_def inputsValue_def withdrawalsValue_def amountOf_def
      UtxoValidateOutputTooSmallUtxo_def MinCoinTxOut_def UtxoValidateMaxTxSizeUtxo_def UtxoValidateDelegation_def
      validateMirCertificates_def UtxoValidateWithdrawals_def validateWithdrawal_def UtxoValidatePoolCertificates_def
      example_size example_withdrawal example_pparams_def example_ledger_def Let_def)

lemma example_accepted: "VerifyTransaction example_shelley_env example_payment_tx 50 example_ledger example_pparams = Inr ()"
  by (simp only: VerifyTransaction_def VerifyTransactionWithSignatures_def runRules_ok UtxoValidationRules_def
      list.set ball_simps insert_iff provider_simps example_rules_bytes example_rules_amounts)

theorem accepted_transaction_authorized_witness:
  "VerifyTransaction example_shelley_env example_payment_tx 50 example_ledger example_pparams = Inr () \<and>
   has_signed (se_crypto example_shelley_env) example_payment_tx (replicate 28 1)"
proof -
  have "list_all (input_authorized example_shelley_env example_payment_tx example_ledger) (tx_Inputs example_payment_tx)"
    using accepted_transaction_authorized[OF example_accepted] by simp
  then have "input_authorized example_shelley_env example_payment_tx example_ledger example_input" by simp
  then have "has_signed (se_crypto example_shelley_env) example_payment_tx (replicate 28 1)"
    by (simp add: input_authorized_def example_ledger_def example_payment_def freshAddress_def)
  then show ?thesis using example_accepted by simp
qed

end
