(* ===== verification/ShelleyLedger.thy ===== *)
theory ShelleyLedger
  imports ShelleyRules
begin

text \<open>
  A block of Shelley transactions: \<open>verifyBlockTransactions\<close> of \<open>ledger/verify_block.go\<close>, which checks
  each transaction against the view left by those before it and then folds it into the view, with what
  a \<open>ShelleyTransaction\<close> reports about itself (\<open>ledger/shelley/shelley.go\<close>).  The lemmas follow the ada
  of a transaction through the outputs, the reward accounts and the deposits.
\<close>

subsection \<open>Transactions and blocks\<close>

text \<open>\<open>ValidatePreConwayCertificateTypes\<close>, which the decoder of a transaction body runs.\<close>

definition preConwayCertificate :: "Certificate \<Rightarrow> bool" where
  "preConwayCertificate cert =
     (case cert of
        StakeRegistrationCertificate _ \<Rightarrow> True | StakeDeregistrationCertificate _ \<Rightarrow> True
      | StakeDelegationCertificate _ _ \<Rightarrow> True | PoolRegistrationCertificate _ \<Rightarrow> True
      | PoolRetirementCertificate _ _ \<Rightarrow> True | GenesisKeyDelegationCertificate _ _ _ \<Rightarrow> True
      | MoveInstantaneousRewardsCertificate _ _ _ \<Rightarrow> True | _ \<Rightarrow> False)"

definition Produced :: "TxId \<Rightarrow> TransactionOutput list \<Rightarrow> Utxo list" where
  "Produced txId outputs = map2 (\<lambda>idx output. (\<lparr>ti_Id = txId, ti_Index = idx mod 2 ^ 32\<rparr>, output)) [0..<length outputs] outputs"

text \<open>What a Shelley transaction reports: it is always valid, it consumes its inputs and produces its
  outputs, it has one level of effects, and no proposals.  The hashes of its addresses have 28 bytes.\<close>

definition is_ShelleyTransaction :: "Transaction \<Rightarrow> bool" where
  "is_ShelleyTransaction tx \<longleftrightarrow> tx_IsValid tx \<and> tx_Levels tx = None \<and> tx_Consumed tx = tx_Inputs tx \<and>
     tx_Produced tx = Produced (tx_Hash tx) (tx_Outputs tx) \<and> length (tx_Outputs tx) < 2 ^ 32 \<and> tx_Proposals tx = [] \<and>
     list_all preConwayCertificate (tx_Certificates tx) \<and>
     list_all (\<lambda>(addr, _). case addr of None \<Rightarrow> True | Some a \<Rightarrow> address_sized a) (tx_Withdrawals tx)"

definition KeyDepositAmount :: "ShelleyProtocolParameters \<Rightarrow> int option option" where
  "KeyDepositAmount pp = Some (Some (int (sp_KeyDeposit pp)))"

datatype block_failure = InvalidTransaction nat shelley_error | ApplyTransactionFailed ledger_error

fun verifyTransactionsFrom ::
  "shelley_env \<Rightarrow> nat \<Rightarrow> ShelleyProtocolParameters \<Rightarrow> nat \<Rightarrow> BlockLedgerState \<Rightarrow> Transaction list \<Rightarrow> (nat \<times> block_failure) + BlockLedgerState" where
  "verifyTransactionsFrom env slot pp idx blockState [] = Inr blockState"
| "verifyTransactionsFrom env slot pp idx blockState (tx # txs) =
     (case VerifyTransaction env tx slot (as_LedgerState blockState) pp of
        Inl (i, e) \<Rightarrow> Inl (idx, InvalidTransaction i e)
      | Inr u \<Rightarrow>
          (case ApplyTransaction (se_byronBytes env) (KeyDepositAmount pp) blockState tx of
             Inl e \<Rightarrow> Inl (idx, ApplyTransactionFailed e)
           | Inr blockState' \<Rightarrow> verifyTransactionsFrom env slot pp (idx + 1) blockState' txs))"

text \<open>The state of the block is local to the function; it is returned here so that it can be spoken about.\<close>

definition verifyBlockTransactions ::
  "shelley_env \<Rightarrow> Transaction list \<Rightarrow> nat \<Rightarrow> LedgerState \<Rightarrow> ShelleyProtocolParameters \<Rightarrow> (nat \<times> block_failure) + BlockLedgerState" where
  "verifyBlockTransactions env txs slot ls pp = verifyTransactionsFrom env slot pp 0 (NewBlockLedgerState ls) txs"

subsection \<open>The ada in a state\<close>

definition utxo_value :: "'a LedgerState_scheme \<Rightarrow> TransactionInput \<Rightarrow> int" where
  "utxo_value s i = (case UtxoById s i of Inl _ \<Rightarrow> 0 | Inr u \<Rightarrow> amountOf (snd u))"

definition balance_value :: "'a LedgerState_scheme \<Rightarrow> Credential \<Rightarrow> int" where
  "balance_value s c = (case RewardAccountBalance s c of Inr (Some b) \<Rightarrow> int b | _ \<Rightarrow> 0)"

definition deposit_value :: "'a LedgerState_scheme \<Rightarrow> Credential \<Rightarrow> int" where
  "deposit_value s c = (case StakeCredentialDeposit s of
     Some f \<Rightarrow> (case f c of Inr (Some d) \<Rightarrow> int d | _ \<Rightarrow> 0) | None \<Rightarrow> 0)"

definition account_value :: "'a LedgerState_scheme \<Rightarrow> Credential \<Rightarrow> int" where
  "account_value s c = balance_value s c + deposit_value s c"

definition circulation :: "'a LedgerState_scheme \<Rightarrow> TransactionInput set \<Rightarrow> Credential set \<Rightarrow> int" where
  "circulation s I C = (\<Sum>i \<in> I. utxo_value s i) + (\<Sum>c \<in> C. account_value s c)"

text \<open>The provider reports a balance and a deposit for exactly the registered credentials.\<close>

definition consistent_accounts :: "'a LedgerState_scheme \<Rightarrow> bool" where
  "consistent_accounts s \<longleftrightarrow> (\<exists>f. StakeCredentialDeposit s = Some f \<and>
     (\<forall>c. (IsStakeCredentialRegistered s c \<longrightarrow> (\<exists>b d. RewardAccountBalance s c = Inr (Some b) \<and> f c = Inr (Some d))) \<and>
          (\<not> IsStakeCredentialRegistered s c \<longrightarrow> RewardAccountBalance s c = Inr None \<and> f c = Inr None)))"

lemma sum_with_update:
  fixes f g :: "'a \<Rightarrow> int"
  assumes "finite A" "a \<in> A" "\<And>x. g x = (f(a := v)) x"
  shows "sum g A = sum f A - f a + v"
proof -
  have "sum g A = g a + sum g (A - {a})" "sum f A = f a + sum f (A - {a})" using assms(1,2) by (simp_all add: sum.remove)
  moreover have "sum g (A - {a}) = sum f (A - {a})" using assms(3) by (intro sum.cong) auto
  ultimately show ?thesis using assms(3)[of a] by simp
qed

subsection \<open>Outputs\<close>

lemma spend_value [simp]: "utxo_value (spend i s) = (utxo_value s)(i := 0)" "account_value (spend i s) = account_value s"
  by (auto simp: fun_eq_iff utxo_value_def account_value_def balance_value_def deposit_value_def spend_def)

lemma create_value [simp]: "utxo_value (create u s) = (utxo_value s)(fst u := amountOf (snd u))" "account_value (create u s) = account_value s"
  by (auto simp: fun_eq_iff utxo_value_def account_value_def balance_value_def deposit_value_def create_def)

lemma spend_all:
  assumes "finite I" "set is \<subseteq> I" "distinct is"
  shows "(\<Sum>i \<in> I. utxo_value (fold spend is s) i) = (\<Sum>i \<in> I. utxo_value s i) - sum_list (map (utxo_value s) is)"
  using assms
proof (induction "is" arbitrary: s)
  case (Cons i "is")
  have "sum_list (map (utxo_value (spend i s)) is) = sum_list (map (utxo_value s) is)"
    using Cons.prems(3) by (intro arg_cong[of _ _ sum_list] map_cong) auto
  moreover have "(\<Sum>j \<in> I. utxo_value (spend i s) j) = (\<Sum>j \<in> I. utxo_value s j) - utxo_value s i + 0"
    using Cons.prems by (intro sum_with_update) auto
  ultimately show ?case using Cons.IH[of "spend i s"] Cons.prems by (simp del: spend_value)
qed simp

lemma create_all:
  assumes "finite I" "fst ` set us \<subseteq> I" "distinct (map fst us)" "\<forall>u \<in> set us. utxo_value s (fst u) = 0"
  shows "(\<Sum>i \<in> I. utxo_value (fold create us s) i) = (\<Sum>i \<in> I. utxo_value s i) + sum_list (map (\<lambda>u. amountOf (snd u)) us)"
  using assms
proof (induction us arbitrary: s)
  case (Cons u us)
  have "\<forall>v \<in> set us. utxo_value (create u s) (fst v) = 0" using Cons.prems(3,4) by (auto simp: image_iff)
  moreover have "(\<Sum>j \<in> I. utxo_value (create u s) j) = (\<Sum>j \<in> I. utxo_value s j) - utxo_value s (fst u) + amountOf (snd u)"
    using Cons.prems by (intro sum_with_update) auto
  ultimately show ?case using Cons.IH[of "create u s"] Cons.prems by (simp del: create_value)
qed simp

lemma spent_value: "utxo_value (fold spend is s) j = (if j \<in> set is then 0 else utxo_value s j)"
  by (induction "is" arbitrary: s) auto

lemma produced_ids: "length outs < 2 ^ 32 \<Longrightarrow> distinct (map fst (Produced txid outs))"
  "map snd (Produced txid outs) = outs"
proof -
  have "map fst (Produced txid outs) = map (\<lambda>idx. \<lparr>ti_Id = txid, ti_Index = idx mod 2 ^ 32\<rparr>) [0..<length outs]"
    by (rule nth_equalityI) (simp_all add: Produced_def)
  then show "distinct (map fst (Produced txid outs))" if "length outs < 2 ^ 32"
    using that by (auto simp: distinct_map intro!: inj_onI)
  show "map snd (Produced txid outs) = outs" by (rule nth_equalityI) (simp_all add: Produced_def)
qed

subsection \<open>Withdrawals\<close>

definition covered :: "(Address \<Rightarrow> address_error + bytes) \<Rightarrow> 'a LedgerState_scheme \<Rightarrow> Address option \<times> int option \<Rightarrow> Credential \<Rightarrow> bool" where
  "covered bb s w c \<longleftrightarrow> (\<exists>a x bal. w = (Some a, Some x) \<and> RewardAccountCredential bb a = Inr c \<and>
     RewardAccountBalance s c = Inr (Some bal) \<and> 0 \<le> x \<and> x < 2 ^ 64 \<and> nat x \<le> bal)"

lemma set_balance_value [simp]:
  "account_value (set_balance c v s) = (account_value s)(c := int v + deposit_value s c)"
  "utxo_value (set_balance c v s) = utxo_value s" "deposit_value (set_balance c v s) = deposit_value s"
  by (auto simp: fun_eq_iff utxo_value_def account_value_def balance_value_def deposit_value_def set_balance_def)

lemma set_balance_fields [simp]:
  "IsStakeCredentialRegistered (set_balance c v s) = IsStakeCredentialRegistered s"
  "StakeCredentialDeposit (set_balance c v s) = StakeCredentialDeposit s"
  by (simp_all add: set_balance_def)

lemma set_balance_consistent:
  "consistent_accounts s \<Longrightarrow> RewardAccountBalance s c = Inr (Some b) \<Longrightarrow> consistent_accounts (set_balance c v s)"
  unfolding consistent_accounts_def set_balance_def by (cases "IsStakeCredentialRegistered s c") auto

lemma withdraw_value:
  assumes "list_all2 (covered bb s) ws cs" "distinct cs" "set cs \<subseteq> C" "finite C" "consistent_accounts s"
  obtains s' where "withdraw bb ws s = Inr s'" "consistent_accounts s'"
    "(\<Sum>c \<in> C. account_value s' c) = (\<Sum>c \<in> C. account_value s c) - withdrawalsValue ws"
    "utxo_value s' = utxo_value s" "IsStakeCredentialRegistered s' = IsStakeCredentialRegistered s"
    "StakeCredentialDeposit s' = StakeCredentialDeposit s" 
  using assms
proof (induction ws arbitrary: s cs thesis)
  case Nil
  then show ?case by (simp add: withdrawalsValue_def)
next
  case (Cons w ws)
  obtain c cs' where cs: "cs = c # cs'" using Cons.prems(2) by (auto simp: list_all2_Cons1)
  obtain a x bal where w: "w = (Some a, Some x)" "RewardAccountCredential bb a = Inr c" "RewardAccountBalance s c = Inr (Some bal)"
      "0 \<le> x" "x < 2 ^ 64" "nat x \<le> bal"
    using Cons.prems(2) by (auto simp: cs covered_def)
  let ?s = "set_balance c (bal - nat x) s"
  have rest: "list_all2 (covered bb s) ws cs'" using Cons.prems(2) by (simp add: cs)
  have "covered bb ?s w' c'" if "covered bb s w' c'" "c' \<noteq> c" for w' c'
    using that by (simp add: covered_def set_balance_def)
  then have covered: "list_all2 (covered bb ?s) ws cs'"
    using rest Cons.prems(3) by (auto simp: cs list_all2_conv_all_nth in_set_conv_nth)
  have sum: "(\<Sum>c \<in> C. account_value ?s c) = (\<Sum>c \<in> C. account_value s c) - account_value s c + (int (bal - nat x) + deposit_value s c)"
    using Cons.prems(4,5) by (intro sum_with_update) (auto simp: cs)
  have v: "account_value s c = int bal + deposit_value s c" "withdrawalsValue (w # ws) = x + withdrawalsValue ws"
    using w by (simp_all add: account_value_def balance_value_def withdrawalsValue_def)
  have step: "withdraw bb (w # ws) s = withdraw bb ws ?s" using w by (simp add: remainingBalance_def)
  obtain s' where s': "withdraw bb ws ?s = Inr s'" "consistent_accounts s'"
    "(\<Sum>c \<in> C. account_value s' c) = (\<Sum>c \<in> C. account_value ?s c) - withdrawalsValue ws"
    "utxo_value s' = utxo_value ?s" "IsStakeCredentialRegistered s' = IsStakeCredentialRegistered ?s"
    "StakeCredentialDeposit s' = StakeCredentialDeposit ?s"
    using Cons.IH[OF _ covered] Cons.prems(3-5) set_balance_consistent[OF Cons.prems(6) w(3)] by (auto simp: cs)
  have "int (bal - nat x) = int bal - x" using w(4,6) by linarith
  then show ?case using Cons.prems(1)[of s'] s' sum v step by simp
qed

subsection \<open>Certificates\<close>

definition stakeCertificate :: "Certificate \<Rightarrow> Credential list" where
  "stakeCertificate cert = (case cert of StakeRegistrationCertificate c \<Rightarrow> [c] | StakeDeregistrationCertificate c \<Rightarrow> [c] | _ \<Rightarrow> [])"

definition registrations :: "Certificate list \<Rightarrow> nat" where
  "registrations certs = length (filter (\<lambda>c. case c of StakeRegistrationCertificate _ \<Rightarrow> True | _ \<Rightarrow> False) certs)"

lemma registrations_simps:
  "registrations (StakeRegistrationCertificate c # certs) = Suc (registrations certs)"
  "registrations (StakeDeregistrationCertificate c # certs) = registrations certs"
  by (simp_all add: registrations_def)

text \<open>The two preconditions of the delegation rule that this rule set does not check: a credential is
  not registered twice, and an account is empty when it is deregistered.\<close>

fun proper_certificates :: "(Credential \<Rightarrow> bool) \<Rightarrow> (Credential \<Rightarrow> int) \<Rightarrow> Certificate list \<Rightarrow> bool" where
  "proper_certificates registered balance [] = True"
| "proper_certificates registered balance (StakeRegistrationCertificate c # certs) =
     (\<not> registered c \<and> proper_certificates (registered(c := True)) (balance(c := 0)) certs)"
| "proper_certificates registered balance (StakeDeregistrationCertificate c # certs) =
     (balance c = 0 \<and> proper_certificates (registered(c := False)) (balance(c := 0)) certs)"
| "proper_certificates registered balance (_ # certs) = proper_certificates registered balance certs"

lemma add_pending_fields [simp]:
  "UtxoById (add_pending p c d s) = UtxoById s" "RewardAccountBalance (add_pending p c d s) = RewardAccountBalance s"
  "StakeCredentialDeposit (add_pending p c d s) = StakeCredentialDeposit s"
  "IsStakeCredentialRegistered (add_pending p c d s) = IsStakeCredentialRegistered s"
  by (simp_all add: add_pending_def)

lemma add_pending_all [simp]:
  "UtxoById (fold (\<lambda>r s. case r of (Some c, Some delta) \<Rightarrow> add_pending p c delta s | _ \<Rightarrow> s) rs s) = UtxoById s"
  "RewardAccountBalance (fold (\<lambda>r s. case r of (Some c, Some delta) \<Rightarrow> add_pending p c delta s | _ \<Rightarrow> s) rs s) = RewardAccountBalance s"
  "StakeCredentialDeposit (fold (\<lambda>r s. case r of (Some c, Some delta) \<Rightarrow> add_pending p c delta s | _ \<Rightarrow> s) rs s) = StakeCredentialDeposit s"
  "IsStakeCredentialRegistered (fold (\<lambda>r s. case r of (Some c, Some delta) \<Rightarrow> add_pending p c delta s | _ \<Rightarrow> s) rs s) =
     IsStakeCredentialRegistered s"
  by (induction rs arbitrary: s) (auto split: option.split prod.split)

lemma pool_fields [simp]:
  "UtxoById (retire p e s) = UtxoById s" "RewardAccountBalance (retire p e s) = RewardAccountBalance s"
  "StakeCredentialDeposit (retire p e s) = StakeCredentialDeposit s"
  "IsStakeCredentialRegistered (retire p e s) = IsStakeCredentialRegistered s"
  "UtxoById (new_pool r s) = UtxoById s" "RewardAccountBalance (new_pool r s) = RewardAccountBalance s"
  "StakeCredentialDeposit (new_pool r s) = StakeCredentialDeposit s"
  "IsStakeCredentialRegistered (new_pool r s) = IsStakeCredentialRegistered s"
  "UtxoById (defer_parameters cur r s) = UtxoById s" "RewardAccountBalance (defer_parameters cur r s) = RewardAccountBalance s"
  "StakeCredentialDeposit (defer_parameters cur r s) = StakeCredentialDeposit s"
  "IsStakeCredentialRegistered (defer_parameters cur r s) = IsStakeCredentialRegistered s"
  by (simp_all add: retire_def new_pool_def defer_parameters_def Let_def)

text \<open>The other certificates of the era move no ada.\<close>

lemma certify_keeps:
  assumes "certify pp cert s = Inr s'" "preConwayCertificate cert" "stakeCertificate cert = []"
  shows "UtxoById s' = UtxoById s \<and> RewardAccountBalance s' = RewardAccountBalance s \<and>
    StakeCredentialDeposit s' = StakeCredentialDeposit s \<and> IsStakeCredentialRegistered s' = IsStakeCredentialRegistered s"
  using assms
  by (cases cert) (auto simp: certify_def preConwayCertificate_def stakeCertificate_def register_pool_def
      split: option.splits)

lemma values_kept:
  assumes "UtxoById s' = UtxoById s \<and> RewardAccountBalance s' = RewardAccountBalance s \<and>
    StakeCredentialDeposit s' = StakeCredentialDeposit s \<and> IsStakeCredentialRegistered s' = IsStakeCredentialRegistered s"
  shows "utxo_value s' = utxo_value s" "account_value s' = account_value s" "balance_value s' = balance_value s"
    "deposit_value s' = deposit_value s" "consistent_accounts s' = consistent_accounts s"
  using assms by (auto simp: fun_eq_iff utxo_value_def account_value_def balance_value_def deposit_value_def consistent_accounts_def)


lemma register_value:
  "utxo_value (register c d s) = utxo_value s" "balance_value (register c d s) = (balance_value s)(c := 0)"
  "IsStakeCredentialRegistered (register c d s) = (IsStakeCredentialRegistered s)(c := True)"
  by (auto simp: fun_eq_iff utxo_value_def balance_value_def register_def)

lemma deregister_value:
  "utxo_value (deregister c s) = utxo_value s" "balance_value (deregister c s) = (balance_value s)(c := 0)"
  "IsStakeCredentialRegistered (deregister c s) = (IsStakeCredentialRegistered s)(c := False)"
  by (auto simp: fun_eq_iff utxo_value_def balance_value_def deregister_def)

lemma account_changes:
  assumes "consistent_accounts s"
  shows "account_value (register c d s) = (account_value s)(c := int d)" "consistent_accounts (register c d s)"
    "deposit_value (register c d s) = (deposit_value s)(c := int d)"
    "account_value (deregister c s) = (account_value s)(c := 0)" "consistent_accounts (deregister c s)"
    "deposit_value (deregister c s) = (deposit_value s)(c := 0)"
    "\<not> IsStakeCredentialRegistered s c \<Longrightarrow> account_value s c = 0"
    "\<not> IsStakeCredentialRegistered s c \<Longrightarrow> deposit_value s c = 0"
proof -
  obtain f where f: "StakeCredentialDeposit s = Some f" using assms by (auto simp: consistent_accounts_def)
  show "deposit_value (register c d s) = (deposit_value s)(c := int d)" "deposit_value (deregister c s) = (deposit_value s)(c := 0)"
    "account_value (register c d s) = (account_value s)(c := int d)" "account_value (deregister c s) = (account_value s)(c := 0)"
    using f by (auto simp: fun_eq_iff account_value_def balance_value_def deposit_value_def register_def deregister_def)
  show "consistent_accounts (register c d s)" "consistent_accounts (deregister c s)"
    using assms unfolding consistent_accounts_def by (auto simp: register_def deregister_def)
  show "\<not> IsStakeCredentialRegistered s c \<Longrightarrow> account_value s c = 0" "\<not> IsStakeCredentialRegistered s c \<Longrightarrow> deposit_value s c = 0"
    using assms f by (auto simp: consistent_accounts_def account_value_def balance_value_def deposit_value_def split: if_splits)
qed

lemma deposit_reported:
  assumes "consistent_accounts s" "IsStakeCredentialRegistered s c" "StakeCredentialDepositOrDefault s c fallback = Inr d"
  shows "deposit_value s c = int d"
  using assms by (auto simp: consistent_accounts_def StakeCredentialDepositOrDefault_def deposit_value_def split: if_splits)

text \<open>The maps of the value rule follow the state as the certificates are applied.\<close>

definition tracked :: "LedgerState \<Rightarrow> bool option \<Rightarrow> nat option \<Rightarrow> AppliedState \<Rightarrow> Credential \<Rightarrow> bool" where
  "tracked ls registered deposit s c \<longleftrightarrow>
     (case registered of
        None \<Rightarrow> IsStakeCredentialRegistered s c = IsStakeCredentialRegistered ls c \<and> deposit_value s c = deposit_value ls c
      | Some True \<Rightarrow> IsStakeCredentialRegistered s c \<and> deposit_value s c = int (case deposit of Some d \<Rightarrow> d | None \<Rightarrow> 0)
      | Some False \<Rightarrow> \<not> IsStakeCredentialRegistered s c)"

definition tracks :: "LedgerState \<Rightarrow> (Credential \<rightharpoonup> bool) \<Rightarrow> (Credential \<rightharpoonup> nat) \<Rightarrow> AppliedState \<Rightarrow> bool" where
  "tracks ls registered deposits s \<longleftrightarrow> consistent_accounts s \<and> (\<forall>c. tracked ls (registered c) (deposits c) s c)"

lemma tracked_elsewhere:
  assumes "consistent_accounts s" "x \<noteq> c"
  shows "tracked ls r d (register c k s) x = tracked ls r d s x" "tracked ls r d (deregister c s) x = tracked ls r d s x"
  using assms by (auto simp: tracked_def account_changes register_value deregister_value split: option.split bool.split)

lemma tracks_register:
  assumes "tracks ls registered deposits s"
  shows "tracks ls (registered(c \<mapsto> True)) (deposits(c \<mapsto> d)) (register c d s)"
proof -
  have con: "consistent_accounts s" using assms by (simp add: tracks_def)
  have "tracked ls (Some True) (Some d) (register c d s) c" using con by (simp add: tracked_def account_changes register_value)
  then show ?thesis using assms con by (simp add: tracks_def account_changes tracked_elsewhere)
qed

lemma tracks_deregister:
  assumes "tracks ls registered deposits s"
  shows "tracks ls (registered(c \<mapsto> False)) (deposits(c := d)) (deregister c s)"
    "registered c = Some False \<or> registered c = None \<and> \<not> IsStakeCredentialRegistered ls c \<Longrightarrow>
     tracks ls registered deposits (deregister c s)"
proof -
  have con: "consistent_accounts s" and t: "tracked ls (registered c) (deposits c) s c" using assms by (simp_all add: tracks_def)
  have "tracked ls (Some False) d (deregister c s) c" for d using con by (simp add: tracked_def account_changes deregister_value)
  then show "tracks ls (registered(c \<mapsto> False)) (deposits(c := d)) (deregister c s)"
    using assms con by (simp add: tracks_def account_changes tracked_elsewhere)
  have "tracked ls (registered c) (deposits c) (deregister c s) c"
    if "registered c = Some False \<or> registered c = None \<and> \<not> IsStakeCredentialRegistered ls c"
    using that t con account_changes(8)[OF con, of c] by (auto simp: tracked_def account_changes deregister_value)
  then show "registered c = Some False \<or> registered c = None \<and> \<not> IsStakeCredentialRegistered ls c \<Longrightarrow>
     tracks ls registered deposits (deregister c s)"
    using assms con tracked_elsewhere(2)[OF con] by (metis tracks_def account_changes(5))
qed

text \<open>One deregistration: the refund is the deposit that the state holds for the credential.\<close>

lemma refund_step:
  assumes "refunds pp ls registered deposits (StakeDeregistrationCertificate c # certs) = Inr r"
    and "tracks ls registered deposits s" "consistent_accounts ls"
  obtains registered' deposits' r' where "refunds pp ls registered' deposits' certs = Inr r'"
    "tracks ls registered' deposits' (deregister c s)" "r = r' + deposit_value s c"
proof -
  have con: "consistent_accounts s" using assms(2) by (simp add: tracks_def)
  note t = assms(2)[unfolded tracks_def, THEN conjunct2, rule_format, of c, unfolded tracked_def]
  consider (known) "registered c = Some True" | (gone) "registered c = Some False"
    | (base) "registered c = None" "IsStakeCredentialRegistered ls c" | (absent) "registered c = None" "\<not> IsStakeCredentialRegistered ls c"
    by (cases "registered c") auto
  then show thesis
  proof cases
    case known
    then obtain r' where "refunds pp ls (registered(c \<mapsto> False)) deposits certs = Inr r'" "r = r' + deposit_value s c"
      using assms(1) t by auto
    then show thesis using that tracks_deregister(1)[OF assms(2), of c "deposits c"] by simp
  next
    case base
    then obtain d r' where "StakeCredentialDepositOrDefault ls c (sp_KeyDeposit pp) = Inr d"
      "refunds pp ls (registered(c \<mapsto> False)) (deposits(c \<mapsto> d)) certs = Inr r'" "r = r' + int d"
      using assms(1) by auto
    then show thesis
      using that tracks_deregister(1)[OF assms(2), of c "Some d"] deposit_reported[OF assms(3) base(2)] t base(1) by simp
  next
    case gone
    then show thesis using that tracks_deregister(2)[OF assms(2), of c] account_changes(8)[OF con, of c] assms(1) t by simp
  next
    case absent
    then show thesis using that tracks_deregister(2)[OF assms(2), of c] account_changes(8)[OF con, of c] assms(1) t by simp
  qed
qed

lemma certify_value:
  assumes "certify_all (KeyDepositAmount pp) certs s = Inr s'" "list_all preConwayCertificate certs"
    and "proper_certificates (IsStakeCredentialRegistered s) (balance_value s) certs"
    and "refunds pp ls registered deposits certs = Inr r" "tracks ls registered deposits s" "consistent_accounts ls"
    and "finite C" "\<forall>cert \<in> set certs. set (stakeCertificate cert) \<subseteq> C"
  shows "(\<Sum>c \<in> C. account_value s' c) = (\<Sum>c \<in> C. account_value s c) - r + int (sp_KeyDeposit pp) * int (registrations certs) \<and>
    utxo_value s' = utxo_value s \<and> consistent_accounts s'"
  using assms
proof (induction certs arbitrary: s registered deposits r)
  case Nil
  then show ?case by (simp add: registrations_def tracks_def)
next
  case (Cons cert certs)
  obtain s1 where s1: "certify (KeyDepositAmount pp) cert s = Inr s1" "certify_all (KeyDepositAmount pp) certs s1 = Inr s'"
    using Cons.prems(1) by auto
  have con: "consistent_accounts s" using Cons.prems(5) by (simp add: tracks_def)
  note IH = Cons.IH[OF s1(2) _ _ _ _ Cons.prems(6,7)]
  show ?case
  proof (cases "stakeCertificate cert = []")
    case True
    note k = certify_keeps[OF s1(1) _ True]
    have pre: "preConwayCertificate cert" using Cons.prems(2) by simp
    note keep = values_kept[OF k[OF pre]] k[OF pre]
    have "refunds pp ls registered deposits certs = Inr r" "registrations (cert # certs) = registrations certs"
      "proper_certificates (IsStakeCredentialRegistered s) (balance_value s) certs"
      using Cons.prems(3,4) True by (cases cert; simp add: registrations_def stakeCertificate_def)+
    moreover have "tracks ls registered deposits s1"
      using Cons.prems(5) unfolding tracks_def tracked_def keep(4,5) k[OF pre, THEN conjunct2, THEN conjunct2, THEN conjunct2] .
    ultimately show ?thesis using IH[of registered deposits r] Cons.prems(2,8) keep by simp
  next
    case False
    then consider (reg) c where "cert = StakeRegistrationCertificate c" | (dereg) c where "cert = StakeDeregistrationCertificate c"
      by (cases cert) (auto simp: stakeCertificate_def)
    then show ?thesis
    proof cases
      case reg
      have s1': "s1 = register c (sp_KeyDeposit pp) s"
        using s1(1) by (auto simp: reg certify_def KeyDepositAmount_def blockKeyDeposit_def split: if_splits)
      have "(\<Sum>c \<in> C. account_value s1 c) = (\<Sum>c \<in> C. account_value s c) - account_value s c + int (sp_KeyDeposit pp)"
        unfolding s1' account_changes(1)[OF con] using Cons.prems(7,8) by (intro sum_with_update) (auto simp: reg stakeCertificate_def)
      moreover have "account_value s c = 0" using Cons.prems(3) account_changes(7)[OF con, of c] by (simp add: reg)
      moreover have "proper_certificates (IsStakeCredentialRegistered s1) (balance_value s1) certs"
        "refunds pp ls (registered(c \<mapsto> True)) (deposits(c \<mapsto> sp_KeyDeposit pp)) certs = Inr r"
        using Cons.prems(3,4) by (simp_all add: reg s1' register_value)
      note ih = IH[OF _ this tracks_register[OF Cons.prems(5), of c "sp_KeyDeposit pp", folded s1']]
      ultimately show ?thesis using ih Cons.prems(2,8) by (simp add: reg registrations_simps s1' register_value ring_distribs)
    next
      case dereg
      have s1': "s1 = deregister c s" using s1(1) by (simp add: dereg certify_def)
      obtain registered' deposits' r' where r: "refunds pp ls registered' deposits' certs = Inr r'"
        "tracks ls registered' deposits' (deregister c s)" "r = r' + deposit_value s c"
        using refund_step[OF Cons.prems(4)[unfolded dereg] Cons.prems(5,6)] by metis
      have "(\<Sum>c \<in> C. account_value s1 c) = (\<Sum>c \<in> C. account_value s c) - account_value s c + 0"
        unfolding s1' account_changes(4)[OF con] using Cons.prems(7,8) by (intro sum_with_update) (auto simp: dereg stakeCertificate_def)
      moreover have "account_value s c = deposit_value s c" using Cons.prems(3) by (simp add: dereg account_value_def)
      moreover have "proper_certificates (IsStakeCredentialRegistered s1) (balance_value s1) certs"
        using Cons.prems(3) by (simp add: dereg s1' deregister_value)
      note ih = IH[OF _ this r(1) r(2)[folded s1']]
      ultimately show ?thesis using ih Cons.prems(2,8) r(3) by (simp add: dereg registrations_simps s1' deregister_value)
    qed
  qed
qed

subsection \<open>Deposits\<close>

text \<open>The pools that a list of certificates registers and that pay a deposit: those without a current
  registration, and those whose retirement falls in an epoch that has begun at the slot.\<close>

definition pool_absent :: "LedgerState \<Rightarrow> nat \<Rightarrow> PoolKeyHash \<Rightarrow> bool" where
  "pool_absent ls slot p \<longleftrightarrow>
     (\<exists>retirement. PoolCurrentState ls p = Inr (None, retirement)) \<or>
     (\<exists>reg retirement epochFor epoch. PoolCurrentState ls p = Inr (Some reg, Some retirement) \<and>
        EpochForSlot ls = Some epochFor \<and> epochFor slot = Inr epoch \<and> retirement \<le> epoch)"

definition due_pools :: "LedgerState \<Rightarrow> nat \<Rightarrow> Certificate list \<Rightarrow> PoolKeyHash set" where
  "due_pools ls slot certs = {po_Operator r | r. PoolRegistrationCertificate r \<in> set certs \<and> pool_absent ls slot (po_Operator r)}"

lemma deposit_due_absent: "PoolRegistrationDepositDue ls slot p = Inr due \<Longrightarrow> due = pool_absent ls slot p"
  by (cases "PoolCurrentState ls p") (auto simp: PoolRegistrationDepositDue_def pool_absent_def split: if_splits option.splits)

lemma due_pools_simps [simp]:
  "due_pools ls slot [] = {}" "finite (due_pools ls slot certs)"
  "due_pools ls slot (PoolRegistrationCertificate r # certs) =
     (if pool_absent ls slot (po_Operator r) then insert (po_Operator r) (due_pools ls slot certs) else due_pools ls slot certs)"
proof -
  have "due_pools ls slot certs \<subseteq> po_Operator ` {r. PoolRegistrationCertificate r \<in> set certs}" by (auto simp: due_pools_def)
  moreover have "finite {r. PoolRegistrationCertificate r \<in> set certs}"
    by (rule finite_vimageI[of "set certs" PoolRegistrationCertificate, unfolded vimage_def]) (auto simp: inj_on_def)
  ultimately show "finite (due_pools ls slot certs)" by (meson finite_imageI finite_subset)
qed (auto simp: due_pools_def)

lemma deposits_value:
  "depositsDue pp ls slot seen certs = Inr d \<Longrightarrow>
   d = int (sp_KeyDeposit pp) * int (registrations certs) + int (sp_PoolDeposit pp) * int (card (due_pools ls slot certs - seen))"
proof (induction pp ls slot seen certs arbitrary: d rule: depositsDue.induct)
  case (2 pp ls slot seen r certs)
  let ?op = "po_Operator r"
  show ?case
  proof (cases "?op \<in> seen")
    case True
    then have "due_pools ls slot (PoolRegistrationCertificate r # certs) - seen = due_pools ls slot certs - seen" by auto
    then show ?thesis using 2 True by (simp add: registrations_def)
  next
    case False
    then obtain due d' where d: "PoolRegistrationDepositDue ls slot ?op = Inr due" "depositsDue pp ls slot (insert ?op seen) certs = Inr d'"
      "d = (if due then int (sp_PoolDeposit pp) else 0) + d'" using 2(3) by auto
    have "due_pools ls slot (PoolRegistrationCertificate r # certs) - seen =
        (if due then insert ?op (due_pools ls slot certs - insert ?op seen) else due_pools ls slot certs - insert ?op seen)"
      using deposit_due_absent[OF d(1)] False by (auto simp: due_pools_def)
    then show ?thesis using 2(2)[OF False d(1,2)] d(3) by (simp add: registrations_def ring_distribs)
  qed
qed (auto simp: registrations_def due_pools_def List.map_filter_simps ring_distribs)

subsection \<open>A transaction\<close>

lemma as_view [simp]:
  "utxo_value (as_LedgerState b) = utxo_value (block_view b)" "account_value (as_LedgerState b) = account_value (block_view b)"
  "deposit_value (as_LedgerState b) = deposit_value (block_view b)"
  "RewardAccountBalance (as_LedgerState b) = RewardAccountBalance (block_view b)"
  "IsStakeCredentialRegistered (as_LedgerState b) = IsStakeCredentialRegistered (block_view b)"
  "consistent_accounts (as_LedgerState b) = consistent_accounts (block_view b)"
  by (simp_all add: fun_eq_iff utxo_value_def account_value_def balance_value_def deposit_value_def consistent_accounts_def as_LedgerState_def)

lemma ucast_u8_u64: "ucast (ucast (x :: u8) :: u64) = x"
  by transfer simp

lemma withdrawal_covered:
  assumes "validateWithdrawal env ls exact w = Inr ()"
  obtains c where "covered (se_byronBytes env) ls w c" "RewardAccountCredential (se_byronBytes env) (the (fst w)) = Inr c"
proof -
  obtain addr amount where w: "w = (addr, amount)" by fastforce
  obtain a where a: "addr = Some a" using assms by (cases addr) (auto simp: w validateWithdrawal_def)
  obtain c where c: "RewardAccountCredential (se_byronBytes env) a = Inr c"
    using assms by (cases "RewardAccountCredential (se_byronBytes env) a") (auto simp: w a validateWithdrawal_def)
  obtain bal where bal: "RewardAccountBalance ls c = Inr (Some bal)"
    using assms by (auto simp: w a c validateWithdrawal_def split: option.splits)
  have "covered (se_byronBytes env) ls w c"
    using assms by (cases amount) (auto simp: w a c bal validateWithdrawal_def covered_def Let_def split: if_splits)
  then show thesis using that c by (simp add: w a)
qed

lemma withdrawals_covered:
  assumes "UtxoValidateWithdrawals env pp tx ls = Inr ()" "UtxoValidateWrongNetworkWithdrawal env tx ls = Inr ()"
    and "list_all (\<lambda>(addr, _). case addr of None \<Rightarrow> True | Some a \<Rightarrow> address_sized a) (tx_Withdrawals tx)"
  obtains cs where "list_all2 (covered (se_byronBytes env) ls) (tx_Withdrawals tx) cs" "distinct cs"
proof (cases "tx_Withdrawals tx = []")
  case False
  let ?bb = "se_byronBytes env" and ?ws = "tx_Withdrawals tx"
  have bad: "\<forall>w \<in> set ?ws. \<exists>a. fst w = Some a \<and> Address_NetworkId a = ls_NetworkId ls"
    using assms(2) by (auto simp: UtxoValidateWrongNetworkWithdrawal_def Let_def filter_empty_conv split: if_splits option.splits)
  define addrs where "addrs = map (\<lambda>w. the (fst w)) ?ws"
  have addrs: "map fst ?ws = map Some addrs" using bad by (fastforce simp: addrs_def)
  have valid: "ValidateWithdrawalAddresses ?bb (map Some addrs) = Inr ()"
    and ok: "\<exists>exact. each (validateWithdrawal env ls exact) ?ws = Inr ()"
    using assms(1) False by (auto simp: UtxoValidateWithdrawals_def addrs split: sum.splits)
  have one: "\<exists>c. covered ?bb ls w c \<and> RewardAccountCredential ?bb (the (fst w)) = Inr c" if w: "w \<in> set ?ws" for w
  proof -
    obtain exact where "validateWithdrawal env ls exact w = Inr ()" using ok w by auto
    from withdrawal_covered[OF this] show ?thesis by blast
  qed
  have "networkId a = ucast (ls_NetworkId ls)" if "a \<in> set addrs" for a
  proof -
    obtain w where w: "w \<in> set ?ws" "a = the (fst w)" using \<open>a \<in> set addrs\<close> by (auto simp: addrs_def)
    then have "Address_NetworkId a = ls_NetworkId ls" "\<exists>c. RewardAccountCredential ?bb a = Inr c" using bad one by fastforce+
    then have "ls_NetworkId ls = ucast (networkId a)"
      by (auto simp: Address_NetworkId_def RewardAccountCredential_def split: if_splits)
    then show ?thesis by (simp add: ucast_u8_u64)
  qed
  then have net: "list_all (\<lambda>a. networkId a = ucast (ls_NetworkId ls)) addrs" by (simp add: list_all_iff)
  have "list_all address_sized addrs" using assms(3) bad by (fastforce simp: addrs_def list_all_iff)
  then obtain cs where cs: "map (RewardAccountCredential ?bb) addrs = map Inr cs" "distinct cs"
    using withdrawal_accounts_distinct[OF valid _ net] by blast
  have "length cs = length ?ws" using arg_cong[OF cs(1), of length] by (simp add: addrs_def)
  moreover have "covered ?bb ls (?ws ! i) (cs ! i)" if "i < length ?ws" for i
    using one[OF nth_mem[OF that]] arg_cong[OF cs(1), of "\<lambda>xs. xs ! i"] that calculation by (auto simp: addrs_def)
  ultimately have "list_all2 (covered ?bb ls) ?ws cs" by (simp add: list_all2_conv_all_nth)
  then show thesis using that cs(2) by blast
qed (use that[of "[]"] in simp)

lemma duplicate_none: "duplicateInput seen is = None \<Longrightarrow> distinct is \<and> seen \<inter> set is = {}"
  by (induction seen "is" rule: duplicateInput.induct) (auto split: if_splits)

lemma inputs_distinct: "UtxoValidateNoDuplicateInputs tx = Inr () \<Longrightarrow> distinct (tx_Inputs tx)"
  using duplicate_none[of "{}" "tx_Inputs tx"]
  by (cases "tx_Inputs tx"; cases "tl (tx_Inputs tx)")
    (auto simp: UtxoValidateNoDuplicateInputs_def firstDuplicateInput_def split: option.splits if_splits)

text \<open>What the outputs of a transaction leave, and what the theorem asks of a transaction beyond the rules:
  its identifier is new, and its certificates respect the two preconditions that are not checked.\<close>

definition outputs_applied :: "Transaction \<Rightarrow> AppliedState \<Rightarrow> AppliedState" where
  "outputs_applied tx s = fold create (tx_Produced tx) (fold spend (tx_Consumed tx) s)"

definition transaction_preconditions :: "shelley_env \<Rightarrow> AppliedState \<Rightarrow> Transaction \<Rightarrow> bool" where
  "transaction_preconditions env s tx \<longleftrightarrow> is_ShelleyTransaction tx \<and>
     list_all (\<lambda>u. \<not> is_ok (UtxoById s (fst u))) (tx_Produced tx) \<and>
     (case withdraw (se_byronBytes env) (tx_Withdrawals tx) (outputs_applied tx s) of
        Inl _ \<Rightarrow> True
      | Inr s' \<Rightarrow> proper_certificates (IsStakeCredentialRegistered s') (balance_value s') (tx_Certificates tx))"

definition touched_inputs :: "Transaction \<Rightarrow> TransactionInput set" where
  "touched_inputs tx = set (tx_Inputs tx) \<union> fst ` set (tx_Produced tx)"

definition withdrawal_account :: "shelley_env \<Rightarrow> Address option \<times> int option \<Rightarrow> Credential option" where
  "withdrawal_account env w = (case withdrawalCredential (se_byronBytes env) (fst w) of Inl _ \<Rightarrow> None | Inr c \<Rightarrow> Some c)"

definition touched_credentials :: "shelley_env \<Rightarrow> Transaction \<Rightarrow> Credential set" where
  "touched_credentials env tx = set (concat (map stakeCertificate (tx_Certificates tx))) \<union>
     set (List.map_filter (withdrawal_account env) (tx_Withdrawals tx))"

text \<open>What leaves the outputs and accounts: the fee and the deposits of the pools.\<close>

definition collected :: "ShelleyProtocolParameters \<Rightarrow> LedgerState \<Rightarrow> nat \<Rightarrow> Transaction \<Rightarrow> int" where
  "collected pp ls slot tx = (case tx_Fee tx of Some f \<Rightarrow> f | None \<Rightarrow> 0) +
     int (sp_PoolDeposit pp) * int (card (due_pools ls slot (tx_Certificates tx)))"

lemma unknown_value: "\<not> is_ok (UtxoById s i) \<Longrightarrow> utxo_value s i = 0"
  by (simp add: utxo_value_def is_ok_def split: sum.splits)

lemma outputs_value:
  assumes "is_ShelleyTransaction tx" "distinct (tx_Inputs tx)" "list_all (\<lambda>u. \<not> is_ok (UtxoById s (fst u))) (tx_Produced tx)"
    and "finite I" "touched_inputs tx \<subseteq> I"
  shows "(\<Sum>i \<in> I. utxo_value (outputs_applied tx s) i) =
    (\<Sum>i \<in> I. utxo_value s i) - sum_list (map (utxo_value s) (tx_Inputs tx)) + sum_list (map amountOf (tx_Outputs tx))"
proof -
  have p: "tx_Produced tx = Produced (tx_Hash tx) (tx_Outputs tx)" "length (tx_Outputs tx) < 2 ^ 32" "tx_Consumed tx = tx_Inputs tx"
    using assms(1) by (simp_all add: is_ShelleyTransaction_def)
  have "\<forall>u \<in> set (tx_Produced tx). utxo_value (fold spend (tx_Inputs tx) s) (fst u) = 0"
    using assms(3) by (auto simp: spent_value list_all_iff unknown_value)
  moreover have "map (\<lambda>u. amountOf (snd u)) (tx_Produced tx) = map amountOf (tx_Outputs tx)"
    using arg_cong[OF produced_ids(2)[of "tx_Hash tx" "tx_Outputs tx"], of "map amountOf"] by (simp add: p(1) comp_def)
  ultimately show ?thesis
    using create_all[OF assms(4), of "tx_Produced tx" "fold spend (tx_Inputs tx) s"] spend_all[OF assms(4) _ assms(2), of s]
      assms(5) produced_ids(1)[OF p(2), of "tx_Hash tx"]
    by (simp add: outputs_applied_def p touched_inputs_def)
qed

lemma outputs_fields [simp]:
  "RewardAccountBalance (outputs_applied tx s) = RewardAccountBalance s"
  "StakeCredentialDeposit (outputs_applied tx s) = StakeCredentialDeposit s"
  "IsStakeCredentialRegistered (outputs_applied tx s) = IsStakeCredentialRegistered s"
proof -
  have "RewardAccountBalance (fold spend is s) = RewardAccountBalance s \<and> StakeCredentialDeposit (fold spend is s) = StakeCredentialDeposit s \<and>
    IsStakeCredentialRegistered (fold spend is s) = IsStakeCredentialRegistered s" for "is" s
    by (induction "is" arbitrary: s) (simp_all add: spend_def)
  moreover have "RewardAccountBalance (fold create us s) = RewardAccountBalance s \<and> StakeCredentialDeposit (fold create us s) = StakeCredentialDeposit s \<and>
    IsStakeCredentialRegistered (fold create us s) = IsStakeCredentialRegistered s" for us s
    by (induction us arbitrary: s) (simp_all add: create_def)
  ultimately show "RewardAccountBalance (outputs_applied tx s) = RewardAccountBalance s"
    "StakeCredentialDeposit (outputs_applied tx s) = StakeCredentialDeposit s"
    "IsStakeCredentialRegistered (outputs_applied tx s) = IsStakeCredentialRegistered s"
    by (simp_all add: outputs_applied_def)
qed

lemma outputs_account [simp]:
  "account_value (outputs_applied tx s) = account_value s" "deposit_value (outputs_applied tx s) = deposit_value s"
  "consistent_accounts (outputs_applied tx s) = consistent_accounts s" "covered bb (outputs_applied tx s) = covered bb s"
  by (simp_all add: fun_eq_iff account_value_def balance_value_def deposit_value_def consistent_accounts_def covered_def)

text \<open>The value rule, read as an equation.\<close>

lemma value_rule:
  assumes "UtxoValidateValueNotConservedUtxo pp tx slot ls = Inr ()"
  obtains r where "refunds pp ls Map.empty Map.empty (tx_Certificates tx) = Inr r"
    "sum_list (map (utxo_value ls) (tx_Inputs tx)) + withdrawalsValue (tx_Withdrawals tx) + r =
     sum_list (map amountOf (tx_Outputs tx)) + collected pp ls slot tx + int (sp_KeyDeposit pp) * int (registrations (tx_Certificates tx))"
proof -
  obtain r d where r: "refunds pp ls Map.empty Map.empty (tx_Certificates tx) = Inr r"
    and d: "depositsDue pp ls slot {} (tx_Certificates tx) = Inr d"
    and eq: "inputsValue ls (tx_Inputs tx) + withdrawalsValue (tx_Withdrawals tx) + r =
      sum_list (map amountOf (tx_Outputs tx)) + (case tx_Fee tx of Some f \<Rightarrow> f | None \<Rightarrow> 0) + d"
    using assms by (auto simp: UtxoValidateValueNotConservedUtxo_def Let_def)
  have "inputsValue ls (tx_Inputs tx) = sum_list (map (utxo_value ls) (tx_Inputs tx))"
    unfolding inputsValue_def utxo_value_def ..
  then show thesis using that[OF r] eq deposits_value[OF d] by (simp add: collected_def)
qed

lemma propose_nothing [simp]:
  "utxo_value (propose t ps s) = utxo_value s" "account_value (propose t ps s) = account_value s"
  "consistent_accounts (propose t ps s) = consistent_accounts s"
  by (simp_all add: fun_eq_iff propose_def Let_def utxo_value_def account_value_def balance_value_def deposit_value_def consistent_accounts_def)

lemma map_filter_mem: "x \<in> set xs \<Longrightarrow> f x = Some y \<Longrightarrow> y \<in> set (List.map_filter f xs)"
  by (induction xs) (auto simp: List.map_filter_simps split: option.split)

lemma covered_view: "covered bb (as_LedgerState b) = covered bb (block_view b)"
  by (simp add: fun_eq_iff covered_def)

lemma credentials_touched:
  assumes "list_all2 (covered (se_byronBytes env) s) (tx_Withdrawals tx) cs"
  shows "set cs \<subseteq> touched_credentials env tx" "\<forall>cert \<in> set (tx_Certificates tx). set (stakeCertificate cert) \<subseteq> touched_credentials env tx"
proof
  fix c assume "c \<in> set cs"
  then obtain i where "i < length cs" "c = cs ! i" by (auto simp: in_set_conv_nth)
  then obtain a x where w: "(Some a, Some x) \<in> set (tx_Withdrawals tx)" "RewardAccountCredential (se_byronBytes env) a = Inr c"
    using assms by (auto simp: list_all2_conv_all_nth covered_def) (metis nth_mem)
  then have "withdrawal_account env (Some a, Some x) = Some c" by (simp add: withdrawal_account_def withdrawalCredential_def)
  then show "c \<in> touched_credentials env tx" using map_filter_mem[OF w(1), of "withdrawal_account env"] by (simp add: touched_credentials_def)
qed (auto simp: touched_credentials_def)

lemma apply_shelley:
  assumes "apply_tx bb pp tx s = Inr s'" "is_ShelleyTransaction tx"
  obtains s2 s3 where "withdraw bb (tx_Withdrawals tx) (outputs_applied tx s) = Inr s2" "certify_all pp (tx_Certificates tx) s2 = Inr s3"
    "s' = propose (tx_Hash tx) [] s3"
  using assms by (auto simp: apply_tx_def is_ShelleyTransaction_def bodyLevel_def apply_level_def outputs_applied_def Let_def)

lemma transaction_value:
  assumes verified: "VerifyTransaction env tx slot (as_LedgerState b) pp = Inr ()"
    and applied: "apply_tx (se_byronBytes env) (KeyDepositAmount pp) tx (block_view b) = Inr s'"
    and pre: "transaction_preconditions env (block_view b) tx" and con: "consistent_accounts (as_LedgerState b)"
    and fin: "finite I" "finite C" "touched_inputs tx \<subseteq> I" "touched_credentials env tx \<subseteq> C"
  shows "circulation s' I C + collected pp (as_LedgerState b) slot tx = circulation (as_LedgerState b) I C \<and> consistent_accounts s'"
proof -
  let ?ls = "as_LedgerState b" and ?s = "block_view b" and ?s1 = "outputs_applied tx (block_view b)"
  note ok = accepted_rules[OF verified[unfolded VerifyTransaction_def]]
  have tx: "is_ShelleyTransaction tx" "list_all (\<lambda>u. \<not> is_ok (UtxoById ?s (fst u))) (tx_Produced tx)"
    using pre by (simp_all add: transaction_preconditions_def)
  obtain s2 s3 where s: "withdraw (se_byronBytes env) (tx_Withdrawals tx) ?s1 = Inr s2"
    "certify_all (KeyDepositAmount pp) (tx_Certificates tx) s2 = Inr s3" "s' = propose (tx_Hash tx) [] s3"
    using apply_shelley[OF applied tx(1)] .
  obtain cs where cs: "list_all2 (covered (se_byronBytes env) ?s) (tx_Withdrawals tx) cs" "distinct cs"
  proof (rule withdrawals_covered[OF ok(12,10)])
    show "list_all (\<lambda>(addr, _). case addr of None \<Rightarrow> True | Some a \<Rightarrow> address_sized a) (tx_Withdrawals tx)"
      using tx(1) unfolding is_ShelleyTransaction_def by blast
  qed (simp only: covered_view)
  note touched = credentials_touched[OF cs(1)]
  obtain s2' where s2': "withdraw (se_byronBytes env) (tx_Withdrawals tx) ?s1 = Inr s2'" "consistent_accounts s2'"
    "(\<Sum>c \<in> C. account_value s2' c) = (\<Sum>c \<in> C. account_value ?s1 c) - withdrawalsValue (tx_Withdrawals tx)"
    "utxo_value s2' = utxo_value ?s1" "IsStakeCredentialRegistered s2' = IsStakeCredentialRegistered ?s1"
    "StakeCredentialDeposit s2' = StakeCredentialDeposit ?s1"
  proof (rule withdraw_value[of "se_byronBytes env" ?s1 "tx_Withdrawals tx" cs C])
  qed (use cs touched(1) fin con in auto)
  have w: "consistent_accounts s2" "(\<Sum>c \<in> C. account_value s2 c) = (\<Sum>c \<in> C. account_value ?s c) - withdrawalsValue (tx_Withdrawals tx)"
    "utxo_value s2 = utxo_value ?s1" "IsStakeCredentialRegistered s2 = IsStakeCredentialRegistered ?s"
    "StakeCredentialDeposit s2 = StakeCredentialDeposit ?s"
    using s2' s(1) by simp_all
  obtain r where r: "refunds pp ?ls Map.empty Map.empty (tx_Certificates tx) = Inr r"
    "sum_list (map (utxo_value ?ls) (tx_Inputs tx)) + withdrawalsValue (tx_Withdrawals tx) + r =
     sum_list (map amountOf (tx_Outputs tx)) + collected pp ?ls slot tx + int (sp_KeyDeposit pp) * int (registrations (tx_Certificates tx))"
    using value_rule[OF ok(11)] .
  have "deposit_value s2 = deposit_value ?s" using w(5) by (simp add: fun_eq_iff deposit_value_def)
  then have "tracks ?ls Map.empty Map.empty s2" using w(1,4) by (simp add: tracks_def tracked_def)
  moreover have "proper_certificates (IsStakeCredentialRegistered s2) (balance_value s2) (tx_Certificates tx)"
    using pre s(1) by (simp add: transaction_preconditions_def)
  moreover have "list_all preConwayCertificate (tx_Certificates tx)" using tx(1) unfolding is_ShelleyTransaction_def by blast
  moreover have "\<forall>cert \<in> set (tx_Certificates tx). set (stakeCertificate cert) \<subseteq> C" using touched(2) fin(4) by blast
  ultimately have c: "(\<Sum>c \<in> C. account_value s3 c) = (\<Sum>c \<in> C. account_value s2 c) - r +
      int (sp_KeyDeposit pp) * int (registrations (tx_Certificates tx))" "utxo_value s3 = utxo_value s2" "consistent_accounts s3"
    using certify_value[OF s(2) _ _ r(1) _ con fin(2)] by simp_all
  have "(\<Sum>i \<in> I. utxo_value ?s1 i) = (\<Sum>i \<in> I. utxo_value ?s i) - sum_list (map (utxo_value ?s) (tx_Inputs tx)) + sum_list (map amountOf (tx_Outputs tx))"
    by (rule outputs_value[OF tx(1) inputs_distinct[OF ok(6)] tx(2) fin(1,3)])
  then show ?thesis using c w r(2) s(3) by (simp add: circulation_def)
qed

subsection \<open>A block\<close>

fun block_preconditions :: "shelley_env \<Rightarrow> ShelleyProtocolParameters \<Rightarrow> BlockLedgerState \<Rightarrow> Transaction list \<Rightarrow> bool" where
  "block_preconditions env pp b [] = True"
| "block_preconditions env pp b (tx # txs) =
     (transaction_preconditions env (block_view b) tx \<and>
      (case ApplyTransaction (se_byronBytes env) (KeyDepositAmount pp) b tx of Inl _ \<Rightarrow> True | Inr b' \<Rightarrow> block_preconditions env pp b' txs))"

fun block_collected :: "shelley_env \<Rightarrow> ShelleyProtocolParameters \<Rightarrow> nat \<Rightarrow> BlockLedgerState \<Rightarrow> Transaction list \<Rightarrow> int" where
  "block_collected env pp slot b [] = 0"
| "block_collected env pp slot b (tx # txs) = collected pp (as_LedgerState b) slot tx +
     (case ApplyTransaction (se_byronBytes env) (KeyDepositAmount pp) b tx of Inl _ \<Rightarrow> 0 | Inr b' \<Rightarrow> block_collected env pp slot b' txs)"

lemma circulation_view: "circulation (as_LedgerState b) I C = circulation (block_view b) I C"
  by (simp add: circulation_def)

lemma start_values:
  "circulation (as_LedgerState (NewBlockLedgerState ls)) I C = circulation ls I C"
  "consistent_accounts (block_view (NewBlockLedgerState ls)) = consistent_accounts ls"
  unfolding circulation_view view_start
  by (simp_all add: circulation_def utxo_value_def account_value_def balance_value_def deposit_value_def consistent_accounts_def)

lemma block_value:
  assumes "verifyTransactionsFrom env slot pp idx b txs = Inr b'" "block_preconditions env pp b txs"
    and "block_inv b" "consistent_accounts (as_LedgerState b)"
    and "finite I" "finite C" "\<forall>tx \<in> set txs. touched_inputs tx \<subseteq> I \<and> touched_credentials env tx \<subseteq> C"
  shows "circulation (as_LedgerState b') I C + block_collected env pp slot b txs = circulation (as_LedgerState b) I C"
  using assms
proof (induction txs arbitrary: idx b)
  case (Cons tx txs)
  have v: "VerifyTransaction env tx slot (as_LedgerState b) pp = Inr ()"
    using Cons.prems(1) by (auto split: sum.splits)
  then obtain b1 where b1: "ApplyTransaction (se_byronBytes env) (KeyDepositAmount pp) b tx = Inr b1"
    "verifyTransactionsFrom env slot pp (idx + 1) b1 txs = Inr b'"
    using Cons.prems(1) by (auto split: sum.splits)
  have a: "apply_tx (se_byronBytes env) (KeyDepositAmount pp) tx (block_view b) = Inr (block_view b1)" "block_inv b1"
    using refines_transaction[OF Cons.prems(3), of "se_byronBytes env" "KeyDepositAmount pp" tx] b1(1) by simp_all
  have "circulation (block_view b1) I C + collected pp (as_LedgerState b) slot tx = circulation (as_LedgerState b) I C \<and>
      consistent_accounts (block_view b1)"
    using transaction_value[OF v a(1) _ Cons.prems(4-6)] Cons.prems(2,7) by simp
  moreover from this have "circulation (as_LedgerState b') I C + block_collected env pp slot b1 txs = circulation (as_LedgerState b1) I C"
    using Cons.IH[OF b1(2) _ a(2) _ Cons.prems(5,6)] Cons.prems(2,7) b1(1) by simp
  ultimately show ?case using b1(1) by (simp add: circulation_view)
qed simp

text \<open>C3: No ada is created or lost by a verified block.  When \<open>verifyBlockTransactions\<close> accepts the
  transactions of a block, the outputs, reward balances and stake deposits after the block add up to
  what they were before it, less exactly the fees and the deposits of newly registered pools: over any
  finite set of outputs and accounts that includes those the block touches.  The provider must report
  balances and deposits for exactly the registered credentials, transaction identifiers must be new,
  and no certificate may register a credential twice or close an account that still holds rewards,
  which the rules of this era leave unchecked.\<close>

theorem block_value_preserved:
  assumes "verifyBlockTransactions env txs slot ls pp = Inr b"
    and "block_preconditions env pp (NewBlockLedgerState ls) txs" "consistent_accounts ls"
    and "finite I" "finite C" "\<forall>tx \<in> set txs. touched_inputs tx \<subseteq> I \<and> touched_credentials env tx \<subseteq> C"
  shows "circulation (as_LedgerState b) I C + block_collected env pp slot (NewBlockLedgerState ls) txs = circulation ls I C"
  using block_value[OF assms(1)[unfolded verifyBlockTransactions_def] assms(2) inv_start _ assms(4-6)] assms(3)
  by (simp add: start_values)

definition example_new_input :: TransactionInput where
  "example_new_input = \<lparr>ti_Id = replicate 32 5, ti_Index = 0\<rparr>"

text \<open>The view of a block that has applied nothing is the state it starts from.\<close>

lemma start_as_ledger:
  assumes "IsFutureVrfKeyInUse ls = Some g"
  shows "as_LedgerState (NewBlockLedgerState ls) = ls"
proof (rule LedgerState.equality)
  have e: "StakeCredentialDeposit (as_LedgerState b) = StakeCredentialDeposit (block_view b)"
    "ls_DRepDelegation (as_LedgerState b) = ls_DRepDelegation (block_view b)"
    "HotCredentialColds (as_LedgerState b) = HotCredentialColds (block_view b)" for b
    by (simp_all add: as_LedgerState_def)
  show "StakeCredentialDeposit (as_LedgerState (NewBlockLedgerState ls)) = StakeCredentialDeposit ls"
    "ls_DRepDelegation (as_LedgerState (NewBlockLedgerState ls)) = ls_DRepDelegation ls"
    "HotCredentialColds (as_LedgerState (NewBlockLedgerState ls)) = HotCredentialColds ls"
    by (simp_all add: e view_start)
  show "IsFutureVrfKeyInUse (as_LedgerState (NewBlockLedgerState ls)) = IsFutureVrfKeyInUse ls"
    by (simp add: as_LedgerState_def NewBlockLedgerState_def block_IsFutureVrfKeyInUse_def isFutureVrfKeyInUse_def
        future_key_def assms fun_eq_iff rbind_def split: sum.split option.split)
qed (simp_all add: as_LedgerState_def NewBlockLedgerState_def query_defs fun_eq_iff)

lemma example_ledger_fields [simp]:
  "RewardAccountBalance example_ledger = (\<lambda>c. Inr (if c = example_owner then Some 3000 else None))"
  "IsStakeCredentialRegistered example_ledger = (\<lambda>c. c = example_owner)"
  "StakeCredentialDeposit example_ledger = Some (\<lambda>c. Inr (if c = example_owner then Some 2000 else None))"
  "IsFutureVrfKeyInUse example_ledger = Some (\<lambda>_. Inr None)"
  by (simp_all add: example_ledger_def)

lemma example_start: "as_LedgerState (NewBlockLedgerState example_ledger) = example_ledger"
  by (rule start_as_ledger) simp

lemma example_tx_more [simp]:
  "is_ShelleyTransaction example_payment_tx" "tx_Consumed example_payment_tx = [example_input]"
  "tx_Produced example_payment_tx = [(example_new_input, \<lparr>to_Address = example_payment, to_Amount = Some 90000\<rparr>)]"
  by (simp_all add: is_ShelleyTransaction_def Produced_def preConwayCertificate_def example_payment_tx_def example_account_def
      address_sized_def payload_sized_def freshAddress_def blank_transaction_def example_new_input_def Let_def)

lemma example_applied:
  defines "s \<equiv> outputs_applied example_payment_tx (applied_start example_ledger)"
  shows "withdraw (se_byronBytes example_shelley_env) (tx_Withdrawals example_payment_tx) s = Inr (set_balance example_owner 0 s)"
    "IsStakeCredentialRegistered s = (\<lambda>c. c = example_owner)" "example_newcomer \<noteq> example_owner"
  unfolding s_def
  by (simp_all add: example_withdrawal remainingBalance_def) (simp add: example_owner_def example_newcomer_def)

lemma example_block:
  obtains b where "verifyBlockTransactions example_shelley_env [example_payment_tx] 50 example_ledger example_pparams = Inr b"
    "block_preconditions example_shelley_env example_pparams (NewBlockLedgerState example_ledger) [example_payment_tx]"
proof -
  let ?bb = "se_byronBytes example_shelley_env" and ?pp = "KeyDepositAmount example_pparams"
  have "blockKeyDeposit ?pp = Inr 2000" by (simp add: KeyDepositAmount_def blockKeyDeposit_def example_pparams_def)
  then have "\<exists>s. apply_tx ?bb ?pp example_payment_tx (applied_start example_ledger) = Inr s"
    using example_applied(1)
    by (simp add: apply_tx_def bodyLevel_def apply_level_def outputs_applied_def certify_def example_payment_tx_def blank_transaction_def Let_def)
  then obtain b where b: "ApplyTransaction ?bb ?pp (NewBlockLedgerState example_ledger) example_payment_tx = Inr b"
    using refines_transaction[OF inv_start[of example_ledger], of ?bb ?pp example_payment_tx]
    by (cases "ApplyTransaction ?bb ?pp (NewBlockLedgerState example_ledger) example_payment_tx") (auto simp: view_start)
  have "UtxoById example_ledger example_new_input = Inl (ErrUtxoSpentInBlock example_new_input)"
    by (simp add: example_ledger_def example_input_def example_new_input_def)
  then have "transaction_preconditions example_shelley_env (block_view (NewBlockLedgerState example_ledger)) example_payment_tx"
    using example_applied by (simp add: transaction_preconditions_def view_start is_ok_def)
  then show thesis using that[of b] b by (simp add: verifyBlockTransactions_def example_start example_accepted)
qed

lemma example_touched:
  "touched_inputs example_payment_tx = {example_input, example_new_input}"
  "touched_credentials example_shelley_env example_payment_tx = {example_newcomer, example_owner}"
  by (auto simp: touched_inputs_def touched_credentials_def stakeCertificate_def List.map_filter_simps withdrawal_account_def
      withdrawalCredential_def example_withdrawal)

theorem block_value_preserved_witness:
  "\<exists>b. verifyBlockTransactions example_shelley_env [example_payment_tx] 50 example_ledger example_pparams = Inr b \<and>
     circulation (as_LedgerState b) {example_input, example_new_input} {example_newcomer, example_owner} + 11000 = 105000"
proof -
  obtain b where b: "verifyBlockTransactions example_shelley_env [example_payment_tx] 50 example_ledger example_pparams = Inr b"
    "block_preconditions example_shelley_env example_pparams (NewBlockLedgerState example_ledger) [example_payment_tx]"
    using example_block .
  have "consistent_accounts example_ledger" by (simp add: consistent_accounts_def)
  moreover have "block_collected example_shelley_env example_pparams 50 (NewBlockLedgerState example_ledger) [example_payment_tx] = 11000"
    by (simp add: collected_def due_pools_def split: sum.split)
  moreover have "circulation example_ledger {example_input, example_new_input} {example_newcomer, example_owner} = 105000"
    using example_applied(3) by (simp add: circulation_def utxo_value_def account_value_def balance_value_def deposit_value_def amountOf_def
        example_ledger_def example_input_def example_new_input_def)
  ultimately show ?thesis
    using b(1) block_value_preserved[OF b, of "{example_input, example_new_input}" "{example_newcomer, example_owner}"]
    by (simp add: example_touched)
qed

end
