(* ===== verification/Spec2Isabelle.thy ===== *)
theory Spec2Isabelle
  imports PBFT GenesisRule BlockProduction Multiplexer MiniProtocols MessageScanner Rewards BlockPipeline ShelleyLedger
begin

text \<open>
  \<^bold>\<open>gOuroboros\<close>: a verification of the Go implementation of the Cardano node protocols under \<open>src/\<close>.

  \<^bold>\<open>The program.\<close>  A connection to a peer is one byte stream.  The multiplexer (\<open>muxer/\<close>) cuts it into
  segments and gives each mini-protocol its own stream; the protocol engine (\<open>protocol/\<close>) finds the
  messages in it and runs a state machine over them.  Blocks that arrive this way pass the pipeline
  (\<open>pipeline/\<close>), which applies them in order.  Whether a block is valid is the matter of two parts: the
  consensus rules (\<open>consensus/\<close>, with the primitives of \<open>vrf/\<close> and \<open>kes/\<close>) decide on its header and on
  the chain it belongs to, and the ledger rules (\<open>ledger/\<close>) on its transactions.  A pool that makes
  blocks uses the same consensus code to find its slots and to build headers.

  \<^bold>\<open>Theories.\<close>  Each group below lists its theories in the order in which they import one another.

  \<^item> Base.  \<open>Prelude\<close> has the Go types, results that are an error or a value (\<open>'e + 'a\<close> with \<open>rbind\<close> and
    \<open>ensure\<close>), truncated division, big-endian bytes and the double-word operations of \<open>math/bits\<close>;
    \<open>Words\<close> has facts on \<open>uint64\<close>; \<open>Float64\<close> is binary64 arithmetic.

  \<^item> Leader election.  \<open>E34\<close> is the fixed-point arithmetic of \<open>consensus/e34.go\<close>, \<open>LRUCache\<close> the bounded
    cache of \<open>eligibility_cache.go\<close>, \<open>Eligibility\<close> the prepared predicate of \<open>eligibility.go\<close>, \<open>VRF\<close> the
    file \<open>vrf/vrf.go\<close>, \<open>Leader\<close> and \<open>Tachys\<close> the two elections of \<open>leader.go\<close> and \<open>tachys.go\<close>.  The
    logarithm terminates although two of its loops have no bound; the cache is a recency list and the
    memo it serves is invisible; the decision is total and antitone; a decision by the pool agrees with
    the check by everybody else; the search returns the first slot that is led; a Tachys sample has
    exactly one owner; a VRF proof verifies and gives the prover's output.

  \<^item> Headers.  \<open>KES\<close> is \<open>kes/kes.go\<close> and \<open>kes/sign.go\<close> on the bytes of the keys, \<open>HeaderValidation\<close> is
    \<open>consensus/validate.go\<close> with the configuration and the certificate bytes, \<open>BlockProduction\<close> is
    \<open>consensus/block.go\<close>.  An evolved key signs for its period and has erased the seeds of earlier ones;
    a header that an honest pool builds is accepted; an accepted header has the elected leader, the VRF
    outputs, the certificate and the signature it claims.

  \<^item> Chains.  \<open>Selection\<close> is \<open>consensus/selection.go\<close>, \<open>GenesisRule\<close> is \<open>consensus/genesis/genesis.go\<close>,
    \<open>PBFT\<close> is \<open>consensus/byron/pbft.go\<close> and \<open>pbft_delegation.go\<close>.  The preferred chain does not depend on
    the order of the candidates, for every comparison that satisfies the locale \<open>go_comparator\<close>; the
    signature window keeps the quota over whole chains; in every reachable delegation state the map from
    genesis keys to delegates is injective.

  \<^item> Network.  \<open>Segments\<close> and \<open>Multiplexer\<close> are \<open>muxer/\<close>; \<open>CborWalk\<close> and \<open>MessageScanner\<close> find the messages
    (\<open>protocol/internal/cborwalk/walk.go\<close>, \<open>protocol/message_scanner.go\<close>, the read loop of
    \<open>protocol/protocol.go\<close>); \<open>Protocol\<close> is the engine (\<open>protocol/state.go\<close>, \<open>protocol/protocol.go\<close>) and
    \<open>MiniProtocols\<close> has the state maps of all the packages under \<open>protocol/\<close>.  One segment is written at
    a time and Leios segments are not starved; what is sent is delivered to the right queue while there is
    room for it, and the ingress account is exact under every interleaving; the walker accepts exactly
    the CBOR grammar, but for two forms it is more liberal about; messages survive any segmentation; two
    endpoints that run the same map stay in step, and with any number of pipelined messages in flight
    neither denies the admission of a message of the other or refuses its transition, as long as nothing is
    queued behind a message that ends the pipeline.  The engine's theorems are proved once in the locales
    \<open>pipelining\<close> and \<open>mini_protocol\<close>, whose assumptions are decidable conditions on a state map, and each
    map interprets them.

  \<^item> Rewards and pipeline.  \<open>Rewards\<close> is \<open>ledger/common/rewards.go\<close> and \<open>rewards_service.go\<close>;
    \<open>BlockPipeline\<close> is \<open>pipeline/apply_stage.go\<close>.  The pots and the rewards of an epoch are conserved and
    the apportionment is exact; only an ordered prefix of validated blocks is committed, and all of them
    are when they can be, in the full mode and in the two that do not touch the chain state.

  \<^item> Ledger.  \<open>Address\<close> is \<open>ledger/common/address.go\<close>; \<open>Ledger\<close> has the data of \<open>tx.go\<close>, \<open>certs.go\<close>,
    \<open>gov.go\<close> and \<open>state.go\<close>; \<open>BlockState\<close> is the overlay of \<open>block_state.go\<close>; \<open>Witnesses\<close> has the signature
    and script checks of \<open>verify.go\<close>, \<open>rules.go\<close> and \<open>script.go\<close>; \<open>ShelleyRules\<close> has every rule of
    \<open>ledger/shelley/rules.go\<close> in its order and \<open>VerifyTransaction\<close>; \<open>ShelleyLedger\<close> is
    \<open>verifyBlockTransactions\<close> of \<open>ledger/verify_block.go\<close>.  Addresses are decoded from what they are
    encoded to; the overlay refines the state to which every effect has been applied, and the last
    certificate of a block decides on a committee member; signatures checked ahead of time, for a
    transaction without Byron witnesses, change no verdict; a native script is satisfied only when its demands hold; the minimum
    fee is exact; an accepted transaction is signed by everyone it needs; a verified block creates and
    loses no ada.

  \<^bold>\<open>How the code is read.\<close>  A struct is a record with the fields of the source, a Go map that is only looked
  up is a map and one that is iterated is an association list, so that a statement about it holds for
  every iteration order.  A function that returns \<open>(T, error)\<close> returns a sum, and a panic is an error
  value.  \<open>big.Int\<close> and \<open>big.Rat\<close> are \<open>int\<close> and \<open>rat\<close>; a \<open>uint64\<close> is a \<open>64 word\<close>, or a natural number
  with the wrap-around written out where it can occur.  State is passed explicitly: the process-wide
  eligibility cache, the store of ingress queues, the block view.  Goroutines are interleavings of their
  critical sections, as an inductive step relation (\<open>mux_step\<close>, the egress scheduler, the sessions of
  \<open>Protocol\<close>, in which the admission and the handling of a message are one step).  Code outside \<open>src/\<close> is an argument: hash functions, Ed25519, the Edwards curve, the CBOR
  library, the script evaluator, the consumer's callbacks, the ledger state that a node supplies.  What
  a theorem needs of them is a hypothesis (\<open>kes_crypto_ok\<close>, \<open>vrf_curve_ok\<close>, \<open>consistent_accounts\<close>), and
  the theorem's witness gives an instance that satisfies it.

  \<^bold>\<open>Bounds and loops.\<close>  No definition uses fuel chosen for a proof.  The loops of \<open>e34Ln\<close> that have no
  bound are partial functions, shown to return on every input.  The counted loops of the source
  (the iteration budgets of \<open>E34\<close>, the depth of a KES tree) recurse on the
  count the source has.  The walker recurses on an explicit stack; its termination, like that of every
  other loop that is not structural, is proved.

  \<^bold>\<open>Not modelled.\<close>  The CBOR codec and the encoded forms of blocks, transactions and messages: they are
  driven by reflection over a third-party library.  The clients and servers of the mini-protocols,
  the connection and the decoding stages of the pipeline: goroutines, channels, timers and callbacks
  around the parts above.  The rules of the eras after Shelley: they call many of the rules modelled
  here, and add multi-assets, Plutus scripts, for which the evaluator is outside the sources,
  governance and sub-transactions.  Byron headers and block bodies, whose checks are hashes and
  signatures of encoded bytes.  Timeouts, metrics, logs and error texts.
\<close>

end
